(* ===== verification/Prelude.thy ===== *)
theory Prelude
  imports Main "HOL-Library.Word" "HOL-Library.Monad_Syntax"
begin

text \<open>
  The prelude of the development: the machine types of the C sources (\<open>UCHAR\<close>, \<open>UINT\<close> and
  the fixed-width types of the STM32 and XMEGA code), the little-endian byte arithmetic that
  every serial and TCP message of the system uses, arrays with bounds checks, and the C library
  operations the sources rely on (\<open>sprintf("%d")\<close>, \<open>strcpy\<close> into a buffer).
  Undefined behaviour (an access out of bounds, a \<open>NULL\<close> dereference, a dereference of freed
  memory) is the value \<open>None\<close> throughout.
\<close>

unbundle bit_operations_syntax

section \<open>Machine types\<close>

type_synonym u8 = "8 word"
type_synonym u16 = "16 word"
type_synonym u32 = "32 word"
type_synonym u64 = "64 word"

named_theorems ub_defs \<open>definitions of the operations that can have undefined behaviour\<close>
named_theorems byte_simps \<open>rules on bytes and the integers assembled from them\<close>
named_theorems frame_simps \<open>what an operation leaves unchanged\<close>

section \<open>Bytes\<close>

text \<open>\<open>(UCHAR)x\<close> and the two-byte little-endian split \<open>lo = x; x >>= 8; hi = x\<close>.\<close>

definition lo8 :: "u32 \<Rightarrow> u8" where
  "lo8 x = ucast x"

definition hi8 :: "u32 \<Rightarrow> u8" where
  "hi8 x = ucast (drop_bit 8 x)"

text \<open>\<open>x = (UINT)hi; x <<= 8; x |= (UINT)lo\<close> at width 32 (\<open>utemp\<close>, \<open>temp\<close>, \<open>rpm\<close>, ...).\<close>

definition mk16 :: "u8 \<Rightarrow> u8 \<Rightarrow> u32" where
  "mk16 hi lo = (push_bit 8 (ucast hi)) OR ucast lo"

text \<open>The same on \<open>uint16_t\<close> (the STM32's temperatures).\<close>

definition mk16s :: "u8 \<Rightarrow> u8 \<Rightarrow> u16" where
  "mk16s hi lo = (push_bit 8 (ucast hi)) OR ucast lo"

lemma mk16_lo_hi [byte_simps]: "mk16 (hi8 x) (lo8 x) = take_bit 16 x"
  unfolding mk16_def lo8_def hi8_def
  by (rule bit_word_eqI) (auto simp: bit_simps)

lemma mk16s_lo_hi [byte_simps]: "mk16s (hi8 x) (lo8 x) = ucast x"
  unfolding mk16s_def lo8_def hi8_def
  by (rule bit_word_eqI) (auto simp: bit_simps)

lemma lo8_mk16 [byte_simps]: "lo8 (mk16 h l) = l"
  unfolding mk16_def lo8_def by (rule bit_word_eqI) (auto simp: bit_simps)

lemma hi8_mk16 [byte_simps]: "hi8 (mk16 h l) = h"
  unfolding mk16_def hi8_def by (rule bit_word_eqI) (auto simp: bit_simps dest: bit_imp_le_length)

lemma mk16_take_bit: "take_bit 16 (mk16 h l) = mk16 h l"
  unfolding mk16_def by (rule bit_word_eqI) (auto simp: bit_simps dest: bit_imp_le_length)

lemma mk16_plus: "mk16 h l = push_bit 8 (ucast h) + ucast l"
  unfolding mk16_def
  by (rule disjunctive_add [symmetric]) (auto simp: bit_simps dest: bit_imp_le_length)

lemma uint_mk16: "uint (mk16 h l) = uint h * 256 + uint l"
proof -
  have h: "uint h < 256" and l: "uint l < 256"
    using uint_bounded [of h] uint_bounded [of l] by simp_all
  have "uint (ucast h * 256 + ucast l :: u32) = (uint h * 256 + uint l) mod 4294967296"
    by (simp add: uint_word_ariths unsigned_ucast_eq take_bit_eq_mod mod_simps)
  also have "\<dots> = uint h * 256 + uint l"
    using h l uint_ge_0 [of h] uint_ge_0 [of l] by (intro mod_pos_pos_trivial) linarith+
  finally show ?thesis
    by (simp add: mk16_plus push_bit_eq_mult)
qed

section \<open>Arrays\<close>

text \<open>A C array read or written at an \<open>int\<close> index; out of bounds is undefined behaviour.\<close>

definition aget :: "'a list \<Rightarrow> int \<Rightarrow> 'a option" where
  "aget xs i = (if 0 \<le> i \<and> i < int (length xs) then Some (xs ! nat i) else None)"

definition aset :: "'a list \<Rightarrow> int \<Rightarrow> 'a \<Rightarrow> 'a list option" where
  "aset xs i v = (if 0 \<le> i \<and> i < int (length xs) then Some (xs[nat i := v]) else None)"

lemma aget_SomeI: "0 \<le> i \<Longrightarrow> i < int (length xs) \<Longrightarrow> aget xs i = Some (xs ! nat i)"
  by (simp add: aget_def)

lemma aset_SomeI: "0 \<le> i \<Longrightarrow> i < int (length xs) \<Longrightarrow> aset xs i v = Some (xs[nat i := v])"
  by (simp add: aset_def)

lemma aset_length: "aset xs i v = Some ys \<Longrightarrow> length ys = length xs"
  by (auto simp: aset_def split: if_splits)

section \<open>C strings\<close>

text \<open>
  A C string value is a \<open>string\<close>; the buffer it is printed into is a list of bytes.
  \<open>dec_nat\<close> and \<open>dec_int\<close> are \<open>%d\<close>; \<open>cstr_into\<close> writes a string and its terminator
  at the start of a buffer and leaves the rest of the buffer as it was.
\<close>

definition bytes_of :: "string \<Rightarrow> u8 list" where
  "bytes_of s = map (\<lambda>c. word_of_nat (of_char c)) s"

fun dec_nat :: "nat \<Rightarrow> string" where
  "dec_nat n = (if n < 10 then [char_of (48 + n)]
     else dec_nat (n div 10) @ [char_of (48 + n mod 10)])"

declare dec_nat.simps [simp del]

definition dec_int :: "int \<Rightarrow> string" where
  "dec_int i = (if i < 0 then CHR ''-'' # dec_nat (nat (- i)) else dec_nat (nat i))"

text \<open>\<open>%02d\<close> of a number that is not negative, and \<open>%02x\<close> of a byte.\<close>

definition dec2 :: "nat \<Rightarrow> string" where
  "dec2 n = (if n < 10 then CHR ''0'' # dec_nat n else dec_nat n)"

definition hex_digit :: "nat \<Rightarrow> char" where
  "hex_digit n = (if n < 10 then char_of (48 + n) else char_of (87 + n))"

definition hex2 :: "u8 \<Rightarrow> string" where
  "hex2 b = [hex_digit (unat b div 16), hex_digit (unat b mod 16)]"

lemma length_hex2 [simp]: "length (hex2 b) = 2"
  by (simp add: hex2_def)

text \<open>\<open>sprintf(buf, ...)\<close>: the string and its terminator, if they fit.\<close>

definition cstr_into :: "u8 list \<Rightarrow> string \<Rightarrow> u8 list option" where
  "cstr_into buf s = (if length s < length buf
     then Some (bytes_of s @ 0 # drop (Suc (length s)) buf) else None)"

lemma length_bytes_of [simp]: "length (bytes_of s) = length s"
  by (simp add: bytes_of_def)

lemma bytes_of_append: "bytes_of (s @ t) = bytes_of s @ bytes_of t"
  by (simp add: bytes_of_def)

lemma length_dec_nat:
  "n < 10 ^ Suc k \<Longrightarrow> length (dec_nat n) \<le> Suc k"
proof (induction k arbitrary: n)
  case 0
  then show ?case by (subst dec_nat.simps) simp
next
  case (Suc k)
  then have "n div 10 < 10 ^ Suc k"
    by (simp add: less_mult_imp_div_less mult.commute)
  then have "length (dec_nat (n div 10)) \<le> Suc k" by (rule Suc.IH)
  then show ?case by (subst dec_nat.simps) simp
qed

lemma cstr_into_length: "cstr_into buf s = Some buf' \<Longrightarrow> length buf' = length buf"
  by (auto simp: cstr_into_def split: if_splits)

section \<open>Counting\<close>

text \<open>How many elements of a list (threads, in what follows) have a property.\<close>

fun cnt :: "('a \<Rightarrow> bool) \<Rightarrow> 'a list \<Rightarrow> int" where
  "cnt P [] = 0"
| "cnt P (p # ps) = (if P p then 1 else 0) + cnt P ps"

lemma cnt_update:
  "t < length ps \<Longrightarrow> cnt P (ps[t := p]) = cnt P ps - (if P (ps ! t) then 1 else 0) + (if P p then 1 else 0)"
proof (induction ps arbitrary: t)
  case (Cons q ps)
  then show ?case by (cases t) simp_all
qed simp

lemma cnt_nonneg: "0 \<le> cnt P ps"
  by (induction ps) auto

lemma cnt_pos: "t < length ps \<Longrightarrow> P (ps ! t) \<Longrightarrow> 1 \<le> cnt P ps"
proof (induction ps arbitrary: t)
  case (Cons q ps)
  then show ?case using cnt_nonneg [of P ps] by (cases t) auto
qed simp

lemma cnt_zero: "cnt P ps = 0 \<longleftrightarrow> (\<forall>p \<in> set ps. \<not> P p)"
proof (induction ps)
  case (Cons q ps)
  then show ?case using cnt_nonneg [of P ps] by auto
qed simp

lemma cnt_length: "cnt P ps \<le> int (length ps)"
  by (induction ps) auto

lemma cnt_all: "cnt P ps = int (length ps) \<longleftrightarrow> (\<forall>p \<in> set ps. P p)"
proof (induction ps)
  case (Cons q ps)
  then show ?case using cnt_length [of P ps] by auto
qed simp

lemma cnt_map: "cnt P (map f ps) = cnt (P \<circ> f) ps"
  by (induction ps) auto

end
