(* ===== verification/OList.thy ===== *)
theory OList
  imports Prelude
begin

text \<open>
  The output database of the TS-7200: the sorted linked list of \<open>O_DATA\<close> records of
  \<open>thread_io/queue/ollist_threads_rw.c\<close>. The list is modelled twice. \<open>oheap\<close> is the store the
  C code works on: nodes and records at addresses, a \<open>first\<close> pointer, allocation and
  \<open>free\<close>; a dereference of an address that is not allocated is \<open>None\<close>. \<open>al_insert\<close> and
  \<open>al_update\<close> are the abstract operations on the sorted association list that a well-formed
  store represents. \<open>OListRef\<close> proves that the store implements the abstract list; the tasks
  of \<open>sched\<close> are modelled on the abstract list. The reader/writer lock around every operation is in \<open>RdWr\<close>.
\<close>

section \<open>Records\<close>

record o_data =
  o_label :: "u8 list"
  o_port :: u8
  o_onoff :: u8
  o_input_port :: u8
  o_polarity :: u8
  o_type :: u8
  o_time_delay :: u32
  o_time_left :: u32
  o_pulse_time :: u8
  o_reset :: u8

section \<open>The store\<close>

type_synonym addr = nat

record ollist_node =
  n_index :: int
  n_datap :: addr
  n_nextp :: "addr option"

record oheap =
  nodes :: "addr \<Rightarrow> ollist_node option"
  odatas :: "addr \<Rightarrow> o_data option"
  brk :: nat
  first :: "addr option"

definition ollist_init :: "oheap \<Rightarrow> oheap" where
  "ollist_init h = h\<lparr>first := None\<rparr>"

text \<open>
  The loop \<open>for (cur=prev=first; cur != NULL; prev=cur, cur=cur->nextp)\<close> that every operation
  shares, with its two exits: the index is found, or a larger one (or the end) is met. The
  result is (found, prev, cur). A cyclic list would never end the loop: \<open>None\<close>.
\<close>

partial_function (option) oseek ::
  "oheap \<Rightarrow> int \<Rightarrow> addr option \<Rightarrow> addr option \<Rightarrow> (bool \<times> addr option \<times> addr option) option" where
  "oseek h i prev cur =
     (case cur of None \<Rightarrow> Some (False, prev, None)
      | Some c \<Rightarrow> (case nodes h c of None \<Rightarrow> None
         | Some n \<Rightarrow>
             if n_index n = i then Some (True, prev, cur)
             else if n_index n > i then Some (False, prev, cur)
             else oseek h i cur (n_nextp n)))"

definition ollist_insert_data :: "int \<Rightarrow> o_data \<Rightarrow> oheap \<Rightarrow> oheap option" where
  "ollist_insert_data i d h0 = do {
     let dp = brk h0;
     let h = h0\<lparr>odatas := (odatas h0)(dp \<mapsto> d), brk := brk h0 + 1\<rparr>;
     (found, prev, cur) \<leftarrow> oseek h i (first h) (first h);
     if found then do {
       c \<leftarrow> cur; n \<leftarrow> nodes h c; _ \<leftarrow> odatas h (n_datap n);
       Some (h\<lparr>odatas := (odatas h)(n_datap n := None),
                nodes := (nodes h)(c \<mapsto> n\<lparr>n_datap := dp\<rparr>)\<rparr>)
     } else do {
       let a = brk h;
       let h = h\<lparr>nodes := (nodes h)(a \<mapsto> \<lparr>n_index = i, n_datap = dp, n_nextp = cur\<rparr>),
                 brk := brk h + 1\<rparr>;
       if cur = first h then Some (h\<lparr>first := Some a\<rparr>)
       else do {
         p \<leftarrow> prev; pn \<leftarrow> nodes h p;
         Some (h\<lparr>nodes := (nodes h)(p \<mapsto> pn\<lparr>n_nextp := Some a\<rparr>)\<rparr>)
       }
     }
   }"

text \<open>\<open>*datapp\<close> and the store after it; \<open>first\<close> is never written.\<close>

definition ollist_remove_data :: "int \<Rightarrow> oheap \<Rightarrow> (addr option \<times> oheap) option" where
  "ollist_remove_data i h = do {
     (found, prev, cur) \<leftarrow> oseek h i (first h) (first h);
     if found then do {
       c \<leftarrow> cur; n \<leftarrow> nodes h c; p \<leftarrow> prev; pn \<leftarrow> nodes h p;
       Some (Some (n_datap n),
         h\<lparr>nodes := ((nodes h)(p \<mapsto> pn\<lparr>n_nextp := n_nextp n\<rparr>))(c := None)\<rparr>)
     } else Some (None, h)
   }"

text \<open>The loop reads \<open>cur->nextp\<close> again in its step, after \<open>free(cur)\<close>.\<close>

partial_function (option) removeall_loop :: "oheap \<Rightarrow> addr option \<Rightarrow> addr option \<Rightarrow> oheap option" where
  "removeall_loop h prev cur =
     (case cur of None \<Rightarrow> Some h
      | Some c \<Rightarrow> do {
          n \<leftarrow> nodes h c; p \<leftarrow> prev; pn \<leftarrow> nodes h p;
          let h' = h\<lparr>nodes := ((nodes h)(p \<mapsto> pn\<lparr>n_nextp := n_nextp n\<rparr>))(c := None)\<rparr>;
          n' \<leftarrow> nodes h' c;
          removeall_loop h' cur (n_nextp n')
        })"

definition ollist_removeall_data :: "oheap \<Rightarrow> oheap option" where
  "ollist_removeall_data h = removeall_loop h (first h) (first h)"

text \<open>The status (\<open>0\<close> or \<open>-1\<close>) and \<open>*datapp\<close>.\<close>

definition ollist_find_data :: "int \<Rightarrow> oheap \<Rightarrow> (int \<times> addr option) option" where
  "ollist_find_data i h = do {
     (found, prev, cur) \<leftarrow> oseek h i (first h) (first h);
     if found then do { c \<leftarrow> cur; n \<leftarrow> nodes h c; Some (0, Some (n_datap n)) }
     else Some (-1, None)
   }"

text \<open>On a record without an input the loop goes on past the index that was found.\<close>

definition ollist_find_data_ip :: "int \<Rightarrow> oheap \<Rightarrow> (int \<times> addr option) option" where
  "ollist_find_data_ip i h = do {
     (found, prev, cur) \<leftarrow> oseek h i (first h) (first h);
     if found then do {
       c \<leftarrow> cur; n \<leftarrow> nodes h c; r \<leftarrow> odatas h (n_datap n);
       if o_input_port r \<noteq> 0xFF then Some (uint (o_input_port r), Some (n_datap n))
       else do {
         (found', prev', cur') \<leftarrow> oseek h i cur (n_nextp n);
         if found' then None else Some (-1, Some (n_datap n))
       }
     } else Some (-1, None)
   }"

partial_function (option) find_op_loop ::
  "oheap \<Rightarrow> int \<Rightarrow> int \<Rightarrow> addr option \<Rightarrow> addr option \<Rightarrow> (int \<times> addr option) option" where
  "find_op_loop h i p datapp cur =
     (case cur of None \<Rightarrow> Some (-1, datapp)
      | Some c \<Rightarrow> do {
          n \<leftarrow> nodes h c; r \<leftarrow> odatas h (n_datap n);
          if o_input_port r \<noteq> 0xFF \<and> uint (o_port r) = p \<and> uint (o_input_port r) = i
          then Some (uint (o_port r), Some (n_datap n))
          else find_op_loop h i p (Some (n_datap n)) (n_nextp n)
        })"

definition ollist_find_data_op :: "int \<Rightarrow> int \<Rightarrow> oheap \<Rightarrow> (int \<times> addr option) option" where
  "ollist_find_data_op i p h = find_op_loop h i p None (first h)"

text \<open>\<open>onoff\<close> is not initialised: \<open>garbage\<close> is what is returned when the index is absent.\<close>

definition ollist_toggle_output :: "int \<Rightarrow> int \<Rightarrow> oheap \<Rightarrow> (int \<times> oheap) option" where
  "ollist_toggle_output garbage i h = do {
     (found, prev, cur) \<leftarrow> oseek h i (first h) (first h);
     if found then do {
       c \<leftarrow> cur; n \<leftarrow> nodes h c; r \<leftarrow> odatas h (n_datap n);
       let v = (if o_onoff r = 1 then 0 else 1);
       Some (uint v, h\<lparr>odatas := (odatas h)(n_datap n \<mapsto> r\<lparr>o_onoff := v\<rparr>)\<rparr>)
     } else Some (garbage, h)
   }"

text \<open>The function returns before it does anything.\<close>

definition ollist_change_output :: "int \<Rightarrow> int \<Rightarrow> oheap \<Rightarrow> int \<times> oheap" where
  "ollist_change_output i onoff h = (-1, h)"

definition ollist_change_data :: "int \<Rightarrow> addr \<Rightarrow> oheap \<Rightarrow> (int \<times> oheap) option" where
  "ollist_change_data i dp h = do {
     (found, prev, cur) \<leftarrow> oseek h i (first h) (first h);
     if found then do {
       c \<leftarrow> cur; n \<leftarrow> nodes h c;
       let h = h\<lparr>nodes := (nodes h)(c \<mapsto> n\<lparr>n_datap := dp\<rparr>)\<rparr>;
       p \<leftarrow> prev; pn \<leftarrow> nodes h p;
       Some (0, h\<lparr>nodes := ((nodes h)(p \<mapsto> pn\<lparr>n_nextp := n_nextp n\<rparr>))(c := None)\<rparr>)
     } else Some (-1, h)
   }"

text \<open>A store through a pointer to a record (\<open>otp->field = v\<close>).\<close>

definition poke :: "addr \<Rightarrow> (o_data \<Rightarrow> o_data) \<Rightarrow> oheap \<Rightarrow> oheap option" where
  "poke p f h = do { r \<leftarrow> odatas h p; Some (h\<lparr>odatas := (odatas h)(p \<mapsto> f r)\<rparr>) }"

section \<open>The abstract list\<close>

text \<open>
  The abstract list: pairs of index and record, strictly sorted by index. \<open>al_lookup\<close> is
  \<open>map_of\<close>.
\<close>

type_synonym oalist = "(int \<times> o_data) list"

fun al_insert :: "int \<Rightarrow> o_data \<Rightarrow> oalist \<Rightarrow> oalist" where
  "al_insert i d [] = [(i, d)]"
| "al_insert i d ((j, e) # xs) =
     (if j = i then (i, d) # xs else if j > i then (i, d) # (j, e) # xs
      else (j, e) # al_insert i d xs)"

fun al_update :: "int \<Rightarrow> (o_data \<Rightarrow> o_data) \<Rightarrow> oalist \<Rightarrow> oalist" where
  "al_update i f [] = []"
| "al_update i f ((j, e) # xs) = (if j = i then (j, f e) # xs else (j, e) # al_update i f xs)"

definition al_delete :: "int \<Rightarrow> oalist \<Rightarrow> oalist" where
  "al_delete i xs = filter (\<lambda>x. fst x \<noteq> i) xs"

text \<open>The first record that has the input \<open>i\<close> and the port \<open>p\<close> (\<open>ollist_find_data_op\<close>).\<close>

fun al_find_op :: "int \<Rightarrow> int \<Rightarrow> oalist \<Rightarrow> o_data option" where
  "al_find_op i p [] = None"
| "al_find_op i p ((j, r) # xs) =
     (if o_input_port r \<noteq> 0xFF \<and> uint (o_port r) = p \<and> uint (o_input_port r) = i then Some r
      else al_find_op i p xs)"

abbreviation al_sorted :: "oalist \<Rightarrow> bool" where
  "al_sorted xs \<equiv> sorted_wrt (<) (map fst xs)"

lemma set_keys_al_insert: "fst ` set (al_insert i d xs) = insert i (fst ` set xs)"
  by (induction i d xs rule: al_insert.induct) auto

lemma al_sorted_insert: "al_sorted xs \<Longrightarrow> al_sorted (al_insert i d xs)"
proof (induction i d xs rule: al_insert.induct)
  case (2 i d j e xs)
  then show ?case using set_keys_al_insert [of i d xs] by (auto simp: image_iff)
qed simp

lemma map_of_al_insert: "map_of (al_insert i d xs) = (map_of xs)(i \<mapsto> d)"
  by (induction i d xs rule: al_insert.induct) auto

lemma map_of_al_update: "map_of (al_update i f xs) j = (if j = i then map_option f (map_of xs i) else map_of xs j)"
  by (induction i f xs rule: al_update.induct) auto

lemma keys_al_update [simp]: "map fst (al_update i f xs) = map fst xs"
  by (induction i f xs rule: al_update.induct) auto

lemma al_insert_keys_id: "al_sorted xs \<Longrightarrow> i \<in> fst ` set xs \<Longrightarrow> map fst (al_insert i d xs) = map fst xs"
proof (induction i d xs rule: al_insert.induct)
  case (2 i d j e xs)
  then show ?case by (auto simp: image_iff)
qed simp

lemma al_insert_append:
  "(\<forall>x \<in> set xs. fst x < i) \<Longrightarrow> al_insert i d (xs @ ys) = xs @ al_insert i d ys"
  by (induction xs) auto

lemma al_update_append:
  "(\<forall>x \<in> set xs. fst x < i) \<Longrightarrow> al_update i f (xs @ ys) = xs @ al_update i f ys"
  by (induction xs) auto

lemma al_update_absent: "i \<notin> fst ` set xs \<Longrightarrow> al_update i f xs = xs"
  by (induction i f xs rule: al_update.induct) auto

section \<open>The contract of the database\<close>

text \<open>
  What the tasks rely on: a search after an insertion or after a store through a pointer. The
  tasks write one field of the record they found and then insert a copy of it at the same index
  (\<open>otp->onoff = 1; ollist_insert_data(otp->port,&oll,otp)\<close>): \<open>modify_insert\<close> says that this
  is the store alone.
\<close>

locale record_store =
  fixes lookup :: "'s \<Rightarrow> int \<Rightarrow> 'r option"
    and insert :: "int \<Rightarrow> 'r \<Rightarrow> 's \<Rightarrow> 's"
    and modify :: "int \<Rightarrow> ('r \<Rightarrow> 'r) \<Rightarrow> 's \<Rightarrow> 's"
    and wf :: "'s \<Rightarrow> bool"
  assumes lookup_insert: "lookup (insert i r s) j = (if j = i then Some r else lookup s j)"
    and lookup_modify: "lookup (modify i f s) j = (if j = i then map_option f (lookup s i) else lookup s j)"
    and wf_insert: "wf s \<Longrightarrow> wf (insert i r s)"
    and wf_modify: "wf s \<Longrightarrow> wf (modify i f s)"
begin

lemma modify_insert:
  "lookup s i = Some r \<Longrightarrow> lookup (insert i (f r) (modify i f s)) j = lookup (modify i f s) j"
  by (simp add: lookup_insert lookup_modify)

lemma modify_idem:
  "(\<And>r. f (f r) = f r) \<Longrightarrow> lookup (modify i f (modify i f s)) j = lookup (modify i f s) j"
  by (cases "lookup s i") (simp_all add: lookup_modify)

lemma modify_comm:
  "i \<noteq> k \<Longrightarrow> lookup (modify i f (modify k g s)) j = lookup (modify k g (modify i f s)) j"
  by (simp add: lookup_modify)

lemma wf_modify_insert: "wf s \<Longrightarrow> wf (insert i r (modify i f s))"
  by (simp add: wf_insert wf_modify)

end

interpretation odb: record_store map_of al_insert al_update al_sorted
  by unfold_locales (auto simp: map_of_al_insert map_of_al_update al_sorted_insert)

end
