(* ===== verification/OListRef.thy ===== *)
theory OListRef
  imports OList
begin

text \<open>
  The linked list of \<open>ollist_threads_rw.c\<close> implements the sorted association list: \<open>orepr h al\<close>
  says that the store \<open>h\<close> holds a well-formed list of the entries \<open>al\<close>, and each operation that
  the tasks call is proved to be defined on such a store and to be its abstract counterpart. The
  last section states what the operations do that break the list.
\<close>

section \<open>What a well-formed store represents\<close>

text \<open>A chain of nodes from a pointer to an end pointer: address, record address, index.\<close>

datatype cnode = CN (cn_node: addr) (cn_data: addr) (cn_index: int)

fun chain :: "oheap \<Rightarrow> addr option \<Rightarrow> cnode list \<Rightarrow> addr option \<Rightarrow> bool" where
  "chain h c [] e = (c = e)"
| "chain h c (x # xs) e =
     (c = Some (cn_node x) \<and>
      (\<exists>nx. nodes h (cn_node x) =
              Some \<lparr>n_index = cn_index x, n_datap = cn_data x, n_nextp = nx\<rparr> \<and> chain h nx xs e))"

definition al_of :: "oheap \<Rightarrow> cnode list \<Rightarrow> oalist" where
  "al_of h xs = map (\<lambda>x. (cn_index x, the (odatas h (cn_data x)))) xs"

definition chain_wf :: "oheap \<Rightarrow> cnode list \<Rightarrow> bool" where
  "chain_wf h xs \<longleftrightarrow>
     chain h (first h) xs None \<and> distinct (map cn_node xs) \<and> distinct (map cn_data xs) \<and>
     (\<forall>x \<in> set xs. cn_node x < brk h \<and> cn_data x < brk h \<and> odatas h (cn_data x) \<noteq> None) \<and>
     sorted_wrt (<) (map cn_index xs)"

definition orepr :: "oheap \<Rightarrow> oalist \<Rightarrow> bool" where
  "orepr h al \<longleftrightarrow> (\<exists>xs. chain_wf h xs \<and> al = al_of h xs)"

lemma chain_append: "chain h c (xs @ ys) e \<longleftrightarrow> (\<exists>m. chain h c xs m \<and> chain h m ys e)"
  by (induction xs arbitrary: c) auto

lemma chain_cong:
  "\<forall>x \<in> set xs. nodes h' (cn_node x) = nodes h (cn_node x) \<Longrightarrow> chain h' c xs e = chain h c xs e"
  by (induction xs arbitrary: c) auto

lemma al_of_cong:
  "\<forall>x \<in> set xs. odatas h' (cn_data x) = odatas h (cn_data x) \<Longrightarrow> al_of h' xs = al_of h xs"
  by (simp add: al_of_def)

lemma orepr_sorted: "orepr h al \<Longrightarrow> al_sorted al"
  by (auto simp: orepr_def chain_wf_def al_of_def comp_def)

lemma orepr_init: "orepr (ollist_init h) []"
  by (simp add: orepr_def chain_wf_def al_of_def ollist_init_def exI [of _ "[]"])

section \<open>The search loop\<close>

definition below :: "int \<Rightarrow> cnode list \<Rightarrow> cnode list" where
  "below i xs = takeWhile (\<lambda>x. cn_index x < i) xs"

definition from_idx :: "int \<Rightarrow> cnode list \<Rightarrow> cnode list" where
  "from_idx i xs = dropWhile (\<lambda>x. cn_index x < i) xs"

lemma below_from: "below i xs @ from_idx i xs = xs"
  by (simp add: below_def from_idx_def)

lemma oseek_chain:
  "chain h cur xs None \<Longrightarrow>
   oseek h i prev cur =
     Some (case from_idx i xs of [] \<Rightarrow> False | x # _ \<Rightarrow> cn_index x = i,
           if below i xs = [] then prev else Some (cn_node (last (below i xs))),
           case from_idx i xs of [] \<Rightarrow> None | x # _ \<Rightarrow> Some (cn_node x))"
proof (induction xs arbitrary: cur prev)
  case Nil
  then show ?case by (subst oseek.simps) (simp add: below_def from_idx_def)
next
  case (Cons x xs)
  obtain a d j where x: "x = (CN a d j)" by (cases x)
  from Cons.prems x obtain nx where cur: "cur = Some a"
    and na: "nodes h a = Some \<lparr>n_index = j, n_datap = d, n_nextp = nx\<rparr>"
    and ch: "chain h nx xs None" by auto
  show ?case
  proof (cases "j < i")
    case True
    with cur na have "oseek h i prev cur = oseek h i (Some a) nx"
      by (subst oseek.simps) simp
    with Cons.IH [OF ch, of "Some a"] True x show ?thesis
      by (simp add: below_def from_idx_def)
  next
    case False
    with cur na x show ?thesis
      by (subst oseek.simps) (auto simp: below_def from_idx_def)
  qed
qed

section \<open>Refinement\<close>


lemma chain_wf_fresh:
  assumes "chain_wf h xs" "x \<in> set xs"
  shows "cn_data x < brk h \<and> cn_node x < brk h \<and> cn_data x \<noteq> brk h \<and>
    cn_node x \<noteq> brk h \<and> cn_node x \<noteq> Suc (brk h)"
proof -
  have "cn_data x < brk h \<and> cn_node x < brk h" using assms by (simp add: chain_wf_def)
  then show ?thesis by linarith
qed

lemma chain_wf_split:
  assumes "chain_wf h xs"
  obtains B F where "xs = B @ F" "B = below i xs" "F = from_idx i xs"
    "\<forall>x \<in> set B. cn_index x < i" "\<forall>x \<in> set F. i \<le> cn_index x"
proof
  show "xs = below i xs @ from_idx i xs" by (simp add: below_from)
  show "\<forall>x \<in> set (below i xs). cn_index x < i"
    by (auto simp: below_def dest: set_takeWhileD)
  have "sorted_wrt (<) (map cn_index xs)" using assms by (simp add: chain_wf_def)
  then show "\<forall>x \<in> set (from_idx i xs). i \<le> cn_index x"
    unfolding from_idx_def by (induction xs) auto
qed simp_all

text \<open>The three situations the search ends in, as one rule.\<close>

lemma oseek_cases:
  assumes wf: "chain_wf h xs"
  obtains (found) B a dp R n pr where
      "xs = B @ CN a dp i # R" "oseek h i (first h) (first h) = Some (True, pr, Some a)"
      "nodes h a = Some n" "n_index n = i" "n_datap n = dp" "pr = (if B = [] then first h else Some (cn_node (last B)))"
      "\<forall>x \<in> set B. cn_index x < i" "\<forall>x \<in> set R. i < cn_index x"
    | (absent) B F pr cu where
      "xs = B @ F" "oseek h i (first h) (first h) = Some (False, pr, cu)"
      "\<forall>x \<in> set B. cn_index x < i" "\<forall>x \<in> set F. i < cn_index x"
      "cu = (case F of [] \<Rightarrow> None | x # _ \<Rightarrow> Some (cn_node x))"
      "pr = (if B = [] then first h else Some (cn_node (last B)))"
proof -
  from chain_wf_split [OF wf, of i] obtain B F where xs: "xs = B @ F" and B: "B = below i xs"
    and F: "F = from_idx i xs" and lo: "\<forall>x \<in> set B. cn_index x < i" and hi: "\<forall>x \<in> set F. i \<le> cn_index x" .
  have ch: "chain h (first h) xs None" and so: "sorted_wrt (<) (map cn_index xs)"
    using wf by (simp_all add: chain_wf_def)
  note sk = oseek_chain [OF ch, of i "first h", folded B F]
  show thesis
  proof (cases "\<exists>x R. F = x # R \<and> cn_index x = i")
    case True
    then obtain x R where xR: "F = x # R" "cn_index x = i" by blast
    define a dp where "a = cn_node x" and "dp = cn_data x"
    have FF: "F = CN a dp i # R" using xR by (cases x) (simp add: a_def dp_def)
    from ch xs FF obtain n where "nodes h a = Some n" "n_index n = i" "n_datap n = dp"
      by (auto simp: chain_append)
    moreover have "\<forall>x \<in> set R. i < cn_index x" using so xs FF by (simp add: sorted_wrt_append)
    ultimately show thesis using found sk xs FF lo by simp
  next
    case False
    have nf: "\<not> (case F of [] \<Rightarrow> False | x # _ \<Rightarrow> cn_index x = i)"
      using False by (auto split: list.splits)
    have "\<forall>x \<in> set F. i < cn_index x"
    proof (cases F)
      case (Cons x F')
      have "cn_index x \<noteq> i" using False Cons by auto
      then have "i < cn_index x" using hi Cons by fastforce
      then show ?thesis using so xs Cons by (fastforce simp: sorted_wrt_append)
    qed simp
    then show thesis using absent [OF xs _ lo] sk nf by simp
  qed
qed


lemma al_of_append: "al_of h (xs @ ys) = al_of h xs @ al_of h ys"
  by (simp add: al_of_def)

lemma al_of_Cons: "al_of h (x # xs) = (cn_index x, the (odatas h (cn_data x))) # al_of h xs"
  by (simp add: al_of_def)

lemma al_insert_at:
  assumes "\<forall>x \<in> set B. cn_index x < i" "\<forall>x \<in> set R. i < cn_index x"
  shows "al_insert i d (al_of h (B @ CN a dp i # R)) = al_of h B @ (i, d) # al_of h R"
    and "al_insert i d (al_of h (B @ R)) = al_of h B @ (i, d) # al_of h R"
proof -
  have B: "\<forall>x \<in> set (al_of h B). fst x < i" using assms(1) by (auto simp: al_of_def)
  show "al_insert i d (al_of h (B @ CN a dp i # R)) = al_of h B @ (i, d) # al_of h R"
    by (simp add: al_of_append al_of_Cons al_insert_append [OF B])
  have "al_insert i d (al_of h R) = (i, d) # al_of h R"
    using assms(2) by (cases R) (auto simp: al_of_def)
  then show "al_insert i d (al_of h (B @ R)) = al_of h B @ (i, d) # al_of h R"
    by (simp add: al_of_append al_insert_append [OF B])
qed

lemma last_chain_node: "chain h c B e \<Longrightarrow> B \<noteq> [] \<Longrightarrow>
  nodes h (cn_node (last B)) = Some \<lparr>n_index = cn_index (last B), n_datap = cn_data (last B), n_nextp = e\<rparr>"
  by (induction B arbitrary: c) auto

lemma chain_butlast_relink:
  assumes "chain h c B e" "distinct (map cn_node B)" "B \<noteq> []"
    "\<forall>x \<in> set (butlast B). nodes h' (cn_node x) = nodes h (cn_node x)"
    "nodes h' (cn_node (last B)) = Some \<lparr>n_index = cn_index (last B), n_datap = cn_data (last B), n_nextp = e'\<rparr>"
  shows "chain h' c B e'"
  using assms
proof (induction B arbitrary: c)
  case (Cons x B)
  then show ?case by (cases x; cases "B = []") auto
qed simp

lemma fst_chain: "chain h c xs None \<Longrightarrow> c = (case xs of [] \<Rightarrow> None | x # _ \<Rightarrow> Some (cn_node x))"
  by (cases xs) auto

text \<open>Insertion at an index that is present: the old record is freed, the node gets the new one.\<close>

lemma insert_found:
  fixes d :: o_data
  assumes wf: "chain_wf h (B @ CN a dp i # R)"
    and n: "nodes h a = Some n"
  defines "h' \<equiv> h\<lparr>odatas := ((odatas h)(brk h \<mapsto> d))(dp := None), brk := brk h + 1,
                 nodes := (nodes h)(a \<mapsto> n\<lparr>n_datap := brk h\<rparr>)\<rparr>"
  shows "chain_wf h' (B @ CN a (brk h) i # R)" "al_of h' B = al_of h B" "al_of h' R = al_of h R"
proof -
  have nd: "\<forall>x \<in> set B \<union> set R. cn_node x \<noteq> a \<and> cn_data x \<noteq> dp"
    using wf by (auto simp: chain_wf_def)
  have fresh: "\<forall>x \<in> set B \<union> set R. cn_data x < brk h \<and> cn_data x \<noteq> brk h" "dp < brk h"
    using chain_wf_fresh [OF wf] chain_wf_fresh [OF wf, of "CN a dp i"] by auto
  have cB: "chain h' c B e = chain h c B e" and cR: "chain h' c R e = chain h c R e" for c e
    using nd by (auto intro!: chain_cong simp: h'_def)
  show "al_of h' B = al_of h B" "al_of h' R = al_of h R"
    using nd fresh by (auto intro!: al_of_cong simp: h'_def)
  have od: "\<forall>x \<in> set B \<union> set R. odatas h' (cn_data x) = odatas h (cn_data x)"
    using nd fresh by (auto simp: h'_def)
  show "chain_wf h' (B @ CN a (brk h) i # R)"
    using wf n nd fresh cB cR od
    by (auto simp: chain_wf_def chain_append h'_def image_iff less_SucI)
qed


lemma insert_absent:
  fixes d :: o_data
  assumes wf: "chain_wf h (B @ F)" and B: "B \<noteq> []"
    and lo: "\<forall>x \<in> set B. cn_index x < i" and hi: "\<forall>x \<in> set F. i < cn_index x"
    and cu: "cu = (case F of [] \<Rightarrow> None | x # _ \<Rightarrow> Some (cn_node x))"
    and pn: "nodes h (cn_node (last B)) = Some pn"
  defines "h' \<equiv> h\<lparr>odatas := (odatas h)(brk h \<mapsto> d), brk := brk h + 2,
     nodes := (nodes h)(Suc (brk h) \<mapsto> \<lparr>n_index = i, n_datap = brk h, n_nextp = cu\<rparr>,
                        cn_node (last B) \<mapsto> pn\<lparr>n_nextp := Some (Suc (brk h))\<rparr>)\<rparr>"
  shows "chain_wf h' (B @ CN (Suc (brk h)) (brk h) i # F)" "al_of h' B = al_of h B" "al_of h' F = al_of h F"
proof -
  have fresh: "\<forall>x \<in> set B \<union> set F. cn_data x < brk h \<and> cn_node x < brk h \<and>
      cn_data x \<noteq> brk h \<and> cn_node x \<noteq> Suc (brk h)"
    using chain_wf_fresh [OF wf] by auto
  have nd: "\<forall>x \<in> set (butlast B) \<union> set F. cn_node x \<noteq> cn_node (last B)"
    using wf B by (cases B rule: rev_cases) (auto simp: chain_wf_def image_iff)
  obtain m where chB: "chain h (first h) B m" and chF: "chain h m F None"
    using wf by (auto simp: chain_wf_def chain_append)
  have m: "m = cu" using fst_chain [OF chF] cu by simp
  have pn': "pn = \<lparr>n_index = cn_index (last B), n_datap = cn_data (last B), n_nextp = m\<rparr>"
    using last_chain_node [OF chB B] pn by simp
  have "chain h' (first h) B (Some (Suc (brk h)))"
  proof (rule chain_butlast_relink [OF chB _ B])
    show "distinct (map cn_node B)" using wf by (simp add: chain_wf_def)
    show "\<forall>x \<in> set (butlast B). nodes h' (cn_node x) = nodes h (cn_node x)"
      using nd fresh by (auto simp: h'_def dest: in_set_butlastD)
  qed (simp add: h'_def pn')
  moreover have "chain h' cu F None"
    using chF m nd fresh chain_cong [of F h' h cu None] by (force simp: h'_def)
  moreover have "nodes h' (Suc (brk h)) = Some \<lparr>n_index = i, n_datap = brk h, n_nextp = cu\<rparr>"
    using fresh last_in_set [OF B] by (force simp: h'_def)
  ultimately have "chain h' (first h) (B @ CN (Suc (brk h)) (brk h) i # F) None"
    by (auto simp: chain_append)
  then show "chain_wf h' (B @ CN (Suc (brk h)) (brk h) i # F)"
    using wf fresh lo hi by (auto simp: chain_wf_def h'_def sorted_wrt_append image_iff less_SucI)
  show "al_of h' B = al_of h B" "al_of h' F = al_of h F"
    using fresh by (auto intro!: al_of_cong simp: h'_def)
qed

lemma insert_front:
  fixes d :: o_data
  assumes wf: "chain_wf h F" and hi: "\<forall>x \<in> set F. i < cn_index x"
  defines "h' \<equiv> h\<lparr>odatas := (odatas h)(brk h \<mapsto> d), brk := brk h + 2,
     nodes := (nodes h)(Suc (brk h) \<mapsto> \<lparr>n_index = i, n_datap = brk h, n_nextp = first h\<rparr>),
     first := Some (Suc (brk h))\<rparr>"
  shows "chain_wf h' (CN (Suc (brk h)) (brk h) i # F)" "al_of h' F = al_of h F"
proof -
  have fresh: "\<forall>x \<in> set F. cn_data x < brk h \<and> cn_node x < brk h \<and>
      cn_data x \<noteq> brk h \<and> cn_node x \<noteq> Suc (brk h)"
    using chain_wf_fresh [OF wf] by auto
  have "chain h' (first h) F None"
    using wf fresh chain_cong [of F h' h "first h" None] by (force simp: h'_def chain_wf_def)
  then show "chain_wf h' (CN (Suc (brk h)) (brk h) i # F)"
    using wf fresh hi by (auto simp: chain_wf_def h'_def image_iff less_SucI)
  show "al_of h' F = al_of h F"
    using fresh by (auto intro!: al_of_cong simp: h'_def)
qed

text \<open>The heap after the record of an insertion was allocated, and the four ways in which the insertion goes on.\<close>

definition with_data :: "o_data \<Rightarrow> oheap \<Rightarrow> oheap" where
  "with_data d h = h\<lparr>odatas := (odatas h)(brk h \<mapsto> d), brk := brk h + 1\<rparr>"

lemma with_data:
  assumes wf: "chain_wf h xs"
  shows "chain_wf (with_data d h) xs" "set ys \<subseteq> set xs \<Longrightarrow> al_of (with_data d h) ys = al_of h ys"
proof -
  have fresh: "\<forall>x \<in> set xs. cn_data x < brk h \<and> cn_data x \<noteq> brk h" using chain_wf_fresh [OF wf] by blast
  show "chain_wf (with_data d h) xs"
    using wf fresh chain_cong [of xs "with_data d h" h "first h" None] by (force simp: chain_wf_def with_data_def)
  show "set ys \<subseteq> set xs \<Longrightarrow> al_of (with_data d h) ys = al_of h ys"
    using fresh by (intro al_of_cong) (auto simp: with_data_def)
qed

lemma first_iff:
  assumes "chain_wf h (B @ F)" "cu = (case F of [] \<Rightarrow> None | x # _ \<Rightarrow> Some (cn_node x))"
  shows "cu = first h \<longleftrightarrow> B = []"
proof (cases B)
  case Nil
  then show ?thesis using assms fst_chain [of h "first h" F] by (simp add: chain_wf_def)
next
  case (Cons b B')
  then have "first h = Some (cn_node b)" using assms(1) fst_chain [of h "first h" "B @ F"] by (simp add: chain_wf_def)
  then show ?thesis using assms Cons by (cases F) (auto simp: chain_wf_def)
qed

lemma insert_replaces:
  assumes wf: "chain_wf h (B @ CN a dp i # R)" and n: "nodes h a = Some n" "n_datap n = dp"
    and seek: "oseek (with_data d h) i (first h) (first h) = Some (True, pr, Some a)"
    and lo: "\<forall>x \<in> set B. cn_index x < i" "\<forall>x \<in> set R. i < cn_index x"
  shows "\<exists>h'. ollist_insert_data i d h = Some h' \<and> orepr h' (al_insert i d (al_of h (B @ CN a dp i # R)))"
proof -
  note f = insert_found [OF wf, of n d]
  have "odatas h dp \<noteq> None" "dp < brk h" using wf by (auto simp: chain_wf_def)
  then have run: "ollist_insert_data i d h = Some (h\<lparr>odatas := ((odatas h)(brk h \<mapsto> d))(dp := None),
      brk := brk h + 1, nodes := (nodes h)(a \<mapsto> n\<lparr>n_datap := brk h\<rparr>)\<rparr>)"
    using seek n by (auto simp: ollist_insert_data_def with_data_def [symmetric] Let_def) (simp add: with_data_def)
  show ?thesis
    unfolding run orepr_def
    using f [OF n(1)] al_insert_at(1) [OF lo, of d h a dp] \<open>dp < brk h\<close>
    by (auto simp: al_of_append al_of_Cons intro!: exI)
qed

lemma insert_at_front:
  assumes wf: "chain_wf h F" and hi: "\<forall>x \<in> set F. i < cn_index x"
    and seek: "oseek (with_data d h) i (first h) (first h) = Some (False, pr, first h)"
  shows "\<exists>h'. ollist_insert_data i d h = Some h' \<and> orepr h' (al_insert i d (al_of h F))"
proof -
  note f = insert_front [OF wf hi, of d]
  have "ollist_insert_data i d h = Some (h\<lparr>odatas := (odatas h)(brk h \<mapsto> d), brk := brk h + 2,
     nodes := (nodes h)(Suc (brk h) \<mapsto> \<lparr>n_index = i, n_datap = brk h, n_nextp = first h\<rparr>),
     first := Some (Suc (brk h))\<rparr>)"
    using seek by (simp add: ollist_insert_data_def with_data_def [symmetric] Let_def) (simp add: with_data_def)
  moreover have "al_insert i d (al_of h F) = (i, d) # al_of h F"
    using al_insert_at(2) [of "[]" i F d h] hi by (simp add: al_of_def)
  ultimately show ?thesis using f by (auto simp: orepr_def al_of_Cons intro!: exI)
qed

lemma insert_behind:
  assumes wf: "chain_wf h (B @ F)" "B \<noteq> []" and lo: "\<forall>x \<in> set B. cn_index x < i" and hi: "\<forall>x \<in> set F. i < cn_index x"
    and cu: "cu = (case F of [] \<Rightarrow> None | x # _ \<Rightarrow> Some (cn_node x))"
    and seek: "oseek (with_data d h) i (first h) (first h) = Some (False, Some (cn_node (last B)), cu)"
  shows "\<exists>h'. ollist_insert_data i d h = Some h' \<and> orepr h' (al_insert i d (al_of h (B @ F)))"
proof -
  obtain m where "chain h (first h) B m" using wf by (auto simp: chain_wf_def chain_append)
  from last_chain_node [OF this wf(2)] obtain pn where pn: "nodes h (cn_node (last B)) = Some pn" by blast
  note f = insert_absent [OF wf lo hi cu pn, of d]
  have "cn_node (last B) < brk h" using chain_wf_fresh [OF wf(1), of "last B"] wf(2) by simp
  then have "ollist_insert_data i d h = Some (h\<lparr>odatas := (odatas h)(brk h \<mapsto> d), brk := brk h + 2,
     nodes := (nodes h)(Suc (brk h) \<mapsto> \<lparr>n_index = i, n_datap = brk h, n_nextp = cu\<rparr>,
                    cn_node (last B) \<mapsto> pn\<lparr>n_nextp := Some (Suc (brk h))\<rparr>)\<rparr>)"
    using seek first_iff [OF wf(1) cu] wf(2) pn
    by (simp add: ollist_insert_data_def with_data_def [symmetric] Let_def) (simp add: with_data_def)
  moreover have "al_insert i d (al_of h (B @ F)) = al_of h B @ (i, d) # al_of h F"
    using al_insert_at(2) [OF lo hi, of d h] by simp
  ultimately show ?thesis using f by (auto simp: orepr_def al_of_Cons al_of_append intro!: exI)
qed

lemma ollist_insert_refines:
  assumes "orepr h al"
  shows "\<exists>h'. ollist_insert_data i d h = Some h' \<and> orepr h' (al_insert i d al)"
proof -
  from assms obtain xs where wf: "chain_wf h xs" and al: "al = al_of h xs" by (auto simp: orepr_def)
  have f: "first (with_data d h) = first h" "nodes (with_data d h) = nodes h" by (simp_all add: with_data_def)
  show ?thesis
  proof (cases rule: oseek_cases [OF with_data(1) [OF wf, of d], of i, case_names found absent])
    case (found B a dp R n pr)
    then show ?thesis using insert_replaces [of h B a dp i R n d pr] wf by (simp add: al f)
  next
    case (absent B F pr cu)
    have "cu = first h \<longleftrightarrow> B = []" using first_iff [of h B F cu] wf absent(1,5) by simp
    then show ?thesis
      using insert_at_front [of h F i d pr] insert_behind [of h B F i cu d] wf absent by (cases "B = []") (simp_all add: al f)
  qed
qed


lemma ollist_find_refines:
  assumes "orepr h al"
  shows "case map_of al i of
      None \<Rightarrow> ollist_find_data i h = Some (-1, None)
    | Some d \<Rightarrow> \<exists>p. ollist_find_data i h = Some (0, Some p) \<and> odatas h p = Some d"
proof -
  from assms obtain xs where wf: "chain_wf h xs" and al: "al = al_of h xs"
    by (auto simp: orepr_def)
  show ?thesis
  proof (cases rule: oseek_cases [OF wf, of i, case_names found absent])
    case (found B a dp R n pr)
    have "i \<notin> fst ` set (al_of h B)" using found(7) by (auto simp: al_of_def)
    then have "map_of (al_of h B) i = None" by (simp add: map_of_eq_None_iff)
    then have "map_of al i = odatas h dp"
      using wf by (auto simp: al found(1) al_of_append al_of_Cons map_add_def chain_wf_def)
    moreover have "odatas h dp \<noteq> None" using wf found(1) by (auto simp: chain_wf_def)
    moreover have "ollist_find_data i h = Some (0, Some dp)"
      using found by (simp add: ollist_find_data_def)
    ultimately show ?thesis by auto
  next
    case (absent B F pr cu)
    have "i \<notin> fst ` set al" using absent(1,3,4) by (auto simp: al al_of_def)
    then have "map_of al i = None" by (simp add: map_of_eq_None_iff)
    then show ?thesis using absent(2) by (simp add: ollist_find_data_def)
  qed
qed

lemma found_data_addr:
  assumes wf: "chain_wf h xs" and f: "ollist_find_data i h = Some (0, Some p)"
  obtains B a R where "xs = B @ CN a p i # R" "\<forall>x \<in> set B. cn_index x < i" "\<forall>x \<in> set R. i < cn_index x"
  using f by (cases rule: oseek_cases [OF wf, of i]) (auto simp: ollist_find_data_def)

text \<open>A store through the pointer a search returned changes the record at that index, only.\<close>

lemma poke_refines:
  assumes "orepr h al" and f: "ollist_find_data i h = Some (0, Some p)"
  shows "\<exists>h'. poke p g h = Some h' \<and> orepr h' (al_update i g al) \<and> ollist_find_data i h' = Some (0, Some p)"
proof -
  from assms obtain xs where wf: "chain_wf h xs" and al: "al = al_of h xs"
    by (auto simp: orepr_def)
  from found_data_addr [OF wf f] obtain B a R where xs: "xs = B @ CN a p i # R"
    and lo: "\<forall>x \<in> set B. cn_index x < i" and hi: "\<forall>x \<in> set R. i < cn_index x" .
  obtain r where r: "odatas h p = Some r" using wf xs by (auto simp: chain_wf_def)
  define h' where "h' = h\<lparr>odatas := (odatas h)(p \<mapsto> g r)\<rparr>"
  have nd: "\<forall>x \<in> set B \<union> set R. cn_data x \<noteq> p" using wf xs by (auto simp: chain_wf_def)
  have ch: "chain h' c ys e = chain h c ys e" for c ys e by (rule chain_cong) (simp add: h'_def)
  have same: "al_of h' B = al_of h B" "al_of h' R = al_of h R"
    using nd by (auto intro!: al_of_cong simp: h'_def)
  have "al_update i g (al_of h xs) = al_of h' xs"
    using lo r nd by (simp add: xs al_of_append al_of_Cons same al_update_append al_of_def) (auto simp: h'_def)
  moreover have "chain_wf h' xs" using wf ch nd by (auto simp: chain_wf_def xs h'_def)
  moreover have "ollist_find_data i h' = ollist_find_data i h"
  proof -
    have o: "oseek h' i c d = oseek h i c d" if "chain h d ys None" for c d ys
      using oseek_chain [OF that] oseek_chain [OF that [folded ch]] by simp
    have "chain h (first h) xs None" using wf by (simp add: chain_wf_def)
    from o [OF this] show ?thesis by (simp add: ollist_find_data_def h'_def cong: if_cong)
  qed
  ultimately show ?thesis using f r by (auto simp: poke_def h'_def orepr_def al intro!: exI [of _ xs])
qed

text \<open>An insertion frees the record it replaces: a pointer to it dangles.\<close>

lemma insert_frees:
  assumes "orepr h al" and f: "ollist_find_data i h = Some (0, Some p)"
    and ins: "ollist_insert_data i d h = Some h'"
  shows "odatas h' p = None"
proof -
  from assms obtain xs where wf: "chain_wf h xs" by (auto simp: orepr_def)
  have fresh: "\<forall>x \<in> set xs. cn_data x \<noteq> brk h" using chain_wf_fresh [OF wf] by blast
  define h1 where "h1 = h\<lparr>odatas := (odatas h)(brk h \<mapsto> d), brk := brk h + 1\<rparr>"
  have ch: "chain h (first h) xs None" and ch1: "chain h1 (first h1) xs None"
    using wf chain_cong [of xs h1 h "first h" None] by (simp_all add: chain_wf_def h1_def)
  have "oseek h1 i (first h1) (first h1) = oseek h i (first h) (first h)"
    using oseek_chain [OF ch] oseek_chain [OF ch1] by (simp add: h1_def)
  then show ?thesis using f ins
    by (auto simp: ollist_find_data_def ollist_insert_data_def h1_def [symmetric] Let_def
        split: bind_splits if_splits) (auto simp: h1_def)
qed

lemma find_op_loop_chain:
  "chain h c xs None \<Longrightarrow> (\<forall>x \<in> set xs. odatas h (cn_data x) \<noteq> None) \<Longrightarrow>
   case al_find_op i p (al_of h xs) of
     None \<Rightarrow> \<exists>dp'. find_op_loop h i p dp c = Some (-1, dp')
   | Some r \<Rightarrow> \<exists>a. find_op_loop h i p dp c = Some (uint (o_port r), Some a) \<and> odatas h a = Some r"
proof (induction xs arbitrary: c dp)
  case Nil
  then show ?case by (subst find_op_loop.simps) (simp add: al_of_def)
next
  case (Cons x xs)
  then obtain nx r where x: "c = Some (cn_node x)" "odatas h (cn_data x) = Some r" "chain h nx xs None"
    "nodes h (cn_node x) = Some \<lparr>n_index = cn_index x, n_datap = cn_data x, n_nextp = nx\<rparr>" by auto
  from Cons.IH [OF x(3), of "Some (cn_data x)"] Cons.prems(2) show ?case
    by (subst (1 2) find_op_loop.simps) (auto simp: x al_of_Cons split: option.splits)
qed

lemma ollist_find_data_op_refines:
  assumes "orepr h al"
  shows "case al_find_op i p al of
      None \<Rightarrow> \<exists>dp. ollist_find_data_op i p h = Some (-1, dp)
    | Some r \<Rightarrow> \<exists>a. ollist_find_data_op i p h = Some (uint (o_port r), Some a) \<and> odatas h a = Some r"
proof -
  from assms obtain xs where wf: "chain_wf h xs" and al: "al = al_of h xs"
    by (auto simp: orepr_def)
  show ?thesis unfolding ollist_find_data_op_def al
    using wf by (intro find_op_loop_chain) (simp_all add: chain_wf_def)
qed

lemma toggle_refines:
  assumes "orepr h al" "map_of al i = Some r"
  shows "\<exists>h'. ollist_toggle_output g i h = Some (if o_onoff r = 1 then 0 else 1, h') \<and>
     orepr h' (al_update i (o_onoff_update (\<lambda>v. if v = 1 then 0 else 1)) al)"
proof -
  let ?f = "o_onoff_update (\<lambda>v. if v = 1 then 0 else 1)"
  have eq: "?f r = r\<lparr>o_onoff := (if o_onoff r = 1 then 0 else 1)\<rparr>" by (cases r) simp
  from ollist_find_refines [OF assms(1), of i] assms(2) obtain p where
    p: "ollist_find_data i h = Some (0, Some p)" "odatas h p = Some r" by auto
  from poke_refines [OF assms(1) p(1), of ?f] obtain h' where
    h': "poke p ?f h = Some h'" "orepr h' (al_update i ?f al)" by blast
  have "ollist_toggle_output g i h = Some (if o_onoff r = 1 then 0 else 1, h')"
    using p h'(1) eq by (auto simp: ollist_find_data_def ollist_toggle_output_def poke_def Let_def
        split: bind_splits if_splits)
  with h'(2) show ?thesis by blast
qed


text \<open>
  The remaining operations. Removing the head leaves \<open>first\<close> on the freed node, so that the next
  search dereferences it; removing any other index deletes it. \<open>ollist_removeall_data\<close> reads
  the node it has just freed; \<open>ollist_change_data\<close> unlinks the node whose record it replaces.
\<close>

lemma remove_head_dangles:
  assumes "orepr h ((i, d) # al)"
  shows "\<exists>p h'. ollist_remove_data i h = Some (Some p, h') \<and> odatas h' p = Some d \<and>
    ollist_find_data j h' = None"
proof -
  from assms obtain x xs where wf: "chain_wf h (x # xs)" and al: "(i, d) # al = al_of h (x # xs)"
    by (auto simp: orepr_def al_of_def)
  from wf obtain nx where f: "first h = Some (cn_node x)" and
    n: "nodes h (cn_node x) = Some \<lparr>n_index = cn_index x, n_datap = cn_data x, n_nextp = nx\<rparr>"
    by (auto simp: chain_wf_def)
  have i: "cn_index x = i" and d: "odatas h (cn_data x) = Some d"
    using al wf by (auto simp: al_of_def chain_wf_def)
  have "oseek h i (first h) (first h) = Some (True, first h, first h)"
    using f n i by (subst oseek.simps) simp
  then have "ollist_remove_data i h = Some (Some (cn_data x), h\<lparr>nodes := (nodes h)(cn_node x := None)\<rparr>)"
    using f n by (simp add: ollist_remove_data_def)
  moreover have "ollist_find_data j (h\<lparr>nodes := (nodes h)(cn_node x := None)\<rparr>) = None"
    using f by (simp add: ollist_find_data_def) (subst oseek.simps, simp)
  ultimately show ?thesis using d by auto
qed

lemma removeall_frees_then_reads:
  assumes "orepr h al" "al \<noteq> []"
  shows "ollist_removeall_data h = None"
proof -
  from assms obtain x xs where wf: "chain_wf h (x # xs)"
    by (auto simp: orepr_def al_of_def neq_Nil_conv)
  from wf obtain nx where f: "first h = Some (cn_node x)" and
    n: "nodes h (cn_node x) = Some \<lparr>n_index = cn_index x, n_datap = cn_data x, n_nextp = nx\<rparr>"
    by (auto simp: chain_wf_def)
  show ?thesis unfolding ollist_removeall_data_def
    using f n by (subst removeall_loop.simps) (simp add: Let_def)
qed

lemma unlink_mid:
  assumes wf: "chain_wf h (B @ CN a dp i # R)" and B: "B \<noteq> []"
    and pn: "nodes h (cn_node (last B)) = Some pn" and n: "nodes h a = Some n"
    and other: "nodes h' = (nodes h)(cn_node (last B) \<mapsto> pn\<lparr>n_nextp := n_nextp n\<rparr>, a := None)"
      "odatas h' = odatas h" "brk h' = brk h" "first h' = first h"
  shows "chain_wf h' (B @ R)" "al_of h' (B @ R) = al_delete i (al_of h (B @ CN a dp i # R))"
proof -
  obtain m where chB: "chain h (first h) B m" and chF: "chain h m (CN a dp i # R) None"
    using wf by (auto simp: chain_wf_def chain_append)
  from chF n have chR: "chain h (n_nextp n) R None" by auto
  have pn': "pn = \<lparr>n_index = cn_index (last B), n_datap = cn_data (last B), n_nextp = m\<rparr>"
    using last_chain_node [OF chB B] pn by simp
  have nd: "\<forall>x \<in> set (butlast B) \<union> set R. cn_node x \<noteq> cn_node (last B)"
    using wf B by (cases B rule: rev_cases) (auto simp: chain_wf_def image_iff)
  have na: "\<forall>x \<in> set B \<union> set R. cn_node x \<noteq> a" using wf by (auto simp: chain_wf_def)
  have "chain h' (first h) B (n_nextp n)"
  proof (rule chain_butlast_relink [OF chB _ B])
    show "distinct (map cn_node B)" using wf by (simp add: chain_wf_def)
    show "\<forall>x \<in> set (butlast B). nodes h' (cn_node x) = nodes h (cn_node x)"
      using nd na by (auto simp: other dest: in_set_butlastD)
  qed (use na B in \<open>simp add: other pn'\<close>)
  moreover have "chain h' (n_nextp n) R None"
    using chR nd na chain_cong [of R h' h] by (simp add: other)
  ultimately show "chain_wf h' (B @ R)"
    using wf by (auto simp: chain_wf_def other sorted_wrt_append chain_append)
  have "\<forall>x \<in> set (B @ R). cn_index x \<noteq> i" using wf by (auto simp: chain_wf_def sorted_wrt_append)
  then have "al_delete i (al_of h B) = al_of h B" "al_delete i (al_of h R) = al_of h R"
    by (auto simp: al_delete_def al_of_def filter_id_conv)
  then show "al_of h' (B @ R) = al_delete i (al_of h (B @ CN a dp i # R))"
    by (simp add: al_of_append al_of_Cons al_delete_def) (simp add: al_of_def other)
qed

lemma remove_later_refines:
  assumes "orepr h ((j, e) # al)" "i \<noteq> j" "map_of al i = Some d"
  shows "\<exists>p h'. ollist_remove_data i h = Some (Some p, h') \<and> odatas h' p = Some d \<and>
    orepr h' ((j, e) # al_delete i al)"
proof -
  from assms obtain xs where wf: "chain_wf h xs" and al: "(j, e) # al = al_of h xs"
    by (auto simp: orepr_def)
  show ?thesis
  proof (cases rule: oseek_cases [OF wf, of i, case_names found absent])
    case (found B a dp R n pr)
    have B: "B \<noteq> []" using al assms(2) found(1) by (auto simp: al_of_def)
    obtain m where "chain h (first h) B m" using wf found(1) by (auto simp: chain_wf_def chain_append)
    from last_chain_node [OF this B] obtain pn where pn: "nodes h (cn_node (last B)) = Some pn" by blast
    let ?h = "h\<lparr>nodes := (nodes h)(cn_node (last B) \<mapsto> pn\<lparr>n_nextp := n_nextp n\<rparr>, a := None)\<rparr>"
    have "ollist_remove_data i h = Some (Some dp, ?h)"
      using found B pn by (simp add: ollist_remove_data_def)
    moreover have "orepr ?h ((j, e) # al_delete i al)"
    proof -
      have "al_of ?h (B @ R) = al_delete i ((j, e) # al)"
        using unlink_mid(2) [OF wf [unfolded found(1)] B pn found(3), of ?h] by (simp add: al found(1))
      also have "\<dots> = (j, e) # al_delete i al" using assms(2) by (simp add: al_delete_def)
      finally show ?thesis
        using unlink_mid(1) [OF wf [unfolded found(1)] B pn found(3), of ?h]
        unfolding orepr_def by (intro exI [of _ "B @ R"]) simp
    qed
    moreover have "odatas h dp = Some d"
    proof -
      have "map_of (al_of h xs) i = Some d" using assms(2,3) by (simp add: al [symmetric])
      moreover have "map_of (al_of h B) i = None"
        using found(7) by (auto simp: map_of_eq_None_iff al_of_def)
      ultimately show ?thesis using wf
        by (auto simp: found(1) al_of_append al_of_Cons map_add_def chain_wf_def)
    qed
    ultimately show ?thesis by auto
  next
    case (absent B F pr cu)
    have "i \<notin> fst ` set ((j, e) # al)" using absent(1,3,4) by (auto simp: al al_of_def)
    then have "map_of al i = None" by (simp add: map_of_eq_None_iff)
    with assms(3) show ?thesis by simp
  qed
qed


section \<open>Properties\<close>

text \<open>
  C39: Refinement of insertion and search. On a store that holds the sorted list \<open>al\<close>,
  \<open>ollist_insert_data\<close> dereferences only allocated nodes, the store afterwards holds \<open>al\<close> with the
  record at index \<open>i\<close> inserted or replaced, and a search for any index finds the record the new list
  has there, or reports \<open>-1\<close>.
\<close>

theorem insert_then_find:
  assumes "orepr h al"
  shows "\<exists>h'. ollist_insert_data i d h = Some h' \<and> orepr h' (al_insert i d al) \<and>
     (\<forall>j. case (if j = i then Some d else map_of al j) of
        None \<Rightarrow> ollist_find_data j h' = Some (-1, None)
      | Some e \<Rightarrow> \<exists>p. ollist_find_data j h' = Some (0, Some p) \<and> odatas h' p = Some e)"
proof -
  from ollist_insert_refines [OF assms] obtain h' where
    h': "ollist_insert_data i d h = Some h'" "orepr h' (al_insert i d al)" by blast
  have "case (if j = i then Some d else map_of al j) of
        None \<Rightarrow> ollist_find_data j h' = Some (-1, None)
      | Some e \<Rightarrow> \<exists>p. ollist_find_data j h' = Some (0, Some p) \<and> odatas h' p = Some e" for j
    using ollist_find_refines [OF h'(2), of j] by (simp add: odb.lookup_insert)
  with h' show ?thesis by blast
qed

definition heap0 :: oheap where
  "heap0 = ollist_init \<lparr>nodes = Map.empty, odatas = Map.empty, brk = 0, first = None\<rparr>"

definition rec0 :: o_data where
  "rec0 = \<lparr>o_label = replicate 30 0, o_port = 3, o_onoff = 1, o_input_port = 6, o_polarity = 0, o_type = 0,
     o_time_delay = 0, o_time_left = 0, o_pulse_time = 0, o_reset = 0\<rparr>"

lemma insert_then_find_witness:
  "\<exists>h'. ollist_insert_data 3 rec0 heap0 = Some h' \<and> orepr h' (al_insert 3 rec0 []) \<and>
     (\<forall>j. case (if j = 3 then Some rec0 else map_of [] j) of
        None \<Rightarrow> ollist_find_data j h' = Some (-1, None)
      | Some e \<Rightarrow> \<exists>p. ollist_find_data j h' = Some (0, Some p) \<and> odatas h' p = Some e)"
  unfolding heap0_def by (rule insert_then_find [OF orepr_init])

text \<open>One record at index 3.\<close>

definition heap1 :: oheap where
  "heap1 = the (ollist_insert_data 3 rec0 heap0)"

lemma heap1: "orepr heap1 [(3, rec0)]" "\<exists>p. ollist_find_data 3 heap1 = Some (0, Some p)"
proof -
  from ollist_insert_refines [of heap0 "[]" 3 rec0] obtain h where
    "ollist_insert_data 3 rec0 heap0 = Some h" "orepr h [(3, rec0)]"
    by (auto simp: heap0_def orepr_init)
  then show "orepr heap1 [(3, rec0)]" by (simp add: heap1_def)
  then show "\<exists>p. ollist_find_data 3 heap1 = Some (0, Some p)"
    using ollist_find_refines [of heap1 "[(3, rec0)]" 3] by auto
qed

text \<open>
  What the tasks do with a record: they search it, store into it through the pointer, and insert
  it at its own index again. The store changes the record at that index and no other; the insertion
  leaves the list as it is but frees the record, so the pointer dangles from then on.
\<close>

theorem store_and_reinsert:
  assumes "orepr h al" "map_of al i = Some d"
  shows "\<exists>p h1 h2. ollist_find_data i h = Some (0, Some p) \<and> poke p f h = Some h1 \<and>
     orepr h1 (al_update i f al) \<and> odatas h1 p = Some (f d) \<and>
     ollist_insert_data i (f d) h1 = Some h2 \<and> orepr h2 (al_insert i (f d) (al_update i f al)) \<and>
     (\<forall>j. map_of (al_insert i (f d) (al_update i f al)) j = (if j = i then Some (f d) else map_of al j)) \<and>
     odatas h2 p = None"
proof -
  from ollist_find_refines [OF assms(1), of i] assms(2) obtain p where
    p: "ollist_find_data i h = Some (0, Some p)" "odatas h p = Some d" by auto
  from poke_refines [OF assms(1) p(1), of f] obtain h1 where
    h1: "poke p f h = Some h1" "orepr h1 (al_update i f al)" "ollist_find_data i h1 = Some (0, Some p)" by blast
  from ollist_insert_refines [OF h1(2)] obtain h2 where
    h2: "ollist_insert_data i (f d) h1 = Some h2" "orepr h2 (al_insert i (f d) (al_update i f al))" by blast
  have "odatas h1 p = Some (f d)" using h1(1) p(2) by (auto simp: poke_def)
  moreover have "odatas h2 p = None" by (rule insert_frees [OF h1(2,3) h2(1)])
  ultimately show ?thesis using p h1 h2 by (auto simp: odb.lookup_insert odb.lookup_modify)
qed

lemma store_and_reinsert_witness:
  "\<exists>p h1 h2. ollist_find_data 3 heap1 = Some (0, Some p) \<and> poke p (o_onoff_update (\<lambda>_. 0)) heap1 = Some h1 \<and>
     orepr h1 (al_update 3 (o_onoff_update (\<lambda>_. 0)) [(3, rec0)]) \<and> odatas h1 p = Some (o_onoff_update (\<lambda>_. 0) rec0) \<and>
     ollist_insert_data 3 (o_onoff_update (\<lambda>_. 0) rec0) h1 = Some h2 \<and>
     orepr h2 (al_insert 3 (o_onoff_update (\<lambda>_. 0) rec0) (al_update 3 (o_onoff_update (\<lambda>_. 0)) [(3, rec0)])) \<and>
     (\<forall>j. map_of (al_insert 3 (o_onoff_update (\<lambda>_. 0) rec0) (al_update 3 (o_onoff_update (\<lambda>_. 0)) [(3, rec0)])) j =
        (if j = 3 then Some (o_onoff_update (\<lambda>_. 0) rec0) else map_of [(3, rec0)] j)) \<and>
     odatas h2 p = None"
  by (rule store_and_reinsert [OF heap1(1)]) simp

text \<open>
  Removal of the first record leaves \<open>first\<close> on the freed node: the record is returned, but every
  later search of the list dereferences freed memory. Removal of a later record is correct.
\<close>

theorem remove_first_or_later:
  assumes "orepr h ((j, e) # al)" "map_of ((j, e) # al) i = Some d"
  shows "\<exists>p h'. ollist_remove_data i h = Some (Some p, h') \<and> odatas h' p = Some d \<and>
     (if i = j then \<forall>k. ollist_find_data k h' = None else orepr h' ((j, e) # al_delete i al))"
proof (cases "i = j")
  case True
  then have "d = e" using assms(2) by simp
  then have r: "\<exists>p h'. ollist_remove_data i h = Some (Some p, h') \<and> odatas h' p = Some d \<and>
      ollist_find_data k h' = None" for k
    using remove_head_dangles [of h j e al k] assms(1) True by simp
  then obtain p h' where "ollist_remove_data i h = Some (Some p, h')" "odatas h' p = Some d" by blast
  with r True show ?thesis by auto
next
  case False
  then show ?thesis using remove_later_refines [OF assms(1) False] assms(2) by auto
qed

lemma remove_first_or_later_witness:
  "\<exists>p h'. ollist_remove_data 3 heap1 = Some (Some p, h') \<and> odatas h' p = Some rec0 \<and>
     (if (3::int) = 3 then \<forall>k. ollist_find_data k h' = None else orepr h' ((3, rec0) # al_delete 3 []))"
  by (rule remove_first_or_later [OF heap1(1)]) simp

text \<open>A list whose only node follows itself; no operation builds one.\<close>

definition ring :: "o_data \<Rightarrow> oheap" where
  "ring r = \<lparr>nodes = [0 \<mapsto> \<lparr>n_index = 0, n_datap = 1, n_nextp = Some 0\<rparr>], odatas = [1 \<mapsto> r], brk = 2, first = Some 0\<rparr>"

lemma ring_loops:
  assumes "o_input_port r = 0xFF"
  shows "find_op_loop (ring r) i p dp (Some 0) = None"
proof -
  have n: "find_op_loop h i p dp cur = Some y \<Longrightarrow> h = ring r \<Longrightarrow> cur \<noteq> Some 0" for h dp cur y
  proof (induction rule: find_op_loop.raw_induct [rotated, consumes 1])
    case (1 f h i p dp cur y)
    show ?case
    proof
      assume c: "cur = Some 0"
      from 1(2) have "f h i p (Some 1) (Some 0) = Some y" unfolding c 1(3) using assms by (simp add: ring_def)
      from 1(1) [OF this 1(3)] show False by simp
    qed
  qed
  show ?thesis using n [OF _ refl] by (cases "find_op_loop (ring r) i p dp (Some 0)") blast+
qed



end
