(* ===== verification/Cmds.thy ===== *)
theory Cmds
  imports Prelude
begin

text \<open>
  The message codes of \<open>mytypes.h\<close>, shared by the TS-7200 program \<open>sched\<close> (\<open>thread_io/\<close>), the
  STM32 firmware and the AVR display. A command travels as one \<open>UCHAR\<close> and is dispatched by
  \<open>switch\<close> statements whose \<open>default\<close> takes every byte that is no code, so a code is a byte here
  and not a constructor: the enumerators are abbreviations of the byte values the compiler
  assigns. Indices of inputs and outputs (\<open>enum input_types\<close>, \<open>enum output_types\<close>) are C \<open>int\<close>s.
  \<open>cmd_array\<close> is the table that \<open>cmd_tasks.c\<close> keeps from codes to their names.
\<close>

section \<open>Commands\<close>

abbreviation (input) NON_CMD :: u8 where "NON_CMD \<equiv> 0"
abbreviation (input) ENABLE_START :: u8 where "ENABLE_START \<equiv> 1"
abbreviation (input) STARTER_OFF :: u8 where "STARTER_OFF \<equiv> 2"
abbreviation (input) ON_ACC :: u8 where "ON_ACC \<equiv> 3"
abbreviation (input) OFF_ACC :: u8 where "OFF_ACC \<equiv> 4"
abbreviation (input) ON_FUEL_PUMP :: u8 where "ON_FUEL_PUMP \<equiv> 5"
abbreviation (input) OFF_FUEL_PUMP :: u8 where "OFF_FUEL_PUMP \<equiv> 6"
abbreviation (input) ON_FAN :: u8 where "ON_FAN \<equiv> 7"
abbreviation (input) OFF_FAN :: u8 where "OFF_FAN \<equiv> 8"
abbreviation (input) ON_LIGHTS :: u8 where "ON_LIGHTS \<equiv> 9"
abbreviation (input) OFF_LIGHTS :: u8 where "OFF_LIGHTS \<equiv> 10"
abbreviation (input) ON_BRIGHTS :: u8 where "ON_BRIGHTS \<equiv> 11"
abbreviation (input) OFF_BRIGHTS :: u8 where "OFF_BRIGHTS \<equiv> 12"
abbreviation (input) BLANK :: u8 where "BLANK \<equiv> 13"
abbreviation (input) ESTOP_SIGNAL :: u8 where "ESTOP_SIGNAL \<equiv> 14"
abbreviation (input) ON_BRAKES :: u8 where "ON_BRAKES \<equiv> 15"
abbreviation (input) OFF_BRAKES :: u8 where "OFF_BRAKES \<equiv> 16"
abbreviation (input) ON_RUNNING_LIGHTS :: u8 where "ON_RUNNING_LIGHTS \<equiv> 17"
abbreviation (input) OFF_RUNNING_LIGHTS :: u8 where "OFF_RUNNING_LIGHTS \<equiv> 18"
abbreviation (input) SPECIAL_CMD :: u8 where "SPECIAL_CMD \<equiv> 19"
abbreviation (input) START_SEQ :: u8 where "START_SEQ \<equiv> 20"
abbreviation (input) SHUTDOWN :: u8 where "SHUTDOWN \<equiv> 21"
abbreviation (input) ON_LLIGHTS :: u8 where "ON_LLIGHTS \<equiv> 22"
abbreviation (input) OFF_LLIGHTS :: u8 where "OFF_LLIGHTS \<equiv> 23"
abbreviation (input) ON_LBRIGHTS :: u8 where "ON_LBRIGHTS \<equiv> 24"
abbreviation (input) OFF_LBRIGHTS :: u8 where "OFF_LBRIGHTS \<equiv> 25"
abbreviation (input) ON_RLIGHTS :: u8 where "ON_RLIGHTS \<equiv> 26"
abbreviation (input) OFF_RLIGHTS :: u8 where "OFF_RLIGHTS \<equiv> 27"
abbreviation (input) ON_RBRIGHTS :: u8 where "ON_RBRIGHTS \<equiv> 28"
abbreviation (input) OFF_RBRIGHTS :: u8 where "OFF_RBRIGHTS \<equiv> 29"
abbreviation (input) WIPER1 :: u8 where "WIPER1 \<equiv> 30"
abbreviation (input) WIPER2 :: u8 where "WIPER2 \<equiv> 31"
abbreviation (input) WIPER_OFF :: u8 where "WIPER_OFF \<equiv> 32"
abbreviation (input) SHUTDOWN_IOBOX :: u8 where "SHUTDOWN_IOBOX \<equiv> 33"
abbreviation (input) REBOOT_IOBOX :: u8 where "REBOOT_IOBOX \<equiv> 34"
abbreviation (input) SET_TIME :: u8 where "SET_TIME \<equiv> 35"
abbreviation (input) GET_TIME :: u8 where "GET_TIME \<equiv> 36"
abbreviation (input) TEST_LEFT_BLINKER :: u8 where "TEST_LEFT_BLINKER \<equiv> 37"
abbreviation (input) TEST_RIGHT_BLINKER :: u8 where "TEST_RIGHT_BLINKER \<equiv> 38"
abbreviation (input) DISCONNECT :: u8 where "DISCONNECT \<equiv> 39"
abbreviation (input) BAD_MSG :: u8 where "BAD_MSG \<equiv> 40"
abbreviation (input) CURRENT_TIME :: u8 where "CURRENT_TIME \<equiv> 41"
abbreviation (input) SET_PARAMS :: u8 where "SET_PARAMS \<equiv> 42"
abbreviation (input) EXIT_PROGRAM :: u8 where "EXIT_PROGRAM \<equiv> 43"
abbreviation (input) ENGINE_TEMP :: u8 where "ENGINE_TEMP \<equiv> 44"
abbreviation (input) INDOOR_TEMP :: u8 where "INDOOR_TEMP \<equiv> 45"
abbreviation (input) SEND_RT_VALUES1 :: u8 where "SEND_RT_VALUES1 \<equiv> 46"
abbreviation (input) SEND_RT_VALUES2 :: u8 where "SEND_RT_VALUES2 \<equiv> 47"
abbreviation (input) SEND_RT_VALUES3 :: u8 where "SEND_RT_VALUES3 \<equiv> 48"
abbreviation (input) ENGINE_RUNTIME :: u8 where "ENGINE_RUNTIME \<equiv> 49"
abbreviation (input) SERVER_UPTIME :: u8 where "SERVER_UPTIME \<equiv> 50"
abbreviation (input) SEND_CONFIG :: u8 where "SEND_CONFIG \<equiv> 51"
abbreviation (input) SEND_MSG :: u8 where "SEND_MSG \<equiv> 52"
abbreviation (input) SEND_RPM :: u8 where "SEND_RPM \<equiv> 53"
abbreviation (input) SEND_MPH :: u8 where "SEND_MPH \<equiv> 54"
abbreviation (input) SEND_ADCS1 :: u8 where "SEND_ADCS1 \<equiv> 55"
abbreviation (input) SEND_ADCS2 :: u8 where "SEND_ADCS2 \<equiv> 56"
abbreviation (input) NAV_UP :: u8 where "NAV_UP \<equiv> 57"
abbreviation (input) NAV_DOWN :: u8 where "NAV_DOWN \<equiv> 58"
abbreviation (input) NAV_SIDE :: u8 where "NAV_SIDE \<equiv> 59"
abbreviation (input) NAV_CLICK :: u8 where "NAV_CLICK \<equiv> 60"
abbreviation (input) NAV_CLOSE :: u8 where "NAV_CLOSE \<equiv> 61"
abbreviation (input) SEND_STATUS :: u8 where "SEND_STATUS \<equiv> 62"
abbreviation (input) SERVER_UP :: u8 where "SERVER_UP \<equiv> 63"
abbreviation (input) SERVER_DOWN :: u8 where "SERVER_DOWN \<equiv> 64"
abbreviation (input) UPLOAD_NEW :: u8 where "UPLOAD_NEW \<equiv> 65"
abbreviation (input) UPLOAD_OTHER :: u8 where "UPLOAD_OTHER \<equiv> 66"
abbreviation (input) UPLOAD_NEW_PARAM :: u8 where "UPLOAD_NEW_PARAM \<equiv> 67"
abbreviation (input) SET_TEMP_LIMIT :: u8 where "SET_TEMP_LIMIT \<equiv> 68"
abbreviation (input) SET_FAN_ON :: u8 where "SET_FAN_ON \<equiv> 69"
abbreviation (input) SET_FAN_OFF :: u8 where "SET_FAN_OFF \<equiv> 70"
abbreviation (input) HIGH_REV_LIMIT :: u8 where "HIGH_REV_LIMIT \<equiv> 71"
abbreviation (input) LOW_REV_LIMIT :: u8 where "LOW_REV_LIMIT \<equiv> 72"
abbreviation (input) LIGHTS_ON_DELAY :: u8 where "LIGHTS_ON_DELAY \<equiv> 73"
abbreviation (input) SET_BLOWER_EN_TEMP :: u8 where "SET_BLOWER_EN_TEMP \<equiv> 74"
abbreviation (input) SET_BLOWER1_TEMP :: u8 where "SET_BLOWER1_TEMP \<equiv> 75"
abbreviation (input) SET_BLOWER2_TEMP :: u8 where "SET_BLOWER2_TEMP \<equiv> 76"
abbreviation (input) SET_BLOWER3_TEMP :: u8 where "SET_BLOWER3_TEMP \<equiv> 77"
abbreviation (input) SET_BATT_BOX_TEMP :: u8 where "SET_BATT_BOX_TEMP \<equiv> 78"
abbreviation (input) TEMP_TOO_HIGH :: u8 where "TEMP_TOO_HIGH \<equiv> 79"
abbreviation (input) GET_VERSION :: u8 where "GET_VERSION \<equiv> 80"
abbreviation (input) UPDATE_CONFIG :: u8 where "UPDATE_CONFIG \<equiv> 81"
abbreviation (input) SEND_CONFIG2 :: u8 where "SEND_CONFIG2 \<equiv> 82"
abbreviation (input) GET_CONFIG2 :: u8 where "GET_CONFIG2 \<equiv> 83"
abbreviation (input) CLIENT_CONNECTED :: u8 where "CLIENT_CONNECTED \<equiv> 84"
abbreviation (input) SERVER_CONNECTED :: u8 where "SERVER_CONNECTED \<equiv> 85"
abbreviation (input) SET_KEYMODE :: u8 where "SET_KEYMODE \<equiv> 86"
abbreviation (input) SHELL_AND_RENAME :: u8 where "SHELL_AND_RENAME \<equiv> 87"
abbreviation (input) REFRESH_LCD :: u8 where "REFRESH_LCD \<equiv> 88"
abbreviation (input) SEND_GPS_GLL_DATA :: u8 where "SEND_GPS_GLL_DATA \<equiv> 89"
abbreviation (input) SEND_GPS_GGA_DATA :: u8 where "SEND_GPS_GGA_DATA \<equiv> 90"
abbreviation (input) SEND_GPS_GSA_DATA :: u8 where "SEND_GPS_GSA_DATA \<equiv> 91"
abbreviation (input) SEND_GPS_GSV_DATA :: u8 where "SEND_GPS_GSV_DATA \<equiv> 92"
abbreviation (input) SEND_GPS_RMC_DATA :: u8 where "SEND_GPS_RMC_DATA \<equiv> 93"
abbreviation (input) SEND_GPS_VTG_DATA :: u8 where "SEND_GPS_VTG_DATA \<equiv> 94"
abbreviation (input) SEND_GPS_ZDA_DATA :: u8 where "SEND_GPS_ZDA_DATA \<equiv> 95"
abbreviation (input) SET_GPS_DATA :: u8 where "SET_GPS_DATA \<equiv> 96"
abbreviation (input) SET_GPS_BAUDRATE :: u8 where "SET_GPS_BAUDRATE \<equiv> 97"
abbreviation (input) ENABLE_GPS_SEND_DATA :: u8 where "ENABLE_GPS_SEND_DATA \<equiv> 98"
abbreviation (input) ENABLE_ADC_SEND_DATA :: u8 where "ENABLE_ADC_SEND_DATA \<equiv> 99"
abbreviation (input) ADC_GATE :: u8 where "ADC_GATE \<equiv> 100"
abbreviation (input) SET_ADC_RATE :: u8 where "SET_ADC_RATE \<equiv> 101"
abbreviation (input) SET_RPM_MPH_RATE :: u8 where "SET_RPM_MPH_RATE \<equiv> 102"
abbreviation (input) SET_FPGA_RATE :: u8 where "SET_FPGA_RATE \<equiv> 103"
abbreviation (input) SEND_RT_FPGA_STATUS :: u8 where "SEND_RT_FPGA_STATUS \<equiv> 104"
abbreviation (input) SEND_REV_LIMIT_OVERRIDE :: u8 where "SEND_REV_LIMIT_OVERRIDE \<equiv> 105"
abbreviation (input) SEND_FP_OVERRIDE :: u8 where "SEND_FP_OVERRIDE \<equiv> 106"

section \<open>Keypad keys\<close>

abbreviation (input) KP_1 :: u8 where "KP_1 \<equiv> 224"
abbreviation (input) KP_2 :: u8 where "KP_2 \<equiv> 225"
abbreviation (input) KP_3 :: u8 where "KP_3 \<equiv> 226"
abbreviation (input) KP_4 :: u8 where "KP_4 \<equiv> 227"
abbreviation (input) KP_5 :: u8 where "KP_5 \<equiv> 228"
abbreviation (input) KP_6 :: u8 where "KP_6 \<equiv> 229"
abbreviation (input) KP_7 :: u8 where "KP_7 \<equiv> 230"
abbreviation (input) KP_8 :: u8 where "KP_8 \<equiv> 231"
abbreviation (input) KP_9 :: u8 where "KP_9 \<equiv> 232"
abbreviation (input) KP_A :: u8 where "KP_A \<equiv> 233"
abbreviation (input) KP_B :: u8 where "KP_B \<equiv> 234"
abbreviation (input) KP_C :: u8 where "KP_C \<equiv> 235"
abbreviation (input) KP_D :: u8 where "KP_D \<equiv> 236"
abbreviation (input) KP_POUND :: u8 where "KP_POUND \<equiv> 237"
abbreviation (input) KP_AST :: u8 where "KP_AST \<equiv> 238"
abbreviation (input) KP_0 :: u8 where "KP_0 \<equiv> 239"

section \<open>Inputs and outputs\<close>

abbreviation (input) HEADLAMP_INPUT :: int where "HEADLAMP_INPUT \<equiv> 0"
abbreviation (input) RUNNING_LIGHTS_INPUT :: int where "RUNNING_LIGHTS_INPUT \<equiv> 1"
abbreviation (input) LEFTBLINKER_INPUT :: int where "LEFTBLINKER_INPUT \<equiv> 2"
abbreviation (input) RIGHTBLINKER_INPUT :: int where "RIGHTBLINKER_INPUT \<equiv> 3"
abbreviation (input) BRIGHTS_INPUT :: int where "BRIGHTS_INPUT \<equiv> 4"
abbreviation (input) STARTER_INPUT :: int where "STARTER_INPUT \<equiv> 5"
abbreviation (input) COOLINGFAN_INPUT :: int where "COOLINGFAN_INPUT \<equiv> 6"
abbreviation (input) ESTOP_INPUT :: int where "ESTOP_INPUT \<equiv> 7"
abbreviation (input) BRAKE_INPUT :: int where "BRAKE_INPUT \<equiv> 8"

abbreviation (input) STARTER :: int where "STARTER \<equiv> 0"
abbreviation (input) ACCON :: int where "ACCON \<equiv> 1"
abbreviation (input) FUELPUMP :: int where "FUELPUMP \<equiv> 2"
abbreviation (input) COOLINGFAN :: int where "COOLINGFAN \<equiv> 3"
abbreviation (input) LHEADLAMP :: int where "LHEADLAMP \<equiv> 4"
abbreviation (input) RHEADLAMP :: int where "RHEADLAMP \<equiv> 5"
abbreviation (input) RUNNINGLIGHTS :: int where "RUNNINGLIGHTS \<equiv> 6"
abbreviation (input) LBRIGHTS :: int where "LBRIGHTS \<equiv> 16"
abbreviation (input) RBRIGHTS :: int where "RBRIGHTS \<equiv> 17"
abbreviation (input) WWIPER1 :: int where "WWIPER1 \<equiv> 21"
abbreviation (input) WWIPER2 :: int where "WWIPER2 \<equiv> 22"
abbreviation (input) TESTOUTPUT27 :: int where "TESTOUTPUT27 \<equiv> 30"
abbreviation (input) NULL2 :: int where "NULL2 \<equiv> 39"

section \<open>FPGA commands\<close>

abbreviation (input) SET_FPGA_SEND_UPDATE_RATE :: u8 where "SET_FPGA_SEND_UPDATE_RATE \<equiv> 1"
abbreviation (input) SET_RPM_MPH_UPDATE_RATE :: u8 where "SET_RPM_MPH_UPDATE_RATE \<equiv> 2"
abbreviation (input) DTMF_TONE_ON :: u8 where "DTMF_TONE_ON \<equiv> 3"
abbreviation (input) DTMF_TONE_OFF :: u8 where "DTMF_TONE_OFF \<equiv> 4"
abbreviation (input) SPECIAL_TONE_ON :: u8 where "SPECIAL_TONE_ON \<equiv> 5"
abbreviation (input) LCD_PWM :: u8 where "LCD_PWM \<equiv> 6"
abbreviation (input) TUNE_ON :: u8 where "TUNE_ON \<equiv> 7"
abbreviation (input) TUNE_OFF :: u8 where "TUNE_OFF \<equiv> 8"
abbreviation (input) LOAD_TUNE :: u8 where "LOAD_TUNE \<equiv> 9"
abbreviation (input) SHOW_DOWNLOAD :: u8 where "SHOW_DOWNLOAD \<equiv> 10"
abbreviation (input) ADC_CTL :: u8 where "ADC_CTL \<equiv> 11"
abbreviation (input) SET_ADC_RATE2 :: u8 where "SET_ADC_RATE2 \<equiv> 12"
abbreviation (input) SET_HIGH_REV_LIMIT :: u8 where "SET_HIGH_REV_LIMIT \<equiv> 13"
abbreviation (input) SET_LOW_REV_LIMIT :: u8 where "SET_LOW_REV_LIMIT \<equiv> 14"
abbreviation (input) REV_LIMIT_OVERRIDE :: u8 where "REV_LIMIT_OVERRIDE \<equiv> 15"
abbreviation (input) FUEL_PUMP_OVERRIDE :: u8 where "FUEL_PUMP_OVERRIDE \<equiv> 16"

section \<open>Sizes\<close>

abbreviation (input) SERIAL_BUFF_SIZE :: nat where "SERIAL_BUFF_SIZE \<equiv> 50"
abbreviation (input) MSG_QUEUE_SIZE :: int where "MSG_QUEUE_SIZE \<equiv> 50"
abbreviation (input) NUM_PORT_BITS :: int where "NUM_PORT_BITS \<equiv> 40"

section \<open>The names of the commands\<close>

definition cmd_array :: "(u8 \<times> string) list" where
  "cmd_array = [
    (NON_CMD, ''NON_CMD''),
    (ENABLE_START, ''ENABLE_START''),
    (STARTER_OFF, ''STARTER_OFF''),
    (ON_ACC, ''ON_ACC''),
    (OFF_ACC, ''OFF_ACC''),
    (ON_FUEL_PUMP, ''ON_FUEL_PUMP''),
    (OFF_FUEL_PUMP, ''OFF_FUEL_PUMP''),
    (ON_FAN, ''ON_FAN''),
    (OFF_FAN, ''OFF_FAN''),
    (ON_LIGHTS, ''ON_LIGHTS''),
    (OFF_LIGHTS, ''OFF_LIGHTS''),
    (ON_BRIGHTS, ''ON_BRIGHTS''),
    (OFF_BRIGHTS, ''OFF_BRIGHTS''),
    (BLANK, ''BLANK''),
    (ESTOP_SIGNAL, ''ESTOP_SIGNAL''),
    (ON_BRAKES, ''ON_BRAKES''),
    (OFF_BRAKES, ''OFF_BRAKES''),
    (ON_RUNNING_LIGHTS, ''ON_RUNNING_LIGHTS''),
    (OFF_RUNNING_LIGHTS, ''OFF_RUNNING_LIGHTS''),
    (SPECIAL_CMD, ''SPECIAL_CMD''),
    (START_SEQ, ''START_SEQ''),
    (SHUTDOWN, ''SHUTDOWN''),
    (ON_LLIGHTS, ''ON_LLIGHTS''),
    (OFF_LLIGHTS, ''OFF_LLIGHTS''),
    (ON_LBRIGHTS, ''ON_LBRIGHTS''),
    (OFF_LBRIGHTS, ''OFF_LBRIGHTS''),
    (ON_RLIGHTS, ''ON_RLIGHTS''),
    (OFF_RLIGHTS, ''OFF_RLIGHTS''),
    (ON_RBRIGHTS, ''ON_RBRIGHTS''),
    (OFF_RBRIGHTS, ''OFF_RBRIGHTS''),
    (WIPER1, ''WIPER1''),
    (WIPER2, ''WIPER2''),
    (WIPER_OFF, ''WIPER_OFF''),
    (SHUTDOWN_IOBOX, ''SHUTDOWN_IOBOX''),
    (REBOOT_IOBOX, ''REBOOT_IOBOX''),
    (SET_TIME, ''SET_TIME''),
    (GET_TIME, ''GET_TIME''),
    (TEST_LEFT_BLINKER, ''TEST_LEFT_BLINKER''),
    (TEST_RIGHT_BLINKER, ''TEST_RIGHT_BLINKER''),
    (DISCONNECT, ''DISCONNECT''),
    (BAD_MSG, ''BAD_MSG''),
    (CURRENT_TIME, ''CURRENT_TIME''),
    (SET_PARAMS, ''SET_PARAMS''),
    (EXIT_PROGRAM, ''EXIT_PROGRAM''),
    (ENGINE_TEMP, ''ENGINE_TEMP''),
    (INDOOR_TEMP, ''INDOOR_TEMP''),
    (SEND_RT_VALUES1, ''SEND_RT_VALUES1''),
    (SEND_RT_VALUES2, ''SEND_RT_VALUES2''),
    (SEND_RT_VALUES3, ''SEND_RT_VALUES3''),
    (ENGINE_RUNTIME, ''ENGINE_RUNTIME''),
    (SERVER_UPTIME, ''SERVER_UPTIME''),
    (SEND_CONFIG, ''SEND_CONFIG''),
    (SEND_MSG, ''SEND_MSG''),
    (SEND_RPM, ''SEND_RPM''),
    (SEND_MPH, ''SEND_MPH''),
    (SEND_ADCS1, ''SEND_ADCS1''),
    (SEND_ADCS2, ''SEND_ADCS2''),
    (NAV_UP, ''NAV_UP''),
    (NAV_DOWN, ''NAV_DOWN''),
    (NAV_SIDE, ''NAV_SIDE''),
    (NAV_CLICK, ''NAV_CLICK''),
    (NAV_CLOSE, ''NAV_CLOSE''),
    (SEND_STATUS, ''SEND_STATUS''),
    (SERVER_UP, ''SERVER_UP''),
    (SERVER_DOWN, ''SERVER_DOWN''),
    (UPLOAD_NEW, ''UPLOAD_NEW''),
    (UPLOAD_OTHER, ''UPLOAD_OTHER''),
    (UPLOAD_NEW_PARAM, ''UPLOAD_NEW_PARAM''),
    (SET_TEMP_LIMIT, ''SET_TEMP_LIMIT''),
    (SET_FAN_ON, ''SET_FAN_ON''),
    (SET_FAN_OFF, ''SET_FAN_OFF''),
    (HIGH_REV_LIMIT, ''HIGH_REV_LIMIT''),
    (LOW_REV_LIMIT, ''LOW_REV_LIMIT''),
    (LIGHTS_ON_DELAY, ''LIGHTS_ON_DELAY''),
    (SET_BLOWER_EN_TEMP, ''SET_BLOWER_EN_TEMP''),
    (SET_BLOWER1_TEMP, ''SET_BLOWER1_TEMP''),
    (SET_BLOWER2_TEMP, ''SET_BLOWER2_TEMP''),
    (SET_BLOWER3_TEMP, ''SET_BLOWER3_TEMP''),
    (SET_BATT_BOX_TEMP, ''SET_BATT_BOX_TEMP''),
    (TEMP_TOO_HIGH, ''TEMP_TOO_HIGH''),
    (GET_VERSION, ''GET_VERSION''),
    (UPDATE_CONFIG, ''UPDATE_CONFIG''),
    (SEND_CONFIG2, ''SEND_CONFIG2''),
    (GET_CONFIG2, ''GET_CONFIG2''),
    (CLIENT_CONNECTED, ''CLIENT_CONNECTED''),
    (SERVER_CONNECTED, ''SERVER_CONNECTED''),
    (SET_KEYMODE, ''SET_KEYMODE''),
    (SHELL_AND_RENAME, ''SHELL_AND_RENAME''),
    (REFRESH_LCD, ''REFRESH_LCD''),
    (SEND_GPS_GLL_DATA, ''SEND_GPS_GLL_DATA''),
    (SEND_GPS_GGA_DATA, ''SEND_GPS_GGA_DATA''),
    (SEND_GPS_GSA_DATA, ''SEND_GPS_GSA_DATA''),
    (SEND_GPS_GSV_DATA, ''SEND_GPS_GSV_DATA''),
    (SEND_GPS_RMC_DATA, ''SEND_GPS_RMC_DATA''),
    (SEND_GPS_VTG_DATA, ''SEND_GPS_VTG_DATA''),
    (SEND_GPS_ZDA_DATA, ''SEND_GPS_ZDA_DATA''),
    (SET_GPS_DATA, ''SET_GPS_DATA''),
    (SET_GPS_BAUDRATE, ''SET_GPS_BAUDRATE''),
    (ENABLE_GPS_SEND_DATA, ''ENABLE_GPS_SEND_DATA''),
    (ENABLE_ADC_SEND_DATA, ''ENABLE_ADC_SEND_DATA''),
    (ADC_GATE, ''ADC_GATE''),
    (SET_ADC_RATE, ''SET_ADC_RATE''),
    (SET_RPM_MPH_RATE, ''SET_RPM_MPH_RATE''),
    (SET_FPGA_RATE, ''SET_FPGA_RATE''),
    (SEND_RT_FPGA_STATUS, ''SEND_RT_FPGA_STATUS''),
    (SEND_REV_LIMIT_OVERRIDE, ''SEND_REV_LIMIT_OVERRIDE''),
    (SEND_FP_OVERRIDE, ''SEND_FP_OVERRIDE'')]"

text \<open>\<open>cmd_array[cmd].cmd_str\<close>: an index past the 107 entries reads outside the array.\<close>

definition cmd_str :: "u8 \<Rightarrow> string option" where
  "cmd_str cmd = map_option snd (aget cmd_array (uint cmd))"

lemma length_cmd_array: "length cmd_array = 107"
  by (simp add: cmd_array_def)

lemma cmd_array_codes: "map fst cmd_array = map word_of_nat [0..<107]"
  by (simp add: cmd_array_def upt_rec)

lemma cmd_str_defined: "cmd_str c \<noteq> None \<longleftrightarrow> c < 107"
  by (simp add: cmd_str_def aget_def length_cmd_array word_less_def)

lemma cmd_name_lengths: "list_all (\<lambda>(c, n). length n \<le> 23) cmd_array"
  by code_simp

lemma cmd_str_length: "cmd_str c = Some n \<Longrightarrow> length n \<le> 23"
proof -
  assume "cmd_str c = Some n"
  then have "uint c < int (length cmd_array)" "n = snd (cmd_array ! nat (uint c))"
    by (auto simp: cmd_str_def aget_def split: if_splits)
  moreover have "nat (uint c) < length cmd_array"
    using \<open>uint c < int (length cmd_array)\<close> uint_ge_0 [of c] by linarith
  ultimately obtain x where "x \<in> set cmd_array" "n = snd x" using nth_mem by blast
  then show ?thesis using cmd_name_lengths by (auto simp: list_all_iff split_beta)
qed

end
