(* ===== verification/IoPorts.thy ===== *)
theory IoPorts
  imports Prelude Cmds
begin

text \<open>
  The two relay and input cards of the TS-7200 (\<open>thread_io/ioports.c\<close>): the memory-mapped
  registers behind \<open>card_ports\<close>, the shadow array \<open>outportstatus\<close> with one byte for each output
  port, the functions that set one relay, and the ones that read the input registers. The
  byte functions write the register and leave the shadow as it is. The locale \<open>bit_port\<close> is
  what a port with a shadow promises: one call changes one bit.
\<close>

section \<open>Registers\<close>

abbreviation (input) CARD1 :: int where "CARD1 \<equiv> 0x280"
abbreviation (input) CARD2 :: int where "CARD2 \<equiv> 0x300"
abbreviation (input) ROC_1 :: int where "ROC_1 \<equiv> CARD1"
abbreviation (input) ROC_2 :: int where "ROC_2 \<equiv> CARD1 + 1"
abbreviation (input) ROC_3 :: int where "ROC_3 \<equiv> CARD1 + 2"
abbreviation (input) DIR_1 :: int where "DIR_1 \<equiv> CARD1 + 4"
abbreviation (input) DIR_2 :: int where "DIR_2 \<equiv> CARD1 + 5"
abbreviation (input) DIR_3 :: int where "DIR_3 \<equiv> CARD1 + 6"
abbreviation (input) ROC_4 :: int where "ROC_4 \<equiv> CARD2"
abbreviation (input) ROC_5 :: int where "ROC_5 \<equiv> CARD2 + 1"
abbreviation (input) ROC_6 :: int where "ROC_6 \<equiv> CARD2 + 2"
abbreviation (input) DIR_4 :: int where "DIR_4 \<equiv> CARD2 + 4"
abbreviation (input) DIR_5 :: int where "DIR_5 \<equiv> CARD2 + 5"
abbreviation (input) DIR_6 :: int where "DIR_6 \<equiv> CARD2 + 6"

abbreviation (input) NUM_PORTS :: nat where "NUM_PORTS \<equiv> 6"
abbreviation (input) OUTPORTA_OFFSET :: nat where "OUTPORTA_OFFSET \<equiv> 0"
abbreviation (input) OUTPORTB_OFFSET :: nat where "OUTPORTB_OFFSET \<equiv> 1"
abbreviation (input) OUTPORTC_OFFSET :: nat where "OUTPORTC_OFFSET \<equiv> 2"
abbreviation (input) OUTPORTD_OFFSET :: nat where "OUTPORTD_OFFSET \<equiv> 3"
abbreviation (input) OUTPORTE_OFFSET :: nat where "OUTPORTE_OFFSET \<equiv> 4"
abbreviation (input) OUTPORTF_OFFSET :: nat where "OUTPORTF_OFFSET \<equiv> 5"

text \<open>\<open>outportstatus\<close> has \<open>NUM_PORTS\<close> bytes; the offsets above are its only indices.\<close>

record io_card =
  card_ports :: "int \<Rightarrow> u8"
  outportstatus :: "u8 list"

definition store_port :: "int \<Rightarrow> u8 \<Rightarrow> 'a io_card_scheme \<Rightarrow> 'a io_card_scheme" where
  "store_port a v c = c\<lparr>card_ports := (card_ports c)(a := v)\<rparr>"

section \<open>Outputs\<close>

text \<open>\<open>state |= mask\<close> or \<open>state &= ~mask\<close> for \<open>mask = 1 << bit\<close>.\<close>

definition put_bit :: "int \<Rightarrow> u8 \<Rightarrow> u8 \<Rightarrow> u8" where
  "put_bit onoff b state =
     (let msk = push_bit (unat b) 1 in
      if onoff \<noteq> 0 then state OR msk else state AND NOT msk)"

definition OutPortA :: "int \<Rightarrow> u8 \<Rightarrow> 'a io_card_scheme \<Rightarrow> 'a io_card_scheme" where
  "OutPortA onoff b c =
     (let state = put_bit onoff b (outportstatus c ! OUTPORTA_OFFSET) in
      store_port ROC_1 state (c\<lparr>outportstatus := (outportstatus c)[OUTPORTA_OFFSET := state]\<rparr>))"

definition OutPortB :: "int \<Rightarrow> u8 \<Rightarrow> 'a io_card_scheme \<Rightarrow> 'a io_card_scheme" where
  "OutPortB onoff b c =
     (let state = put_bit onoff b (outportstatus c ! OUTPORTB_OFFSET) in
      store_port ROC_2 state (c\<lparr>outportstatus := (outportstatus c)[OUTPORTB_OFFSET := state]\<rparr>))"

definition OutPortC :: "int \<Rightarrow> u8 \<Rightarrow> 'a io_card_scheme \<Rightarrow> 'a io_card_scheme" where
  "OutPortC onoff b c =
     (let state = put_bit onoff b (outportstatus c ! OUTPORTC_OFFSET) in
      store_port ROC_3 state (c\<lparr>outportstatus := (outportstatus c)[OUTPORTC_OFFSET := state]\<rparr>))"

definition OutPortD :: "int \<Rightarrow> u8 \<Rightarrow> 'a io_card_scheme \<Rightarrow> 'a io_card_scheme" where
  "OutPortD onoff b c =
     (let state = put_bit onoff b (outportstatus c ! OUTPORTD_OFFSET) in
      store_port ROC_4 state (c\<lparr>outportstatus := (outportstatus c)[OUTPORTD_OFFSET := state]\<rparr>))"

definition OutPortE :: "int \<Rightarrow> u8 \<Rightarrow> 'a io_card_scheme \<Rightarrow> 'a io_card_scheme" where
  "OutPortE onoff b c =
     (let state = put_bit onoff b (outportstatus c ! OUTPORTE_OFFSET) in
      store_port ROC_5 state (c\<lparr>outportstatus := (outportstatus c)[OUTPORTE_OFFSET := state]\<rparr>))"

definition OutPortF :: "int \<Rightarrow> u8 \<Rightarrow> 'a io_card_scheme \<Rightarrow> 'a io_card_scheme" where
  "OutPortF onoff b c =
     (let state = put_bit onoff b (outportstatus c ! OUTPORTF_OFFSET) in
      store_port ROC_6 state (c\<lparr>outportstatus := (outportstatus c)[OUTPORTF_OFFSET := state]\<rparr>))"

text \<open>A negative \<open>port\<close> would be a negative shift.\<close>

definition ToggleOutPortA :: "int \<Rightarrow> 'a io_card_scheme \<Rightarrow> 'a io_card_scheme option" where
  "ToggleOutPortA port c =
     (if port < 0 then None else
      let msk = push_bit (nat (if port < 7 then port else 7)) 1;
          temp = outportstatus c ! OUTPORTA_OFFSET AND msk;
          temp = NOT temp;
          temp = temp AND (msk OR outportstatus c ! OUTPORTA_OFFSET)
      in Some (store_port ROC_1 temp (c\<lparr>outportstatus := (outportstatus c)[OUTPORTA_OFFSET := temp]\<rparr>)))"

definition OutPortByteA :: "u8 \<Rightarrow> 'a io_card_scheme \<Rightarrow> 'a io_card_scheme" where
  "OutPortByteA byte c = store_port ROC_1 byte c"
definition OutPortByteB :: "u8 \<Rightarrow> 'a io_card_scheme \<Rightarrow> 'a io_card_scheme" where
  "OutPortByteB byte c = store_port ROC_2 byte c"
definition OutPortByteC :: "u8 \<Rightarrow> 'a io_card_scheme \<Rightarrow> 'a io_card_scheme" where
  "OutPortByteC byte c = store_port ROC_3 byte c"
definition OutPortByteD :: "u8 \<Rightarrow> 'a io_card_scheme \<Rightarrow> 'a io_card_scheme" where
  "OutPortByteD byte c = store_port ROC_4 byte c"
definition OutPortByteE :: "u8 \<Rightarrow> 'a io_card_scheme \<Rightarrow> 'a io_card_scheme" where
  "OutPortByteE byte c = store_port ROC_5 byte c"
definition OutPortByteF :: "u8 \<Rightarrow> 'a io_card_scheme \<Rightarrow> 'a io_card_scheme" where
  "OutPortByteF byte c = store_port ROC_6 byte c"

definition TurnOffAllOutputs :: "'a io_card_scheme \<Rightarrow> 'a io_card_scheme" where
  "TurnOffAllOutputs c =
     OutPortByteF 0 (OutPortByteE 0 (OutPortByteD 0 (OutPortByteC 0 (OutPortByteB 0 (OutPortByteA 0 c)))))"

section \<open>Inputs\<close>

definition InPortByte :: "int \<Rightarrow> 'a io_card_scheme \<Rightarrow> u8" where
  "InPortByte bank c =
     (if bank > 2 then card_ports c (DIR_4 + bank - 3) else card_ports c (DIR_1 + bank))"

definition InPortByteA :: "'a io_card_scheme \<Rightarrow> u8" where "InPortByteA c = card_ports c DIR_1"
definition InPortByteB :: "'a io_card_scheme \<Rightarrow> u8" where "InPortByteB c = card_ports c DIR_2"
definition InPortByteC :: "'a io_card_scheme \<Rightarrow> u8" where "InPortByteC c = card_ports c DIR_3"
definition InPortByteD :: "'a io_card_scheme \<Rightarrow> u8" where "InPortByteD c = card_ports c DIR_4"
definition InPortByteE :: "'a io_card_scheme \<Rightarrow> u8" where "InPortByteE c = card_ports c DIR_5"
definition InPortByteF :: "'a io_card_scheme \<Rightarrow> u8" where "InPortByteF c = card_ports c DIR_6"

section \<open>Lemmas\<close>

text \<open>Relay control register \<open>k\<close>, and the operation of port \<open>k\<close>.\<close>

definition roc :: "nat \<Rightarrow> int" where
  "roc k = [ROC_1, ROC_2, ROC_3, ROC_4, ROC_5, ROC_6] ! k"

definition out_port :: "nat \<Rightarrow> int \<Rightarrow> u8 \<Rightarrow> 'a io_card_scheme \<Rightarrow> 'a io_card_scheme" where
  "out_port k onoff b c =
     (let state = put_bit onoff b (outportstatus c ! k) in
      store_port (roc k) state (c\<lparr>outportstatus := (outportstatus c)[k := state]\<rparr>))"

lemma out_port_ports:
  "out_port 0 = OutPortA" "out_port 1 = OutPortB" "out_port 2 = OutPortC"
  "out_port 3 = OutPortD" "out_port 4 = OutPortE" "out_port 5 = OutPortF"
  by (simp_all add: fun_eq_iff out_port_def roc_def OutPortA_def OutPortB_def OutPortC_def
      OutPortD_def OutPortE_def OutPortF_def)

lemma roc_inj: "j < 6 \<Longrightarrow> k < 6 \<Longrightarrow> roc j = roc k \<longleftrightarrow> j = k"
  unfolding roc_def by (rule nth_eq_iff_index_eq) simp_all

lemma bit_put_bit:
  "unat b < 8 \<Longrightarrow> j < 8 \<Longrightarrow>
   bit (put_bit onoff b s) j = (if j = unat b then onoff \<noteq> 0 else bit s j)"
  by (auto simp: put_bit_def Let_def bit_simps)

text \<open>The relay state a shadow and a register hold: bit \<open>b\<close> of port \<open>k\<close>.\<close>

definition relay :: "nat \<Rightarrow> nat \<Rightarrow> 'a io_card_scheme \<Rightarrow> bool" where
  "relay k b c = bit (card_ports c (roc k)) b"

definition shadow_ok :: "'a io_card_scheme \<Rightarrow> bool" where
  "shadow_ok c \<longleftrightarrow> length (outportstatus c) = NUM_PORTS \<and>
     (\<forall>k < NUM_PORTS. card_ports c (roc k) = outportstatus c ! k)"

lemma shadow_ok_out_port: "k < 6 \<Longrightarrow> shadow_ok c \<Longrightarrow> shadow_ok (out_port k onoff b c)"
  by (auto simp: shadow_ok_def out_port_def store_port_def Let_def roc_inj nth_list_update)

lemma relay_out_port:
  "k < 6 \<Longrightarrow> unat b < 8 \<Longrightarrow> shadow_ok c \<Longrightarrow> j < 6 \<Longrightarrow> i < 8 \<Longrightarrow>
   relay j i (out_port k onoff b c) = (if j = k \<and> i = unat b then onoff \<noteq> 0 else relay j i c)"
  by (auto simp: relay_def out_port_def store_port_def Let_def roc_inj bit_put_bit shadow_ok_def)

section \<open>The contract of a port\<close>

text \<open>
  What \<open>change_output\<close> and everything above it relies on: a write changes the addressed bit and
  no other, on a card whose shadow is right, and keeps the shadow right.
\<close>

locale bit_port =
  fixes put :: "'k \<Rightarrow> bool \<Rightarrow> 's \<Rightarrow> 's"
    and get :: "'k \<Rightarrow> 's \<Rightarrow> bool"
    and ok :: "'s \<Rightarrow> bool"
    and dom :: "'k set"
  assumes put_ok: "k \<in> dom \<Longrightarrow> ok s \<Longrightarrow> ok (put k v s)"
    and get_put: "k \<in> dom \<Longrightarrow> j \<in> dom \<Longrightarrow> ok s \<Longrightarrow> get j (put k v s) = (if j = k then v else get j s)"
begin

lemma puts_ok: "set ks \<subseteq> dom \<times> UNIV \<Longrightarrow> ok s \<Longrightarrow> ok (fold (\<lambda>(k, v). put k v) ks s)"
  by (induction ks arbitrary: s) (auto simp: put_ok)

lemma get_puts_other:
  "set ks \<subseteq> dom \<times> UNIV \<Longrightarrow> ok s \<Longrightarrow> j \<in> dom \<Longrightarrow> j \<notin> fst ` set ks \<Longrightarrow>
   get j (fold (\<lambda>(k, v). put k v) ks s) = get j s"
  by (induction ks arbitrary: s) (auto simp: put_ok get_put)

text \<open>The last write to a relay is the one that counts.\<close>

lemma get_puts_last:
  assumes "set ks \<subseteq> dom \<times> UNIV" "ok s" "(j, v) \<in> dom \<times> UNIV" "j \<notin> fst ` set ks"
  shows "get j (fold (\<lambda>(k, v). put k v) ((j, v) # ks) s) = v"
  using assms get_puts_other [of ks "put j v s" j] by (auto simp: put_ok get_put)

lemma put_comm_get:
  "k \<in> dom \<Longrightarrow> l \<in> dom \<Longrightarrow> k \<noteq> l \<Longrightarrow> j \<in> dom \<Longrightarrow> ok s \<Longrightarrow>
   get j (put k v (put l w s)) = get j (put l w (put k v s))"
  by (simp add: get_put put_ok)

end

interpretation relay_port: bit_port
  "\<lambda>(k, b) v. out_port k (of_bool v) (word_of_nat b)" "\<lambda>(k, b). relay k b" shadow_ok
  "{..<6} \<times> {..<8}"
proof unfold_locales
  fix k :: "nat \<times> nat" and v :: bool and s :: "'a io_card_scheme"
  assume "k \<in> {..<6} \<times> {..<8}" "shadow_ok s"
  then show "shadow_ok ((case k of (k, b) \<Rightarrow> \<lambda>v. out_port k (of_bool v) (word_of_nat b)) v s)"
    by (auto intro: shadow_ok_out_port)
next
  fix k j :: "nat \<times> nat" and v :: bool and s :: "'a io_card_scheme"
  assume k: "k \<in> {..<6} \<times> {..<8}" and j: "j \<in> {..<6} \<times> {..<8}" and s: "shadow_ok s"
  obtain k1 k2 where kk: "k = (k1, k2)" by (cases k)
  have "unat (word_of_nat k2 :: u8) = k2" using k kk by (simp add: unat_of_nat)
  then show "(case j of (k, b) \<Rightarrow> relay k b)
      ((case k of (k, b) \<Rightarrow> \<lambda>v. out_port k (of_bool v) (word_of_nat b)) v s) =
      (if j = k then v else (case j of (k, b) \<Rightarrow> relay k b) s)"
    using k j s kk by (cases j) (auto simp: relay_out_port)
qed


section \<open>Properties\<close>

lemma toggle_mask: "NOT (x AND m) AND (m OR x) = x XOR (m :: 'w::len word)"
  by (rule bit_word_eqI) (auto simp: bit_simps)

text \<open>
  \<open>ToggleOutPortA p\<close> inverts relay \<open>p\<close> of port A (relay 7 for any \<open>p\<close> above 7) and no other, in
  the register and in the shadow, so that toggling twice restores the port.
\<close>

theorem toggle_is_xor:
  assumes "shadow_ok c" "0 \<le> p"
  shows "\<exists>c1 c2. ToggleOutPortA p c = Some c1 \<and> shadow_ok c1 \<and>
     card_ports c1 ROC_1 = card_ports c ROC_1 XOR push_bit (min (nat p) 7) 1 \<and>
     (\<forall>k < 6. k \<noteq> 0 \<longrightarrow> card_ports c1 (roc k) = card_ports c (roc k)) \<and>
     ToggleOutPortA p c1 = Some c2 \<and> card_ports c2 = card_ports c"
proof -
  let ?m = "push_bit (min (nat p) 7) (1::u8)"
  define tog where "tog c = store_port ROC_1 (outportstatus c ! 0 XOR ?m)
    (c\<lparr>outportstatus := (outportstatus c)[0 := outportstatus c ! 0 XOR ?m]\<rparr>)" for c :: "'a io_card_scheme"
  have n: "nat (if p < 7 then p else 7) = min (nat p) 7" using assms(2) by auto
  have t: "ToggleOutPortA p c = Some (tog c)" for c :: "'a io_card_scheme"
    using assms(2) unfolding ToggleOutPortA_def tog_def n Let_def by (simp only: toggle_mask) simp
  have r0: "roc 0 = ROC_1" by (simp add: roc_def)
  have "card_ports c (roc 0) = outportstatus c ! 0" and len: "length (outportstatus c) = 6"
    using assms(1) by (auto simp: shadow_ok_def)
  then have s0: "card_ports c ROC_1 = outportstatus c ! 0" by (simp add: r0)
  have other: "roc k \<noteq> ROC_1" if "k < 6" "k \<noteq> 0" for k using roc_inj [of k 0] that r0 by simp
  have ok: "shadow_ok (tog c)"
    using assms(1) other r0 by (auto simp: shadow_ok_def tog_def store_port_def nth_list_update)
  have "card_ports (tog (tog c)) = card_ports c"
    using s0 len by (auto simp: tog_def store_port_def xor.assoc fun_eq_iff)
  then show ?thesis
    using ok s0 other by (auto simp: t) (simp_all add: tog_def store_port_def)
qed

definition card0 :: io_card where
  "card0 = \<lparr>card_ports = (\<lambda>_. 0), outportstatus = replicate 6 0\<rparr>"

lemma toggle_is_xor_witness:
  "\<exists>c1 c2. ToggleOutPortA 3 card0 = Some c1 \<and> shadow_ok c1 \<and>
     card_ports c1 ROC_1 = card_ports card0 ROC_1 XOR push_bit (min (nat 3) 7) 1 \<and>
     (\<forall>k < 6. k \<noteq> 0 \<longrightarrow> card_ports c1 (roc k) = card_ports card0 (roc k)) \<and>
     ToggleOutPortA 3 c1 = Some c2 \<and> card_ports c2 = card_ports card0"
  by (rule toggle_is_xor) (simp_all add: card0_def shadow_ok_def)

lemma turn_off_ports: "k < 6 \<Longrightarrow> card_ports (TurnOffAllOutputs c) (roc k) = 0"
proof -
  assume "k < 6"
  then have "roc k \<in> set [ROC_1, ROC_2, ROC_3, ROC_4, ROC_5, ROC_6]"
    unfolding roc_def by (intro nth_mem) simp
  then show ?thesis
    by (auto simp: TurnOffAllOutputs_def OutPortByteA_def OutPortByteB_def OutPortByteC_def
      OutPortByteD_def OutPortByteE_def OutPortByteF_def store_port_def)
qed

text \<open>
  \<open>TurnOffAllOutputs\<close> clears the six registers but not the shadow: the next \<open>OutPort\<close> of a port
  switches every relay of that port that was on before back on.
\<close>

theorem turn_off_is_undone:
  assumes "shadow_ok c" "k < 6" "unat b < 8" "j < 8"
  shows "\<not> relay k j (TurnOffAllOutputs c) \<and>
     relay k j (out_port k onoff b (TurnOffAllOutputs c)) =
       (if j = unat b then onoff \<noteq> 0 else relay k j c)"
proof -
  have sh: "outportstatus (TurnOffAllOutputs c) = outportstatus c"
    by (simp add: TurnOffAllOutputs_def OutPortByteA_def OutPortByteB_def OutPortByteC_def
      OutPortByteD_def OutPortByteE_def OutPortByteF_def store_port_def)
  have "relay k j (out_port k onoff b (TurnOffAllOutputs c)) = bit (put_bit onoff b (outportstatus c ! k)) j"
    by (simp add: relay_def out_port_def store_port_def Let_def sh)
  then show ?thesis
    using assms by (simp add: bit_put_bit relay_def turn_off_ports shadow_ok_def)
qed

lemma turn_off_is_undone_witness:
  "\<not> relay 1 5 (TurnOffAllOutputs card0) \<and>
     relay 1 5 (out_port 1 1 2 (TurnOffAllOutputs card0)) = (if 5 = unat (2::u8) then (1::int) \<noteq> 0 else relay 1 5 card0)"
  by (rule turn_off_is_undone) (simp_all add: card0_def shadow_ok_def)

end
