(* ===== verification/Banks.thy ===== *)
theory Banks
  imports IoPorts
begin

text \<open>
  The numbering of the 40 inputs and outputs. A card has 20 of each, in two ports of 8 bits and one
  of 4, so the table \<open>real_banks\<close> (filled at the start of \<open>get_host_cmd_task\<close> in
  \<open>thread_io/cmd_tasks.c\<close>) gives the port and the bit of each number. \<open>change_output\<close> of
  \<open>thread_io/tasks.c\<close> sets a relay by its number; it provides the \<open>bit_port\<close> contract for the
  numbers 0 to 39. \<open>mask2int\<close> and \<open>bank_to_number\<close> go the other way.
\<close>

section \<open>The table\<close>

record REAL_BANKS =
  rb_i :: int
  rb_bank :: int
  rb_index :: int

definition real_banks :: "REAL_BANKS list" where
  "real_banks =
     map (\<lambda>i. \<lparr>rb_i = i, rb_bank = i div 8, rb_index = i - (i div 8) * 8\<rparr>) [0..19] @
     map (\<lambda>i. \<lparr>rb_i = i, rb_bank = (i + 4) div 8, rb_index = i - ((i + 4) div 8) * 8 + 4\<rparr>) [20..39]"

text \<open>
  The loop of both monitor tasks that turns a bit of a bank into a number. It does not stop at the
  entry it finds, and it leaves a bit that no entry has as it is.
\<close>

fun bank_loop :: "REAL_BANKS list \<Rightarrow> int \<Rightarrow> int \<Rightarrow> int" where
  "bank_loop [] bank index = index"
| "bank_loop (rb # rbs) bank index =
     bank_loop rbs bank (if rb_bank rb = bank \<and> rb_index rb = index then rb_i rb else index)"

definition bank_to_number :: "int \<Rightarrow> int \<Rightarrow> int" where
  "bank_to_number bank index = bank_loop real_banks bank index"

text \<open>\<open>do { mask >>= 1; i++; } while(mask); return i - 1;\<close>\<close>

function mask2int_loop :: "u8 \<Rightarrow> int \<Rightarrow> int" where
  "mask2int_loop msk i =
     (let msk = drop_bit 1 msk; i = i + 1 in if msk \<noteq> 0 then mask2int_loop msk i else i - 1)"
  by pat_completeness auto

termination
proof (relation "measure (\<lambda>(m, i). unat m)")
  fix msk :: u8 and x :: u8 and i y :: int
  assume x: "x = drop_bit 1 msk" and "x \<noteq> 0"
  have "unat x = unat msk div 2" by (simp add: x drop_bit_eq_div unat_div)
  moreover have "unat x \<noteq> 0" using \<open>x \<noteq> 0\<close> by (simp add: unat_eq_zero)
  ultimately show "((x, y), (msk, i)) \<in> measure (\<lambda>(m, i). unat m)" by simp
qed simp

declare mask2int_loop.simps [simp del]

definition mask2int :: "u8 \<Rightarrow> int" where
  "mask2int msk = mask2int_loop msk 0"

section \<open>change_output\<close>

text \<open>The \<open>switch(bank)\<close>, and the function around it; its result is the bit in the port.\<close>

definition switch_port :: "int \<Rightarrow> int \<Rightarrow> u8 \<Rightarrow> 'a io_card_scheme \<Rightarrow> 'a io_card_scheme" where
  "switch_port bank onoff b c =
     (if bank = 0 then OutPortA onoff b c
      else if bank = 1 then OutPortB onoff b c
      else if bank = 2 then OutPortC onoff b c
      else if bank = 3 then OutPortD onoff b c
      else if bank = 4 then OutPortE onoff b c
      else if bank = 5 then OutPortF onoff b c
      else c)"

definition change_output :: "int \<Rightarrow> int \<Rightarrow> 'a io_card_scheme \<Rightarrow> (int \<times> 'a io_card_scheme) option" where
  "change_output index onoff c = do {
     rb \<leftarrow> aget real_banks index;
     let bank = rb_bank rb;
     let index = rb_index rb;
     Some (index, switch_port bank onoff (word_of_int index) c)
   }"

section \<open>Lemmas\<close>

lemma length_real_banks: "length real_banks = 40"
  by (simp add: real_banks_def)

text \<open>Port and bit of a number, as naturals.\<close>

definition port_of :: "int \<Rightarrow> nat" where "port_of i = nat (rb_bank (real_banks ! nat i))"
definition bit_of :: "int \<Rightarrow> nat" where "bit_of i = nat (rb_index (real_banks ! nat i))"

text \<open>What holds of each number in turn, by evaluation.\<close>

lemma all_numbers: "list_all P [0..39] \<Longrightarrow> 0 \<le> i \<Longrightarrow> i < 40 \<Longrightarrow> P (i::int)"
  by (auto simp: list_all_iff)

lemma real_banks_all:
  "list_all (\<lambda>i. port_of i < 6 \<and> bit_of i < 8 \<and> ((port_of i = 2 \<or> port_of i = 5) \<longrightarrow> bit_of i < 4) \<and>
     rb_i (real_banks ! nat i) = i \<and>
     rb_bank (real_banks ! nat i) = int (port_of i) \<and>
     rb_index (real_banks ! nat i) = int (bit_of i) \<and>
     8 * int (port_of i) + int (bit_of i) - (if port_of i < 3 then 0 else 4) = i) [0..39]"
  by code_simp

lemma port_bit_of:
  assumes "0 \<le> i" "i < 40"
  shows "port_of i < 6" "bit_of i < 8" "port_of i = 2 \<or> port_of i = 5 \<Longrightarrow> bit_of i < 4"
    "rb_bank (real_banks ! nat i) = int (port_of i)" "rb_index (real_banks ! nat i) = int (bit_of i)"
    "8 * int (port_of i) + int (bit_of i) - (if port_of i < 3 then 0 else 4) = i"
  using all_numbers [OF real_banks_all assms] by blast+

lemma port_bit_inj:
  assumes "0 \<le> i" "i < 40" "0 \<le> j" "j < 40"
  shows "port_of i = port_of j \<and> bit_of i = bit_of j \<longleftrightarrow> i = j"
proof
  assume "port_of i = port_of j \<and> bit_of i = bit_of j"
  then have p: "port_of i = port_of j" and b: "bit_of i = bit_of j" by simp_all
  show "i = j"
    using port_bit_of(6) [OF assms(1,2)] port_bit_of(6) [OF assms(3,4)]
    unfolding p b by (rule trans [OF sym])
qed simp

lemma bank_loop_app: "bank_loop (xs @ ys) b i = bank_loop ys b (bank_loop xs b i)"
  by (induction xs arbitrary: i) auto

lemma bank_loop_skip:
  "(\<forall>rb \<in> set xs. \<not> (rb_bank rb = b \<and> rb_index rb = i)) \<Longrightarrow> bank_loop xs b i = i"
  by (induction xs) auto

lemma nth_real_banks:
  "j < 40 \<Longrightarrow> rb_bank (real_banks ! j) = int (port_of (int j)) \<and> rb_index (real_banks ! j) = int (bit_of (int j))"
  using port_bit_of(4,5) [of "int j"] by simp

lemma bank_to_number_port_bit:
  assumes i: "0 \<le> i" "i < 40"
  shows "bank_to_number (int (port_of i)) (int (bit_of i)) = i"
proof -
  define n where "n = nat i"
  have n: "n < 40" "int n = i" using i by (simp_all add: n_def)
  let ?p = "int (port_of i)" and ?b = "int (bit_of i)"
  have R: "real_banks = take n real_banks @ real_banks ! n # drop (Suc n) real_banks"
    using n(1) by (intro id_take_nth_drop) (simp add: length_real_banks)
  have "\<not> (rb_bank rb = ?p \<and> rb_index rb = ?b)" if "rb \<in> set (take n real_banks)" for rb
  proof -
    from that obtain j where j: "j < n" "rb = real_banks ! j"
      by (auto simp: in_set_conv_nth length_real_banks)
    then show ?thesis
      using n nth_real_banks [of j] port_bit_inj [of "int j" i] by auto
  qed
  then have 1: "bank_loop (take n real_banks) ?p ?b = ?b" by (intro bank_loop_skip) blast
  have "\<not> (rb_bank rb = ?p \<and> rb_index rb = i)" if "rb \<in> set (drop (Suc n) real_banks)" for rb
  proof
    assume eq: "rb_bank rb = ?p \<and> rb_index rb = i"
    from that obtain k where k: "k < length (drop (Suc n) real_banks)" "rb = drop (Suc n) real_banks ! k"
      by (auto simp only: in_set_conv_nth)
    define j where "j = Suc n + k"
    have j: "n < j" "j < 40" "rb = real_banks ! j"
      using k n(1) by (simp_all add: j_def length_real_banks)
    then have "port_of (int j) = port_of i" "int (bit_of (int j)) = i"
      using eq nth_real_banks [of j] by auto
    then show False
      using port_bit_of(2,6) [of "int j"] port_bit_of(6) [OF i] j(1,2) n
      by (cases "port_of i = 0") (auto split: if_splits)
  qed
  then have 2: "bank_loop (drop (Suc n) real_banks) ?p i = i" by (intro bank_loop_skip) blast
  have "rb_bank (real_banks ! n) = ?p" "rb_index (real_banks ! n) = ?b" "rb_i (real_banks ! n) = i"
    using nth_real_banks [OF n(1)] n(2) all_numbers [OF real_banks_all i] by (simp_all add: n_def)
  then show ?thesis
    unfolding bank_to_number_def by (subst R) (simp add: bank_loop_app 1 2)
qed

text \<open>The relay with number \<open>i\<close>.\<close>

definition out_line :: "int \<Rightarrow> 'a io_card_scheme \<Rightarrow> bool" where
  "out_line i c = relay (port_of i) (bit_of i) c"

lemma switch_port_eq: "p < 6 \<Longrightarrow> switch_port (int p) onoff b c = out_port p onoff b c"
proof -
  assume "p < 6"
  then consider "p = 0" | "p = 1" | "p = 2" | "p = 3" | "p = 4" | "p = 5" by linarith
  then show ?thesis
  proof cases
    case 2
    then show ?thesis by (simp add: switch_port_def out_port_ports(2) [simplified])
  qed (simp_all add: switch_port_def out_port_ports)
qed

lemma change_output_eq:
  assumes "0 \<le> i" "i < 40"
  shows "change_output i onoff c = Some (int (bit_of i), out_port (port_of i) onoff (word_of_nat (bit_of i)) c)"
  using assms
  by (simp add: change_output_def aget_def length_real_banks port_bit_of(1,4,5) [OF assms] switch_port_eq)

lemma change_output_range: "change_output i onoff c = None \<longleftrightarrow> \<not> (0 \<le> i \<and> i < 40)"
  by (auto simp: change_output_def aget_def length_real_banks Let_def)

abbreviation set_line :: "int \<Rightarrow> bool \<Rightarrow> 'a io_card_scheme \<Rightarrow> 'a io_card_scheme" where
  "set_line i v c \<equiv> snd (the (change_output i (of_bool v) c))"

interpretation out_lines: bit_port set_line out_line shadow_ok "{0..<40}"
proof unfold_locales
  fix k :: int and v :: bool and s :: "'a io_card_scheme"
  assume "k \<in> {0..<40}" "shadow_ok s"
  then show "shadow_ok (set_line k v s)"
    by (simp add: change_output_eq port_bit_of(1) shadow_ok_out_port)
next
  fix k j :: int and v :: bool and s :: "'a io_card_scheme"
  assume k: "k \<in> {0..<40}" and j: "j \<in> {0..<40}" and s: "shadow_ok s"
  have u: "unat (word_of_nat (bit_of k) :: u8) = bit_of k"
    using k port_bit_of(2) [of k] by (simp add: unat_of_nat)
  show "out_line j (set_line k v s) = (if j = k then v else out_line j s)"
    using k j s u port_bit_inj [of j k]
    by (auto simp: change_output_eq out_line_def relay_out_port port_bit_of)
qed

lemma mask2int_all: "list_all (\<lambda>k. mask2int (push_bit k 1) = int k) [0..<8]"
  by code_simp

lemma mask2int_single: "k < 8 \<Longrightarrow> mask2int (push_bit k 1) = int k"
  using mask2int_all by (auto simp: list_all_iff)


section \<open>Properties\<close>

text \<open>
  \<open>change_output\<close> of an output number from 0 to 39 sets that relay to \<open>onoff\<close> and moves no other
  relay, on both cards; any other number indexes past \<open>real_banks\<close>.
\<close>

theorem change_output_one_relay:
  assumes "shadow_ok c"
  shows "if 0 \<le> i \<and> i < 40
    then \<exists>c'. change_output i onoff c = Some (int (bit_of i), c') \<and> shadow_ok c' \<and>
      (\<forall>j. 0 \<le> j \<and> j < 40 \<longrightarrow> out_line j c' = (if j = i then onoff \<noteq> 0 else out_line j c))
    else change_output i onoff c = None"
proof (cases "0 \<le> i \<and> i < 40")
  case True
  have "change_output i onoff c = change_output i (of_bool (onoff \<noteq> 0)) c"
    using True by (simp add: change_output_eq out_port_def put_bit_def)
  then have "change_output i onoff c = Some (int (bit_of i), set_line i (onoff \<noteq> 0) c)"
    using True by (simp add: change_output_eq)
  then show ?thesis
    using True out_lines.put_ok [of i c "onoff \<noteq> 0"] out_lines.get_put [of i _ c "onoff \<noteq> 0"] assms by auto
qed (use change_output_range [of i onoff c] in auto)

lemma change_output_one_relay_witness:
  "if 0 \<le> (23::int) \<and> (23::int) < 40
    then \<exists>c'. change_output 23 1 card0 = Some (int (bit_of 23), c') \<and> shadow_ok c' \<and>
      (\<forall>j. 0 \<le> j \<and> j < 40 \<longrightarrow> out_line j c' = (if j = 23 then (1::int) \<noteq> 0 else out_line j card0))
    else change_output 23 1 card0 = None"
  by (rule change_output_one_relay) (simp add: card0_def shadow_ok_def)

text \<open>
  The numbering is one to one: a scan that sees the bit of input \<open>i\<close> change, and only that bit,
  computes the number \<open>i\<close> from it. The four bits of the third port of a card that are not wired
  have no number, and the scan takes a change of bit \<open>b\<close> there for input \<open>b\<close>, which is in bank 0.
\<close>

theorem numbering_inverse:
  "(\<forall>i. 0 \<le> i \<and> i < 40 \<longrightarrow>
      bank_to_number (int (port_of i)) (mask2int (push_bit (bit_of i) 1)) = i) \<and>
   (\<forall>bank \<in> {2, 5}. \<forall>b \<in> {4, 5, 6, 7}. bank_to_number bank b = b)"
proof
  show "\<forall>i. 0 \<le> i \<and> i < 40 \<longrightarrow> bank_to_number (int (port_of i)) (mask2int (push_bit (bit_of i) 1)) = i"
    by (intro allI impI) (simp only: mask2int_single port_bit_of(2) bank_to_number_port_bit)
  show "\<forall>bank \<in> {2, 5}. \<forall>b \<in> {4, 5, 6, 7}. bank_to_number bank b = b"
  proof (intro ballI)
    fix bank b :: int assume bank: "bank \<in> {2, 5}" and b: "b \<in> {4, 5, 6, 7}"
    have "\<not> (rb_bank rb = bank \<and> rb_index rb = b)" if rb: "rb \<in> set real_banks" for rb
    proof
      assume e: "rb_bank rb = bank \<and> rb_index rb = b"
      from rb obtain j where j: "j < 40" "rb = real_banks ! j"
        by (auto simp: in_set_conv_nth length_real_banks)
      then show False using e bank b nth_real_banks [of j] port_bit_of(3) [of "int j"] by auto
    qed
    then show "bank_to_number bank b = b" unfolding bank_to_number_def by (intro bank_loop_skip) blast
  qed
qed

lemma numbering_inverse_witness:
  "bank_to_number (int (port_of 37)) (mask2int (push_bit (bit_of 37) 1)) = 37 \<and> bank_to_number 5 6 = 6"
  using numbering_inverse by simp

end
