(* ===== verification/MsgQueue.thy ===== *)
theory MsgQueue
  imports IoPorts
begin

text \<open>
  The command store between the tasks (\<open>add_msg_queue\<close> and \<open>get_msg_queue\<close> of
  \<open>thread_io/tasks.c\<close>): 50 bytes and a pointer. Both functions run under \<open>msg_queue_lock\<close>, so each is
  one step. The pointer is moved before the byte is written and entry 0 is never used; a command
  added when the pointer is 49 is written past the end of the array.
\<close>

record msgs = io_card +
  msg_queue :: "u8 list"
  msg_queue_ptr :: int

definition add_msg_queue :: "u8 \<Rightarrow> 'a msgs_scheme \<Rightarrow> 'a msgs_scheme option" where
  "add_msg_queue cmd s =
     (if msg_queue_ptr s < MSG_QUEUE_SIZE then do {
        let p = msg_queue_ptr s + 1;
        q \<leftarrow> aset (msg_queue s) p cmd;
        Some (s\<lparr>msg_queue_ptr := p, msg_queue := q\<rparr>)
      } else Some s)"

definition get_msg_queue :: "'a msgs_scheme \<Rightarrow> (u8 \<times> 'a msgs_scheme) option" where
  "get_msg_queue s =
     (if msg_queue_ptr s > 0 then do {
        cmd \<leftarrow> aget (msg_queue s) (msg_queue_ptr s);
        Some (cmd, s\<lparr>msg_queue_ptr := msg_queue_ptr s - 1\<rparr>)
      } else Some (0, s))"

text \<open>\<open>memset(msg_queue,0,sizeof(msg_queue)); msg_queue_ptr = 0;\<close>\<close>

definition init_msg_queue :: "'a msgs_scheme \<Rightarrow> 'a msgs_scheme" where
  "init_msg_queue s = s\<lparr>msg_queue := replicate 50 0, msg_queue_ptr := 0\<rparr>"

section \<open>The commands in the store\<close>

definition msgq_ok :: "'a msgs_scheme \<Rightarrow> bool" where
  "msgq_ok s \<longleftrightarrow> length (msg_queue s) = 50 \<and> 0 \<le> msg_queue_ptr s \<and> msg_queue_ptr s < 50"

text \<open>The commands waiting, the one that \<open>get_msg_queue\<close> returns next first.\<close>

definition pending :: "'a msgs_scheme \<Rightarrow> u8 list" where
  "pending s = rev (take (nat (msg_queue_ptr s)) (tl (msg_queue s)))"

lemma msgq_ok_init [simp]: "msgq_ok (init_msg_queue s)" "pending (init_msg_queue s) = []"
  by (simp_all add: msgq_ok_def init_msg_queue_def pending_def)

lemma length_pending: "msgq_ok s \<Longrightarrow> length (pending s) = nat (msg_queue_ptr s)"
  by (auto simp: msgq_ok_def pending_def min_def)

text \<open>
  A bounded store of commands, as the other tasks see it: what one side adds, the other gets.
\<close>

locale cmd_store =
  fixes add :: "'c \<Rightarrow> 's \<Rightarrow> 's option"
    and next_cmd :: "'s \<Rightarrow> ('c \<times> 's) option"
    and contents :: "'s \<Rightarrow> 'c list"
    and ok :: "'s \<Rightarrow> bool"
    and room :: nat
    and none :: 'c
  assumes add_contents:
      "ok s \<Longrightarrow> length (contents s) < room \<Longrightarrow> \<exists>s'. add c s = Some s' \<and> ok s' \<and> contents s' = c # contents s"
    and next_contents:
      "ok s \<Longrightarrow> \<exists>c s'. next_cmd s = Some (c, s') \<and> ok s' \<and>
         (case contents s of [] \<Rightarrow> c = none \<and> contents s' = [] | d # ds \<Rightarrow> c = d \<and> contents s' = ds)"
begin

fun add_all :: "'c list \<Rightarrow> 's \<Rightarrow> 's option" where
  "add_all [] s = Some s"
| "add_all (c # cs) s = Option.bind (add c s) (add_all cs)"

fun take_n :: "nat \<Rightarrow> 's \<Rightarrow> ('c list \<times> 's) option" where
  "take_n 0 s = Some ([], s)"
| "take_n (Suc n) s =
     Option.bind (next_cmd s) (\<lambda>(c, s). map_option (\<lambda>(cs, s). (c # cs, s)) (take_n n s))"

lemma add_all_contents:
  "ok s \<Longrightarrow> length (contents s) + length cs \<le> room \<Longrightarrow>
   \<exists>s'. add_all cs s = Some s' \<and> ok s' \<and> contents s' = rev cs @ contents s"
proof (induction cs arbitrary: s)
  case (Cons c cs)
  then obtain s1 where s1: "add c s = Some s1" "ok s1" "contents s1 = c # contents s"
    using add_contents [of s c] by auto
  with Cons show ?case by fastforce
qed simp

lemma take_n_contents:
  "ok s \<Longrightarrow> n \<le> length (contents s) \<Longrightarrow>
   \<exists>s'. take_n n s = Some (take n (contents s), s') \<and> ok s' \<and> contents s' = drop n (contents s)"
proof (induction n arbitrary: s)
  case (Suc n)
  obtain d ds where c: "contents s = d # ds" using Suc.prems(2) by (cases "contents s") auto
  obtain s1 where s1: "next_cmd s = Some (d, s1)" "ok s1" "contents s1 = ds"
    using next_contents [OF Suc.prems(1)] c by auto
  with Suc.IH [of s1] Suc.prems(2) c show ?case by auto
qed simp

text \<open>Commands come out in the opposite order to the one they were added in.\<close>

lemma burst_reversed:
  assumes "ok s" "contents s = []" "length cs \<le> room"
  shows "\<exists>s1 s2. add_all cs s = Some s1 \<and> take_n (length cs) s1 = Some (rev cs, s2) \<and> contents s2 = []"
proof -
  obtain s1 where s1: "add_all cs s = Some s1" "ok s1" "contents s1 = rev cs"
    using add_all_contents [of s cs] assms by auto
  with take_n_contents [of s1 "length cs"] show ?thesis by auto
qed

end

lemma take_snoc_update:
  "p < length xs \<Longrightarrow> rev (take (Suc p) (xs[p := v])) = v # rev (take p xs)"
  by (simp add: take_Suc_conv_app_nth)

lemma add_msg_queue_ok:
  assumes ok: "msgq_ok s" and room: "length (pending s) < 49"
  shows "\<exists>s'. add_msg_queue c s = Some s' \<and> msgq_ok s' \<and> pending s' = c # pending s"
proof -
  let ?p = "nat (msg_queue_ptr s)"
  have p: "0 \<le> msg_queue_ptr s" "msg_queue_ptr s < 49" "length (msg_queue s) = 50"
    using ok room length_pending [OF ok] by (auto simp: msgq_ok_def)
  obtain x xs where q: "msg_queue s = x # xs" using p(3) by (cases "msg_queue s") auto
  have n: "nat (msg_queue_ptr s + 1) = Suc ?p" using p by linarith
  have "?p < length xs" using p q by simp
  then have "rev (take (Suc ?p) (xs[?p := c])) = c # rev (take ?p xs)" by (rule take_snoc_update)
  then show ?thesis
    using p by (auto simp: add_msg_queue_def aset_def msgq_ok_def pending_def q n)
qed

lemma get_msg_queue_ok:
  assumes ok: "msgq_ok s"
  shows "\<exists>c s'. get_msg_queue s = Some (c, s') \<and> msgq_ok s' \<and>
    (case pending s of [] \<Rightarrow> c = 0 \<and> pending s' = [] | d # ds \<Rightarrow> c = d \<and> pending s' = ds)"
proof (cases "msg_queue_ptr s = 0")
  case True
  then show ?thesis using ok by (auto simp: get_msg_queue_def msgq_ok_def pending_def)
next
  case False
  define n where "n = nat (msg_queue_ptr s) - 1"
  have p: "0 < msg_queue_ptr s" "msg_queue_ptr s < 50" "length (msg_queue s) = 50"
    using ok False by (auto simp: msgq_ok_def)
  obtain x xs where q: "msg_queue s = x # xs" using p(3) by (cases "msg_queue s") auto
  have n: "nat (msg_queue_ptr s) = Suc n" "nat (msg_queue_ptr s - 1) = n" "n < length xs"
    using p q by (auto simp: n_def)
  have "pending s = xs ! n # rev (take n xs)"
    using n by (simp add: pending_def q take_Suc_conv_app_nth)
  then show ?thesis
    using p n by (auto simp: get_msg_queue_def aget_def msgq_ok_def pending_def q)
qed

interpretation cmdq: cmd_store add_msg_queue get_msg_queue pending msgq_ok 49 0
  using add_msg_queue_ok get_msg_queue_ok by unfold_locales blast+

section \<open>Properties\<close>

text \<open>
  A command that finds the store with room is the next one \<open>get_msg_queue\<close> returns, and the
  commands that were waiting wait behind it: the store is last in, first out.
\<close>

theorem add_then_get:
  assumes "msgq_ok s" "msg_queue_ptr s < 49"
  shows "\<exists>s' s''. add_msg_queue c s = Some s' \<and> get_msg_queue s' = Some (c, s'') \<and>
     msgq_ok s'' \<and> pending s'' = pending s"
proof -
  have "length (pending s) < 49" using assms length_pending [OF assms(1)] by (simp add: msgq_ok_def)
  then obtain s' where s': "add_msg_queue c s = Some s'" "msgq_ok s'" "pending s' = c # pending s"
    using cmdq.add_contents [OF assms(1)] by blast
  then show ?thesis using cmdq.next_contents [of s'] by auto
qed

definition msgs0 :: msgs where
  "msgs0 = \<lparr>card_ports = (\<lambda>_. 0), outportstatus = replicate 6 0,
            msg_queue = replicate 50 0, msg_queue_ptr = 0\<rparr>"

lemma msgs0_ok: "msgq_ok msgs0" "msg_queue_ptr msgs0 = 0" "pending msgs0 = []"
  by (simp_all add: msgq_ok_def msgs0_def pending_def)

lemma add_then_get_witness:
  "\<exists>s' s''. add_msg_queue ON_FAN msgs0 = Some s' \<and> get_msg_queue s' = Some (ON_FAN, s'') \<and>
     msgq_ok s'' \<and> pending s'' = pending msgs0"
  by (rule add_then_get) (simp_all add: msgs0_ok)

text \<open>
  C0: A burst of commands (the five that the timer adds when the lights time out) is carried out in
  the opposite order: if \<open>n \<le> 49\<close> commands are added to an empty store and then all are fetched,
  they come out reversed.
\<close>

fun add_msgs :: "u8 list \<Rightarrow> 'a msgs_scheme \<Rightarrow> 'a msgs_scheme option" where
  "add_msgs [] s = Some s"
| "add_msgs (c # cs) s = do { s \<leftarrow> add_msg_queue c s; add_msgs cs s }"

fun get_msgs :: "nat \<Rightarrow> 'a msgs_scheme \<Rightarrow> (u8 list \<times> 'a msgs_scheme) option" where
  "get_msgs 0 s = Some ([], s)"
| "get_msgs (Suc n) s = do {
     (c, s) \<leftarrow> get_msg_queue s;
     (cs, s) \<leftarrow> get_msgs n s;
     Some (c # cs, s)
   }"

lemma add_msgs_all: "add_msgs cs s = cmdq.add_all cs s"
proof (induction cs arbitrary: s)
  case (Cons c cs)
  then show ?case by (cases "add_msg_queue c s") auto
qed simp

lemma get_msgs_n: "get_msgs n s = cmdq.take_n n s"
proof (induction n arbitrary: s)
  case (Suc n)
  show ?case
  proof (cases "get_msg_queue s")
    case (Some cs)
    with Suc show ?thesis by (cases cs; cases "cmdq.take_n n (snd cs)") auto
  qed simp
qed simp

theorem burst_comes_out_reversed:
  assumes "msgq_ok s" "pending s = []" "length cs \<le> 49"
  shows "\<exists>s1 s2. add_msgs cs s = Some s1 \<and> get_msgs (length cs) s1 = Some (rev cs, s2) \<and> pending s2 = []"
  unfolding add_msgs_all get_msgs_n using assms by (rule cmdq.burst_reversed)

lemma burst_comes_out_reversed_witness:
  "\<exists>s1 s2. add_msgs [OFF_LLIGHTS, OFF_RLIGHTS, OFF_LIGHTS, OFF_RUNNING_LIGHTS, OFF_FAN] msgs0 = Some s1 \<and>
     get_msgs 5 s1 = Some ([OFF_FAN, OFF_RUNNING_LIGHTS, OFF_LIGHTS, OFF_RLIGHTS, OFF_LLIGHTS], s2) \<and>
     pending s2 = []"
  using burst_comes_out_reversed [of msgs0 "[OFF_LLIGHTS, OFF_RLIGHTS, OFF_LIGHTS, OFF_RUNNING_LIGHTS, OFF_FAN]"]
  by (simp add: msgs0_ok eval_nat_numeral del: add_msgs.simps get_msgs.simps)

text \<open>
  With 49 commands waiting, \<open>add_msg_queue\<close> passes its own check and writes \<open>msg_queue[50]\<close>, one
  past the end of the array.
\<close>

theorem add_at_49_out_of_bounds:
  assumes "length (msg_queue s) = 50" "msg_queue_ptr s = 49"
  shows "msg_queue_ptr s < MSG_QUEUE_SIZE \<and> add_msg_queue c s = None"
  using assms by (simp add: add_msg_queue_def aset_def)

lemma add_at_49_out_of_bounds_witness:
  "msg_queue_ptr (msgs0\<lparr>msg_queue_ptr := 49\<rparr>) < MSG_QUEUE_SIZE \<and>
   add_msg_queue ON_FAN (msgs0\<lparr>msg_queue_ptr := 49\<rparr>) = None"
  by (rule add_at_49_out_of_bounds) (simp_all add: msgs0_def)

end
