(* ===== verification/HostLink.thy ===== *)
theory HostLink
  imports MsgQueue
begin

text \<open>
  The TCP connection of the TS-7200 to the client and its serial line to the STM32 board. The
  framing is \<open>get_msg\<close>, \<open>send_msg\<close>, \<open>recv_tcp\<close>, \<open>send_tcp\<close>, \<open>put_sock\<close> and \<open>get_sock\<close> of
  \<open>thread_io/cmd_tasks.c\<close> and \<open>test_sock\<close>, \<open>close_tcp\<close> of \<open>thread_io/tasks.c\<close>; the serial
  messages are \<open>send_serial\<close> and \<open>send_serialother\<close>. The operating system is the environment:
  \<open>tcp_in\<close> holds the bytes the client sends before it closes the connection, \<open>send_fails\<close> says of
  each call of \<open>send\<close> whether it fails (a call past the end of the list succeeds), and \<open>tcp_out\<close> and
  \<open>serial_out\<close> record what is written. A buffer is a list of bytes; a read past its end is \<open>None\<close>.
\<close>

record links = msgs +
  sock_open :: int
  tcp_in :: "u8 list"
  tcp_out :: "u8 list"
  send_fails :: "bool list"
  same_msg :: int
  serial_out :: "u8 list"

definition pre_preamble :: "u8 list" where
  "pre_preamble = [0xF8, 0xF0, 0xF0, 0xF0, 0xF0, 0xF0, 0xF0, 0x00]"

definition test_sock :: "'a links_scheme \<Rightarrow> int" where
  "test_sock s = sock_open s"

definition close_tcp :: "'a links_scheme \<Rightarrow> 'a links_scheme" where
  "close_tcp s = (if sock_open s \<noteq> 0 then s\<lparr>sock_open := 0\<rparr> else s)"

section \<open>Sending\<close>

text \<open>\<open>send(global_socket,buf,buflen,...)\<close>: the count, or \<open>-1\<close> with an error other than \<open>EAGAIN\<close>.\<close>

definition sock_send :: "u8 list \<Rightarrow> 'a links_scheme \<Rightarrow> int \<times> 'a links_scheme" where
  "sock_send buf s =
     (case send_fails s of
        True # fs \<Rightarrow> (-1, s\<lparr>send_fails := fs\<rparr>)
      | _ \<Rightarrow> (int (length buf), s\<lparr>send_fails := tl (send_fails s), tcp_out := tcp_out s @ buf\<rparr>))"

definition put_sock :: "u8 list \<Rightarrow> 'a links_scheme \<Rightarrow> int \<times> 'a links_scheme" where
  "put_sock buf s =
     (if test_sock s \<noteq> 0 then
        (let (rc, s) = sock_send buf s in if rc < 0 then (rc, close_tcp s) else (rc, s))
      else (-1, s))"

definition send_tcp :: "u8 list \<Rightarrow> 'a links_scheme \<Rightarrow> int \<times> 'a links_scheme" where
  "send_tcp buf s =
     (let (ret, s) = put_sock buf s in (ret, s\<lparr>same_msg := (if ret < 0 then 1 else 0)\<rparr>))"

text \<open>\<open>for(i = 0;i < msg_len;i++)\<close>: each byte of the message and a zero.\<close>

fun send_body :: "nat \<Rightarrow> int \<Rightarrow> u8 list \<Rightarrow> 'a links_scheme \<Rightarrow> 'a links_scheme option" where
  "send_body 0 i msg s = Some s"
| "send_body (Suc n) i msg s = do {
     b \<leftarrow> aget msg i;
     let s = snd (send_tcp [b] s);
     let s = snd (send_tcp [0] s);
     send_body n (i + 1) msg s
   }"

text \<open>
  The length is sent as the low byte of \<open>msg_len + 1\<close>, then a zero; the loop runs to the incremented
  \<open>msg_len\<close>, so it reads \<open>msg_len + 1\<close> bytes of the buffer.
\<close>

definition send_msg :: "int \<Rightarrow> u8 list \<Rightarrow> u8 \<Rightarrow> 'a links_scheme \<Rightarrow> 'a links_scheme option" where
  "send_msg msg_len msg msg_type s =
     (if test_sock s \<noteq> 0 then
        (let s = snd (send_tcp pre_preamble s);
             msg_len = msg_len + 1;
             s = snd (send_tcp [word_of_int msg_len] s);
             s = snd (send_tcp [0] s);
             s = ((\<lambda>s. snd (send_tcp [0] s)) ^^ 6) s;
             s = snd (send_tcp [msg_type] s);
             s = snd (send_tcp [0] s)
         in send_body (nat msg_len) 0 msg s)
      else Some s)"

section \<open>Receiving\<close>

text \<open>
  \<open>recv(global_socket,buf,buflen,MSG_WAITALL)\<close> waits for \<open>buflen\<close> bytes or for the end of the
  stream, and returns the number it stored; more than the buffer holds is undefined.
\<close>

definition get_sock :: "u8 list \<Rightarrow> nat \<Rightarrow> 'a links_scheme \<Rightarrow> (int \<times> u8 list \<times> 'a links_scheme) option" where
  "get_sock buf buflen s =
     (let got = take buflen (tcp_in s) in
      if length got \<le> length buf
      then Some (int (length got), got @ drop (length got) buf,
                 s\<lparr>tcp_in := drop buflen (tcp_in s)\<rparr>)
      else None)"

definition recv_tcp :: "u8 list \<Rightarrow> nat \<Rightarrow> 'a links_scheme \<Rightarrow> (int \<times> u8 list \<times> 'a links_scheme) option" where
  "recv_tcp str strlen s = (if test_sock s \<noteq> 0 then get_sock str strlen s else Some (-1, str, s))"

text \<open>\<open>preamble\<close> is what the 20 bytes on the stack hold before the call.\<close>

definition get_msg :: "u8 list \<Rightarrow> 'a links_scheme \<Rightarrow> (int \<times> 'a links_scheme) option" where
  "get_msg preamble s = do {
     (ret, preamble, s) \<leftarrow> recv_tcp preamble 16 s;
     if take 8 preamble \<noteq> pre_preamble then Some (-1, s)
     else do {
       low \<leftarrow> aget preamble 8;
       high \<leftarrow> aget preamble 9;
       let len = uint high;
       let len = push_bit 8 len;
       let len = len OR uint low;
       Some (len, s)
     }
   }"

section \<open>The serial line\<close>

definition write_serial :: "u8 \<Rightarrow> 'a links_scheme \<Rightarrow> 'a links_scheme" where
  "write_serial b s = s\<lparr>serial_out := serial_out s @ [b]\<rparr>"

text \<open>\<open>for(i = 0;i < SERIAL_BUFF_SIZE;i++) write_serial(buf[i]);\<close> for the last \<open>n\<close> values of \<open>i\<close>.\<close>

fun write_serial_buf :: "nat \<Rightarrow> int \<Rightarrow> u8 list \<Rightarrow> 'a links_scheme \<Rightarrow> 'a links_scheme option" where
  "write_serial_buf 0 i buf s = Some s"
| "write_serial_buf (Suc n) i buf s = do {
     b \<leftarrow> aget buf i;
     write_serial_buf n (i + 1) buf (write_serial b s)
   }"

definition send_serial :: "u8 \<Rightarrow> 'a links_scheme \<Rightarrow> 'a links_scheme" where
  "send_serial cmd s = ((\<lambda>s. write_serial 0 s) ^^ SERIAL_BUFF_SIZE) (write_serial cmd s)"

definition send_serialother :: "u8 \<Rightarrow> u8 list \<Rightarrow> 'a links_scheme \<Rightarrow> 'a links_scheme option" where
  "send_serialother cmd buf s = write_serial_buf SERIAL_BUFF_SIZE 0 buf (write_serial cmd s)"

section \<open>What the wire carries\<close>

definition pairs :: "u8 list \<Rightarrow> u8 list" where
  "pairs bs = concat (map (\<lambda>b. [b, 0]) bs)"

definition frame :: "int \<Rightarrow> u8 list \<Rightarrow> u8 \<Rightarrow> u8 list" where
  "frame n msg ty = pre_preamble @ [word_of_int (n + 1), 0] @ replicate 6 0 @ [ty, 0] @
     pairs (take (nat (n + 1)) msg)"

lemma send_tcp_good:
  "sock_open s \<noteq> 0 \<Longrightarrow> send_fails s = [] \<Longrightarrow>
   send_tcp buf s = (int (length buf), s\<lparr>same_msg := 0, tcp_out := tcp_out s @ buf\<rparr>)"
  by (simp add: send_tcp_def put_sock_def test_sock_def sock_send_def Let_def)

lemma send_body_good:
  "sock_open s \<noteq> 0 \<Longrightarrow> send_fails s = [] \<Longrightarrow> 0 \<le> i \<Longrightarrow> nat i + n \<le> length msg \<Longrightarrow> 0 < n \<Longrightarrow>
   send_body n i msg s = Some (s\<lparr>same_msg := 0,
     tcp_out := tcp_out s @ pairs (take n (drop (nat i) msg))\<rparr>)"
proof (induction n arbitrary: i s)
  case (Suc n)
  then have i: "nat i < length msg" "aget msg i = Some (msg ! nat i)"
    by (auto simp: aget_def)
  have d: "take (Suc n) (drop (nat i) msg) = msg ! nat i # take n (drop (nat (i + 1)) msg)"
    using i(1) Suc.prems(3) by (simp add: Cons_nth_drop_Suc [symmetric] nat_add_distrib)
  show ?case
  proof (cases "n = 0")
    case True
    then show ?thesis using Suc.prems i d by (simp add: send_tcp_good pairs_def)
  next
    case False
    with Suc.prems i d show ?thesis by (simp add: Suc.IH send_tcp_good pairs_def nat_add_distrib)
  qed
qed simp

lemma send_msg_good:
  assumes "sock_open s \<noteq> 0" "send_fails s = []" "0 \<le> n" "n < int (length msg)"
  shows "send_msg n msg ty s = Some (s\<lparr>same_msg := 0, tcp_out := tcp_out s @ frame n msg ty\<rparr>)"
proof -
  have b: "send_body (nat (n + 1)) 0 msg s' = Some (s'\<lparr>same_msg := 0,
      tcp_out := tcp_out s' @ pairs (take (nat (n + 1)) msg)\<rparr>)"
    if "sock_open s' \<noteq> 0" "send_fails s' = []" for s' :: "'a links_scheme"
    using send_body_good [OF that, of 0 "nat (n + 1)" msg] assms(3,4) by simp
  show ?thesis
    using assms(1,2)
    by (simp add: send_msg_def test_sock_def send_tcp_good b frame_def Let_def eval_nat_numeral)
qed

text \<open>Whatever the connection does, a call that reads within the buffer is defined.\<close>

definition same_but_tcp :: "'a links_scheme \<Rightarrow> 'a links_scheme \<Rightarrow> bool" where
  "same_but_tcp s s' \<longleftrightarrow> s = s'\<lparr>sock_open := sock_open s, tcp_out := tcp_out s,
     send_fails := send_fails s, same_msg := same_msg s\<rparr>"

lemma same_but_tcp_refl [simp]: "same_but_tcp s s"
  by (simp add: same_but_tcp_def)

lemma same_but_tcp_trans: "same_but_tcp s t \<Longrightarrow> same_but_tcp t u \<Longrightarrow> same_but_tcp s u"
  unfolding same_but_tcp_def
proof -
  assume s: "s = t\<lparr>sock_open := sock_open s, tcp_out := tcp_out s, send_fails := send_fails s, same_msg := same_msg s\<rparr>"
    and t: "t = u\<lparr>sock_open := sock_open t, tcp_out := tcp_out t, send_fails := send_fails t, same_msg := same_msg t\<rparr>"
  define a b c d where "a = sock_open s" and "b = tcp_out s" and "c = send_fails s" and "d = same_msg s"
  have "s = t\<lparr>sock_open := a, tcp_out := b, send_fails := c, same_msg := d\<rparr>" using s by (simp add: a_def b_def c_def d_def)
  also have "\<dots> = u\<lparr>sock_open := a, tcp_out := b, send_fails := c, same_msg := d\<rparr>" by (subst t) simp
  finally show "s = u\<lparr>sock_open := sock_open s, tcp_out := tcp_out s, send_fails := send_fails s, same_msg := same_msg s\<rparr>"
    by (simp add: a_def b_def c_def d_def)
qed

lemma same_but_tcp_send: "same_but_tcp s (snd (send_tcp buf s))"
  by (simp add: same_but_tcp_def send_tcp_def put_sock_def sock_send_def close_tcp_def test_sock_def Let_def
      split: list.split bool.split)

lemma send_body_safe:
  "0 \<le> i \<Longrightarrow> nat i + n \<le> length msg \<Longrightarrow> \<exists>s'. send_body n i msg s = Some s' \<and> same_but_tcp s s'"
proof (induction n arbitrary: i s)
  case (Suc n)
  then have a: "aget msg i = Some (msg ! nat i)" by (simp add: aget_def)
  let ?t = "snd (send_tcp [0] (snd (send_tcp [msg ! nat i] s)))"
  have "same_but_tcp s ?t" using same_but_tcp_send same_but_tcp_trans by blast
  moreover obtain s' where "send_body n (i + 1) msg ?t = Some s'" "same_but_tcp ?t s'"
    using Suc.IH [of "i + 1" ?t] Suc.prems by (auto simp: nat_add_distrib)
  ultimately show ?case using same_but_tcp_trans by (fastforce simp: a Let_def)
qed simp

lemma send_msg_safe:
  assumes "0 \<le> n" "n < int (length msg)"
  shows "\<exists>s'. send_msg n msg ty s = Some s' \<and> same_but_tcp s s'"
proof (cases "test_sock s = 0")
  case False
  define t where "t = snd (send_tcp [0] (snd (send_tcp [ty] (((\<lambda>s. snd (send_tcp [0] s)) ^^ 6)
    (snd (send_tcp [0] (snd (send_tcp [word_of_int (n + 1)] (snd (send_tcp pre_preamble s))))))))))"
  have six: "same_but_tcp u (((\<lambda>s. snd (send_tcp [0] s)) ^^ k) u)" for k and u :: "'a links_scheme"
    by (induction k) (auto intro: same_but_tcp_trans [OF _ same_but_tcp_send])
  have "same_but_tcp s t" unfolding t_def
    by (intro same_but_tcp_trans [OF _ same_but_tcp_send] same_but_tcp_trans [OF _ six] same_but_tcp_refl)
  moreover have "nat (n + 1) \<le> length msg" using assms by linarith
  then obtain s' where "send_body (nat (n + 1)) 0 msg t = Some s'" "same_but_tcp t s'"
    using send_body_safe [of 0 "nat (n + 1)" msg t] by auto
  moreover have "send_msg n msg ty s = send_body (nat (n + 1)) 0 msg t"
    unfolding send_msg_def Let_def t_def using False by (rule if_P)
  ultimately show ?thesis using same_but_tcp_trans by metis
qed (simp add: send_msg_def)

lemma send_body_frame: "send_body n i msg s = Some s' \<Longrightarrow> same_but_tcp s s'"
proof (induction n arbitrary: i s)
  case (Suc n)
  from Suc.prems obtain b where b: "send_body n (i + 1) msg (snd (send_tcp [0] (snd (send_tcp [b] s)))) = Some s'"
    by (auto simp: Let_def bind_eq_Some_conv)
  have "same_but_tcp s (snd (send_tcp [0] (snd (send_tcp [b] s))))" using same_but_tcp_send same_but_tcp_trans by blast
  with Suc.IH [OF b] show ?case using same_but_tcp_trans by blast
qed simp

lemma send_msg_frame_rule: "send_msg n msg ty s = Some s' \<Longrightarrow> same_but_tcp s s'"
proof (cases "test_sock s = 0")
  case False
  assume "send_msg n msg ty s = Some s'"
  moreover define t where "t = snd (send_tcp [0] (snd (send_tcp [ty] (((\<lambda>s. snd (send_tcp [0] s)) ^^ 6)
    (snd (send_tcp [0] (snd (send_tcp [word_of_int (n + 1)] (snd (send_tcp pre_preamble s))))))))))"
  have six: "same_but_tcp u (((\<lambda>s. snd (send_tcp [0] s)) ^^ k) u)" for k and u :: "'a links_scheme"
    by (induction k) (auto intro: same_but_tcp_trans [OF _ same_but_tcp_send])
  have "same_but_tcp s t" unfolding t_def
    by (intro same_but_tcp_trans [OF _ same_but_tcp_send] same_but_tcp_trans [OF _ six] same_but_tcp_refl)
  moreover have "send_msg n msg ty s = send_body (nat (n + 1)) 0 msg t"
    unfolding send_msg_def Let_def t_def using False by (rule if_P)
  ultimately show ?thesis using send_body_frame same_but_tcp_trans by metis
qed (simp add: send_msg_def)

text \<open>A closed connection: nothing is sent.\<close>

lemma send_msg_closed: "sock_open s = 0 \<Longrightarrow> send_msg n msg ty s = Some s"
  by (simp add: send_msg_def test_sock_def)

lemma write_serial_buf_eq:
  "0 \<le> i \<Longrightarrow> nat i + n \<le> length buf \<Longrightarrow>
   write_serial_buf n i buf s = Some (s\<lparr>serial_out := serial_out s @ take n (drop (nat i) buf)\<rparr>)"
proof (induction n arbitrary: i s)
  case (Suc n)
  then have i: "nat i < length buf" "aget buf i = Some (buf ! nat i)"
    by (auto simp: aget_def)
  have "take (Suc n) (drop (nat i) buf) = buf ! nat i # take n (drop (nat (i + 1)) buf)"
    using i(1) Suc.prems(1) by (simp add: Cons_nth_drop_Suc [symmetric] nat_add_distrib)
  with Suc i show ?case by (simp add: write_serial_def nat_add_distrib)
qed simp

lemma send_serialother_eq:
  "50 \<le> length buf \<Longrightarrow>
   send_serialother cmd buf s = Some (s\<lparr>serial_out := serial_out s @ cmd # take 50 buf\<rparr>)"
  by (simp add: send_serialother_def write_serial_buf_eq write_serial_def)

lemma length_pairs: "length (pairs bs) = 2 * length bs"
  by (induction bs) (simp_all add: pairs_def)

section \<open>Properties\<close>

text \<open>
  On an open connection that accepts every byte, \<open>send_msg n msg type\<close> writes one frame: the
  preamble, the low byte of \<open>n + 1\<close> and a zero, six zeros, the type and a zero, and each of the first
  \<open>n + 1\<close> bytes of the buffer followed by a zero. It touches nothing else of the state.
\<close>

theorem send_msg_frame:
  assumes "sock_open s \<noteq> 0" "send_fails s = []" "0 \<le> n" "n < int (length msg)"
  shows "send_msg n msg ty s = Some (s\<lparr>same_msg := 0, tcp_out := tcp_out s @
     pre_preamble @ [word_of_int (n + 1), 0] @ replicate 6 0 @ [ty, 0] @
     concat (map (\<lambda>b. [b, 0]) (take (nat (n + 1)) msg))\<rparr>)"
  using send_msg_good [OF assms] by (simp add: frame_def pairs_def)

definition links0 :: links where
  "links0 = \<lparr>card_ports = (\<lambda>_. 0), outportstatus = replicate 6 0,
     msg_queue = replicate 50 0, msg_queue_ptr = 0, sock_open = 1, tcp_in = [], tcp_out = [],
     send_fails = [], same_msg = 0, serial_out = []\<rparr>"

lemma send_msg_frame_witness:
  "send_msg 4 [0x33, 0x32, 0, 0, 0, 7] SEND_RPM links0 = Some (links0\<lparr>same_msg := 0, tcp_out := tcp_out links0 @
     pre_preamble @ [word_of_int (4 + 1), 0] @ replicate 6 0 @ [SEND_RPM, 0] @
     concat (map (\<lambda>b. [b, 0]) (take (nat (4 + 1)) [0x33, 0x32, 0, 0, 0, 7]))\<rparr>)"
  by (rule send_msg_frame) (simp_all add: links0_def)

text \<open>
  The header \<open>send_msg\<close> writes is one \<open>get_msg\<close> accepts, and the length \<open>get_msg\<close> finds in it is
  \<open>n + 1\<close> modulo 256: the round trip is exact up to 254 and loses the length of a longer message.
\<close>

theorem get_msg_of_send_msg:
  assumes "sock_open s \<noteq> 0" "send_fails s = []" "0 \<le> n" "n < int (length msg)"
    "sock_open r \<noteq> 0" "tcp_out s = []" "length buf = 20"
  shows "\<exists>s' r'. send_msg n msg ty s = Some s' \<and>
     get_msg buf (r\<lparr>tcp_in := tcp_out s'\<rparr>) = Some ((n + 1) mod 256, r') \<and>
     tcp_in r' = [ty, 0] @ concat (map (\<lambda>b. [b, 0]) (take (nat (n + 1)) msg))"
proof -
  let ?s' = "s\<lparr>same_msg := 0, tcp_out := frame n msg ty\<rparr>"
  have s': "send_msg n msg ty s = Some ?s'" using send_msg_good [OF assms(1-4)] assms(6) by simp
  have h: "take 16 (frame n msg ty) = pre_preamble @ [word_of_int (n + 1), 0] @ replicate 6 0"
    and t: "drop 16 (frame n msg ty) = [ty, 0] @ pairs (take (nat (n + 1)) msg)"
    by (simp_all add: frame_def pre_preamble_def eval_nat_numeral)
  have u: "uint (word_of_int n + 1 :: u8) = (n + 1) mod 256"
  proof -
    have "(word_of_int n + 1 :: u8) = word_of_int (n + 1)" by simp
    then show ?thesis by (simp only: unsigned_of_int take_bit_eq_mod) simp
  qed
  have "get_msg buf (r\<lparr>tcp_in := frame n msg ty\<rparr>) =
      Some ((n + 1) mod 256, r\<lparr>tcp_in := drop 16 (frame n msg ty)\<rparr>)"
    using assms(5,7)
    by (simp add: get_msg_def recv_tcp_def test_sock_def get_sock_def Let_def h t pre_preamble_def aget_def
        u)
  then show ?thesis using s' t by (auto simp: pairs_def)
qed

lemma get_msg_of_send_msg_witness:
  "\<exists>s' r'. send_msg 4 [0x33, 0x32, 0, 0, 0, 7] SEND_RPM links0 = Some s' \<and>
     get_msg (replicate 20 0) (links0\<lparr>tcp_in := tcp_out s'\<rparr>) = Some ((4 + 1) mod 256, r') \<and>
     tcp_in r' = [SEND_RPM, 0] @ concat (map (\<lambda>b. [b, 0]) (take (nat (4 + 1)) [0x33, 0x32, 0, 0, 0, 7]))"
  by (rule get_msg_of_send_msg) (simp_all add: links0_def)

text \<open>
  A serial message to the STM32 is the command byte and exactly 50 bytes of the buffer, as the
  receiving task on the STM32 counts them; a buffer of fewer than 50 bytes is read out of bounds.
\<close>

theorem send_serialother_51:
  "send_serialother cmd buf s =
     (if 50 \<le> length buf then Some (s\<lparr>serial_out := serial_out s @ cmd # take 50 buf\<rparr>) else None)"
proof (cases "50 \<le> length buf")
  case False
  have oob: "write_serial_buf n i buf s = None" if "0 \<le> i" "i \<le> int (length buf)" "int (length buf) < i + int n" for n i and s :: "'a links_scheme"
    using that
  proof (induction n arbitrary: i s)
    case (Suc n)
    then show ?case by (cases "i < int (length buf)") (auto simp: aget_def)
  qed simp
  then show ?thesis
    using False oob [of 0 50 "write_serial cmd s"] by (simp add: send_serialother_def)
qed (simp add: send_serialother_eq)

end
