(* ===== verification/Config.thy ===== *)
theory Config
  imports OList Cmds
begin

text \<open>
  The files of the TS-7200 (\<open>thread_io/cs_client/config_file.c\<close>): the output database
  (\<open>olLoadConfig\<close>, \<open>olWriteConfig\<close>), the parameters (\<open>LoadParams\<close>, \<open>WriteParams\<close>), the odometer and the
  waypoints. A file is a list of bytes, \<open>None\<close> one that cannot be opened. Structures are written
  as the ARM compiler lays them out: an \<open>O_DATA\<close> is 48 bytes with 3 bytes of padding, a
  \<open>PARAM_STRUCT\<close> 17 little-endian \<open>int\<close>s. The message texts are not modelled.
\<close>

type_synonym cfile = "u8 list"

section \<open>Reading\<close>

text \<open>
  \<open>read(fp,buf,n)\<close>: up to \<open>n\<close> bytes of what is left of the file go to the start of the buffer, and
  the rest of the buffer keeps its bytes.
\<close>

definition file_read :: "nat \<Rightarrow> u8 list \<Rightarrow> cfile \<Rightarrow> u8 list \<times> cfile" where
  "file_read n buf f = (take n f @ drop (length (take n f)) buf, drop n f)"

text \<open>\<open>read(fp,&id,1)\<close> leaves \<open>id\<close> as it is at the end of the file.\<close>

definition read_id :: "u8 \<Rightarrow> cfile \<Rightarrow> u8 \<times> cfile" where
  "read_id id0 f = (case f of [] \<Rightarrow> (id0, []) | b # f' \<Rightarrow> (b, f'))"

section \<open>Structures as bytes\<close>

definition le32 :: "u32 \<Rightarrow> u8 list" where
  "le32 w = [ucast w, ucast (drop_bit 8 w), ucast (drop_bit 16 w), ucast (drop_bit 24 w)]"

definition le32_of :: "u8 list \<Rightarrow> u32" where
  "le32_of bs = ucast (bs ! 0) OR push_bit 8 (ucast (bs ! 1)) OR
     push_bit 16 (ucast (bs ! 2)) OR push_bit 24 (ucast (bs ! 3))"

lemma length_le32 [simp]: "length (le32 w) = 4"
  by (simp add: le32_def)

lemma le32_of_le32 [byte_simps]: "le32_of (le32 w) = w"
proof (rule bit_word_eqI)
  fix n assume "n < LENGTH(32)"
  then consider "n < 8" | "8 \<le> n" "n < 16" | "16 \<le> n" "n < 24" | "24 \<le> n" "n < 32" by force
  then show "bit (le32_of (le32 w)) n = bit w n"
    by cases (auto simp: le32_def le32_of_def bit_simps dest: bit_imp_le_length)
qed

text \<open>\<open>pads\<close> are the three padding bytes, which have no defined value.\<close>

definition o_data_bytes :: "u8 list \<Rightarrow> o_data \<Rightarrow> u8 list" where
  "o_data_bytes pads d =
     o_label d @ [o_port d, o_onoff d, o_input_port d, o_polarity d, o_type d, pads ! 0] @
     le32 (o_time_delay d) @ le32 (o_time_left d) @ [o_pulse_time d, o_reset d, pads ! 1, pads ! 2]"

definition o_data_of :: "u8 list \<Rightarrow> o_data" where
  "o_data_of bs = \<lparr>o_label = take 30 bs, o_port = bs ! 30, o_onoff = bs ! 31,
     o_input_port = bs ! 32, o_polarity = bs ! 33, o_type = bs ! 34,
     o_time_delay = le32_of (take 4 (drop 36 bs)), o_time_left = le32_of (take 4 (drop 40 bs)),
     o_pulse_time = bs ! 44, o_reset = bs ! 45\<rparr>"

abbreviation (input) sizeof_O_DATA :: nat where "sizeof_O_DATA \<equiv> 48"

definition label_ok :: "o_data \<Rightarrow> bool" where
  "label_ok d \<longleftrightarrow> length (o_label d) = 30"

lemma length_o_data_bytes: "label_ok d \<Longrightarrow> length (o_data_bytes pads d) = 48"
  by (simp add: o_data_bytes_def label_ok_def)

lemma o_data_of_bytes: "label_ok d \<Longrightarrow> o_data_of (o_data_bytes pads d) = d"
  by (simp add: o_data_bytes_def o_data_of_def label_ok_def nth_append byte_simps)

section \<open>The output database\<close>

text \<open>The loop of \<open>olLoadConfig\<close>: \<open>mem\<close> is the memory of the local \<open>o_data\<close>.\<close>

fun ol_load_loop :: "nat \<Rightarrow> int \<Rightarrow> u8 list \<Rightarrow> cfile \<Rightarrow> oalist \<Rightarrow> oalist" where
  "ol_load_loop 0 i mem f db = db"
| "ol_load_loop (Suc n) i mem f db =
     (let (mem, f) = file_read sizeof_O_DATA mem f in
      ol_load_loop n (i + 1) mem f (al_insert i (o_data_of mem) db))"

text \<open>\<open>id0\<close> and \<open>mem\<close> are the uninitialised locals.\<close>

definition olLoadConfig :: "u8 \<Rightarrow> u8 list \<Rightarrow> cfile option \<Rightarrow> oalist \<Rightarrow> int \<times> oalist" where
  "olLoadConfig id0 mem fo db =
     (case fo of None \<Rightarrow> (-2, db)
      | Some f \<Rightarrow>
          (let (id, f) = read_id id0 f in
           if id \<noteq> 0xAA then (-1, db)
           else (0, ol_load_loop (nat NUM_PORT_BITS) 0 mem f db)))"

text \<open>A record that is not found is written from \<open>NULL\<close>: the call fails and nothing is written.\<close>

definition olWriteConfig :: "(int \<Rightarrow> u8 list) \<Rightarrow> nat \<Rightarrow> oalist \<Rightarrow> cfile" where
  "olWriteConfig pads osize db =
     0xAA # concat (map (\<lambda>i. case map_of db i of None \<Rightarrow> [] | Some d \<Rightarrow> o_data_bytes (pads i) d)
                        (map int [0..<osize div sizeof_O_DATA]))"

section \<open>The parameters\<close>

record params =
  p_rpm_mph_update_rate :: int
  p_fpga_xmit_rate :: int
  p_high_rev_limit :: int
  p_low_rev_limit :: int
  p_cooling_fan_on :: int
  p_cooling_fan_off :: int
  p_blower_enabled :: int
  p_blower1_on :: int
  p_blower2_on :: int
  p_blower3_on :: int
  p_lights_on_delay :: int
  p_engine_temp_limit :: int
  p_batt_box_temp :: int
  p_test_bank :: int
  p_password_timeout :: int
  p_password_retries :: int
  p_baudrate3 :: int

definition params_list :: "params \<Rightarrow> int list" where
  "params_list p =
     [p_rpm_mph_update_rate p, p_fpga_xmit_rate p, p_high_rev_limit p, p_low_rev_limit p,
      p_cooling_fan_on p, p_cooling_fan_off p, p_blower_enabled p, p_blower1_on p,
      p_blower2_on p, p_blower3_on p, p_lights_on_delay p, p_engine_temp_limit p,
      p_batt_box_temp p, p_test_bank p, p_password_timeout p, p_password_retries p,
      p_baudrate3 p]"

definition params_of :: "int list \<Rightarrow> params" where
  "params_of xs =
     \<lparr>p_rpm_mph_update_rate = xs ! 0, p_fpga_xmit_rate = xs ! 1, p_high_rev_limit = xs ! 2,
      p_low_rev_limit = xs ! 3, p_cooling_fan_on = xs ! 4, p_cooling_fan_off = xs ! 5,
      p_blower_enabled = xs ! 6, p_blower1_on = xs ! 7, p_blower2_on = xs ! 8,
      p_blower3_on = xs ! 9, p_lights_on_delay = xs ! 10, p_engine_temp_limit = xs ! 11,
      p_batt_box_temp = xs ! 12, p_test_bank = xs ! 13, p_password_timeout = xs ! 14,
      p_password_retries = xs ! 15, p_baudrate3 = xs ! 16\<rparr>"

text \<open>\<open>int\<close> fields as 32-bit words, and back as signed numbers.\<close>

definition params_bytes :: "params \<Rightarrow> u8 list" where
  "params_bytes p = concat (map (\<lambda>x. le32 (word_of_int x)) (params_list p))"

definition params_of_bytes :: "u8 list \<Rightarrow> params" where
  "params_of_bytes bs = params_of (map (\<lambda>k. sint (le32_of (take 4 (drop (4 * k) bs)))) [0..<17])"

abbreviation (input) sizeof_PARAM_STRUCT :: nat where "sizeof_PARAM_STRUCT \<equiv> 68"

text \<open>\<open>password\<close> is 6 bytes; the file holds 4 of them.\<close>

definition WriteParams :: "params \<Rightarrow> u8 list \<Rightarrow> cfile" where
  "WriteParams ps password = 0xAA # params_bytes ps @ take 4 password @ [0x55]"

definition LoadParams :: "u8 \<Rightarrow> cfile option \<Rightarrow> params \<Rightarrow> u8 list \<Rightarrow> int \<times> params \<times> u8 list" where
  "LoadParams id0 fo ps password =
     (case fo of None \<Rightarrow> (-2, ps, password)
      | Some f \<Rightarrow>
          (let (id, f) = read_id id0 f in
           if id \<noteq> 0xAA then (-3, ps, password)
           else
             let (mem, f) = file_read sizeof_PARAM_STRUCT (params_bytes ps) f;
                 ps = params_of_bytes mem;
                 (password, f) = file_read 4 password f;
                 (id, f) = read_id id f
             in if id \<noteq> 0x55 then (-4, ps, password) else (0, ps, password)))"

section \<open>The waypoints\<close>

text \<open>
  A record is 40 bytes, kept as bytes; \<open>wp\<close> has room for 45 of them. The number of records is an
  unsigned quotient: \<open>filesize - 2\<close> wraps for a file of one byte.
\<close>

abbreviation (input) sizeof_WAYPOINTS :: nat where "sizeof_WAYPOINTS \<equiv> 40"

text \<open>\<open>memset(wp[i].name,0,30)\<close> clears the bytes after the two \<open>float\<close>s.\<close>

fun wp_load_loop :: "nat \<Rightarrow> int \<Rightarrow> cfile \<Rightarrow> u8 list list \<Rightarrow> (u8 list list \<times> cfile) option" where
  "wp_load_loop 0 i f wp = Some (wp, f)"
| "wp_load_loop (Suc n) i f wp = do {
     r \<leftarrow> aget wp i;
     let r = take 8 r @ replicate 30 0 @ drop 38 r;
     let (r, f) = file_read sizeof_WAYPOINTS r f;
     wp \<leftarrow> aset wp i r;
     wp_load_loop n (i + 1) f wp
   }"

definition LoadWayPoints :: "u8 \<Rightarrow> cfile option \<Rightarrow> u8 list list \<Rightarrow> (int \<times> u8 list list) option" where
  "LoadWayPoints id0 fo wp =
     (case fo of None \<Rightarrow> Some (-2, wp)
      | Some f \<Rightarrow>
          (let no_recs = uint (word_of_int (int (length f) - 2) :: u32) div int sizeof_WAYPOINTS;
               (id, f) = read_id id0 f
           in if id \<noteq> 0xAB then Some (-3, wp)
              else do {
                (wp, f) \<leftarrow> wp_load_loop (nat no_recs) 0 f wp;
                let (id, f) = read_id id f;
                if id \<noteq> 0x54 then Some (-4, wp) else Some (no_recs, wp)
              }))"

definition WriteWayPoints :: "u8 list list \<Rightarrow> cfile" where
  "WriteWayPoints wp = 0xAB # hd wp @ [0x54]"

text \<open>\<open>id\<close> is read from an empty file too.\<close>

definition GetFileFormat :: "u8 \<Rightarrow> cfile option \<Rightarrow> int" where
  "GetFileFormat id0 fo =
     (case fo of None \<Rightarrow> -2 | Some f \<Rightarrow> (if fst (read_id id0 f) = 0xAA then 1 else -1))"

text \<open>The odometer: the file is opened for appending and must exist.\<close>

definition LoadOdometer :: "cfile option \<Rightarrow> u32 \<Rightarrow> int \<times> u32" where
  "LoadOdometer fo odo =
     (case fo of None \<Rightarrow> (-2, odo) | Some f \<Rightarrow> (0, le32_of (fst (file_read 4 (le32 odo) f))))"

definition WriteOdometer :: "cfile option \<Rightarrow> u32 \<Rightarrow> int \<times> cfile option" where
  "WriteOdometer fo odo = (case fo of None \<Rightarrow> (-2, None) | Some f \<Rightarrow> (0, Some (f @ le32 odo)))"

text \<open>So what is written to a file that holds a number is never read again.\<close>

lemma odometer_stays:
  "4 \<le> length f \<Longrightarrow> LoadOdometer (snd (WriteOdometer (Some f) x)) odo = LoadOdometer (Some f) odo"
  by (simp add: LoadOdometer_def WriteOdometer_def file_read_def)

section \<open>Lemmas\<close>

lemma file_read_exact: "length bs = n \<Longrightarrow> length buf = n \<Longrightarrow> file_read n buf (bs @ f) = (bs, f)"
  by (simp add: file_read_def)

text \<open>A database that every task assumes: record \<open>i\<close> at index \<open>i\<close>, for the 40 numbers.\<close>

definition db_ok :: "oalist \<Rightarrow> bool" where
  "db_ok db \<longleftrightarrow> map fst db = [0..39] \<and> (\<forall>(i, d) \<in> set db. uint (o_port d) = i \<and> label_ok d)"

lemma ol_load_loop_exact:
  assumes "length pads = length ds" "\<forall>d \<in> set ds. label_ok d" "length mem = 48"
  shows "ol_load_loop (length ds) i mem (concat (map2 o_data_bytes pads ds) @ rest) db =
     fold (\<lambda>(i, d). al_insert i d) (zip (map (\<lambda>k. i + int k) [0..<length ds]) ds) db"
  using assms
proof (induction pads ds arbitrary: i mem db rule: list_induct2)
  case (Cons p ps d ds)
  have e: "file_read 48 mem (o_data_bytes p d @ f) = (o_data_bytes p d, f)" for f
    using Cons.prems by (intro file_read_exact) (simp_all add: length_o_data_bytes)
  have z: "map (\<lambda>k. i + int k) [0..<Suc n] = i # map (\<lambda>k. i + 1 + int k) [0..<n]" for n
    by (simp add: map_upt_Suc del: upt_Suc)
  show ?case
    using Cons by (simp add: e o_data_of_bytes length_o_data_bytes z del: upt_Suc)
qed simp

lemma al_insert_last:
  "(\<forall>x \<in> set db. fst x < i) \<Longrightarrow> al_insert i d db = db @ [(i, d)]"
  using al_insert_append [of db i d "[]"] by simp

lemma fold_al_insert_sorted:
  "sorted_wrt (<) (map fst xs) \<Longrightarrow> (\<forall>x \<in> set db. \<forall>y \<in> set xs. fst x < fst y) \<Longrightarrow>
   fold (\<lambda>(i, d). al_insert i d) xs db = db @ xs"
proof (induction xs arbitrary: db)
  case (Cons x xs)
  obtain i d where x: "x = (i, d)" by (cases x)
  have "al_insert i d db = db @ [(i, d)]" using Cons.prems x by (intro al_insert_last) auto
  then show ?case using Cons.IH [of "db @ [(i, d)]"] Cons.prems x by auto
qed simp

lemma length_params_bytes: "length (params_bytes p) = 68"
  by (simp add: params_bytes_def params_list_def)

definition params_ok :: "params \<Rightarrow> bool" where
  "params_ok p \<longleftrightarrow> (\<forall>x \<in> set (params_list p). - (2 ^ 31) \<le> x \<and> x < 2 ^ 31)"

lemma params_of_list: "params_of (params_list p) = p"
  by (simp add: params_of_def params_list_def)

lemma sint_of_int32: "- (2 ^ 31) \<le> x \<Longrightarrow> x < 2 ^ 31 \<Longrightarrow> sint (word_of_int x :: u32) = x"
  by (simp add: signed_of_int signed_take_bit_int_eq_self)

lemma take_drop_concat_le32:
  "k < length xs \<Longrightarrow> take 4 (drop (4 * k) (concat (map le32 xs))) = le32 (xs ! k)"
proof (induction xs arbitrary: k)
  case (Cons x xs)
  then show ?case by (cases k) (simp_all add: drop_append)
qed simp

lemma params_of_bytes_of: "params_ok p \<Longrightarrow> params_of_bytes (params_bytes p) = p"
proof -
  assume p: "params_ok p"
  let ?xs = "params_list p"
  have len: "length ?xs = 17" by (simp add: params_list_def)
  have "map (\<lambda>k. sint (le32_of (take 4 (drop (4 * k) (params_bytes p))))) [0..<17] = map (\<lambda>k. ?xs ! k) [0..<17]"
  proof (rule map_cong [OF refl])
    fix k assume "k \<in> set [0..<17]"
    then have k: "k < length ?xs" by (simp add: len)
    have "take 4 (drop (4 * k) (params_bytes p)) = le32 (word_of_int (?xs ! k))"
      using take_drop_concat_le32 [of k "map word_of_int ?xs"] k by (simp add: params_bytes_def comp_def)
    then show "sint (le32_of (take 4 (drop (4 * k) (params_bytes p)))) = ?xs ! k"
      using p k by (simp add: byte_simps sint_of_int32 params_ok_def)
  qed
  also have "\<dots> = ?xs" using map_nth [of ?xs] by (simp add: len)
  finally show ?thesis by (simp add: params_of_bytes_def params_of_list)
qed

section \<open>Properties\<close>

text \<open>
  What \<open>WriteParams\<close> writes, \<open>LoadParams\<close> reads back: with parameters in the range of an
  \<open>int\<close> the result is 0, every parameter is restored and the first 4 bytes of the password are;
  the password bytes past them keep what the buffer held.
\<close>

theorem params_round_trip:
  assumes "params_ok ps" "length password = 6" "length password' = 6"
  shows "LoadParams id0 (Some (WriteParams ps password)) ps' password' =
     (0, ps, take 4 password @ drop 4 password')"
  using assms
  by (simp add: LoadParams_def WriteParams_def read_id_def Let_def file_read_exact length_params_bytes
      params_of_bytes_of file_read_def)

definition params0 :: params where
  "params0 = params_of [1, 2, 3, 4, 200, 180, 90, 32, 40, 50, 2, 220, 100, 0, 30, 3, -1]"

lemma params0_ok: "params_ok params0"
  by (simp add: params_ok_def params0_def params_of_def params_list_def)

lemma params_round_trip_witness:
  "LoadParams 0 (Some (WriteParams params0 [0x31, 0x32, 0x33, 0x34, 0, 0])) (params_of (replicate 17 0)) [9, 9, 9, 9, 9, 9] =
     (0, params0, take 4 [0x31, 0x32, 0x33, 0x34, 0, 0] @ drop 4 [9, 9, 9, 9, 9, 9])"
  by (rule params_round_trip) (simp_all add: params0_ok)

text \<open>
  A parameter file that was cut short (the end marker is missing) is reported as \<open>-4\<close>, but the
  parameters have been overwritten with what was in the file; only a bad first byte leaves them alone.
\<close>

theorem load_params_truncated:
  assumes "params_ok ps" "length password = 6" "length password' = 6"
  shows "LoadParams id0 (Some (butlast (WriteParams ps password))) ps' password' =
     (-4, ps, take 4 password @ drop 4 password')"
proof -
  have "butlast (WriteParams ps password) = 0xAA # params_bytes ps @ take 4 password"
    by (simp add: WriteParams_def butlast_append)
  then show ?thesis using assms
    by (simp add: LoadParams_def read_id_def Let_def file_read_exact length_params_bytes
      params_of_bytes_of file_read_def)
qed

lemma load_params_truncated_witness:
  "LoadParams 0 (Some (butlast (WriteParams params0 [1, 2, 3, 4, 0, 0]))) (params_of (replicate 17 0)) [9, 9, 9, 9, 9, 9] =
     (-4, params0, take 4 [1, 2, 3, 4, 0, 0] @ drop 4 [9, 9, 9, 9, 9, 9])"
  by (rule load_params_truncated) (simp_all add: params0_ok)

lemma config_loads:
  assumes "db_ok db" "length mem = 48"
  shows "olLoadConfig id0 mem (Some (olWriteConfig pads (48 * 40) db)) [] = (0, db)"
proof -
  have k: "map fst db = [0..39]" and l: "\<forall>d \<in> set (map snd db). label_ok d"
    using assms(1) by (auto simp: db_ok_def)
  have len: "length db = 40" using arg_cong [OF k, of length] by simp
  have s: "sorted_wrt (<) (map fst db)" unfolding k by simp
  have idx: "map int [0..<40] = map fst db" unfolding k by (simp add: upt_rec upto.simps)
  have "map_of db i = Some d" if "(i, d) \<in> set db" for i d
    using that k by (intro map_of_is_SomeI) simp_all
  then have "concat (map (\<lambda>i. case map_of db i of None \<Rightarrow> [] | Some d \<Rightarrow> o_data_bytes (pads i) d) (map fst db)) =
      concat (map2 o_data_bytes (map pads (map fst db)) (map snd db))"
    unfolding map2_map_map map_map by (intro arg_cong [where f = concat] map_cong) auto
  moreover have "zip (map (\<lambda>k. 0 + int k) [0..<length (map snd db)]) (map snd db) = db"
    using zip_map_fst_snd [of db] by (simp add: len flip: idx)
  ultimately show ?thesis
    using ol_load_loop_exact [of "map pads (map fst db)" "map snd db" mem 0 "[]" "[]"] l assms(2)
      fold_al_insert_sorted [OF s, of "[]"]
    by (simp add: olLoadConfig_def olWriteConfig_def read_id_def len idx del: map_map)
qed

text \<open>
  The database file: what \<open>olWriteConfig\<close> writes of a database with 40 records at the indices 0
  to 39, \<open>olLoadConfig\<close> puts back into an empty list, whatever the padding bytes are.
\<close>

theorem config_round_trip:
  assumes "db_ok db" "length mem = 48"
  shows "olLoadConfig id0 mem (Some (olWriteConfig pads (48 * 40) db)) [] = (0, db)"
  by (rule config_loads [OF assms])

definition o_data0 :: "int \<Rightarrow> o_data" where
  "o_data0 i = \<lparr>o_label = replicate 30 0, o_port = word_of_int i, o_onoff = 0, o_input_port = 0xFF,
     o_polarity = 0, o_type = 0, o_time_delay = 0, o_time_left = 0, o_pulse_time = 0, o_reset = 0\<rparr>"

definition db0 :: oalist where "db0 = map (\<lambda>i. (i, o_data0 i)) [0..39]"

lemma db0_ok: "db_ok db0"
  by (auto simp: db_ok_def db0_def o_data0_def label_ok_def comp_def unsigned_of_int take_bit_eq_mod)

lemma config_round_trip_witness:
  "olLoadConfig 0 (replicate 48 0) (Some (olWriteConfig (\<lambda>_. [1, 2, 3]) (48 * 40) db0)) [] = (0, db0)"
  by (rule config_round_trip) (simp_all add: db0_ok)

end
