(* ===== verification/Sched.thy ===== *)
theory Sched
  imports Banks HostLink Config
begin

text \<open>
  The state the tasks of \<open>sched\<close> share (the globals of \<open>thread_io/tasks.c\<close> and
  \<open>thread_io/cmd_tasks.c\<close>), and the access to a record of the output database through a pointer.
  A task that has found the record at index \<open>k\<close> holds a pointer \<open>otp\<close> to it; the model keeps \<open>k\<close> in
  its place. A store through \<open>otp\<close> changes the record at \<open>k\<close>; \<open>ollist_insert_data(i,&oll,otp)\<close>
  inserts a copy of it at \<open>i\<close>. The invariant \<open>sched_ok\<close> is what the tasks rely on.
\<close>

record IP =
  ip_port :: int
  ip_input :: int
  ip_label :: "u8 list"

text \<open>
  \<open>odometer\<close>, \<open>trip\<close> and the run times are \<open>static\<close> in \<open>tasks.h\<close>, so \<open>tasks.c\<close> and
  \<open>cmd_tasks.c\<close> have a copy each: the fields are those of \<open>tasks.c\<close>, and \<open>cmd_odometer\<close> is the
  copy of \<open>cmd_tasks.c\<close>.
\<close>

record sched = links +
  db :: oalist
  inportstatus :: "u8 list"
  fake_inportstatus1 :: "u8 list"
  fake_inportstatus2 :: "u8 list"
  ip :: "IP list"
  max_ips :: int
  engine_running :: int
  lights_on_countdown :: int
  actual_lights_on_delay :: int
  test_lblinkers :: int
  test_rblinkers :: int
  running_hours :: u8
  running_minutes :: u8
  running_seconds :: u8
  trunning_hours :: u8
  trunning_minutes :: u8
  trunning_seconds :: u8
  odometer :: int
  trip :: int
  cmd_odometer :: int
  ps :: params
  password :: "u8 list"
  param_file :: "cfile option"
  enable_gps_send_data :: int
  enable_adc_send_data :: int
  shutdown_all :: int
  reboot_on_exit :: u8

section \<open>Records through a pointer\<close>

definition otp_get :: "int \<Rightarrow> 'a sched_scheme \<Rightarrow> o_data option" where
  "otp_get k s = map_of (db s) k"

definition otp_set :: "int \<Rightarrow> (o_data \<Rightarrow> o_data) \<Rightarrow> 'a sched_scheme \<Rightarrow> 'a sched_scheme option" where
  "otp_set k f s = do { d \<leftarrow> otp_get k s; Some (s\<lparr>db := al_update k f (db s)\<rparr>) }"

definition otp_insert :: "int \<Rightarrow> int \<Rightarrow> 'a sched_scheme \<Rightarrow> 'a sched_scheme option" where
  "otp_insert i k s = do { d \<leftarrow> otp_get k s; Some (s\<lparr>db := al_insert i d (db s)\<rparr>) }"

text \<open>\<open>change_output\<close> for its effect.\<close>

definition chg_output :: "int \<Rightarrow> int \<Rightarrow> 'a sched_scheme \<Rightarrow> 'a sched_scheme option" where
  "chg_output index onoff s = map_option snd (change_output index onoff s)"

section \<open>The invariant\<close>

definition ips_ok :: "'a sched_scheme \<Rightarrow> bool" where
  "ips_ok s \<longleftrightarrow> length (ip s) = 40 \<and> 0 \<le> max_ips s \<and> max_ips s \<le> 40 \<and>
     (\<forall>e \<in> set (take (nat (max_ips s)) (ip s)). 0 \<le> ip_port e \<and> ip_port e < 40) \<and>
     distinct (map ip_port (take (nat (max_ips s)) (ip s)))"

definition sched_ok :: "'a sched_scheme \<Rightarrow> bool" where
  "sched_ok s \<longleftrightarrow> db_ok (db s) \<and> shadow_ok s \<and> msgq_ok s \<and> ips_ok s \<and>
     length (inportstatus s) = 6 \<and> length (fake_inportstatus1 s) = 6 \<and>
     length (fake_inportstatus2 s) = 6 \<and> length (password s) = 6"

lemma sched_okD:
  assumes "sched_ok s"
  shows "db_ok (db s)" "shadow_ok s" "msgq_ok s" "ips_ok s" "length (inportstatus s) = 6"
    "length (fake_inportstatus1 s) = 6" "length (fake_inportstatus2 s) = 6" "length (password s) = 6"
  using assms by (simp_all add: sched_ok_def)

section \<open>Lemmas on the database\<close>

lemma db_ok_sorted: "db_ok xs \<Longrightarrow> al_sorted xs"
  by (simp add: db_ok_def)

lemma db_ok_lookup: "db_ok xs \<Longrightarrow> 0 \<le> k \<Longrightarrow> k < 40 \<Longrightarrow> \<exists>d. map_of xs k = Some d"
proof -
  assume ok: "db_ok xs" and k: "0 \<le> k" "k < 40"
  have "k \<in> set [0..39]" using k by simp
  then have "k \<in> fst ` set xs" using ok by (simp only: db_ok_def flip: set_map)
  then show ?thesis by (metis map_of_eq_None_iff not_None_eq)
qed

lemma db_ok_record: "db_ok xs \<Longrightarrow> map_of xs k = Some d \<Longrightarrow> uint (o_port d) = k \<and> label_ok d \<and> 0 \<le> k \<and> k < 40"
proof -
  assume ok: "db_ok xs" and k: "map_of xs k = Some d"
  from k have m: "(k, d) \<in> set xs" by (rule map_of_SomeD)
  then have "k \<in> set (map fst xs)" by force
  with ok have "k \<in> {0..39}" by (simp add: db_ok_def)
  with ok m show ?thesis by (auto simp: db_ok_def)
qed

lemma al_insert_same: "al_sorted xs \<Longrightarrow> map_of xs k = Some d \<Longrightarrow> al_insert k d xs = xs"
proof (induction k d xs rule: al_insert.induct)
  case (2 i d j e xs)
  have "\<not> j > i" if "j \<noteq> i"
  proof
    assume "j > i"
    from 2(3) that have "map_of xs i = Some d" by simp
    then have "i \<in> fst ` set xs" by (metis image_eqI fst_conv map_of_SomeD)
    with 2(2) \<open>j > i\<close> show False by fastforce
  qed
  with 2 show ?case by auto
qed simp

lemma db_ok_update:
  assumes "db_ok xs" "\<And>d. o_port (f d) = o_port d" "\<And>d. o_label (f d) = o_label d"
  shows "db_ok (al_update k f xs)"
proof -
  have "(\<forall>(i, d) \<in> set xs. uint (o_port d) = i \<and> label_ok d) \<Longrightarrow>
      (\<forall>(i, d) \<in> set (al_update k f xs). uint (o_port d) = i \<and> label_ok d)"
    by (induction xs) (auto simp: assms(2,3) label_ok_def split: if_splits)
  then show ?thesis using assms(1) by (simp add: db_ok_def)
qed

lemma otp_insert_same:
  assumes "sched_ok s" "otp_get k s = Some d"
  shows "otp_insert (uint (o_port d)) k s = Some s"
  using assms db_ok_record [of "db s" k d] al_insert_same [of "db s" k d]
  by (simp add: otp_insert_def otp_get_def sched_okD db_ok_sorted)

lemma otp_get_update:
  "otp_get j (s\<lparr>db := al_update k f (db s)\<rparr>) = (if j = k then map_option f (otp_get k s) else otp_get j s)"
  by (simp add: otp_get_def odb.lookup_modify)

lemma sched_ok_update:
  assumes "sched_ok s" "\<And>d. o_port (f d) = o_port d" "\<And>d. o_label (f d) = o_label d"
  shows "sched_ok (s\<lparr>db := al_update k f (db s)\<rparr>)"
  using assms db_ok_update [of "db s" f k]
  by (simp add: sched_ok_def ips_ok_def shadow_ok_def msgq_ok_def)

end
