(* ===== verification/Outputs.thy ===== *)
theory Outputs
  imports Sched
begin

text \<open>
  What a change of an input does to an output (\<open>set_output\<close> of \<open>thread_io/tasks.c\<close>), by the type
  of the output: 0 follows the input, 1 toggles at every second change, 2 and 3 switch on for a
  time that the timer task counts down, 4 is the emergency stop. \<open>output_spec\<close> states it on one
  record, and \<open>set_output_run\<close> that \<open>set_output\<close> refines it. \<open>init_ips\<close> builds the table from the
  inputs to the outputs.
\<close>

section \<open>The program\<close>

definition TOGGLE_OTP :: "int \<Rightarrow> 'a sched_scheme \<Rightarrow> 'a sched_scheme option" where
  "TOGGLE_OTP k s = otp_set k (\<lambda>d. d\<lparr>o_onoff := (if o_onoff d = 1 then 0 else 1)\<rparr>) s"

text \<open>\<open>change_output(otp->port,otp->onoff); ollist_insert_data(otp->port,&oll,otp);\<close>\<close>

definition output_and_insert :: "int \<Rightarrow> 'a sched_scheme \<Rightarrow> 'a sched_scheme option" where
  "output_and_insert k s = do {
     d \<leftarrow> otp_get k s;
     s \<leftarrow> chg_output (uint (o_port d)) (uint (o_onoff d)) s;
     otp_insert (uint (o_port d)) k s
   }"

definition set_output :: "int \<Rightarrow> int \<Rightarrow> 'a sched_scheme \<Rightarrow> 'a sched_scheme option" where
  "set_output k onoff s = do {
     d \<leftarrow> otp_get k s;
     if o_type d = 0 then do {
       s \<leftarrow> (if o_polarity d = 1
              then otp_set k (\<lambda>d. d\<lparr>o_onoff := (if onoff = 1 then 0 else 1)\<rparr>) s
              else otp_set k (\<lambda>d. d\<lparr>o_onoff := word_of_int onoff\<rparr>) s);
       output_and_insert k s
     }
     else if o_type d = 1 then
       (if o_reset d = 0 then do {
          s \<leftarrow> otp_set k (\<lambda>d. d\<lparr>o_reset := 1\<rparr>) s;
          s \<leftarrow> TOGGLE_OTP k s;
          output_and_insert k s
        }
        else if o_reset d = 1 then otp_set k (\<lambda>d. d\<lparr>o_reset := 0\<rparr>) s
        else Some s)
     else if o_type d = 2 \<or> o_type d = 3 then
       (if o_reset d = 0 then do {
          s \<leftarrow> otp_set k (\<lambda>d. d\<lparr>o_reset := 1\<rparr>) s;
          s \<leftarrow> otp_set k (\<lambda>d. d\<lparr>o_time_left := o_time_delay d\<rparr>) s;
          s \<leftarrow> otp_set k (\<lambda>d. d\<lparr>o_onoff := 1\<rparr>) s;
          s \<leftarrow> chg_output (uint (o_port d)) 1 s;
          otp_insert (uint (o_port d)) k s
        }
        else Some s)
     else if o_type d = 4 then
       (if o_reset d = 0 then do {
          s \<leftarrow> otp_set k (\<lambda>d. d\<lparr>o_reset := 1\<rparr>) s;
          s \<leftarrow> otp_set k (\<lambda>d. d\<lparr>o_onoff := 0\<rparr>) s;
          s \<leftarrow> output_and_insert k s;
          add_msg_queue ESTOP_SIGNAL s
        }
        else if o_reset d = 1 then otp_set k (\<lambda>d. d\<lparr>o_reset := 3\<rparr>) s
        else Some s)
     else Some s
   }"

section \<open>The specification\<close>

text \<open>The record afterwards, the relay that is written (if one is), and whether a stop is signalled.\<close>

fun output_spec :: "int \<Rightarrow> o_data \<Rightarrow> o_data \<times> bool option \<times> bool" where
  "output_spec onoff d =
     (if o_type d = 0 then
        (let v = (if o_polarity d = 1 then (if onoff = 1 then 0 else 1) else word_of_int onoff)
         in (d\<lparr>o_onoff := v\<rparr>, Some (v \<noteq> 0), False))
      else if o_type d = 1 then
        (if o_reset d = 0 then
           (let v = (if o_onoff d = 1 then 0 else 1)
            in (d\<lparr>o_reset := 1, o_onoff := v\<rparr>, Some (v \<noteq> 0), False))
         else if o_reset d = 1 then (d\<lparr>o_reset := 0\<rparr>, None, False)
         else (d, None, False))
      else if o_type d = 2 \<or> o_type d = 3 then
        (if o_reset d = 0
         then (d\<lparr>o_reset := 1, o_time_left := o_time_delay d, o_onoff := 1\<rparr>, Some True, False)
         else (d, None, False))
      else if o_type d = 4 then
        (if o_reset d = 0 then (d\<lparr>o_reset := 1, o_onoff := 0\<rparr>, Some False, True)
         else if o_reset d = 1 then (d\<lparr>o_reset := 3\<rparr>, None, False)
         else (d, None, False))
      else (d, None, False))"

declare output_spec.simps [simp del]

section \<open>Effects on the state\<close>

text \<open>The state after the record at \<open>k\<close> becomes \<open>d\<close> and relay \<open>k\<close> is written with \<open>v\<close>.\<close>

definition put_record :: "int \<Rightarrow> o_data \<Rightarrow> 'a sched_scheme \<Rightarrow> 'a sched_scheme" where
  "put_record k d s = s\<lparr>db := al_update k (\<lambda>_. d) (db s)\<rparr>"

definition drive :: "int \<Rightarrow> bool \<Rightarrow> 'a sched_scheme \<Rightarrow> 'a sched_scheme" where
  "drive k v s = set_line k v s"

lemma chg_output_drive:
  assumes "0 \<le> k" "k < 40"
  shows "chg_output k onoff s = Some (drive k (onoff \<noteq> 0) s)"
  using assms by (simp add: chg_output_def drive_def change_output_eq out_port_def put_bit_def)

lemma drive_frame [frame_simps]:
  assumes "0 \<le> k" "k < 40"
  shows "db (drive k v s) = db s" "msg_queue (drive k v s) = msg_queue s"
    "msg_queue_ptr (drive k v s) = msg_queue_ptr s" "ip (drive k v s) = ip s"
    "max_ips (drive k v s) = max_ips s" "inportstatus (drive k v s) = inportstatus s"
    "fake_inportstatus1 (drive k v s) = fake_inportstatus1 s"
    "fake_inportstatus2 (drive k v s) = fake_inportstatus2 s" "password (drive k v s) = password s"
    "sched.more (drive k v s) = sched.more s"
  using assms by (simp_all add: drive_def change_output_eq out_port_def store_port_def Let_def)

lemma sched_ok_drive: "sched_ok s \<Longrightarrow> 0 \<le> k \<Longrightarrow> k < 40 \<Longrightarrow> sched_ok (drive k v s)"
  using out_lines.put_ok [of k s v]
  by (simp add: sched_ok_def frame_simps ips_ok_def msgq_ok_def) (simp add: drive_def)

lemma out_line_drive:
  "sched_ok s \<Longrightarrow> 0 \<le> k \<Longrightarrow> k < 40 \<Longrightarrow> 0 \<le> j \<Longrightarrow> j < 40 \<Longrightarrow>
   out_line j (drive k v s) = (if j = k then v else out_line j s)"
  unfolding drive_def using out_lines.get_put [of k j s v] by (simp add: sched_okD)

lemma otp_get_drive [frame_simps]: "0 \<le> k \<Longrightarrow> k < 40 \<Longrightarrow> otp_get j (drive k v s) = otp_get j s"
  by (simp add: otp_get_def frame_simps)

lemma out_line_db [frame_simps]: "out_line j (s\<lparr>db := x\<rparr>) = out_line j s"
  by (simp add: out_line_def relay_def)

lemma out_line_put_record [frame_simps]: "out_line j (put_record k d s) = out_line j s"
  by (simp add: put_record_def frame_simps)

lemma put_record_frame [frame_simps]:
  "msg_queue (put_record k d s) = msg_queue s" "msg_queue_ptr (put_record k d s) = msg_queue_ptr s"
  "pending (put_record k d s) = pending s"
  by (simp_all add: put_record_def pending_def)

lemma otp_get_put_record: "otp_get j (put_record k d s) = (if j = k then map_option (\<lambda>_. d) (otp_get k s) else otp_get j s)"
  by (simp add: put_record_def otp_get_update)

lemma al_update_update: "al_update k f (al_update k g xs) = al_update k (f \<circ> g) xs"
  by (induction xs) auto

lemma al_update_const:
  "map_of xs k = Some d \<Longrightarrow> al_update k f xs = al_update k (\<lambda>_. f d) xs"
  by (induction xs) (auto split: if_splits)

lemma otp_set_put:
  "otp_get k s = Some d \<Longrightarrow> otp_set k f s = Some (put_record k (f d) s)"
  using al_update_const [of "db s" k d f]
  by (simp add: otp_set_def otp_get_def put_record_def)

lemma put_record_twice: "put_record k d (put_record k e s) = put_record k d s"
  by (simp add: put_record_def al_update_update comp_def)

lemma al_update_same: "map_of xs k = Some d \<Longrightarrow> al_update k (\<lambda>_. d) xs = xs"
  by (induction xs) (auto split: if_splits)

lemma put_record_same: "otp_get k s = Some d \<Longrightarrow> put_record k d s = s"
  by (simp add: put_record_def otp_get_def al_update_same)

lemma al_insert_update:
  "al_sorted xs \<Longrightarrow> map_of xs k = Some e \<Longrightarrow> al_insert k d (al_update k (\<lambda>_. d) xs) = al_update k (\<lambda>_. d) xs"
  by (rule al_insert_same) (simp_all add: map_of_al_update)

lemma otp_insert_put:
  assumes "sched_ok s" "otp_get k s = Some e" "o_port d = o_port e"
  shows "otp_insert (uint (o_port d)) k (drive k v (put_record k d s)) = Some (drive k v (put_record k d s))"
    and "otp_insert (uint (o_port d)) k (put_record k d s) = Some (put_record k d s)"
proof -
  have k: "uint (o_port d) = k" "0 \<le> k" "k < 40"
    using db_ok_record [of "db s" k e] assms by (auto simp: sched_okD otp_get_def)
  have i: "al_insert k d (al_update k (\<lambda>_. d) (db s)) = al_update k (\<lambda>_. d) (db s)"
    using assms by (intro al_insert_update) (auto simp: sched_okD db_ok_sorted otp_get_def)
  show "otp_insert (uint (o_port d)) k (put_record k d s) = Some (put_record k d s)"
    using assms(2) i by (simp add: otp_insert_def otp_get_put_record k(1)) (simp add: put_record_def)
  have "db (drive k v (put_record k d s)) = al_update k (\<lambda>_. d) (db s)"
    using k by (simp add: frame_simps put_record_def)
  then have "al_insert k d (db (drive k v (put_record k d s))) = db (drive k v (put_record k d s))"
    using i by simp
  then show "otp_insert (uint (o_port d)) k (drive k v (put_record k d s)) = Some (drive k v (put_record k d s))"
    using assms(2) k by (simp add: otp_insert_def frame_simps otp_get_put_record)
qed

lemma sched_ok_put_record:
  assumes "sched_ok s" "otp_get k s = Some e" "o_port d = o_port e" "o_label d = o_label e"
  shows "sched_ok (put_record k d s)"
proof -
  have d: "label_ok d" "uint (o_port d) = k"
    using assms db_ok_record [of "db s" k e] by (auto simp: sched_okD otp_get_def label_ok_def)
  have "(\<forall>(i, d) \<in> set xs. uint (o_port d) = i \<and> label_ok d) \<Longrightarrow>
      (\<forall>(i, d) \<in> set (al_update k (\<lambda>_. d) xs). uint (o_port d) = i \<and> label_ok d)" for xs
    using d by (induction xs) (auto split: if_splits)
  from this [of "db s"] have "db_ok (al_update k (\<lambda>_. d) (db s))"
    using assms(1) by (simp add: sched_ok_def db_ok_def)
  then show ?thesis using assms(1)
    by (simp add: sched_ok_def put_record_def shadow_ok_def msgq_ok_def ips_ok_def)
qed


lemma sched_ok_msgs:
  "sched_ok s \<Longrightarrow> msgq_ok s' \<Longrightarrow> s' = s\<lparr>msg_queue := q, msg_queue_ptr := p\<rparr> \<Longrightarrow> sched_ok s'"
  by (simp add: sched_ok_def shadow_ok_def ips_ok_def)

lemma add_msg_queue_frame:
  fixes s :: "'a msgs_scheme"
  assumes "add_msg_queue c s = Some s'"
  shows "\<exists>q p. s' = s\<lparr>msg_queue := q, msg_queue_ptr := p\<rparr>"
proof (cases "msg_queue_ptr s < MSG_QUEUE_SIZE")
  case True
  with assms obtain q where "s' = s\<lparr>msg_queue_ptr := msg_queue_ptr s + 1, msg_queue := q\<rparr>"
    by (auto simp: add_msg_queue_def bind_eq_Some_conv Let_def)
  then have "s' = s\<lparr>msg_queue := q, msg_queue_ptr := msg_queue_ptr s + 1\<rparr>" by simp
  then show ?thesis by blast
next
  case False
  with assms have "s' = s\<lparr>msg_queue := msg_queue s, msg_queue_ptr := msg_queue_ptr s\<rparr>"
    by (simp add: add_msg_queue_def)
  then show ?thesis by blast
qed

text \<open>
  \<open>set_output\<close> on a well-formed state: the record becomes what the specification says, the relay
  is written when it says so, and a stop is put into the store.
\<close>

definition after_output :: "int \<Rightarrow> int \<Rightarrow> o_data \<Rightarrow> 'a sched_scheme \<Rightarrow> 'a sched_scheme" where
  "after_output k onoff d s =
     (let (d', v, stop) = output_spec onoff d; s1 = put_record k d' s
      in (case v of None \<Rightarrow> s1 | Some v \<Rightarrow> drive k v s1))"

lemma output_spec_keeps: "output_spec onoff d = (d', v, stop) \<Longrightarrow> o_port d' = o_port d \<and> o_label d' = o_label d"
  by (auto simp: output_spec.simps Let_def split: if_splits)

lemma set_output_eq:
  assumes s: "sched_ok s" and d: "otp_get k s = Some d"
  shows "set_output k onoff s =
     (if snd (snd (output_spec onoff d)) then add_msg_queue ESTOP_SIGNAL (after_output k onoff d s)
      else Some (after_output k onoff d s))"
proof -
  have k: "uint (o_port d) = k" "0 \<le> k" "k < 40"
    using db_ok_record [of "db s" k d] s d by (auto simp: sched_okD otp_get_def)
  have get: "otp_get k (put_record k e s) = Some e" for e using d by (simp add: otp_get_put_record)
  have oi: "output_and_insert k (put_record k e s) = Some (drive k (o_onoff e \<noteq> 0) (put_record k e s))"
    if "o_port e = o_port d" for e
    using that k otp_insert_put(1) [OF s d, of e] get [of e]
    by (simp add: output_and_insert_def chg_output_drive uint_0_iff)
  have st: "otp_set k f (put_record k e s) = Some (put_record k (f e) s)" for f e
    using otp_set_put [OF get [of e], of f] by (simp add: put_record_twice)
  have ins: "otp_insert k k (drive k True (put_record k e s)) = Some (drive k True (put_record k e s))"
    if "o_port e = o_port d" for e
    using otp_insert_put(1) [OF s d that] k that by simp
  note run = d k set_output_def output_spec.simps after_output_def otp_set_put [OF d] TOGGLE_OTP_def oi st
    chg_output_drive ins put_record_same [OF d]
  consider (t0) "o_type d = 0" | (t1) "o_type d = 1" | (t2) "o_type d = 2 \<or> o_type d = 3"
    | (t4) "o_type d = 4" | (other) "o_type d \<notin> {0, 1, 2, 3, 4}"
    by auto
  then show ?thesis
  proof cases
    case t0
    then show ?thesis by (cases "o_polarity d = 1") (simp_all add: run Let_def)
  next
    case t1
    consider "o_reset d = 0" | "o_reset d = 1" | "o_reset d \<noteq> 0" "o_reset d \<noteq> 1" by blast
    then show ?thesis using t1 by cases (simp_all add: run)
  next
    case t2
    then show ?thesis by (cases "o_reset d = 0") (auto simp add: run)
  next
    case t4
    consider "o_reset d = 0" | "o_reset d = 1" | "o_reset d \<noteq> 0" "o_reset d \<noteq> 1" by blast
    then show ?thesis using t4 by cases (simp_all add: run)
  next
    case other
    then show ?thesis by (simp add: run)
  qed
qed


section \<open>Properties of \<open>set_output\<close>\<close>

lemma sched_ok_after:
  assumes "sched_ok s" "otp_get k s = Some d"
  shows "sched_ok (after_output k onoff d s)"
proof -
  have k: "0 \<le> k" "k < 40"
    using db_ok_record [of "db s" k d] assms by (auto simp: sched_okD otp_get_def)
  obtain d' v stop where o: "output_spec onoff d = (d', v, stop)" by (cases "output_spec onoff d")
  have "sched_ok (put_record k d' s)"
    using sched_ok_put_record [OF assms, of d'] output_spec_keeps [OF o] by simp
  then show ?thesis using k by (auto simp: after_output_def o Let_def sched_ok_drive split: option.split)
qed

lemma after_output_facts:
  assumes s: "sched_ok s" and d: "otp_get k s = Some d" and o: "output_spec onoff d = (d', v, stop)"
  shows "otp_get k (after_output k onoff d s) = Some d'"
    "j \<noteq> k \<Longrightarrow> otp_get j (after_output k onoff d s) = otp_get j s"
    "out_line k (after_output k onoff d s) = (case v of None \<Rightarrow> out_line k s | Some b \<Rightarrow> b)"
    "0 \<le> j \<Longrightarrow> j < 40 \<Longrightarrow> j \<noteq> k \<Longrightarrow> out_line j (after_output k onoff d s) = out_line j s"
    "msg_queue (after_output k onoff d s) = msg_queue s"
    "msg_queue_ptr (after_output k onoff d s) = msg_queue_ptr s"
proof -
  have k: "0 \<le> k" "k < 40"
    using db_ok_record [of "db s" k d] s d by (auto simp: sched_okD otp_get_def)
  have s1: "sched_ok (put_record k d' s)"
    using sched_ok_put_record [OF s d, of d'] output_spec_keeps [OF o] by simp
  note a = after_output_def o Let_def k frame_simps otp_get_put_record d out_line_drive [OF s1]
  show "otp_get k (after_output k onoff d s) = Some d'"
    "out_line k (after_output k onoff d s) = (case v of None \<Rightarrow> out_line k s | Some b \<Rightarrow> b)"
    "msg_queue (after_output k onoff d s) = msg_queue s"
    "msg_queue_ptr (after_output k onoff d s) = msg_queue_ptr s"
    by (simp_all add: a split: option.split)
  show "j \<noteq> k \<Longrightarrow> otp_get j (after_output k onoff d s) = otp_get j s"
    by (simp add: a split: option.split)
  show "0 \<le> j \<Longrightarrow> j < 40 \<Longrightarrow> j \<noteq> k \<Longrightarrow> out_line j (after_output k onoff d s) = out_line j s"
    by (simp add: a split: option.split)
qed

lemma msgs_update_frame [frame_simps]:
  "otp_get j (s\<lparr>msg_queue := q, msg_queue_ptr := p\<rparr>) = otp_get j s"
  "out_line j (s\<lparr>msg_queue := q, msg_queue_ptr := p\<rparr>) = out_line j s"
  by (simp_all add: otp_get_def out_line_def relay_def)

lemma add_msg_queue_sched:
  assumes "sched_ok s" "msg_queue_ptr s < 49"
  obtains s' where "add_msg_queue c s = Some s'" "sched_ok s'" "pending s' = c # pending s"
    "\<And>j. otp_get j s' = otp_get j s" "\<And>j. out_line j s' = out_line j s"
    "\<exists>q p. s' = s\<lparr>msg_queue := q, msg_queue_ptr := p\<rparr>"
proof -
  have m: "msgq_ok s" using assms(1) by (simp add: sched_okD)
  then have "length (pending s) < 49" using assms(2) by (simp add: length_pending msgq_ok_def)
  from cmdq.add_contents [OF m this, of c] obtain s' where
    s': "add_msg_queue c s = Some s'" "msgq_ok s'" "pending s' = c # pending s" by blast
  from add_msg_queue_frame [OF s'(1)] obtain q p where
    qp: "s' = s\<lparr>msg_queue := q, msg_queue_ptr := p\<rparr>" by blast
  show thesis
    using that [OF s'(1) sched_ok_msgs [OF assms(1) s'(2) qp] s'(3)] qp by (auto simp: frame_simps)
qed

lemma set_output_run:
  assumes "sched_ok s" "otp_get k s = Some d" "output_spec onoff d = (d', v, stop)"
    "stop \<longrightarrow> msg_queue_ptr s < 49"
  shows "\<exists>s'. set_output k onoff s = Some s' \<and> sched_ok s' \<and> otp_get k s' = Some d' \<and>
     (\<forall>j. j \<noteq> k \<longrightarrow> otp_get j s' = otp_get j s) \<and>
     out_line k s' = (case v of None \<Rightarrow> out_line k s | Some b \<Rightarrow> b) \<and>
     (\<forall>j. 0 \<le> j \<and> j < 40 \<and> j \<noteq> k \<longrightarrow> out_line j s' = out_line j s) \<and>
     pending s' = (if stop then [ESTOP_SIGNAL] else []) @ pending s"
proof -
  note f = after_output_facts [OF assms(1-3)] and ok = sched_ok_after [OF assms(1,2), of onoff]
  show ?thesis
  proof (cases stop)
    case True
    then have "msg_queue_ptr (after_output k onoff d s) < 49" using f(6) assms(4) by simp
    from add_msg_queue_sched [OF ok this, of ESTOP_SIGNAL] obtain s' where
      "add_msg_queue ESTOP_SIGNAL (after_output k onoff d s) = Some s'" "sched_ok s'"
      "pending s' = ESTOP_SIGNAL # pending (after_output k onoff d s)"
      "\<And>j. otp_get j s' = otp_get j (after_output k onoff d s)"
      "\<And>j. out_line j s' = out_line j (after_output k onoff d s)"
      by blast
    then show ?thesis using True f set_output_eq [OF assms(1,2), of onoff] assms(3)
      by (auto simp: pending_def)
  next
    case False
    then show ?thesis using f ok set_output_eq [OF assms(1,2), of onoff] assms(3)
      by (auto simp: pending_def)
  qed
qed

text \<open>
  C5: Refinement. On a well-formed state \<open>set_output\<close> is defined (no pointer is \<open>NULL\<close>, no index
  out of range) and does to the record, to the relays and to the command store what
  \<open>output_spec\<close> says, and nothing to any other record or relay.
\<close>

theorem set_output_refines:
  assumes "sched_ok s" "otp_get k s = Some d" "output_spec onoff d = (d', v, stop)"
    "stop \<longrightarrow> msg_queue_ptr s < 49"
  shows "\<exists>s'. set_output k onoff s = Some s' \<and> sched_ok s' \<and> otp_get k s' = Some d' \<and>
     (\<forall>j. j \<noteq> k \<longrightarrow> otp_get j s' = otp_get j s) \<and>
     out_line k s' = (case v of None \<Rightarrow> out_line k s | Some b \<Rightarrow> b) \<and>
     (\<forall>j. 0 \<le> j \<and> j < 40 \<and> j \<noteq> k \<longrightarrow> out_line j s' = out_line j s) \<and>
     pending s' = (if stop then [ESTOP_SIGNAL] else []) @ pending s"
  by (rule set_output_run [OF assms])

definition sched0 :: sched where
  "sched0 = \<lparr>card_ports = (\<lambda>_. 0), outportstatus = replicate 6 0,
     msg_queue = replicate 50 0, msg_queue_ptr = 0, sock_open = 1, tcp_in = [], tcp_out = [],
     send_fails = [], same_msg = 0, serial_out = [],
     db = db0, inportstatus = replicate 6 0, fake_inportstatus1 = replicate 6 0,
     fake_inportstatus2 = replicate 6 0,
     ip = replicate 40 \<lparr>ip_port = 99, ip_input = 0, ip_label = replicate 30 0\<rparr>, max_ips = 0,
     engine_running = 0, lights_on_countdown = 0, actual_lights_on_delay = 0, test_lblinkers = 0,
     test_rblinkers = 0, running_hours = 0, running_minutes = 0, running_seconds = 0,
     trunning_hours = 0, trunning_minutes = 0, trunning_seconds = 0, odometer = 0, trip = 0,
     cmd_odometer = 0, ps = params0, password = replicate 6 0, param_file = None,
     enable_gps_send_data = 0, enable_adc_send_data = 0, shutdown_all = 0, reboot_on_exit = 0\<rparr>"

lemma roc_upto: "k < 6 \<Longrightarrow> outportstatus sched0 ! k = 0"
  by (simp add: sched0_def)

lemma sched0_ok: "sched_ok sched0"
  by (simp add: sched_ok_def db0_ok shadow_ok_def msgq_ok_def ips_ok_def)
     (simp add: sched0_def db0_ok)

text \<open>The same with record \<open>k\<close> replaced: the state of the witnesses.\<close>

definition sched1 :: "int \<Rightarrow> o_data \<Rightarrow> sched" where
  "sched1 k d = put_record k d sched0"

lemma db0_lookup: "0 \<le> k \<Longrightarrow> k < 40 \<Longrightarrow> map_of db0 k = Some (o_data0 k)"
  by (intro map_of_is_SomeI) (auto simp: db0_def comp_def)

lemma sched1_ok:
  assumes "0 \<le> k" "k < 40" "o_port d = word_of_int k" "o_label d = replicate 30 0"
  shows "sched_ok (sched1 k d)" "otp_get k (sched1 k d) = Some d"
proof -
  have g: "otp_get k sched0 = Some (o_data0 k)"
    using db0_lookup [OF assms(1,2)] by (simp add: otp_get_def sched0_def)
  show "sched_ok (sched1 k d)"
    unfolding sched1_def
    by (rule sched_ok_put_record [OF sched0_ok g]) (simp_all add: assms o_data0_def)
  show "otp_get k (sched1 k d) = Some d" by (simp add: sched1_def otp_get_put_record g)
qed

text \<open>The fuel pump of the vehicle: output 2, stopped by input 7, of type 4.\<close>

definition fuel_pump :: o_data where
  "fuel_pump = (o_data0 FUELPUMP)\<lparr>o_input_port := 7, o_type := 4, o_onoff := 1\<rparr>"


lemma set_output_refines_witness:
  "\<exists>s'. set_output 2 1 (sched1 2 fuel_pump) = Some s' \<and> sched_ok s' \<and>
     otp_get 2 s' = Some (fuel_pump\<lparr>o_reset := 1, o_onoff := 0\<rparr>) \<and>
     (\<forall>j. j \<noteq> 2 \<longrightarrow> otp_get j s' = otp_get j (sched1 2 fuel_pump)) \<and>
     out_line 2 s' = (case Some False of None \<Rightarrow> out_line 2 (sched1 2 fuel_pump) | Some b \<Rightarrow> b) \<and>
     (\<forall>j. 0 \<le> j \<and> j < 40 \<and> j \<noteq> 2 \<longrightarrow> out_line j s' = out_line j (sched1 2 fuel_pump)) \<and>
     pending s' = (if True then [ESTOP_SIGNAL] else []) @ pending (sched1 2 fuel_pump)"
  by (rule set_output_refines [OF sched1_ok])
     (simp_all add: fuel_pump_def o_data0_def output_spec.simps sched1_def put_record_def sched0_def)

text \<open>The outputs of a sequence of input changes, one \<open>set_output\<close> for each.\<close>

fun set_outputs :: "int \<Rightarrow> int list \<Rightarrow> 'a sched_scheme \<Rightarrow> 'a sched_scheme option" where
  "set_outputs k [] s = Some s"
| "set_outputs k (v # vs) s = do { s \<leftarrow> set_output k v s; set_outputs k vs s }"

lemma estop_later:
  assumes "sched_ok s" "otp_get k s = Some d" "o_type d = 4" "o_reset d \<in> {1, 3}" "\<not> out_line k s"
  shows "\<exists>s' d'. set_outputs k vs s = Some s' \<and> sched_ok s' \<and> otp_get k s' = Some d' \<and>
     o_type d' = 4 \<and> o_reset d' \<in> {1, 3} \<and> \<not> out_line k s' \<and> pending s' = pending s"
  using assms
proof (induction vs arbitrary: s d)
  case (Cons v vs)
  obtain d' where o: "output_spec v d = (d', None, False)" "o_type d' = 4" "o_reset d' \<in> {1, 3}"
    using Cons.prems(3,4) by (auto simp: output_spec.simps)
  from set_output_run [OF Cons.prems(1,2) o(1)] obtain s1 where
    s1: "set_output k v s = Some s1" "sched_ok s1" "otp_get k s1 = Some d'" "\<not> out_line k s1"
      "pending s1 = pending s"
    using Cons.prems(5) by auto
  from Cons.IH [OF s1(2,3) o(2,3) s1(4)] s1 show ?case by auto
qed auto

text \<open>
  C6: The emergency stop latches. The first change of the stop input switches an output of type 4 off
  and signals the stop once; whatever changes of the input follow, the output stays off and is never
  released by them (\<open>reset\<close> stays 1 or 3, which only the start sequence clears).
\<close>

theorem estop_latches:
  assumes "sched_ok s" "otp_get k s = Some d" "o_type d = 4" "o_reset d = 0" "msg_queue_ptr s < 49"
  shows "\<exists>s' d'. set_outputs k (v # vs) s = Some s' \<and> sched_ok s' \<and> otp_get k s' = Some d' \<and>
     o_type d' = 4 \<and> o_reset d' \<in> {1, 3} \<and> \<not> out_line k s' \<and> pending s' = ESTOP_SIGNAL # pending s"
proof -
  have o: "output_spec v d = (d\<lparr>o_reset := 1, o_onoff := 0\<rparr>, Some False, True)"
    using assms(3,4) by (simp add: output_spec.simps)
  from set_output_run [OF assms(1,2) o] obtain s1 where
    s1: "set_output k v s = Some s1" "sched_ok s1" "otp_get k s1 = Some (d\<lparr>o_reset := 1, o_onoff := 0\<rparr>)"
      "\<not> out_line k s1" "pending s1 = ESTOP_SIGNAL # pending s"
    using assms(5) by auto
  from estop_later [OF s1(2,3) _ _ s1(4), of vs] assms(3) s1 show ?thesis by auto
qed

lemma estop_latches_witness:
  "\<exists>s' d'. set_outputs 2 (1 # [0, 1, 0]) (sched1 2 fuel_pump) = Some s' \<and> sched_ok s' \<and> otp_get 2 s' = Some d' \<and>
     o_type d' = 4 \<and> o_reset d' \<in> {1, 3} \<and> \<not> out_line 2 s' \<and>
     pending s' = ESTOP_SIGNAL # pending (sched1 2 fuel_pump)"
  by (rule estop_latches [OF sched1_ok])
     (simp_all add: fuel_pump_def o_data0_def sched1_def put_record_def sched0_def)

text \<open>
  A momentary switch acts as a toggle switch. For an output of type 1 that is armed
  (\<open>reset = 0\<close>), a press and a release change the state of the output once, drive the relay to the new
  state and leave the output armed.
\<close>

theorem press_release_toggles:
  assumes "sched_ok s" "otp_get k s = Some d" "o_type d = 1" "o_reset d = 0"
  shows "\<exists>s'. set_outputs k [v, w] s = Some s' \<and> sched_ok s' \<and>
     otp_get k s' = Some (d\<lparr>o_onoff := (if o_onoff d = 1 then 0 else 1)\<rparr>) \<and>
     out_line k s' = (o_onoff d \<noteq> 1) \<and> pending s' = pending s"
proof -
  let ?v = "if o_onoff d = 1 then 0 else 1 :: u8"
  have o1: "output_spec v d = (d\<lparr>o_reset := 1, o_onoff := ?v\<rparr>, Some (?v \<noteq> 0), False)"
    using assms(3,4) by (simp add: output_spec.simps)
  from set_output_run [OF assms(1,2) o1] obtain s1 where
    s1: "set_output k v s = Some s1" "sched_ok s1" "otp_get k s1 = Some (d\<lparr>o_reset := 1, o_onoff := ?v\<rparr>)"
      "out_line k s1 = (?v \<noteq> 0)" "pending s1 = pending s" by auto
  have o2: "output_spec w (d\<lparr>o_reset := 1, o_onoff := ?v\<rparr>) = (d\<lparr>o_reset := 0, o_onoff := ?v\<rparr>, None, False)"
    using assms(3) by (simp add: output_spec.simps)
  have e: "d\<lparr>o_reset := 0, o_onoff := ?v\<rparr> = d\<lparr>o_onoff := ?v\<rparr>" using assms(4) by (cases d) simp
  from set_output_run [OF s1(2,3) o2] obtain s2 where
    "set_output k w s1 = Some s2" "sched_ok s2" "otp_get k s2 = Some (d\<lparr>o_onoff := ?v\<rparr>)"
    "out_line k s2 = out_line k s1" "pending s2 = pending s1" unfolding e by auto
  then show ?thesis using s1 by auto
qed

lemma press_release_toggles_witness:
  "\<exists>s'. set_outputs 5 [1, 0] (sched1 5 ((o_data0 5)\<lparr>o_type := 1\<rparr>)) = Some s' \<and> sched_ok s' \<and>
     otp_get 5 s' = Some ((o_data0 5)\<lparr>o_type := 1, o_onoff := (if o_onoff ((o_data0 5)\<lparr>o_type := 1\<rparr>) = 1 then 0 else 1)\<rparr>) \<and>
     out_line 5 s' = (o_onoff ((o_data0 5)\<lparr>o_type := 1\<rparr>) \<noteq> 1) \<and>
     pending s' = pending (sched1 5 ((o_data0 5)\<lparr>o_type := 1\<rparr>))"
  by (rule press_release_toggles [OF sched1_ok]) (simp_all add: o_data0_def)

end
