(* ===== verification/Inputs.thy ===== *)
theory Inputs
  imports Outputs
begin

text \<open>
  From the inputs to the outputs (\<open>thread_io/tasks.c\<close>): \<open>init_ips\<close> builds the table of the inputs
  that have outputs, \<open>monitor_input_task\<close> and \<open>monitor_fake_input_task\<close> look for a change in each
  bank and call \<open>set_output\<close> for every output of the input that changed, \<open>change_input\<close> makes a
  change by software. One step is the body of the loop over the banks, for one bank.
\<close>

section \<open>The table\<close>

text \<open>\<open>strcpy(dst,src)\<close> between two buffers.\<close>

definition strcpy_buf :: "u8 list \<Rightarrow> u8 list \<Rightarrow> u8 list option" where
  "strcpy_buf dst src =
     (let n = length (takeWhile (\<lambda>b. b \<noteq> 0) src) in
      if n < length src \<and> n < length dst then Some (take (Suc n) src @ drop (Suc n) dst) else None)"

fun ip_loop :: "(int \<times> int) list \<Rightarrow> oalist \<Rightarrow> int \<Rightarrow> IP list \<Rightarrow> (int \<times> IP list) option" where
  "ip_loop [] al j ips = Some (j, ips)"
| "ip_loop ((i, k) # iks) al j ips =
     (case al_find_op i k al of
        None \<Rightarrow> ip_loop iks al j ips
      | Some d \<Rightarrow> do {
          e \<leftarrow> aget ips j;
          l \<leftarrow> strcpy_buf (ip_label e) (o_label d);
          ips \<leftarrow> aset ips j (e\<lparr>ip_port := k, ip_input := i, ip_label := l\<rparr>);
          ip_loop iks al (j + 1) ips
        })"

definition lights_on_delay :: "int list" where
  "lights_on_delay = [1, 2, 3, 5, 10, 15, 30, 60, 120, 300, 600, 1800, 3600]"

text \<open>
  \<open>id0\<close> is the uninitialised byte of \<open>LoadParams\<close>. The waypoints, which only the LCD task uses, are
  left out.
\<close>

definition init_ips :: "u8 \<Rightarrow> 'a sched_scheme \<Rightarrow> 'a sched_scheme option" where
  "init_ips id0 s = do {
     let s = s\<lparr>engine_running := 0, test_lblinkers := 0, test_rblinkers := 0\<rparr>;
     let ips = replicate 40 \<lparr>ip_port = 99, ip_input = 0, ip_label = replicate 30 0\<rparr>;
     (j, ips) \<leftarrow> ip_loop (List.product [0..39] [0..39]) (db s) 0 ips;
     let s = s\<lparr>ip := ips, max_ips := int (length (filter (\<lambda>e. ip_port e < 40) ips))\<rparr>;
     let (i, p, pw) = LoadParams id0 (param_file s) (ps s) (password s);
     let p = p\<lparr>p_blower1_on := 32\<rparr>;
     d \<leftarrow> aget lights_on_delay (p_lights_on_delay p);
     Some (s\<lparr>ps := p, password := pw, actual_lights_on_delay := d\<rparr>)
   }"

section \<open>The monitors\<close>

text \<open>\<open>for(i = 0;i < max_ips;i++) if(ip[i].input == index) \<dots>\<close>, the last \<open>n\<close> rounds from \<open>i\<close>.\<close>

fun route_loop :: "nat \<Rightarrow> int \<Rightarrow> int \<Rightarrow> int \<Rightarrow> 'a sched_scheme \<Rightarrow> 'a sched_scheme option" where
  "route_loop 0 i index onoff s = Some s"
| "route_loop (Suc n) i index onoff s = do {
     e \<leftarrow> aget (ip s) i;
     s \<leftarrow> (if ip_input e = index then set_output (ip_port e) onoff s else Some s);
     route_loop n (i + 1) index onoff s
   }"

definition monitor_init :: "'a sched_scheme \<Rightarrow> 'a sched_scheme" where
  "monitor_init s = s\<lparr>inportstatus := [NOT (InPortByteA s), NOT (InPortByteB s), NOT (InPortByteC s),
     NOT (InPortByteD s), NOT (InPortByteE s), NOT (InPortByteF s)]\<rparr>"

definition monitor_bank :: "int \<Rightarrow> 'a sched_scheme \<Rightarrow> 'a sched_scheme option" where
  "monitor_bank bank s = do {
     let result = NOT (InPortByte bank s);
     old \<leftarrow> aget (inportstatus s) bank;
     if result \<noteq> old then
       (let msk = result XOR old in
        if msk > 0x80 then Some s
        else do {
          let index = mask2int msk;
          let onoff = (if msk AND result = msk then 1 else 0);
          let index = bank_to_number bank index;
          s \<leftarrow> route_loop (nat (max_ips s)) 0 index onoff s;
          st \<leftarrow> aset (inportstatus s) bank result;
          Some (s\<lparr>inportstatus := st\<rparr>)
        })
     else Some s
   }"

definition change_input :: "int \<Rightarrow> int \<Rightarrow> 'a sched_scheme \<Rightarrow> 'a sched_scheme option" where
  "change_input index onoff s = do {
     rb \<leftarrow> aget real_banks index;
     let bank = rb_bank rb;
     let msk = push_bit (nat (rb_index rb)) 1;
     v \<leftarrow> aget (fake_inportstatus2 s) bank;
     st \<leftarrow> aset (fake_inportstatus2 s) bank (if onoff \<noteq> 0 then v OR msk else v AND NOT msk);
     Some (s\<lparr>fake_inportstatus2 := st\<rparr>)
   }"

definition fake_init :: "'a sched_scheme \<Rightarrow> 'a sched_scheme" where
  "fake_init s = s\<lparr>fake_inportstatus1 := replicate 6 0, fake_inportstatus2 := replicate 6 0\<rparr>"

definition fake_monitor_bank :: "int \<Rightarrow> 'a sched_scheme \<Rightarrow> 'a sched_scheme option" where
  "fake_monitor_bank bank s = do {
     result \<leftarrow> aget (fake_inportstatus2 s) bank;
     old \<leftarrow> aget (fake_inportstatus1 s) bank;
     if result \<noteq> old then
       (let msk = result XOR old in
        if msk > 0x80 then Some s
        else do {
          let index = mask2int msk;
          let onoff = (if msk AND result = msk then 1 else 0);
          st \<leftarrow> aset (fake_inportstatus2 s) bank
                 (if msk AND result = msk then result OR msk else result AND NOT msk);
          let s = s\<lparr>fake_inportstatus2 := st\<rparr>;
          let index = bank_to_number bank index;
          s \<leftarrow> route_loop (nat (max_ips s)) 0 index onoff s;
          v \<leftarrow> aget (fake_inportstatus2 s) bank;
          st \<leftarrow> aset (fake_inportstatus1 s) bank v;
          Some (s\<lparr>fake_inportstatus1 := st\<rparr>)
        })
     else Some s
   }"

section \<open>Routing\<close>

text \<open>The outputs of an input, in the order of the table.\<close>

definition routed :: "int \<Rightarrow> 'a sched_scheme \<Rightarrow> int list" where
  "routed n s = map ip_port (filter (\<lambda>e. ip_input e = n) (take (nat (max_ips s)) (ip s)))"

fun set_each :: "int list \<Rightarrow> int \<Rightarrow> 'a sched_scheme \<Rightarrow> 'a sched_scheme option" where
  "set_each [] v s = Some s"
| "set_each (k # ks) v s = do { s \<leftarrow> set_output k v s; set_each ks v s }"

definition same_inputs :: "'a sched_scheme \<Rightarrow> 'a sched_scheme \<Rightarrow> bool" where
  "same_inputs s s' \<longleftrightarrow> ip s' = ip s \<and> max_ips s' = max_ips s \<and> inportstatus s' = inportstatus s \<and>
     fake_inportstatus1 s' = fake_inportstatus1 s \<and> fake_inportstatus2 s' = fake_inportstatus2 s"

lemma same_inputs_refl [simp]: "same_inputs s s" by (simp add: same_inputs_def)

lemma same_inputs_trans [trans]: "same_inputs s t \<Longrightarrow> same_inputs t u \<Longrightarrow> same_inputs s u"
  by (simp add: same_inputs_def)

lemma after_output_inputs: "0 \<le> k \<Longrightarrow> k < 40 \<Longrightarrow> same_inputs s (after_output k v d s)"
  by (simp add: after_output_def same_inputs_def Let_def split_beta frame_simps split: option.split)
     (simp add: put_record_def)

lemma set_output_inputs:
  assumes "sched_ok s" "otp_get k s = Some d" "set_output k v s = Some s'"
  shows "same_inputs s s'"
proof -
  have k: "0 \<le> k" "k < 40"
    using db_ok_record [of "db s" k d] assms by (auto simp: sched_okD otp_get_def)
  show ?thesis
    using assms set_output_eq [OF assms(1,2), of v] after_output_inputs [OF k, of s v d]
      add_msg_queue_frame [of ESTOP_SIGNAL "after_output k v d s" s']
    by (auto simp: same_inputs_def split: if_splits)
qed

text \<open>Output \<open>k\<close> has done what an input change to \<open>v\<close> asks of it; output \<open>j\<close> has not moved.\<close>

definition updated :: "int \<Rightarrow> 'a sched_scheme \<Rightarrow> 'a sched_scheme \<Rightarrow> int \<Rightarrow> bool" where
  "updated v s s' k \<longleftrightarrow> (\<forall>d. otp_get k s = Some d \<longrightarrow>
     otp_get k s' = Some (fst (output_spec v d)) \<and>
     out_line k s' = (case fst (snd (output_spec v d)) of None \<Rightarrow> out_line k s | Some b \<Rightarrow> b))"

definition untouched :: "'a sched_scheme \<Rightarrow> 'a sched_scheme \<Rightarrow> int \<Rightarrow> bool" where
  "untouched s s' j \<longleftrightarrow> otp_get j s' = otp_get j s \<and> (0 \<le> j \<and> j < 40 \<longrightarrow> out_line j s' = out_line j s)"

lemma untouched_trans: "untouched s t j \<Longrightarrow> untouched t u j \<Longrightarrow> untouched s u j"
  by (simp add: untouched_def)

lemma updated_then_untouched:
  "updated v s t k \<Longrightarrow> untouched t u k \<Longrightarrow> 0 \<le> k \<Longrightarrow> k < 40 \<Longrightarrow> updated v s u k"
  by (auto simp: updated_def untouched_def)

lemma untouched_then_updated:
  "untouched s t k \<Longrightarrow> updated v t u k \<Longrightarrow> 0 \<le> k \<Longrightarrow> k < 40 \<Longrightarrow> updated v s u k"
  by (simp add: updated_def untouched_def split: option.split)

lemma set_output_step:
  assumes "sched_ok s" "0 \<le> k" "k < 40" "msg_queue_ptr s < 49"
  obtains s' where "set_output k v s = Some s'" "sched_ok s'" "same_inputs s s'" "updated v s s' k"
    "\<And>j. j \<noteq> k \<Longrightarrow> untouched s s' j" "msg_queue_ptr s \<le> msg_queue_ptr s'" "msg_queue_ptr s' \<le> msg_queue_ptr s + 1"
proof -
  obtain d where d: "otp_get k s = Some d"
    using db_ok_lookup [of "db s" k] assms by (auto simp: sched_okD otp_get_def)
  obtain d' r stop where o: "output_spec v d = (d', r, stop)" by (cases "output_spec v d")
  have m: "stop \<longrightarrow> msg_queue_ptr s < 49" using assms(4) by simp
  from set_output_run [OF assms(1) d o m] obtain s1 where
    s1: "set_output k v s = Some s1" "sched_ok s1" "otp_get k s1 = Some d'"
      "\<forall>j. j \<noteq> k \<longrightarrow> otp_get j s1 = otp_get j s"
      "out_line k s1 = (case r of None \<Rightarrow> out_line k s | Some b \<Rightarrow> b)"
      "\<forall>j. 0 \<le> j \<and> j < 40 \<and> j \<noteq> k \<longrightarrow> out_line j s1 = out_line j s"
      "pending s1 = (if stop then [ESTOP_SIGNAL] else []) @ pending s" by blast
  have "length (pending s1) \<le> length (pending s) + 1" "length (pending s) \<le> length (pending s1)"
    using s1(7) by auto
  then have p: "msg_queue_ptr s \<le> msg_queue_ptr s1" "msg_queue_ptr s1 \<le> msg_queue_ptr s + 1"
    using length_pending [of s] length_pending [of s1] sched_okD(3) [OF assms(1)] sched_okD(3) [OF s1(2)]
    by (auto simp: msgq_ok_def)
  show thesis
    using that [OF s1(1,2) set_output_inputs [OF assms(1) d s1(1)] _ _ p] s1(3-6) d o
    by (simp add: updated_def untouched_def)
qed

text \<open>What a list of calls of \<open>set_output\<close> on different outputs does.\<close>

definition changed_exactly :: "int \<Rightarrow> int list \<Rightarrow> 'a sched_scheme \<Rightarrow> 'a sched_scheme \<Rightarrow> bool" where
  "changed_exactly v ks s s' \<longleftrightarrow> (\<forall>k \<in> set ks. updated v s s' k) \<and> (\<forall>j. j \<notin> set ks \<longrightarrow> untouched s s' j)"

lemma set_each_spec:
  assumes "sched_ok s" "distinct ks" "\<forall>k \<in> set ks. 0 \<le> k \<and> k < 40"
    "msg_queue_ptr s + int (length ks) \<le> 49"
  shows "\<exists>s'. set_each ks v s = Some s' \<and> sched_ok s' \<and> same_inputs s s' \<and> changed_exactly v ks s s' \<and>
     msg_queue_ptr s \<le> msg_queue_ptr s' \<and> msg_queue_ptr s' \<le> msg_queue_ptr s + int (length ks)"
  using assms
proof (induction ks arbitrary: s)
  case Nil
  then show ?case by (simp add: changed_exactly_def untouched_def)
next
  case (Cons k ks)
  have k: "0 \<le> k" "k < 40" using Cons.prems(3) by auto
  from Cons.prems(4) have m: "msg_queue_ptr s < 49" by simp
  from set_output_step [OF Cons.prems(1) k m] obtain s1 where
    s1: "set_output k v s = Some s1" "sched_ok s1" "same_inputs s s1" "updated v s s1 k"
    "\<And>j. j \<noteq> k \<Longrightarrow> untouched s s1 j" "msg_queue_ptr s \<le> msg_queue_ptr s1" "msg_queue_ptr s1 \<le> msg_queue_ptr s + 1"
    by metis
  have "msg_queue_ptr s1 + int (length ks) \<le> 49" using s1(7) Cons.prems(4) by simp
  from Cons.IH [OF s1(2) _ _ this] Cons.prems(2,3) obtain s2 where
    s2: "set_each ks v s1 = Some s2" "sched_ok s2" "same_inputs s1 s2" "changed_exactly v ks s1 s2"
      "msg_queue_ptr s1 \<le> msg_queue_ptr s2" "msg_queue_ptr s2 \<le> msg_queue_ptr s1 + int (length ks)"
    by auto
  have nk: "k \<notin> set ks" using Cons.prems(2) by simp
  have "updated v s s2 k"
    using updated_then_untouched [OF s1(4) _ k] s2(4) nk by (simp add: changed_exactly_def)
  moreover have "updated v s s2 i" if i: "i \<in> set ks" for i
  proof (rule untouched_then_updated [OF s1(5)])
    show "i \<noteq> k" using i nk by auto
    show "updated v s1 s2 i" "0 \<le> i" "i < 40" using s2(4) i Cons.prems(3) by (auto simp: changed_exactly_def)
  qed
  moreover have "untouched s s2 j" if "j \<notin> set (k # ks)" for j
    using untouched_trans [OF s1(5)] s2(4) that by (simp add: changed_exactly_def)
  ultimately have "changed_exactly v (k # ks) s s2" by (auto simp: changed_exactly_def)
  then show ?case
    using s1(1,6,7) s2(1,2,5,6) same_inputs_trans [OF s1(3) s2(3)]
    by (intro exI [of _ s2]) auto
qed

lemma route_loop_eq:
  assumes "0 \<le> i" "nat i + n \<le> length (ip s)" "sched_ok s" "msg_queue_ptr s + int n \<le> 49"
    "\<forall>e \<in> set (take n (drop (nat i) (ip s))). 0 \<le> ip_port e \<and> ip_port e < 40"
  shows "route_loop n i x v s =
     set_each (map ip_port (filter (\<lambda>e. ip_input e = x) (take n (drop (nat i) (ip s))))) v s"
  using assms
proof (induction n arbitrary: i s)
  case (Suc n)
  then have a: "aget (ip s) i = Some (ip s ! nat i)" "nat i < length (ip s)"
    by (auto simp: aget_def)
  have t: "take (Suc n) (drop (nat i) (ip s)) = ip s ! nat i # take n (drop (nat (i + 1)) (ip s))"
    using a(2) Suc.prems(1) by (simp add: Cons_nth_drop_Suc [symmetric] nat_add_distrib)
  have k: "0 \<le> ip_port (ip s ! nat i)" "ip_port (ip s ! nat i) < 40" using Suc.prems(5) t by auto
  have p: "\<forall>e \<in> set (take n (drop (nat (i + 1)) (ip s))). 0 \<le> ip_port e \<and> ip_port e < 40"
    using Suc.prems(5) t by auto
  have n: "nat (i + 1) + n \<le> length (ip s)" "0 \<le> i + 1" using Suc.prems(1,2) by (simp_all add: nat_add_distrib)
  show ?case
  proof (cases "ip_input (ip s ! nat i) = x")
    case False
    then show ?thesis using Suc.IH [OF n(2,1) Suc.prems(3) _ p] Suc.prems(4) a t by simp
  next
    case True
    have "msg_queue_ptr s < 49" using Suc.prems(4) by simp
    from set_output_step [OF Suc.prems(3) k this] obtain s1 where
      s1: "set_output (ip_port (ip s ! nat i)) v s = Some s1" "sched_ok s1" "same_inputs s s1"
        "msg_queue_ptr s1 \<le> msg_queue_ptr s + 1" by metis
    then have "ip s1 = ip s" by (simp add: same_inputs_def)
    then show ?thesis using Suc.IH [OF n(2), of s1] n(1) p s1 Suc.prems(4) a t True by simp
  qed
qed simp

lemma length_routed: "length (routed n s) \<le> nat (max_ips s)"
  by (simp add: routed_def) (metis (no_types, lifting) length_filter_le length_take min.cobounded2 order_trans)

lemma routed_ok:
  assumes "sched_ok s"
  shows "distinct (routed n s)" "k \<in> set (routed n s) \<Longrightarrow> 0 \<le> k \<and> k < 40"
  using sched_okD(4) [OF assms]
  by (auto simp: ips_ok_def routed_def distinct_map intro: inj_on_subset)

lemma route_eq:
  assumes "sched_ok s" "msg_queue_ptr s + max_ips s \<le> 49"
  shows "route_loop (nat (max_ips s)) 0 n v s = set_each (routed n s) v s"
  using sched_okD(4) [OF assms(1)] assms
    route_loop_eq [of 0 "nat (max_ips s)" s n v]
  by (auto simp: ips_ok_def routed_def nat_le_iff)

lemma route_spec:
  assumes "sched_ok s" "msg_queue_ptr s + max_ips s \<le> 49"
  shows "\<exists>s'. route_loop (nat (max_ips s)) 0 n v s = Some s' \<and> sched_ok s' \<and> same_inputs s s' \<and>
     changed_exactly v (routed n s) s s'"
proof -
  have "0 \<le> max_ips s" using sched_okD(4) [OF assms(1)] by (simp add: ips_ok_def)
  then have "int (length (routed n s)) \<le> max_ips s" using length_routed [of n s] by linarith
  then have "msg_queue_ptr s + int (length (routed n s)) \<le> 49" using assms(2) by simp
  then show ?thesis
    using set_each_spec [OF assms(1) routed_ok(1) [OF assms(1)], of n v] routed_ok(2) [OF assms(1)]
    by (auto simp: route_eq [OF assms])
qed


section \<open>Properties of the monitors\<close>

text \<open>The 40 positions of the two cards, by number.\<close>

lemma aget_bank: "length xs = 6 \<Longrightarrow> 0 \<le> n \<Longrightarrow> n < 40 \<Longrightarrow> aget xs (int (port_of n)) = Some (xs ! port_of n)"
  using port_bit_of(1) [of n] by (simp add: aget_def)

lemma aset_bank: "length xs = 6 \<Longrightarrow> 0 \<le> n \<Longrightarrow> n < 40 \<Longrightarrow> aset xs (int (port_of n)) v = Some (xs[port_of n := v])"
  using port_bit_of(1) [of n] by (simp add: aset_def)

lemma single_mask:
  "b < 8 \<Longrightarrow> \<not> push_bit b (1::u8) > 0x80" "b < 8 \<Longrightarrow> push_bit b (1::u8) \<noteq> 0"
proof -
  have all: "list_all (\<lambda>b. \<not> push_bit b (1::u8) > 0x80 \<and> push_bit b (1::u8) \<noteq> 0) [0..<8]" by code_simp
  show "b < 8 \<Longrightarrow> \<not> push_bit b (1::u8) > 0x80" "b < 8 \<Longrightarrow> push_bit b (1::u8) \<noteq> 0"
    using all by (auto simp: list_all_iff)
qed

lemma and_single: "b < 8 \<Longrightarrow> (push_bit b 1 AND (r::u8) = push_bit b 1) = bit r b"
proof -
  assume "b < 8"
  then have "push_bit b 1 AND r = (if bit r b then push_bit b 1 else (0::u8))"
    by (intro bit_word_eqI) (auto simp: bit_simps)
  with single_mask(2) [OF \<open>b < 8\<close>] show ?thesis by auto
qed

lemma xor_ne: "r XOR old = (m::u8) \<Longrightarrow> m \<noteq> 0 \<Longrightarrow> r \<noteq> old"
  by auto

lemma above_ne: "r XOR old > (0x80::u8) \<Longrightarrow> r \<noteq> old"
  by auto

lemma sched_ok_status:
  "sched_ok s \<Longrightarrow> length xs = 6 \<Longrightarrow> sched_ok (s\<lparr>inportstatus := xs\<rparr>)"
  "sched_ok s \<Longrightarrow> length xs = 6 \<Longrightarrow> sched_ok (s\<lparr>fake_inportstatus1 := xs\<rparr>)"
  "sched_ok s \<Longrightarrow> length xs = 6 \<Longrightarrow> sched_ok (s\<lparr>fake_inportstatus2 := xs\<rparr>)"
  by (simp_all add: sched_ok_def shadow_ok_def msgq_ok_def ips_ok_def)

lemma status_frame [frame_simps]:
  "changed_exactly v ks s (s'\<lparr>inportstatus := xs\<rparr>) = changed_exactly v ks s s'"
  "changed_exactly v ks s (s'\<lparr>fake_inportstatus1 := xs\<rparr>) = changed_exactly v ks s s'"
  "changed_exactly v ks (s\<lparr>fake_inportstatus2 := xs\<rparr>) s' = changed_exactly v ks s s'"
  "routed n (s\<lparr>fake_inportstatus2 := xs\<rparr>) = routed n s"
  by (simp_all add: changed_exactly_def updated_def untouched_def otp_get_def out_line_def relay_def
      routed_def cong: option.case_cong)

lemma one_switch:
  assumes "sched_ok s" "msg_queue_ptr s + max_ips s \<le> 49" "0 \<le> n" "n < 40"
    and r: "NOT (InPortByte (int (port_of n)) s) = r"
    and one: "r XOR inportstatus s ! port_of n = push_bit (bit_of n) 1"
  shows "\<exists>s'. monitor_bank (int (port_of n)) s = Some s' \<and> sched_ok s' \<and>
     changed_exactly (if bit r (bit_of n) then 1 else 0) (routed n s) s s' \<and>
     inportstatus s' = (inportstatus s)[port_of n := r]"
proof -
  have b: "bit_of n < 8" and p: "port_of n < 6" using port_bit_of [OF assms(3,4)] by simp_all
  have len: "length (inportstatus s) = 6" using assms(1) by (simp add: sched_okD)
  let ?v = "if bit r (bit_of n) then 1 else 0 :: int"
  obtain s1 where s1: "route_loop (nat (max_ips s)) 0 n ?v s = Some s1" "sched_ok s1" "same_inputs s s1"
    "changed_exactly ?v (routed n s) s s1"
    using route_spec [OF assms(1,2), of n ?v] by blast
  have "inportstatus s1 = inportstatus s" using s1(3) by (simp add: same_inputs_def)
  moreover have "r \<noteq> inportstatus s ! port_of n" using xor_ne [OF one single_mask(2) [OF b]] .
  ultimately have "monitor_bank (int (port_of n)) s =
      Some (s1\<lparr>inportstatus := (inportstatus s)[port_of n := r]\<rparr>)"
    unfolding monitor_bank_def r
    by (simp only: aget_bank [OF len assms(3,4)] one Let_def bind.bind_lunit if_not_P [OF single_mask(1) [OF b]]
        mask2int_single [OF b] bank_to_number_port_bit [OF assms(3,4)] and_single [OF b] s1(1) if_P
        aset_bank [OF len assms(3,4)] not_False_eq_True not_True_eq_False)
  then show ?thesis using s1(2,4) len by (simp add: sched_ok_status frame_simps)
qed

text \<open>
  C9: One switch. When the scan of a bank finds that exactly the input with number \<open>n\<close> has changed,
  it calls \<open>set_output\<close> with the new state for exactly the outputs that the table routes to \<open>n\<close>; each
  of them does what its type asks, no other output moves, and the new bank state is recorded.
\<close>

theorem one_switch_changes:
  assumes "sched_ok s" "msg_queue_ptr s + max_ips s \<le> 49" "0 \<le> n" "n < 40"
    and r: "NOT (InPortByte (int (port_of n)) s) = r"
    and one: "r XOR inportstatus s ! port_of n = push_bit (bit_of n) 1"
  shows "\<exists>s'. monitor_bank (int (port_of n)) s = Some s' \<and> sched_ok s' \<and>
     changed_exactly (if bit r (bit_of n) then 1 else 0) (routed n s) s s' \<and>
     inportstatus s' = (inportstatus s)[port_of n := r]"
  by (rule one_switch [OF assms])


text \<open>The state of the witnesses: the fuel pump's stop input (number 7, bit 7 of bank 0) is closed.\<close>

definition pump_ip :: "IP list" where
  "pump_ip = \<lparr>ip_port = 2, ip_input = 7, ip_label = replicate 30 0\<rparr> #
     replicate 39 \<lparr>ip_port = 99, ip_input = 0, ip_label = replicate 30 0\<rparr>"

definition sched2 :: sched where
  "sched2 = (sched1 2 fuel_pump)\<lparr>ip := pump_ip, max_ips := 1, card_ports := (\<lambda>a. if a = DIR_1 then 0x7F else if a < CARD1 + 4 then 0 else if a < CARD2 then 0xFF else 0)\<rparr>"

lemma roc_ranges: "k < 6 \<Longrightarrow> roc k \<in> {0x280, 0x281, 0x282, 0x300, 0x301, 0x302}"
proof -
  assume "k < 6"
  then have "roc k \<in> set [ROC_1, ROC_2, ROC_3, ROC_4, ROC_5, ROC_6]"
    unfolding roc_def by (intro nth_mem) simp
  then show ?thesis by simp
qed

lemma sched2_ok: "sched_ok sched2" "otp_get 2 sched2 = Some fuel_pump"
proof -
  have s1: "sched_ok (sched1 2 fuel_pump)" "otp_get 2 (sched1 2 fuel_pump) = Some fuel_pump"
    by (rule sched1_ok; simp add: fuel_pump_def o_data0_def)+
  have "outportstatus (sched1 2 fuel_pump) ! k = 0" if "k < 6" for k
    using roc_upto [OF that] by (simp add: sched1_def put_record_def)
  moreover have "card_ports sched2 (roc k) = 0" if "k < 6" for k
    using roc_ranges [OF that] by (auto simp: sched2_def)
  ultimately show "sched_ok sched2"
    using s1
    by (auto simp: sched_ok_def sched2_def shadow_ok_def msgq_ok_def ips_ok_def pump_ip_def
        simp del: fun_upd_apply)
  show "otp_get 2 sched2 = Some fuel_pump" using s1(2) by (simp add: sched2_def otp_get_def)
qed

lemma one_switch_changes_witness:
  "\<exists>s'. monitor_bank (int (port_of 7)) sched2 = Some s' \<and> sched_ok s' \<and>
     changed_exactly (if bit (0x80::u8) (bit_of 7) then 1 else 0) (routed 7 sched2) sched2 s' \<and>
     inportstatus s' = (inportstatus sched2)[port_of 7 := 0x80]"
proof (rule one_switch_changes [OF sched2_ok(1)])
  have pb: "port_of 7 = 0" "bit_of 7 = 7" by code_simp+
  show "NOT (InPortByte (int (port_of 7)) sched2) = 0x80"
    by (simp add: pb InPortByte_def sched2_def)
  show "0x80 XOR inportstatus sched2 ! port_of 7 = push_bit (bit_of 7) 1"
    by (simp add: pb sched2_def sched1_def put_record_def sched0_def)
qed (simp_all add: sched2_def sched1_def put_record_def sched0_def)

text \<open>
  Two inputs of a bank that change in the same scan, the one at bit 7 among them, are not served:
  the mask is above 0x80, the step leaves the whole state as it is and the recorded bank state with it, so
  every later scan finds the same mask and no change of that bank is served while the inputs stay.
\<close>

theorem changes_with_bit7_lost:
  assumes "0 \<le> n" "n < 40" "length (inportstatus s) = 6"
    and "NOT (InPortByte (int (port_of n)) s) XOR inportstatus s ! port_of n > 0x80"
  shows "monitor_bank (int (port_of n)) s = Some s"
proof -
  have "NOT (InPortByte (int (port_of n)) s) \<noteq> inportstatus s ! port_of n" by (rule above_ne [OF assms(4)])
  then show ?thesis
    using assms(4) by (simp add: monitor_bank_def aget_bank [OF assms(3,1,2)] Let_def)
qed

lemma changes_with_bit7_lost_witness:
  "monitor_bank (int (port_of 7)) (sched2\<lparr>inportstatus := [1, 0, 0, 0, 0, 0]\<rparr>) =
     Some (sched2\<lparr>inportstatus := [1, 0, 0, 0, 0, 0]\<rparr>)"
proof (rule changes_with_bit7_lost)
  have pb: "port_of 7 = 0" "bit_of 7 = 7" by code_simp+
  show "NOT (InPortByte (int (port_of 7)) (sched2\<lparr>inportstatus := [1, 0, 0, 0, 0, 0]\<rparr>)) XOR
      inportstatus (sched2\<lparr>inportstatus := [1, 0, 0, 0, 0, 0]\<rparr>) ! port_of 7 > 0x80"
    by (simp add: pb InPortByte_def sched2_def)
qed simp_all

lemma two_bits_mask_all:
  "list_all (\<lambda>a. list_all (\<lambda>b. let m = push_bit a 1 OR push_bit b (1::u8) in
      \<not> m > 0x80 \<and> m \<noteq> 0 \<and> mask2int m = int a) [0..<a]) [0..<7]"
  by code_simp

lemma two_bits_mask:
  "b < a \<Longrightarrow> a < 7 \<Longrightarrow> \<not> push_bit a 1 OR push_bit b (1::u8) > 0x80"
  "b < a \<Longrightarrow> a < 7 \<Longrightarrow> push_bit a 1 OR push_bit b (1::u8) \<noteq> 0"
  "b < a \<Longrightarrow> a < 7 \<Longrightarrow> mask2int (push_bit a 1 OR push_bit b 1) = int a"
  using two_bits_mask_all by (auto simp: list_all_iff Let_def)

text \<open>
  Two inputs of a bank below bit 7 that change in the same scan: only the outputs of the higher one
  are served (and switched on only if both inputs went on), but both are recorded as seen. The change of
  the lower input is lost.
\<close>

theorem second_change_lost:
  assumes "sched_ok s" "msg_queue_ptr s + max_ips s \<le> 49" "0 \<le> n" "n < 40"
    and r: "NOT (InPortByte (int (port_of n)) s) = r"
    and two: "r XOR inportstatus s ! port_of n = push_bit (bit_of n) 1 OR push_bit b 1"
    and b: "b < bit_of n" "bit_of n < 7"
  shows "\<exists>s'. monitor_bank (int (port_of n)) s = Some s' \<and> sched_ok s' \<and>
     changed_exactly (if (push_bit (bit_of n) 1 OR push_bit b 1) AND r = push_bit (bit_of n) 1 OR push_bit b 1 then 1 else 0)
       (routed n s) s s' \<and>
     inportstatus s' = (inportstatus s)[port_of n := r]"
proof -
  have len: "length (inportstatus s) = 6" using assms(1) by (simp add: sched_okD)
  let ?m = "push_bit (bit_of n) 1 OR push_bit b (1::u8)"
  let ?v = "if ?m AND r = ?m then 1 else 0 :: int"
  obtain s1 where s1: "route_loop (nat (max_ips s)) 0 n ?v s = Some s1" "sched_ok s1" "same_inputs s s1"
    "changed_exactly ?v (routed n s) s s1"
    using route_spec [OF assms(1,2), of n ?v] by blast
  have "inportstatus s1 = inportstatus s" using s1(3) by (simp add: same_inputs_def)
  moreover have "r \<noteq> inportstatus s ! port_of n" using xor_ne [OF two two_bits_mask(2) [OF b]] .
  ultimately have "monitor_bank (int (port_of n)) s =
      Some (s1\<lparr>inportstatus := (inportstatus s)[port_of n := r]\<rparr>)"
    unfolding monitor_bank_def r
    by (simp only: aget_bank [OF len assms(3,4)] two Let_def bind.bind_lunit if_not_P [OF two_bits_mask(1) [OF b]]
        two_bits_mask(3) [OF b] bank_to_number_port_bit [OF assms(3,4)] s1(1) if_P
        aset_bank [OF len assms(3,4)] not_False_eq_True not_True_eq_False)
  then show ?thesis using s1(2,4) len by (simp add: sched_ok_status frame_simps)
qed


definition sched3 :: sched where
  "sched3 = sched2\<lparr>card_ports := (card_ports sched2)(DIR_1 := 0x9F)\<rparr>"

lemma sched3_ok: "sched_ok sched3"
proof -
  have "card_ports sched3 (roc k) = card_ports sched2 (roc k)" if "k < 6" for k
    using roc_ranges [OF that] by (auto simp: sched3_def)
  then show ?thesis using sched2_ok(1)
    by (simp add: sched_ok_def shadow_ok_def sched3_def msgq_ok_def ips_ok_def del: fun_upd_apply)
qed

text \<open>Inputs 5 and 6 go on together.\<close>

lemma second_change_lost_witness:
  "\<exists>s'. monitor_bank (int (port_of 6)) sched3 = Some s' \<and> sched_ok s' \<and>
     changed_exactly (if (push_bit (bit_of 6) 1 OR push_bit 5 1) AND (0x60::u8) = push_bit (bit_of 6) 1 OR push_bit 5 1 then 1 else 0)
       (routed 6 sched3) sched3 s' \<and>
     inportstatus s' = (inportstatus sched3)[port_of 6 := 0x60]"
proof (rule second_change_lost [OF sched3_ok])
  have pb: "port_of 6 = 0" "bit_of 6 = 6" by code_simp+
  show "NOT (InPortByte (int (port_of 6)) sched3) = 0x60"
    by (simp add: pb InPortByte_def sched3_def)
  show "0x60 XOR inportstatus sched3 ! port_of 6 = push_bit (bit_of 6) 1 OR push_bit 5 1"
    by (simp add: pb sched3_def sched2_def sched1_def put_record_def sched0_def)
  show "5 < bit_of 6" "bit_of 6 < 7" by (simp_all add: pb)
qed (simp_all add: sched3_def sched2_def sched1_def put_record_def sched0_def)

lemma change_input_eq:
  assumes "length (fake_inportstatus2 s) = 6" "0 \<le> n" "n < 40"
  shows "change_input n onoff s = Some (s\<lparr>fake_inportstatus2 := (fake_inportstatus2 s)
     [port_of n := put_bit onoff (word_of_nat (bit_of n)) (fake_inportstatus2 s ! port_of n)]\<rparr>)"
proof -
  have u: "unat (word_of_nat (bit_of n) :: u8) = bit_of n"
    using port_bit_of(2) [OF assms(2,3)] by (simp add: unat_of_nat)
  show ?thesis
    using assms(2,3) unfolding put_bit_def u
    by (simp add: change_input_def aget_def [of real_banks] length_real_banks port_bit_of(4,5) Let_def
        aget_bank [OF assms] aset_bank [OF assms])
qed

lemma put_bit_xor:
  assumes "b < 8"
  shows "put_bit v (word_of_nat b) (x::u8) XOR x = (if bit x b = (v \<noteq> 0) then 0 else push_bit b 1)"
    "bit (put_bit v (word_of_nat b) (x::u8)) b = (v \<noteq> 0)"
    "bit x b = (v \<noteq> 0) \<Longrightarrow> put_bit v (word_of_nat b) x = x"
proof -
  have u: "unat (word_of_nat b :: u8) = b" using assms by (simp add: unat_of_nat)
  show "put_bit v (word_of_nat b) x XOR x = (if bit x b = (v \<noteq> 0) then 0 else push_bit b 1)"
    unfolding put_bit_def u Let_def by (rule bit_word_eqI) (auto simp: bit_simps)
  show "bit (put_bit v (word_of_nat b) x) b = (v \<noteq> 0)"
    using bit_put_bit [of "word_of_nat b" b v x] u assms by simp
  show "put_bit v (word_of_nat b) x = x" if "bit x b = (v \<noteq> 0)"
    using that unfolding put_bit_def u Let_def by (intro bit_word_eqI) (auto simp: bit_simps)
qed

text \<open>
  An input made by software. If the two arrays of software inputs agree, \<open>change_input n v\<close>
  followed by one scan of the bank of \<open>n\<close> serves exactly the outputs routed to \<open>n\<close> when the input was
  in the other state, does nothing to any output when it was not, and leaves the arrays agreeing.
\<close>

theorem change_input_delivered:
  assumes "sched_ok s" "msg_queue_ptr s + max_ips s \<le> 49" "0 \<le> n" "n < 40" "v \<in> {0, 1}"
    and same: "fake_inportstatus1 s = fake_inportstatus2 s"
  shows "\<exists>s1 s2. change_input n v s = Some s1 \<and> fake_monitor_bank (int (port_of n)) s1 = Some s2 \<and>
     sched_ok s2 \<and> fake_inportstatus1 s2 = fake_inportstatus2 s2 \<and>
     bit (fake_inportstatus2 s2 ! port_of n) (bit_of n) = (v = 1) \<and>
     changed_exactly v (if bit (fake_inportstatus2 s ! port_of n) (bit_of n) = (v = 1) then [] else routed n s) s s2"
proof -
  have b: "bit_of n < 8" and p: "port_of n < 6" using port_bit_of [OF assms(3,4)] by simp_all
  have len: "length (fake_inportstatus1 s) = 6" "length (fake_inportstatus2 s) = 6"
    using assms(1) by (simp_all add: sched_okD)
  let ?x = "fake_inportstatus2 s ! port_of n"
  let ?y = "put_bit v (word_of_nat (bit_of n)) ?x"
  let ?f = "(fake_inportstatus2 s)[port_of n := ?y]"
  define s1 where "s1 = s\<lparr>fake_inportstatus2 := ?f\<rparr>"
  have c: "change_input n v s = Some s1" by (simp add: change_input_eq [OF len(2) assms(3,4)] s1_def)
  have ok1: "sched_ok s1" using assms(1) len by (simp add: s1_def sched_ok_status)
  have v: "(v \<noteq> 0) = (v = 1)" using assms(5) by auto
  have y: "bit ?y (bit_of n) = (v = 1)" using put_bit_xor(2) [OF b] v by simp
  have l1: "length (fake_inportstatus2 s1) = 6" "length (fake_inportstatus1 s1) = 6"
    using len by (simp_all add: s1_def)
  have g: "fake_inportstatus2 s1 ! port_of n = ?y" "fake_inportstatus1 s1 ! port_of n = ?x"
    using p len by (simp_all add: s1_def same)
  show ?thesis
  proof (cases "bit ?x (bit_of n) = (v = 1)")
    case True
    then have e: "?y = ?x" using put_bit_xor(3) [OF b, of ?x v] v by simp
    then have "?f = fake_inportstatus2 s" using p len by simp
    then have s1: "s1 = s" by (simp add: s1_def)
    have "fake_monitor_bank (int (port_of n)) s = Some s"
      using e g by (simp add: fake_monitor_bank_def aget_bank [OF len(1) assms(3,4)] aget_bank [OF len(2) assms(3,4)] same)
    then show ?thesis using c s1 assms(1) same True
      by (intro exI [of _ s]) (simp add: changed_exactly_def untouched_def)
  next
    case False
    then have one: "?y XOR ?x = push_bit (bit_of n) 1" using put_bit_xor(1) [OF b, of v ?x] v by simp
    have on: "(if bit ?y (bit_of n) then 1 else 0) = v" using y assms(5) by auto
    have keep: "(if bit ?y (bit_of n) then ?y OR push_bit (bit_of n) 1 else ?y AND NOT (push_bit (bit_of n) 1)) = ?y"
      by (rule bit_word_eqI) (auto simp: bit_simps)
    have "(fake_inportstatus2 s1)[port_of n := ?y] = fake_inportstatus2 s1"
      using g(1) by (metis list_update_id)
    then have s1s: "s1\<lparr>fake_inportstatus2 := (fake_inportstatus2 s1)[port_of n := ?y]\<rparr> = s1" by simp
    obtain s2 where s2: "route_loop (nat (max_ips s1)) 0 n v s1 = Some s2" "sched_ok s2" "same_inputs s1 s2"
      "changed_exactly v (routed n s1) s1 s2"
      using route_spec [OF ok1, of n v] assms(2) by (auto simp: s1_def)
    have f: "fake_inportstatus2 s2 = ?f" "fake_inportstatus1 s2 = fake_inportstatus2 s"
      using s2(3) by (simp_all add: same_inputs_def s1_def same)
    have l2: "length (fake_inportstatus2 s2) = 6" "length (fake_inportstatus1 s2) = 6"
      using len by (simp_all add: f)
    have "?y \<noteq> ?x" using xor_ne [OF one single_mask(2) [OF b]] .
    then have "fake_monitor_bank (int (port_of n)) s1 =
        Some (s2\<lparr>fake_inportstatus1 := (fake_inportstatus1 s2)[port_of n := fake_inportstatus2 s2 ! port_of n]\<rparr>)"
      unfolding fake_monitor_bank_def
      by (simp only: aget_bank [OF l1(1) assms(3,4)] aget_bank [OF l1(2) assms(3,4)] g one Let_def bind.bind_lunit
          if_not_P [OF single_mask(1) [OF b]] mask2int_single [OF b] and_single [OF b] keep on
          aset_bank [OF l1(1) assms(3,4)] s1s bank_to_number_port_bit [OF assms(3,4)] s2(1) if_P
          aget_bank [OF l2(1) assms(3,4)] aset_bank [OF l2(2) assms(3,4)] not_False_eq_True not_True_eq_False)
    moreover have "changed_exactly v (routed n s) s s2"
      using s2(4) by (simp add: s1_def frame_simps)
    ultimately show ?thesis
      using c s2(2) p len l2 f y False
      by (auto simp: frame_simps sched_ok_status)
  qed
qed

lemma change_input_delivered_witness:
  "\<exists>s1 s2. change_input 7 1 sched2 = Some s1 \<and> fake_monitor_bank (int (port_of 7)) s1 = Some s2 \<and>
     sched_ok s2 \<and> fake_inportstatus1 s2 = fake_inportstatus2 s2 \<and>
     bit (fake_inportstatus2 s2 ! port_of 7) (bit_of 7) = ((1::int) = 1) \<and>
     changed_exactly 1 (if bit (fake_inportstatus2 sched2 ! port_of 7) (bit_of 7) = ((1::int) = 1) then [] else routed 7 sched2) sched2 s2"
  by (rule change_input_delivered [OF sched2_ok(1)])
     (simp_all add: sched2_def sched1_def put_record_def sched0_def)


section \<open>Properties of the table\<close>

definition has_nul :: "o_data \<Rightarrow> bool" where
  "has_nul d \<longleftrightarrow> 0 \<in> set (o_label d)"

lemma takeWhile_short: "x \<in> set xs \<Longrightarrow> \<not> P x \<Longrightarrow> length (takeWhile P xs) < length xs"
  by (induction xs) auto

lemma strcpy_buf_ok:
  "length src = 30 \<Longrightarrow> 0 \<in> set src \<Longrightarrow> length dst = 30 \<Longrightarrow> \<exists>l. strcpy_buf dst src = Some l \<and> length l = 30"
proof -
  assume a: "length src = 30" "0 \<in> set src" "length dst = 30"
  let ?n = "length (takeWhile (\<lambda>b. b \<noteq> 0) src)"
  have "?n < length src" using a(2) by (intro takeWhile_short) auto
  then show ?thesis using a by (auto simp: strcpy_buf_def Let_def)
qed

lemma al_find_op_mem: "al_find_op i k xs = Some d \<Longrightarrow> d \<in> snd ` set xs"
  by (induction i k xs rule: al_find_op.induct) (auto split: if_splits)

lemma al_find_op_sorted:
  "(\<forall>(j, r) \<in> set xs. uint (o_port r) = j) \<Longrightarrow> distinct (map fst xs) \<Longrightarrow>
   al_find_op i k xs = (case map_of xs k of None \<Rightarrow> None
     | Some r \<Rightarrow> if o_input_port r \<noteq> 0xFF \<and> uint (o_input_port r) = i then Some r else None)"
proof (induction xs)
  case (Cons x xs)
  obtain j r where x: "x = (j, r)" by (cases x)
  have "map_of xs k = None" if "j = k" using Cons.prems x that by (auto simp: map_of_eq_None_iff)
  then show ?case using Cons x by (auto split: option.splits)
qed simp

lemma al_find_op_db:
  assumes "db_ok al" "0 \<le> i" "i < 40"
  shows "al_find_op i k al = (case map_of al k of None \<Rightarrow> None
     | Some r \<Rightarrow> if uint (o_input_port r) = i then Some r else None)"
proof -
  have "distinct (map fst al)" using assms(1) by (simp add: db_ok_def)
  moreover have "\<forall>(j, r) \<in> set al. uint (o_port r) = j" using assms(1) by (auto simp: db_ok_def)
  moreover have "r \<noteq> 0xFF" if "uint (r::u8) = i" for r using that assms(2,3) by auto
  ultimately show ?thesis using al_find_op_sorted [of al i k] by (auto split: option.splits)
qed

definition hits :: "oalist \<Rightarrow> (int \<times> int) list \<Rightarrow> (int \<times> int) list" where
  "hits al iks = filter (\<lambda>(i, k). al_find_op i k al \<noteq> None) iks"

abbreviation ip_pair :: "IP \<Rightarrow> int \<times> int" where "ip_pair e \<equiv> (ip_input e, ip_port e)"

lemma ip_loop_hits:
  assumes "0 \<le> j" "nat j + length (hits al iks) \<le> length ips"
    "\<forall>e \<in> set ips. length (ip_label e) = 30"
    "\<And>i k d. al_find_op i k al = Some d \<Longrightarrow> label_ok d \<and> has_nul d"
  shows "\<exists>ips'. ip_loop iks al j ips = Some (j + int (length (hits al iks)), ips') \<and>
     map ip_pair ips' = take (nat j) (map ip_pair ips) @ hits al iks @ drop (nat j + length (hits al iks)) (map ip_pair ips)"
  using assms(1-3)
proof (induction iks arbitrary: j ips)
  case Nil
  then show ?case by (simp add: hits_def)
next
  case (Cons ik iks)
  obtain i k where ik: "ik = (i, k)" by (cases ik)
  show ?case
  proof (cases "al_find_op i k al")
    case None
    then show ?thesis using Cons ik by (simp add: hits_def)
  next
    case (Some d)
    then have h: "hits al (ik # iks) = (i, k) # hits al iks" by (simp add: hits_def ik)
    let ?e = "ips ! nat j"
    have j: "nat j < length ips" using Cons.prems(2) h by simp
    then have "length (ip_label ?e) = 30" using Cons.prems(3) by simp
    with assms(4) [OF Some] obtain l where l: "strcpy_buf (ip_label ?e) (o_label d) = Some l" "length l = 30"
      using strcpy_buf_ok by (auto simp: label_ok_def has_nul_def)
    let ?ips = "ips[nat j := ?e\<lparr>ip_port := k, ip_input := i, ip_label := l\<rparr>]"
    have "\<forall>e \<in> set ?ips. length (ip_label e) = 30"
      using Cons.prems(3) l(2) by (auto dest!: set_update_subset_insert [THEN subsetD])
    moreover have "nat (j + 1) + length (hits al iks) \<le> length ?ips"
      using Cons.prems(1,2) h by (simp add: nat_add_distrib)
    ultimately obtain ips' where
      r: "ip_loop iks al (j + 1) ?ips = Some (j + 1 + int (length (hits al iks)), ips')"
        "map ip_pair ips' = take (nat (j + 1)) (map ip_pair ?ips) @ hits al iks @
           drop (nat (j + 1) + length (hits al iks)) (map ip_pair ?ips)"
      using Cons.IH [of "j + 1" ?ips] Cons.prems(1) by auto
    have m: "map ip_pair ?ips = (map ip_pair ips)[nat j := (i, k)]" by (simp add: map_update)
    have "take (nat (j + 1)) (map ip_pair ?ips) = take (nat j) (map ip_pair ips) @ [(i, k)]"
      using j Cons.prems(1) unfolding m by (simp add: nat_add_distrib take_Suc_conv_app_nth)
    moreover have "drop (nat (j + 1) + n) (map ip_pair ?ips) = drop (nat j + Suc n) (map ip_pair ips)" for n
      using Cons.prems(1) unfolding m by (simp add: nat_add_distrib)
    ultimately show ?thesis
      using r l(1) Some j Cons.prems(1) h
      by (auto simp: ik aget_def aset_def intro!: exI [of _ ips'])
  qed
qed

lemma hits_product:
  assumes "db_ok al"
  shows "(i, k) \<in> set (hits al (List.product [0..39] [0..39])) \<longleftrightarrow>
      0 \<le> i \<and> i < 40 \<and> (\<exists>d. map_of al k = Some d \<and> uint (o_input_port d) = i)"
    "distinct (map snd (hits al (List.product [0..39] [0..39])))"
    "length (hits al (List.product [0..39] [0..39])) \<le> 40"
proof -
  let ?H = "hits al (List.product [0..39] [0..39])"
  have in_H: "(i, k) \<in> set ?H \<longleftrightarrow>
      0 \<le> i \<and> i < 40 \<and> (\<exists>d. map_of al k = Some d \<and> uint (o_input_port d) = i)" for i k
    using al_find_op_db [OF assms, of i k] db_ok_record [OF assms, of k]
    by (auto simp: hits_def split: option.splits if_splits)
  show "(i, k) \<in> set ?H \<longleftrightarrow> 0 \<le> i \<and> i < 40 \<and> (\<exists>d. map_of al k = Some d \<and> uint (o_input_port d) = i)"
    by (rule in_H)
  have "distinct ?H" by (simp add: hits_def distinct_product)
  moreover have "inj_on snd (set ?H)"
  proof (rule inj_onI)
    fix x y assume xy: "x \<in> set ?H" "y \<in> set ?H" "snd x = snd y"
    then have "(fst x, snd x) \<in> set ?H" "(fst y, snd x) \<in> set ?H" by (metis prod.collapse)+
    then have "fst x = fst y" unfolding in_H by auto
    then show "x = y" using xy(3) by (rule prod_eqI)
  qed
  ultimately show d: "distinct (map snd ?H)" by (simp add: distinct_map)
  have "set (map snd ?H) \<subseteq> {0..39}" by (auto simp: hits_def)
  then have "card (set (map snd ?H)) \<le> card {0..39::int}" by (intro card_mono) simp_all
  then show "length ?H \<le> 40" using distinct_card [OF d] by simp
qed


lemma init_ips_routes:
  assumes "sched_ok s" "\<forall>(i, d) \<in> set (db s). has_nul d"
    and par: "LoadParams id0 (param_file s) (ps s) (password s) = (rc, p, pw)" "length pw = 6"
    and delay: "0 \<le> p_lights_on_delay p" "p_lights_on_delay p < 13"
  shows "\<exists>s'. init_ips id0 s = Some s' \<and> sched_ok s' \<and> db s' = db s \<and>
     p_blower1_on (ps s') = 32 \<and> actual_lights_on_delay s' = lights_on_delay ! nat (p_lights_on_delay p) \<and>
     (\<forall>n k. 0 \<le> n \<and> n < 40 \<longrightarrow>
        (k \<in> set (routed n s') \<longleftrightarrow> (\<exists>d. otp_get k s = Some d \<and> uint (o_input_port d) = n)))"
proof -
  let ?H = "hits (db s) (List.product [0..39] [0..39])"
  let ?r = "replicate 40 \<lparr>ip_port = 99, ip_input = 0, ip_label = replicate 30 0 :: u8 list\<rparr>"
  have ok: "db_ok (db s)" using assms(1) by (simp add: sched_okD)
  note H = hits_product [OF ok]
  have lab: "label_ok d \<and> has_nul d" if "al_find_op i k (db s) = Some d" for i k d
  proof -
    have "d \<in> snd ` set (db s)" using that by (rule al_find_op_mem)
    then show ?thesis using assms(2) ok by (auto simp: db_ok_def)
  qed
  obtain ips where ips: "ip_loop (List.product [0..39] [0..39]) (db s) 0 ?r = Some (int (length ?H), ips)"
    "map ip_pair ips = ?H @ drop (length ?H) (map ip_pair ?r)"
    using ip_loop_hits [of 0 "db s" "List.product [0..39] [0..39]" ?r] lab H(3) by auto
  have len: "length ips = 40" using arg_cong [OF ips(2), of length] H(3) by simp
  have below: "\<forall>x \<in> set ?H. 0 \<le> snd x \<and> snd x < 40" by (auto simp: hits_def)
  have "length (filter (\<lambda>e. ip_port e < 40) ips) = length (filter (\<lambda>x. snd x < 40) (map ip_pair ips))"
    by (simp add: filter_map comp_def)
  also have "\<dots> = length ?H" unfolding ips(2) using below by (simp add: filter_id_conv)
  finally have cnt: "length (filter (\<lambda>e. ip_port e < 40) ips) = length ?H" .
  have tk: "map ip_pair (take (length ?H) ips) = ?H"
    using arg_cong [OF ips(2), of "take (length ?H)"] by (simp add: take_map)
  have "map ip_port es = map snd (map ip_pair es)" for es by simp
  then have tp: "map ip_port (take (length ?H) ips) = map snd ?H" by (simp only: tk)
  have ge: "0 \<le> ip_port e \<and> ip_port e < 40" if "e \<in> set (take (length ?H) ips)" for e
  proof -
    have "ip_port e \<in> set (map ip_port (take (length ?H) ips))" using that by simp
    then show ?thesis using below unfolding tp by auto
  qed
  define s' where "s' = s\<lparr>engine_running := 0, test_lblinkers := 0, test_rblinkers := 0,
    ip := ips, max_ips := int (length ?H), ps := p\<lparr>p_blower1_on := 32\<rparr>, password := pw,
    actual_lights_on_delay := lights_on_delay ! nat (p_lights_on_delay p)\<rparr>"
  have "aget lights_on_delay (p_lights_on_delay p) = Some (lights_on_delay ! nat (p_lights_on_delay p))"
    using delay by (intro aget_SomeI) (simp_all add: lights_on_delay_def)
  then have run: "init_ips id0 s = Some s'"
    using ips(1) cnt par(1) by (simp add: init_ips_def s'_def Let_def)
  have ips_ok: "ips_ok s'" using len H(2,3) tp ge by (simp add: ips_ok_def s'_def)
  have "sched_ok s'" using assms(1) ips_ok par(2)
    by (simp add: sched_ok_def s'_def shadow_ok_def msgq_ok_def)
  moreover have "k \<in> set (routed n s') \<longleftrightarrow> (\<exists>d. otp_get k s = Some d \<and> uint (o_input_port d) = n)"
    if "0 \<le> n" "n < 40" for n k
  proof -
    have "k \<in> set (routed n s') \<longleftrightarrow> (n, k) \<in> set (map ip_pair (take (length ?H) ips))"
      by (auto simp: routed_def s'_def image_iff)
    then show ?thesis unfolding tk H(1) using that by (simp add: otp_get_def)
  qed
  ultimately show ?thesis using run by (auto simp: s'_def)
qed

text \<open>
  \<open>init_ips\<close> on a database of the 40 outputs: it never writes past the 40 entries of the table, and
  afterwards an output is routed to input \<open>n\<close> exactly when its record names \<open>n\<close> as its input; no
  output is in the table twice. The other outputs (\<open>0xFF\<close>, or an input of 40 and above) are in no route.
\<close>

theorem init_ips_table:
  assumes "sched_ok s" "\<forall>(i, d) \<in> set (db s). has_nul d"
    and par: "LoadParams id0 (param_file s) (ps s) (password s) = (rc, p, pw)" "length pw = 6"
    and delay: "0 \<le> p_lights_on_delay p" "p_lights_on_delay p < 13"
  shows "\<exists>s'. init_ips id0 s = Some s' \<and> sched_ok s' \<and> db s' = db s \<and>
     p_blower1_on (ps s') = 32 \<and> actual_lights_on_delay s' = lights_on_delay ! nat (p_lights_on_delay p) \<and>
     (\<forall>n k. 0 \<le> n \<and> n < 40 \<longrightarrow>
        (k \<in> set (routed n s') \<longleftrightarrow> (\<exists>d. otp_get k s = Some d \<and> uint (o_input_port d) = n)))"
  by (rule init_ips_routes [OF assms])

lemma init_ips_table_witness:
  "\<exists>s'. init_ips 0 (sched1 2 fuel_pump) = Some s' \<and> sched_ok s' \<and> db s' = db (sched1 2 fuel_pump) \<and>
     p_blower1_on (ps s') = 32 \<and> actual_lights_on_delay s' = lights_on_delay ! nat (p_lights_on_delay params0) \<and>
     (\<forall>n k. 0 \<le> n \<and> n < 40 \<longrightarrow>
        (k \<in> set (routed n s') \<longleftrightarrow> (\<exists>d. otp_get k (sched1 2 fuel_pump) = Some d \<and> uint (o_input_port d) = n)))"
proof (rule init_ips_table)
  show "sched_ok (sched1 2 fuel_pump)" by (rule sched1_ok) (simp_all add: fuel_pump_def o_data0_def)
  show "LoadParams 0 (param_file (sched1 2 fuel_pump)) (ps (sched1 2 fuel_pump)) (password (sched1 2 fuel_pump)) =
      (-2, params0, replicate 6 0)"
    by (simp add: LoadParams_def sched1_def put_record_def sched0_def)
  have "(\<forall>(i, d) \<in> set xs. has_nul d) \<Longrightarrow> has_nul e \<Longrightarrow> (\<forall>(i, d) \<in> set (al_update k (\<lambda>_. e) xs). has_nul d)" for e k xs
    by (induction xs) (auto split: if_splits)
  moreover have "\<forall>(i, d) \<in> set db0. has_nul d" by (auto simp: db0_def o_data0_def has_nul_def)
  moreover have "has_nul fuel_pump" by (simp add: fuel_pump_def o_data0_def has_nul_def)
  ultimately show "\<forall>(i, d) \<in> set (db (sched1 2 fuel_pump)). has_nul d"
    by (simp add: sched1_def put_record_def sched0_def)
qed (simp_all add: params0_def params_of_def)

end
