(* ===== verification/Timer.thy ===== *)
theory Timer
  imports Inputs
begin

text \<open>
  The task that runs once a second (\<open>timer_task\<close> of \<open>thread_io/tasks.c\<close>) and the one that runs ten
  times a second (\<open>timer2_task\<close>): the run times, the lights that go off after a shutdown, the test of
  the blinkers, and the outputs that are on for a time. \<open>tempx\<close> is the task's local buffer of 50 bytes.
  After \<open>ollist_insert_data\<close> has freed the record that \<open>otp\<close> points to, the task reads \<open>otp->port\<close>
  from it: \<open>stale\<close> is what a read of a freed record yields, as a function of what it held.
\<close>

section \<open>The run times\<close>

text \<open>\<open>sprintf(tempx,"%dh %dm %ds ",h,m,s)\<close>\<close>

definition hms_string :: "u8 \<Rightarrow> u8 \<Rightarrow> u8 \<Rightarrow> string" where
  "hms_string h m s = dec_nat (unat h) @ ''h '' @ dec_nat (unat m) @ ''m '' @ dec_nat (unat s) @ ''s ''"

text \<open>\<open>send_msg(strlen((char*)tempx)*2,(UCHAR*)tempx,t)\<close> for the string that was printed.\<close>

definition send_str :: "u8 list \<Rightarrow> string \<Rightarrow> u8 \<Rightarrow> 'a links_scheme \<Rightarrow> 'a links_scheme option" where
  "send_str tempx str t s = send_msg (int (length str) * 2) tempx t s"

text \<open>\<open>if(++s > 59) { s = 0; if(++m > 59) { m = 0; h++; } }\<close>\<close>

definition tick_hms :: "u8 \<times> u8 \<times> u8 \<Rightarrow> u8 \<times> u8 \<times> u8" where
  "tick_hms = (\<lambda>(h, m, s).
     (let s = s + 1 in
      if s > 59 then (let m = m + 1 in if m > 59 then (h + 1, 0, 0) else (h, m, 0)) else (h, m, s)))"

definition timer_running :: "u8 list \<Rightarrow> 'a sched_scheme \<Rightarrow> (u8 list \<times> 'a sched_scheme) option" where
  "timer_running tempx s = do {
     let (h, m, sec) = tick_hms (running_hours s, running_minutes s, running_seconds s);
     let s = s\<lparr>running_hours := h, running_minutes := m, running_seconds := sec\<rparr>;
     let str = hms_string h m sec;
     tempx \<leftarrow> cstr_into tempx str;
     s \<leftarrow> send_str tempx str ENGINE_RUNTIME s;
     if m = 0 \<and> sec = 15 then do {
       s \<leftarrow> add_msg_queue ON_LIGHTS s;
       s \<leftarrow> add_msg_queue ON_RUNNING_LIGHTS s;
       s \<leftarrow> send_serialother ON_LIGHTS tempx s;
       s \<leftarrow> send_serialother ON_RUNNING_LIGHTS tempx s;
       s \<leftarrow> send_str tempx str ON_LIGHTS s;
       s \<leftarrow> send_str tempx str ON_RUNNING_LIGHTS s;
       Some (tempx, s)
     } else Some (tempx, s)
   }"

text \<open>The string in a buffer, up to its terminator; none within the buffer is a read past its end.\<close>

definition buf_str :: "u8 list \<Rightarrow> string option" where
  "buf_str buf = (let n = length (takeWhile (\<lambda>b. b \<noteq> 0) buf) in
     if n < length buf then Some (map (\<lambda>b. char_of (unat b)) (take n buf)) else None)"

text \<open>
  With the engine off: the countdown of the lights. The last call takes the length of the string in
  \<open>tempx\<close>, which is the one the previous tick printed.
\<close>

definition timer_stopped :: "u8 list \<Rightarrow> 'a sched_scheme \<Rightarrow> (u8 list \<times> 'a sched_scheme) option" where
  "timer_stopped tempx s = do {
     let s = s\<lparr>running_seconds := 0, running_minutes := 0, running_hours := 0\<rparr>;
     if lights_on_countdown s > 0 then do {
       let s = s\<lparr>lights_on_countdown := lights_on_countdown s - 1\<rparr>;
       if lights_on_countdown s = 0 then do {
         s \<leftarrow> add_msg_queue OFF_LLIGHTS s;
         s \<leftarrow> add_msg_queue OFF_RLIGHTS s;
         s \<leftarrow> add_msg_queue OFF_LIGHTS s;
         s \<leftarrow> add_msg_queue OFF_RUNNING_LIGHTS s;
         s \<leftarrow> add_msg_queue OFF_FAN s;
         s \<leftarrow> send_serialother OFF_LIGHTS tempx s;
         s \<leftarrow> send_serialother OFF_RUNNING_LIGHTS tempx s;
         s \<leftarrow> send_serialother OFF_FAN tempx s;
         str \<leftarrow> buf_str tempx;
         s \<leftarrow> send_str tempx str OFF_LIGHTS s;
         Some (tempx, s)
       } else Some (tempx, s)
     } else Some (tempx, s)
   }"

definition timer_uptime :: "u8 list \<Rightarrow> 'a sched_scheme \<Rightarrow> (u8 list \<times> 'a sched_scheme) option" where
  "timer_uptime tempx s = do {
     let s = s\<lparr>odometer := odometer s + 1\<rparr>;
     let s = (if odometer s mod 2 = 0 then s\<lparr>trip := trip s + 1\<rparr> else s);
     let (h, m, sec) = tick_hms (trunning_hours s, trunning_minutes s, trunning_seconds s);
     let s = s\<lparr>trunning_hours := h, trunning_minutes := m, trunning_seconds := sec\<rparr>;
     let str = hms_string h m sec;
     tempx \<leftarrow> cstr_into tempx str;
     s \<leftarrow> send_str tempx str SERVER_UPTIME s;
     Some (tempx, s)
   }"

section \<open>The test of the blinkers\<close>

text \<open>The counter goes from 1 to 2 and, in the same tick, back to 0.\<close>

definition timer_blinkers :: "'a sched_scheme \<Rightarrow> 'a sched_scheme option" where
  "timer_blinkers s = do {
     s \<leftarrow> (if test_lblinkers s > 0 then do {
             let s = (if test_lblinkers s = 1 then s\<lparr>test_lblinkers := test_lblinkers s + 1\<rparr> else s);
             if test_lblinkers s = 2 then change_input LEFTBLINKER_INPUT 0 (s\<lparr>test_lblinkers := 0\<rparr>)
             else Some s
           } else Some s);
     if test_rblinkers s > 0 then do {
       let s = (if test_rblinkers s = 1 then s\<lparr>test_rblinkers := test_rblinkers s + 1\<rparr> else s);
       if test_rblinkers s = 2 then change_input RIGHTBLINKER_INPUT 0 (s\<lparr>test_rblinkers := 0\<rparr>)
       else Some s
     } else Some s
   }"

section \<open>The task of the GPS receiver\<close>

text \<open>
  \<open>LCD_serial_queue\<close> waits, clears the two flags and returns in the first turn of its loop; what follows the
  \<open>return 1\<close> (reading and sending the GPS data) is never reached.
\<close>

definition LCD_serial_queue :: "'a sched_scheme \<Rightarrow> u8 \<times> 'a sched_scheme" where
  "LCD_serial_queue s =
     (let s = s\<lparr>enable_gps_send_data := 0, enable_adc_send_data := 0\<rparr>
      in if shutdown_all s \<noteq> 0 then (0, s) else (1, s))"

section \<open>Timed outputs\<close>

text \<open>\<open>mask = 1; mask <<= index; fake_inportstatus1[bank] &= ~mask; fake_inportstatus2[bank] &= ~mask;\<close>\<close>

definition clear_fake :: "int \<Rightarrow> 'a sched_scheme \<Rightarrow> 'a sched_scheme option" where
  "clear_fake port s = do {
     rb \<leftarrow> aget real_banks port;
     let bank = rb_bank rb;
     let msk = push_bit (nat (rb_index rb)) 1;
     v1 \<leftarrow> aget (fake_inportstatus1 s) bank;
     st1 \<leftarrow> aset (fake_inportstatus1 s) bank (v1 AND NOT msk);
     v2 \<leftarrow> aget (fake_inportstatus2 s) bank;
     st2 \<leftarrow> aset (fake_inportstatus2 s) bank (v2 AND NOT msk);
     Some (s\<lparr>fake_inportstatus1 := st1, fake_inportstatus2 := st2\<rparr>)
   }"

text \<open>
  The body of the loop over the outputs. The insertion frees the record \<open>otp\<close> points to when it is the
  one at the index it inserts at.
\<close>

definition timer_output :: "(o_data \<Rightarrow> o_data) \<Rightarrow> int \<Rightarrow> 'a sched_scheme \<Rightarrow> 'a sched_scheme option" where
  "timer_output stale i s = do {
     d \<leftarrow> otp_get i s;
     if (o_type d = 2 \<or> o_type d = 3) \<and> o_reset d = 1 then do {
       s \<leftarrow> (if o_type d = 3
              then chg_output (uint (o_port d)) (if (o_time_delay d - o_time_left d) mod 2 = 0 then 0 else 1) s
              else Some s);
       s \<leftarrow> otp_set i (\<lambda>d. d\<lparr>o_time_left := o_time_left d - 1\<rparr>) s;
       d \<leftarrow> otp_get i s;
       if o_time_left d = 0 then do {
         s \<leftarrow> (if o_type d = 3 \<and> o_time_delay d mod 2 = 0 then TOGGLE_OTP i s else Some s);
         s \<leftarrow> chg_output i 0 s;
         s \<leftarrow> otp_set i (\<lambda>d. d\<lparr>o_onoff := 0\<rparr>) s;
         s \<leftarrow> otp_set i (\<lambda>d. d\<lparr>o_reset := 0\<rparr>) s;
         d \<leftarrow> otp_get i s;
         s \<leftarrow> otp_insert (uint (o_port d)) i s;
         clear_fake (uint (o_port (if uint (o_port d) = i then stale d else d))) s
       } else Some s
     } else Some s
   }"

fun timer_outputs :: "(o_data \<Rightarrow> o_data) \<Rightarrow> nat \<Rightarrow> int \<Rightarrow> 'a sched_scheme \<Rightarrow> 'a sched_scheme option" where
  "timer_outputs stale 0 i s = Some s"
| "timer_outputs stale (Suc n) i s = do {
     s \<leftarrow> timer_output stale i s;
     timer_outputs stale n (i + 1) s
   }"

text \<open>One round of \<open>timer_task\<close>.\<close>

definition timer_tick :: "(o_data \<Rightarrow> o_data) \<Rightarrow> u8 list \<Rightarrow> 'a sched_scheme \<Rightarrow> (u8 list \<times> 'a sched_scheme) option" where
  "timer_tick stale tempx s = do {
     (tempx, s) \<leftarrow> (if engine_running s = 1 then timer_running tempx s
       else timer_stopped tempx s);
     (tempx, s) \<leftarrow> timer_uptime tempx s;
     s \<leftarrow> timer_blinkers s;
     s \<leftarrow> timer_outputs stale (nat (TESTOUTPUT27 - STARTER)) STARTER s;
     Some (tempx, s)
   }"

text \<open>The counters of \<open>timer2_task\<close>: \<open>led_counter\<close> and \<open>led_onoff\<close>.\<close>

definition timer2_tick :: "int \<times> int \<Rightarrow> int \<times> int" where
  "timer2_tick = (\<lambda>(led_counter, led_onoff).
     (let led_counter = led_counter + 1 in
      if led_counter > 9 then
        (let (led_counter, led_onoff) = (if led_onoff = 1 then (0, led_onoff) else (led_counter, 7))
         in (led_counter, if led_onoff = 1 then 0 else 1))
      else (led_counter, led_onoff)))"


section \<open>Specification of a timed output\<close>

text \<open>The record after a tick, and the relay that is written.\<close>

definition timed_spec :: "o_data \<Rightarrow> o_data \<times> bool option" where
  "timed_spec d =
     (if (o_type d = 2 \<or> o_type d = 3) \<and> o_reset d = 1 then
        (let l = o_time_left d - 1 in
         if l = 0 then (d\<lparr>o_time_left := 0, o_onoff := 0, o_reset := 0\<rparr>, Some False)
         else (d\<lparr>o_time_left := l\<rparr>,
               if o_type d = 3 then Some ((o_time_delay d - o_time_left d) mod 2 \<noteq> 0) else None))
      else (d, None))"

definition ticked :: "'a sched_scheme \<Rightarrow> 'a sched_scheme \<Rightarrow> int \<Rightarrow> bool" where
  "ticked s s' k \<longleftrightarrow> (\<forall>d. otp_get k s = Some d \<longrightarrow>
     otp_get k s' = Some (fst (timed_spec d)) \<and>
     out_line k s' = (case snd (timed_spec d) of None \<Rightarrow> out_line k s | Some b \<Rightarrow> b))"

text \<open>The tasks read the port from a record that was just freed; what they need of it:\<close>

definition stale_port :: "(o_data \<Rightarrow> o_data) \<Rightarrow> bool" where
  "stale_port stale \<longleftrightarrow> (\<forall>d. o_port (stale d) = o_port d)"

definition same_msgs :: "'a sched_scheme \<Rightarrow> 'a sched_scheme \<Rightarrow> bool" where
  "same_msgs s s' \<longleftrightarrow> msg_queue s' = msg_queue s \<and> msg_queue_ptr s' = msg_queue_ptr s \<and>
     ip s' = ip s \<and> max_ips s' = max_ips s \<and> inportstatus s' = inportstatus s \<and> tcp_out s' = tcp_out s \<and>
     sock_open s' = sock_open s \<and> send_fails s' = send_fails s \<and> serial_out s' = serial_out s"

lemma same_msgs_trans: "same_msgs s t \<Longrightarrow> same_msgs t u \<Longrightarrow> same_msgs s u"
  by (simp add: same_msgs_def)

lemma same_msgs_put [simp]: "same_msgs s (put_record k d s)" "same_msgs s s"
  by (simp_all add: same_msgs_def put_record_def)

lemma same_msgs_drive: "0 \<le> k \<Longrightarrow> k < 40 \<Longrightarrow> same_msgs s (drive k v s)"
  by (simp add: same_msgs_def drive_def change_output_eq out_port_def store_port_def Let_def)

lemma clear_fake_eq:
  assumes "sched_ok s" "0 \<le> n" "n < 40"
  obtains f1 f2 where "clear_fake n s = Some (s\<lparr>fake_inportstatus1 := f1, fake_inportstatus2 := f2\<rparr>)"
    "length f1 = 6" "length f2 = 6"
proof -
  have l: "length (fake_inportstatus1 s) = 6" "length (fake_inportstatus2 s) = 6"
    using assms(1) by (simp_all add: sched_okD)
  show thesis
    using that l assms(2,3)
    by (simp add: clear_fake_def aget_def [of real_banks] length_real_banks port_bit_of(4,5) Let_def
        aget_bank [OF l(1)] aget_bank [OF l(2)] aset_bank [OF l(1)] aset_bank [OF l(2)])
qed

lemma fake_frame [frame_simps]:
  "otp_get j (s\<lparr>fake_inportstatus1 := f1, fake_inportstatus2 := f2\<rparr>) = otp_get j s"
  "out_line j (s\<lparr>fake_inportstatus1 := f1, fake_inportstatus2 := f2\<rparr>) = out_line j s"
  "same_msgs s (t\<lparr>fake_inportstatus1 := f1, fake_inportstatus2 := f2\<rparr>) = same_msgs s t"
  by (simp_all add: otp_get_def out_line_def relay_def same_msgs_def)

text \<open>The step of one output in three cases: nothing to do, counting, and run out.\<close>

abbreviation timer_done :: "(o_data \<Rightarrow> o_data) \<Rightarrow> int \<Rightarrow> 'a sched_scheme \<Rightarrow> bool" where
  "timer_done stale k s \<equiv> \<exists>s'. timer_output stale k s = Some s' \<and> sched_ok s' \<and> ticked s s' k \<and>
     (\<forall>j. j \<noteq> k \<longrightarrow> untouched s s' j) \<and> same_msgs s s'"

text \<open>The state after the relay of a blinking output was written.\<close>

definition blinked :: "o_data \<Rightarrow> int \<Rightarrow> 'a sched_scheme \<Rightarrow> 'a sched_scheme" where
  "blinked d k s = (if o_type d = 3 then drive k ((o_time_delay d - o_time_left d) mod 2 \<noteq> 0) s else s)"

lemma blinked:
  assumes "sched_ok s" "0 \<le> k" "k < 40"
  shows "sched_ok (blinked d k s)" "otp_get j (blinked d k s) = otp_get j s" "same_msgs s (blinked d k s)"
    "(if o_type d = 3 then chg_output k (if (o_time_delay d - o_time_left d) mod 2 = 0 then 0 else 1) s else Some s) = Some (blinked d k s)"
  using assms by (simp_all add: blinked_def sched_ok_drive frame_simps same_msgs_drive chg_output_drive)

lemma put_get_set:
  assumes "otp_get k s = Some d"
  shows "otp_get k (put_record k e s) = Some e" "otp_set k f (put_record k e s) = Some (put_record k (f e) s)"
proof -
  show g: "otp_get k (put_record k e s) = Some e" using assms by (simp add: otp_get_put_record)
  show "otp_set k f (put_record k e s) = Some (put_record k (f e) s)"
    using otp_set_put [OF g, of f] by (simp add: put_record_twice)
qed

lemma timer_counts:
  assumes s: "sched_ok s" and k: "0 \<le> k" "k < 40" and d: "otp_get k s = Some d" "uint (o_port d) = k"
    and run: "o_type d = 2 \<or> o_type d = 3" "o_reset d = 1" and l: "o_time_left d - 1 \<noteq> 0"
  shows "timer_done stale k s"
proof -
  let ?s = "blinked d k s" and ?e = "d\<lparr>o_time_left := o_time_left d - 1\<rparr>"
  note b = blinked [OF s k, where d = d]
  note c0 = b(4) [folded d(2)]
  have d0: "otp_get k ?s = Some d" using b(2) d(1) by simp
  have ok: "sched_ok (put_record k ?e ?s)" by (rule sched_ok_put_record [OF b(1) d0]) simp_all
  have "timer_output stale k s = Some (put_record k ?e ?s)"
    using run l d by (simp add: timer_output_def c0 otp_set_put [OF d0] put_get_set [OF d0])
  moreover have "ticked s (put_record k ?e ?s) k"
    using run l d k s by (auto simp: ticked_def timed_spec_def Let_def otp_get_put_record frame_simps blinked_def out_line_drive)
  moreover have "untouched s (put_record k ?e ?s) j" if "j \<noteq> k" for j
    using that k s b(2) by (auto simp: untouched_def otp_get_put_record frame_simps blinked_def out_line_drive)
  ultimately show ?thesis using ok b(3) same_msgs_put(1) same_msgs_trans by blast
qed

lemma timer_runs_out:
  assumes s: "sched_ok s" and k: "0 \<le> k" "k < 40" and d: "otp_get k s = Some d" "uint (o_port d) = k"
    and run: "o_type d = 2 \<or> o_type d = 3" "o_reset d = 1" and l: "o_time_left d - 1 = 0" and st: "stale_port stale"
  shows "timer_done stale k s"
proof -
  let ?s = "blinked d k s" and ?e = "d\<lparr>o_time_left := 0, o_onoff := 0, o_reset := 0\<rparr>"
  note b = blinked [OF s k, where d = d]
  note c0 = b(4) [folded d(2)]
  have d0: "otp_get k ?s = Some d" using b(2) d(1) by simp
  define w where "w = (if o_type d = 3 \<and> o_time_delay d mod 2 = 0 then (if o_onoff d = 1 then 0 else 1) else o_onoff d)"
  let ?f = "d\<lparr>o_time_left := 0, o_onoff := w\<rparr>"
  have tog: "(if o_type d = 3 \<and> o_time_delay d mod 2 = 0 then TOGGLE_OTP k (put_record k (d\<lparr>o_time_left := 0\<rparr>) ?s)
      else Some (put_record k (d\<lparr>o_time_left := 0\<rparr>) ?s)) = Some (put_record k ?f ?s)"
    by (simp add: TOGGLE_OTP_def put_get_set [OF d0] w_def)
  let ?s1 = "drive k False (put_record k ?f ?s)" and ?s2 = "put_record k ?e (drive k False (put_record k ?f ?s))"
  have okf: "sched_ok (put_record k ?f ?s)" by (rule sched_ok_put_record [OF b(1) d0]) simp_all
  have ok1: "sched_ok ?s1" using okf k by (simp add: sched_ok_drive)
  have g1: "otp_get k ?s1 = Some ?f" using k by (simp add: frame_simps put_get_set [OF d0])
  note g2 = put_get_set [OF g1]
  have ok2: "sched_ok ?s2" by (rule sched_ok_put_record [OF ok1 g1]) simp_all
  have ins: "otp_insert k k ?s2 = Some ?s2" using otp_insert_same [OF ok2 g2(1)] d(2) by simp
  obtain f1 f2 where cf: "clear_fake k ?s2 = Some (?s2\<lparr>fake_inportstatus1 := f1, fake_inportstatus2 := f2\<rparr>)"
    "length f1 = 6" "length f2 = 6" using clear_fake_eq [OF ok2 k] by blast
  let ?s3 = "?s2\<lparr>fake_inportstatus1 := f1, fake_inportstatus2 := f2\<rparr>"
  have "timer_output stale k s = Some ?s3"
    using run l d k st
    by (simp add: timer_output_def c0 otp_set_put [OF d0] otp_set_put [OF g1] put_get_set [OF d0] tog chg_output_drive g2
        ins cf(1) stale_port_def)
  moreover have "sched_ok ?s3" using sched_ok_status(3) [OF sched_ok_status(2) [OF ok2 cf(2)] cf(3)] by simp
  moreover have "ticked s ?s3 k"
    using run l d k okf by (simp add: ticked_def timed_spec_def Let_def g2 frame_simps out_line_drive)
  moreover have "untouched s ?s3 j" if "j \<noteq> k" for j
    using that k s b(2) okf by (auto simp: untouched_def otp_get_put_record frame_simps blinked_def out_line_drive)
  moreover have "same_msgs s ?s3"
    using b(3) same_msgs_drive [OF k, of "put_record k ?f ?s" False] same_msgs_put(1) same_msgs_trans
    unfolding fake_frame by blast
  ultimately show ?thesis by blast
qed

lemma timer_output_step:
  assumes s: "sched_ok s" and k: "0 \<le> k" "k < 40" and st: "stale_port stale"
  obtains s' where "timer_output stale k s = Some s'" "sched_ok s'" "ticked s s' k"
    "\<And>j. j \<noteq> k \<Longrightarrow> untouched s s' j" "same_msgs s s'"
proof -
  obtain d where d: "otp_get k s = Some d"
    using db_ok_lookup [of "db s" k] k s by (auto simp: sched_okD otp_get_def)
  have p: "uint (o_port d) = k" using db_ok_record [of "db s" k d] s d by (auto simp: sched_okD otp_get_def)
  have "timer_done stale k s"
  proof (cases "(o_type d = 2 \<or> o_type d = 3) \<and> o_reset d = 1")
    case False
    then have "timer_output stale k s = Some s" using d by (auto simp: timer_output_def)
    then show ?thesis using s False d by (auto simp: ticked_def timed_spec_def untouched_def)
  next
    case True
    then show ?thesis using timer_counts [OF s k d p] timer_runs_out [OF s k d p _ _ _ st] by blast
  qed
  then show thesis using that by blast
qed


lemma timer_outputs_step:
  assumes "sched_ok s" "stale_port stale" "0 \<le> i" "i + int n \<le> 40"
  shows "\<exists>s'. timer_outputs stale n i s = Some s' \<and> sched_ok s' \<and> same_msgs s s' \<and>
     (\<forall>k. i \<le> k \<and> k < i + int n \<longrightarrow> ticked s s' k) \<and>
     (\<forall>j. \<not> (i \<le> j \<and> j < i + int n) \<longrightarrow> untouched s s' j)"
  using assms
proof (induction n arbitrary: i s)
  case 0
  then show ?case by (auto simp: untouched_def)
next
  case (Suc n)
  from Suc.prems(3,4) have i: "0 \<le> i" "i < 40" by simp_all
  from timer_output_step [OF Suc.prems(1) i Suc.prems(2)] obtain s1 where
    s1: "timer_output stale i s = Some s1" "sched_ok s1" "ticked s s1 i"
      "\<And>j. j \<noteq> i \<Longrightarrow> untouched s s1 j" "same_msgs s s1" by metis
  have "0 \<le> i + 1" "i + 1 + int n \<le> 40" using Suc.prems(3,4) by simp_all
  from Suc.IH [OF s1(2) Suc.prems(2) this] obtain s2 where
    s2: "timer_outputs stale n (i + 1) s1 = Some s2" "sched_ok s2" "same_msgs s1 s2"
      "\<forall>k. i + 1 \<le> k \<and> k < i + 1 + int n \<longrightarrow> ticked s1 s2 k"
      "\<forall>j. \<not> (i + 1 \<le> j \<and> j < i + 1 + int n) \<longrightarrow> untouched s1 s2 j" by blast
  have "ticked s s2 k" if "i \<le> k" "k < i + int (Suc n)" for k
  proof (cases "k = i")
    case True
    then show ?thesis using s1(3) s2(5) i by (simp add: ticked_def untouched_def)
  next
    case False
    then have "ticked s1 s2 k" "untouched s s1 k" "0 \<le> k" "k < 40"
      using that s2(4) s1(4) Suc.prems(3,4) by auto
    then show ?thesis by (simp add: ticked_def untouched_def split: option.split)
  qed
  moreover have "untouched s s2 j" if "\<not> (i \<le> j \<and> j < i + int (Suc n))" for j
    using untouched_trans [OF s1(4)] s2(5) that by auto
  ultimately show ?case
    using s1(1) s2(1,2) same_msgs_trans [OF s1(5) s2(3)] by auto
qed

text \<open>The loop of one tick over the outputs 0 to 29, and \<open>n\<close> ticks of it.\<close>

definition tick_outputs :: "(o_data \<Rightarrow> o_data) \<Rightarrow> 'a sched_scheme \<Rightarrow> 'a sched_scheme option" where
  "tick_outputs stale s = timer_outputs stale (nat (TESTOUTPUT27 - STARTER)) STARTER s"

fun ticks :: "(o_data \<Rightarrow> o_data) \<Rightarrow> nat \<Rightarrow> 'a sched_scheme \<Rightarrow> 'a sched_scheme option" where
  "ticks stale 0 s = Some s"
| "ticks stale (Suc n) s = do { s \<leftarrow> tick_outputs stale s; ticks stale n s }"

lemma tick_outputs_step:
  assumes "sched_ok s" "stale_port stale"
  obtains s' where "tick_outputs stale s = Some s'" "sched_ok s'" "same_msgs s s'"
    "\<And>k. 0 \<le> k \<Longrightarrow> k < 30 \<Longrightarrow> ticked s s' k" "\<And>j. \<not> (0 \<le> j \<and> j < 30) \<Longrightarrow> untouched s s' j"
  using timer_outputs_step [OF assms, of 0 30] by (auto simp: tick_outputs_def)

section \<open>Properties\<close>

text \<open>The relay of a timed output \<open>m\<close> ticks after it was started with \<open>n\<close> ticks.\<close>

definition timed_relay :: "u8 \<Rightarrow> nat \<Rightarrow> nat \<Rightarrow> bool" where
  "timed_relay ty n m \<longleftrightarrow> (if m = 0 then True else if m < n then (if ty = 3 then even m else True) else False)"

lemma ticks_snoc: "ticks stale (Suc m) s = do { s \<leftarrow> ticks stale m s; tick_outputs stale s }"
proof (induction m arbitrary: s)
  case (Suc m)
  show ?case
  proof (cases "tick_outputs stale s")
    case (Some t)
    then show ?thesis using Suc [of t] by simp
  qed simp
next
  case 0
  show ?case by (cases "tick_outputs stale s") simp_all
qed

lemma word_of_nat_nz: "0 < j \<Longrightarrow> j < 2 ^ 32 \<Longrightarrow> (word_of_nat j :: u32) \<noteq> 0"
  by (simp add: word_of_nat_eq_0_iff nat_dvd_not_less)

lemma word_mod_2: "m < 2 ^ 32 \<Longrightarrow> (word_of_nat m :: u32) mod 2 = 0 \<longleftrightarrow> even m"
proof -
  have "(word_of_nat m :: u32) mod 2 = 0 \<longleftrightarrow> even (word_of_nat m :: u32)"
    by (simp add: even_iff_mod_2_eq_zero)
  also have "\<dots> \<longleftrightarrow> even m" by (simp add: bit_0 [symmetric] bit_of_nat_iff bit_simps flip: bit_0)
  finally show ?thesis .
qed

lemma ticks_armed:
  assumes "sched_ok s" "stale_port stale" "0 \<le> k" "k < 30" "otp_get k s = Some d"
    "o_type d = 2 \<or> o_type d = 3" "o_reset d = 1" "o_time_delay d = word_of_nat n" "0 < n" "n < 2 ^ 32"
    "o_time_left d = o_time_delay d" "out_line k s" "m < n"
  shows "\<exists>s'. ticks stale m s = Some s' \<and> sched_ok s' \<and>
     otp_get k s' = Some (d\<lparr>o_time_left := word_of_nat (n - m)\<rparr>) \<and> out_line k s' = timed_relay (o_type d) n m"
  using assms(13)
proof (induction m)
  case 0
  have "d\<lparr>o_time_left := word_of_nat n\<rparr> = d" using assms(8,11) by (cases d) simp
  then show ?case using assms by (simp add: timed_relay_def)
next
  case (Suc m)
  from Suc.IH Suc.prems obtain s1 where
    s1: "ticks stale m s = Some s1" "sched_ok s1" "otp_get k s1 = Some (d\<lparr>o_time_left := word_of_nat (n - m)\<rparr>)"
      "out_line k s1 = timed_relay (o_type d) n m" by auto
  define w w' :: u32 where "w = word_of_nat (n - m)" and "w' = word_of_nat (n - Suc m)"
  let ?d = "d\<lparr>o_time_left := w\<rparr>"
  from tick_outputs_step [OF s1(2) assms(2)] obtain s2 where
    s2: "tick_outputs stale s1 = Some s2" "sched_ok s2" "ticked s1 s2 k" using assms(3,4) by metis
  have l: "w - 1 = w'" using Suc.prems by (simp add: w_def w'_def of_nat_diff)
  have nz: "w' \<noteq> 0"
    unfolding w'_def using Suc.prems assms(10) by (intro word_of_nat_nz) simp_all
  have df: "o_time_delay d - w = word_of_nat m"
    using Suc.prems by (simp add: assms(8) w_def of_nat_diff)
  have "m < 2 ^ 32" using Suc.prems assms(10) by simp
  note par = word_mod_2 [OF this]
  have spec: "timed_spec ?d = (d\<lparr>o_time_left := w'\<rparr>, if o_type d = 3 then Some (odd m) else None)"
    using assms(6,7) nz par by (simp add: timed_spec_def Let_def l df)
  have d1: "otp_get k s1 = Some ?d" using s1(3) by (simp add: w_def)
  have "out_line k s2 = timed_relay (o_type d) n (Suc m)"
    using s2(3) d1 s1(4) Suc.prems assms(6) by (auto simp: ticked_def spec timed_relay_def)
  moreover have "otp_get k s2 = Some (d\<lparr>o_time_left := w'\<rparr>)"
    using s2(3) d1 by (simp add: ticked_def spec)
  ultimately show ?case using s1(1) s2(1,2) unfolding ticks_snoc w'_def by auto
qed

lemma timed_output_run:
  assumes "sched_ok s" "stale_port stale" "0 \<le> k" "k < 30" "otp_get k s = Some d"
    "o_type d = 2 \<or> o_type d = 3" "o_reset d = 1" "o_time_delay d = word_of_nat n" "0 < n" "n < 2 ^ 32"
    "o_time_left d = o_time_delay d" "out_line k s"
  shows "(\<forall>m < n. \<exists>s'. ticks stale m s = Some s' \<and> sched_ok s' \<and> out_line k s' = timed_relay (o_type d) n m) \<and>
     (\<exists>s'. ticks stale n s = Some s' \<and> sched_ok s' \<and> \<not> out_line k s' \<and>
        otp_get k s' = Some (d\<lparr>o_time_left := 0, o_onoff := 0, o_reset := 0\<rparr>))"
proof
  show "\<forall>m < n. \<exists>s'. ticks stale m s = Some s' \<and> sched_ok s' \<and> out_line k s' = timed_relay (o_type d) n m"
    using ticks_armed [OF assms] by blast
  from assms(9) obtain m where m: "n = Suc m" by (cases n) auto
  from ticks_armed [OF assms, of m] m obtain s1 where
    s1: "ticks stale m s = Some s1" "sched_ok s1" "otp_get k s1 = Some (d\<lparr>o_time_left := word_of_nat 1\<rparr>)" by auto
  from tick_outputs_step [OF s1(2) assms(2)] obtain s2 where
    s2: "tick_outputs stale s1 = Some s2" "sched_ok s2" "ticked s1 s2 k" using assms(3,4) by metis
  have "timed_spec (d\<lparr>o_time_left := word_of_nat 1\<rparr>) = (d\<lparr>o_time_left := 0, o_onoff := 0, o_reset := 0\<rparr>, Some False)"
    using assms(6,7) by (simp add: timed_spec_def)
  then have "\<not> out_line k s2" "otp_get k s2 = Some (d\<lparr>o_time_left := 0, o_onoff := 0, o_reset := 0\<rparr>)"
    using s2(3) s1(3) by (simp_all add: ticked_def)
  then show "\<exists>s'. ticks stale n s = Some s' \<and> sched_ok s' \<and> \<not> out_line k s' \<and>
        otp_get k s' = Some (d\<lparr>o_time_left := 0, o_onoff := 0, o_reset := 0\<rparr>)"
    using s1(1) s2(1,2) unfolding m ticks_snoc by auto
qed



text \<open>The starter, 3 seconds, just started; and a freed record that still reads as it was.\<close>

definition starter_on :: o_data where
  "starter_on = (o_data0 STARTER)\<lparr>o_input_port := 5, o_type := 2, o_onoff := 1, o_reset := 1,
     o_time_delay := 3, o_time_left := 3\<rparr>"

definition sched4 :: sched where
  "sched4 = drive 0 True (sched1 0 starter_on)"

lemma sched4_ok: "sched_ok sched4" "otp_get 0 sched4 = Some starter_on" "out_line 0 sched4"
proof -
  have s: "sched_ok (sched1 0 starter_on)" "otp_get 0 (sched1 0 starter_on) = Some starter_on"
    by (rule sched1_ok; simp add: starter_on_def o_data0_def)+
  then show "sched_ok sched4" "otp_get 0 sched4 = Some starter_on" "out_line 0 sched4"
    by (simp_all add: sched4_def sched_ok_drive frame_simps out_line_drive)
qed


text \<open>
  A delay of 0 is not "no time". An output of type 2 or 3 whose \<open>time_delay\<close> is 0 has \<open>time_left\<close> 0
  when it starts; the first tick decrements it to \<open>2 ^ 32 - 1\<close> before it tests for 0, and the output,
  switched on, stays on and stays unavailable.
\<close>

theorem zero_delay_wraps:
  assumes "sched_ok s" "stale_port stale" "0 \<le> k" "k < 30" "otp_get k s = Some d"
    "o_type d = 2" "o_reset d = 0" "o_time_delay d = 0"
  shows "\<exists>s1 s2. set_output k 1 s = Some s1 \<and> tick_outputs stale s1 = Some s2 \<and> out_line k s2 \<and>
     otp_get k s2 = Some (d\<lparr>o_reset := 1, o_time_left := 0xFFFFFFFF, o_onoff := 1\<rparr>)"
proof -
  let ?d = "d\<lparr>o_reset := 1, o_time_left := 0, o_onoff := 1\<rparr>"
  have o: "output_spec 1 d = (?d, Some True, False)" using assms(6-8) by (simp add: output_spec.simps)
  from set_output_run [OF assms(1,5) o] obtain s1 where
    s1: "set_output k 1 s = Some s1" "sched_ok s1" "otp_get k s1 = Some ?d" "out_line k s1" by auto
  from tick_outputs_step [OF s1(2) assms(2)] obtain s2 where
    s2: "tick_outputs stale s1 = Some s2" "sched_ok s2" "ticked s1 s2 k" using assms(3,4) by metis
  have "timed_spec ?d = (d\<lparr>o_reset := 1, o_time_left := 0xFFFFFFFF, o_onoff := 1\<rparr>, None)"
    using assms(6) by (simp add: timed_spec_def Let_def)
  then show ?thesis using s1 s2 by (simp add: ticked_def)
qed

lemma zero_delay_wraps_witness:
  "\<exists>s1 s2. set_output 0 1 (sched1 0 ((o_data0 0)\<lparr>o_type := 2\<rparr>)) = Some s1 \<and> tick_outputs (\<lambda>d. d) s1 = Some s2 \<and>
     out_line 0 s2 \<and>
     otp_get 0 s2 = Some ((o_data0 0)\<lparr>o_type := 2, o_reset := 1, o_time_left := 0xFFFFFFFF, o_onoff := 1\<rparr>)"
proof -
  have s: "sched_ok (sched1 0 ((o_data0 0)\<lparr>o_type := 2\<rparr>))"
    "otp_get 0 (sched1 0 ((o_data0 0)\<lparr>o_type := 2\<rparr>)) = Some ((o_data0 0)\<lparr>o_type := 2\<rparr>)"
    by (rule sched1_ok; simp add: o_data0_def)+
  show ?thesis
    using zero_delay_wraps [OF s(1) _ _ _ s(2), of "\<lambda>d. d"] by (simp add: stale_port_def) (simp add: o_data0_def)
qed

end
