(* ===== verification/Controls.thy ===== *)
theory Controls
  imports Timer
begin

text \<open>
  The task that carries out the commands (\<open>basic_controls_task\<close> of \<open>thread_io/tasks.c\<close>). It takes a
  command from the store, reports it to the client, and switches. The cases of its \<open>switch\<close> are
  split by subject: engine, lights, wipers and blinkers, and the end of the program. \<open>tempx\<close> is the local
  buffer of 50 bytes and \<open>stale\<close> what a read of a freed record yields (see \<open>Timer\<close>).
\<close>

section \<open>Shared steps\<close>

text \<open>\<open>ollist_find_data(index,otpp,&oll); otp->onoff = v; ollist_insert_data(index,&oll,otp);\<close>\<close>

definition store_onoff :: "int \<Rightarrow> u8 \<Rightarrow> 'a sched_scheme \<Rightarrow> 'a sched_scheme option" where
  "store_onoff index v s = do {
     s \<leftarrow> otp_set index (\<lambda>d. d\<lparr>o_onoff := v\<rparr>) s;
     otp_insert index index s
   }"

text \<open>The same with \<open>ollist_insert_data(otp->port,&oll,otp)\<close>.\<close>

definition insert_at_port :: "int \<Rightarrow> 'a sched_scheme \<Rightarrow> 'a sched_scheme option" where
  "insert_at_port index s = do { d \<leftarrow> otp_get index s; otp_insert (uint (o_port d)) index s }"

section \<open>Report to the client\<close>

definition reported :: "u8 list" where
  "reported = [ON_FAN, OFF_FAN, ON_LIGHTS, OFF_LIGHTS, START_SEQ, SHUTDOWN, ON_RUNNING_LIGHTS,
     OFF_RUNNING_LIGHTS, ON_BRIGHTS, OFF_BRIGHTS, ON_BRAKES, OFF_BRAKES, WIPER1, WIPER2, WIPER_OFF,
     SPECIAL_CMD, ON_FUEL_PUMP, OFF_FUEL_PUMP, ON_LLIGHTS, OFF_LLIGHTS, ON_LBRIGHTS, OFF_LBRIGHTS,
     ON_RLIGHTS, OFF_RLIGHTS, ON_RBRIGHTS, OFF_RBRIGHTS]"

definition bc_report :: "u8 \<Rightarrow> u8 list \<Rightarrow> 'a sched_scheme \<Rightarrow> (u8 list \<times> 'a sched_scheme) option" where
  "bc_report cmd tempx s =
     (if cmd \<in> set reported \<and> test_sock s \<noteq> 0 then do {
        str \<leftarrow> cmd_str cmd;
        tempx \<leftarrow> cstr_into tempx str;
        s \<leftarrow> send_str tempx str SEND_MSG s;
        Some (tempx, s)
      } else Some (tempx, s))"

section \<open>Engine\<close>

text \<open>
  \<open>ON_ACC\<close> and \<open>OFF_ACC\<close> read \<open>otp->reset\<close> after the insertion freed the record; \<open>ON_FUEL_PUMP\<close> reads
  it before.
\<close>

definition bc_acc :: "(o_data \<Rightarrow> o_data) \<Rightarrow> int \<Rightarrow> 'a sched_scheme \<Rightarrow> 'a sched_scheme option" where
  "bc_acc stale v s = do {
     d \<leftarrow> otp_get ACCON s;
     s \<leftarrow> otp_insert ACCON ACCON s;
     if o_reset (stale d) = 0 then chg_output ACCON v s else Some s
   }"

definition bc_fuel_on :: "'a sched_scheme \<Rightarrow> 'a sched_scheme option" where
  "bc_fuel_on s = do {
     d \<leftarrow> otp_get FUELPUMP s;
     s \<leftarrow> (if o_reset d = 0 then do {
            s \<leftarrow> chg_output FUELPUMP 1 s;
            otp_set FUELPUMP (\<lambda>d. d\<lparr>o_onoff := 1\<rparr>) s
          } else Some s);
     otp_insert FUELPUMP FUELPUMP s
   }"

definition bc_fuel_off :: "'a sched_scheme \<Rightarrow> 'a sched_scheme option" where
  "bc_fuel_off s = do {
     d \<leftarrow> otp_get FUELPUMP s;
     if o_reset d = 0 then do {
       s \<leftarrow> chg_output FUELPUMP 0 s;
       s \<leftarrow> otp_set FUELPUMP (\<lambda>d. d\<lparr>o_onoff := 0\<rparr>) s;
       otp_insert FUELPUMP FUELPUMP s
     } else Some s
   }"

definition release :: "int \<Rightarrow> 'a sched_scheme \<Rightarrow> 'a sched_scheme option" where
  "release k s = do {
     s \<leftarrow> otp_set k (\<lambda>d. d\<lparr>o_onoff := 1\<rparr>) s;
     s \<leftarrow> otp_set k (\<lambda>d. d\<lparr>o_reset := 0\<rparr>) s;
     s \<leftarrow> chg_output k 1 s;
     insert_at_port k s
   }"

text \<open>The two changes of the starter input, 10 ms apart; other tasks run between them.\<close>

definition bc_start_seq1 :: "'a sched_scheme \<Rightarrow> 'a sched_scheme option" where
  "bc_start_seq1 s = do {
     s \<leftarrow> release ACCON s;
     s \<leftarrow> release FUELPUMP s;
     change_input STARTER_INPUT 0 s
   }"

definition bc_start_seq2 :: "'a sched_scheme \<Rightarrow> 'a sched_scheme option" where
  "bc_start_seq2 s = do {
     s \<leftarrow> change_input STARTER_INPUT 1 s;
     Some (s\<lparr>engine_running := 1\<rparr>)
   }"

definition cut :: "int \<Rightarrow> 'a sched_scheme \<Rightarrow> 'a sched_scheme option" where
  "cut k s = do {
     s \<leftarrow> chg_output k 0 s;
     s \<leftarrow> otp_set k (\<lambda>d. d\<lparr>o_onoff := 0\<rparr>) s;
     insert_at_port k s
   }"

definition bc_shutdown :: "'a sched_scheme \<Rightarrow> 'a sched_scheme option" where
  "bc_shutdown s = do {
     let s = s\<lparr>running_seconds := 0, running_minutes := 0, running_hours := 0, engine_running := 0\<rparr>;
     s \<leftarrow> cut ACCON s;
     s \<leftarrow> cut FUELPUMP s;
     Some (s\<lparr>lights_on_countdown := actual_lights_on_delay s\<rparr>)
   }"

definition bc_engine :: "(o_data \<Rightarrow> o_data) \<Rightarrow> u8 \<Rightarrow> 'a sched_scheme \<Rightarrow> 'a sched_scheme option" where
  "bc_engine stale cmd s =
     (if cmd = ENABLE_START then change_input STARTER_INPUT 1 s
      else if cmd = STARTER_OFF then change_input STARTER_INPUT 0 s
      else if cmd = ON_ACC then bc_acc stale 1 s
      else if cmd = OFF_ACC then bc_acc stale 0 s
      else if cmd = ON_FUEL_PUMP then bc_fuel_on s
      else if cmd = OFF_FUEL_PUMP then bc_fuel_off s
      else if cmd = START_SEQ then do { s \<leftarrow> bc_start_seq1 s; bc_start_seq2 s }
      else if cmd = SHUTDOWN then bc_shutdown s
      else Some s)"

section \<open>Lights and fan\<close>

definition bc_lights :: "u8 \<Rightarrow> 'a sched_scheme \<Rightarrow> 'a sched_scheme option" where
  "bc_lights cmd s =
     (if cmd = ON_FAN then do { s \<leftarrow> change_input COOLINGFAN_INPUT 1 s; store_onoff COOLINGFAN 1 s }
      else if cmd = OFF_FAN then do { s \<leftarrow> change_input COOLINGFAN_INPUT 0 s; store_onoff COOLINGFAN 0 s }
      else if cmd = ON_LIGHTS then do {
        s \<leftarrow> change_input HEADLAMP_INPUT 1 s; s \<leftarrow> store_onoff LHEADLAMP 1 s; store_onoff RHEADLAMP 1 s }
      else if cmd = OFF_LIGHTS then do {
        s \<leftarrow> change_input HEADLAMP_INPUT 0 s; s \<leftarrow> store_onoff LHEADLAMP 0 s; store_onoff RHEADLAMP 0 s }
      else if cmd = ON_LLIGHTS then set_output LHEADLAMP 1 s
      else if cmd = OFF_LLIGHTS then set_output LHEADLAMP 0 s
      else if cmd = ON_RLIGHTS then set_output RHEADLAMP 1 s
      else if cmd = OFF_RLIGHTS then set_output RHEADLAMP 0 s
      else if cmd = ON_RUNNING_LIGHTS then do {
        s \<leftarrow> change_input RUNNING_LIGHTS_INPUT 1 s; store_onoff RUNNINGLIGHTS 1 s }
      else if cmd = OFF_RUNNING_LIGHTS then do {
        s \<leftarrow> change_input RUNNING_LIGHTS_INPUT 0 s; store_onoff RUNNINGLIGHTS 0 s }
      else if cmd = ON_BRIGHTS then do {
        s \<leftarrow> change_input BRIGHTS_INPUT 1 s; s \<leftarrow> store_onoff LBRIGHTS 1 s; store_onoff RBRIGHTS 1 s }
      else if cmd = OFF_BRIGHTS then do {
        s \<leftarrow> change_input BRIGHTS_INPUT 0 s; s \<leftarrow> store_onoff LBRIGHTS 0 s; store_onoff RBRIGHTS 0 s }
      else if cmd = ON_RBRIGHTS then set_output RBRIGHTS 1 s
      else if cmd = OFF_RBRIGHTS then set_output RBRIGHTS 0 s
      else if cmd = ON_LBRIGHTS then set_output LBRIGHTS 1 s
      else if cmd = OFF_LBRIGHTS then set_output LBRIGHTS 0 s
      else Some s)"

definition sp_cmd_arr :: "(int \<times> int) list" where
  "sp_cmd_arr = [(LHEADLAMP, 1), (LBRIGHTS, 1), (RHEADLAMP, 1), (RBRIGHTS, 1),
     (LBRIGHTS, 0), (LHEADLAMP, 0), (RBRIGHTS, 0), (RHEADLAMP, 0),
     (RHEADLAMP, 1), (RBRIGHTS, 1), (LHEADLAMP, 1), (LBRIGHTS, 1),
     (LBRIGHTS, 0), (LHEADLAMP, 0), (RBRIGHTS, 0), (RHEADLAMP, 0)]"

fun set_outs :: "(int \<times> int) list \<Rightarrow> 'a sched_scheme \<Rightarrow> 'a sched_scheme option" where
  "set_outs [] s = Some s"
| "set_outs ((k, v) # kvs) s = do { s \<leftarrow> set_output k v s; set_outs kvs s }"

section \<open>Blinkers, brakes and wipers\<close>

definition bc_misc :: "u8 \<Rightarrow> 'a sched_scheme \<Rightarrow> 'a sched_scheme option" where
  "bc_misc cmd s =
     (if cmd = SPECIAL_CMD then set_outs (sp_cmd_arr @ sp_cmd_arr) s
      else if cmd = TEST_LEFT_BLINKER then do {
        s \<leftarrow> change_input LEFTBLINKER_INPUT 1 s; Some (s\<lparr>test_lblinkers := 1\<rparr>) }
      else if cmd = TEST_RIGHT_BLINKER then do {
        s \<leftarrow> change_input RIGHTBLINKER_INPUT 1 s; Some (s\<lparr>test_rblinkers := 1\<rparr>) }
      else if cmd = ON_BRAKES then change_input BRAKE_INPUT 1 s
      else if cmd = OFF_BRAKES then change_input BRAKE_INPUT 0 s
      else if cmd = WIPER1 then set_outs [(WWIPER1, 1), (WWIPER2, 0)] s
      else if cmd = WIPER2 then set_outs [(WWIPER1, 1), (WWIPER2, 1)] s
      else if cmd = WIPER_OFF then set_outs [(WWIPER1, 0), (WWIPER2, 0)] s
      else Some s)"

section \<open>The end of the program\<close>

definition bc_system :: "u8 \<Rightarrow> u8 list \<Rightarrow> 'a sched_scheme \<Rightarrow> 'a sched_scheme option" where
  "bc_system cmd tempx s =
     (if cmd = SHUTDOWN_IOBOX then do {
        s \<leftarrow> send_serialother SERVER_DOWN tempx s; Some (s\<lparr>shutdown_all := 1, reboot_on_exit := 3\<rparr>) }
      else if cmd = REBOOT_IOBOX then do {
        s \<leftarrow> send_serialother SERVER_DOWN tempx s; Some (s\<lparr>shutdown_all := 1, reboot_on_exit := 2\<rparr>) }
      else if cmd = UPLOAD_NEW then do {
        s \<leftarrow> send_serialother SERVER_DOWN tempx s; Some (s\<lparr>shutdown_all := 1, reboot_on_exit := 4\<rparr>) }
      else if cmd = UPLOAD_NEW_PARAM then do {
        s \<leftarrow> send_serialother SERVER_DOWN tempx s; Some (s\<lparr>shutdown_all := 1, reboot_on_exit := 5\<rparr>) }
      else if cmd = SHELL_AND_RENAME then do {
        s \<leftarrow> send_serialother SERVER_DOWN tempx s; Some (s\<lparr>shutdown_all := 1, reboot_on_exit := 6\<rparr>) }
      else if cmd = UPLOAD_OTHER then Some (s\<lparr>shutdown_all := 1, reboot_on_exit := 1\<rparr>)
      else Some s)"

section \<open>The task\<close>

text \<open>The case labels of the third \<open>switch\<close> by subject; the subjects are disjoint.\<close>

definition engine_cmds :: "u8 list" where
  "engine_cmds = [ENABLE_START, STARTER_OFF, ON_ACC, OFF_ACC, ON_FUEL_PUMP, OFF_FUEL_PUMP, START_SEQ, SHUTDOWN]"

definition light_cmds :: "u8 list" where
  "light_cmds = [ON_FAN, OFF_FAN, ON_LIGHTS, OFF_LIGHTS, ON_LLIGHTS, OFF_LLIGHTS, ON_RLIGHTS, OFF_RLIGHTS,
     ON_RUNNING_LIGHTS, OFF_RUNNING_LIGHTS, ON_BRIGHTS, OFF_BRIGHTS, ON_RBRIGHTS, OFF_RBRIGHTS,
     ON_LBRIGHTS, OFF_LBRIGHTS]"

definition misc_cmds :: "u8 list" where
  "misc_cmds = [SPECIAL_CMD, TEST_LEFT_BLINKER, TEST_RIGHT_BLINKER, ON_BRAKES, OFF_BRAKES, WIPER1, WIPER2, WIPER_OFF]"

definition basic_control :: "(o_data \<Rightarrow> o_data) \<Rightarrow> u8 \<Rightarrow> u8 list \<Rightarrow> 'a sched_scheme \<Rightarrow> (u8 list \<times> 'a sched_scheme) option" where
  "basic_control stale cmd tempx s = do {
     (tempx, s) \<leftarrow> bc_report cmd tempx s;
     s \<leftarrow> (if cmd \<in> set engine_cmds then bc_engine stale cmd s
           else if cmd \<in> set light_cmds then bc_lights cmd s
           else if cmd \<in> set misc_cmds then bc_misc cmd s
           else bc_system cmd tempx s);
     Some (tempx, s)
   }"

text \<open>One round: a command is fetched (0 when there is none) and carried out.\<close>

definition basic_controls_step :: "(o_data \<Rightarrow> o_data) \<Rightarrow> u8 list \<Rightarrow> 'a sched_scheme \<Rightarrow> (u8 list \<times> 'a sched_scheme) option" where
  "basic_controls_step stale tempx s = do {
     (cmd, s) \<leftarrow> get_msg_queue s;
     basic_control stale cmd tempx s
   }"


section \<open>The contract of a step\<close>

text \<open>
  Every operation of the tasks promises the same thing: on a good state with room for the \<open>n\<close>
  commands it may add, it is defined, ends in a good state, and has added at most \<open>n\<close> commands.
\<close>

locale bounded_steps =
  fixes ok :: "'s \<Rightarrow> bool" and used :: "'s \<Rightarrow> int" and limit :: int
begin

definition runs :: "nat \<Rightarrow> ('s \<Rightarrow> 's option) \<Rightarrow> bool" where
  "runs n f \<longleftrightarrow> (\<forall>s. ok s \<and> used s + int n \<le> limit \<longrightarrow>
     (\<exists>s'. f s = Some s' \<and> ok s' \<and> used s \<le> used s' \<and> used s' \<le> used s + int n))"

lemma runsI:
  "(\<And>s. ok s \<Longrightarrow> used s + int n \<le> limit \<Longrightarrow>
     \<exists>s'. f s = Some s' \<and> ok s' \<and> used s \<le> used s' \<and> used s' \<le> used s + int n) \<Longrightarrow> runs n f"
  by (simp add: runs_def)

lemma runsD:
  "runs n f \<Longrightarrow> ok s \<Longrightarrow> used s + int n \<le> limit \<Longrightarrow>
   \<exists>s'. f s = Some s' \<and> ok s' \<and> used s \<le> used s' \<and> used s' \<le> used s + int n"
  by (simp add: runs_def)

lemma runs_Some: "runs n Some"
  by (simp add: runs_def)

lemma runs_upd: "(\<And>s. ok s \<Longrightarrow> ok (f s) \<and> used (f s) = used s) \<Longrightarrow> runs n (\<lambda>s. Some (f s))"
  by (simp add: runs_def)

lemma runs_weaken: "runs m f \<Longrightarrow> m \<le> n \<Longrightarrow> runs n f"
  by (fastforce simp: runs_def)

lemma runs_bind:
  assumes "runs m f" "runs k g"
  shows "runs (m + k) (\<lambda>s. Option.bind (f s) g)"
proof (rule runsI)
  fix s assume s: "ok s" "used s + int (m + k) \<le> limit"
  then obtain s1 where s1: "f s = Some s1" "ok s1" "used s \<le> used s1" "used s1 \<le> used s + int m"
    using runsD [OF assms(1), of s] by auto
  then have "used s1 + int k \<le> limit" using s(2) by simp
  from runsD [OF assms(2) s1(2) this] s1
  show "\<exists>s'. Option.bind (f s) g = Some s' \<and> ok s' \<and> used s \<le> used s' \<and> used s' \<le> used s + int (m + k)"
    by auto
qed

lemma runs_bind0: "runs 0 f \<Longrightarrow> runs n g \<Longrightarrow> runs n (\<lambda>s. Option.bind (f s) g)"
  using runs_bind [of 0 f n g] by simp

lemma runs_if: "runs n f \<Longrightarrow> runs n g \<Longrightarrow> runs n (\<lambda>s. if b s then f s else g s)"
  by (simp add: runs_def)

lemma runs_if_const: "(b \<Longrightarrow> runs n f) \<Longrightarrow> (\<not> b \<Longrightarrow> runs n g) \<Longrightarrow> runs n (\<lambda>s. if b then f s else g s)"
  by (cases b) simp_all

text \<open>A read of the state does not need room.\<close>

lemma runs_get:
  assumes "\<And>s. ok s \<Longrightarrow> \<exists>x. g s = Some x \<and> P x" "\<And>x. P x \<Longrightarrow> runs n (h x)"
  shows "runs n (\<lambda>s. Option.bind (g s) (\<lambda>x. h x s))"
proof (rule runsI)
  fix s assume s: "ok s" "used s + int n \<le> limit"
  then obtain x where "g s = Some x" "P x" using assms(1) by blast
  then show "\<exists>s'. Option.bind (g s) (\<lambda>x. h x s) = Some s' \<and> ok s' \<and> used s \<le> used s' \<and> used s' \<le> used s + int n"
    using runsD [OF assms(2) s] by simp
qed

end

interpretation steps: bounded_steps sched_ok msg_queue_ptr 49
  by unfold_locales

named_theorems runs_rules \<open>the operations of the tasks keep the contract\<close>

lemma runs_change_input [runs_rules]: "0 \<le> n \<Longrightarrow> n < 40 \<Longrightarrow> steps.runs m (change_input n v)"
  by (rule steps.runsI) (simp add: change_input_eq sched_okD sched_ok_status)

lemma runs_set_output [runs_rules]: "0 \<le> k \<Longrightarrow> k < 40 \<Longrightarrow> steps.runs 1 (set_output k v)"
proof (rule steps.runsI)
  fix s :: "'a sched_scheme" assume s: "sched_ok s" and k: "0 \<le> k" "k < 40" and m: "msg_queue_ptr s + int 1 \<le> 49"
  from m have "msg_queue_ptr s < 49" by simp
  from set_output_step [OF s k this, of v]
  show "\<exists>s'. set_output k v s = Some s' \<and> sched_ok s' \<and> msg_queue_ptr s \<le> msg_queue_ptr s' \<and>
      msg_queue_ptr s' \<le> msg_queue_ptr s + int 1" by (metis of_nat_1)
qed

lemma runs_chg_output [runs_rules]: "0 \<le> k \<Longrightarrow> k < 40 \<Longrightarrow> steps.runs m (chg_output k v)"
  by (rule steps.runsI) (simp add: chg_output_drive sched_ok_drive frame_simps)

lemma otp_get_ok: "sched_ok s \<Longrightarrow> 0 \<le> k \<Longrightarrow> k < 40 \<Longrightarrow> \<exists>d. otp_get k s = Some d \<and> uint (o_port d) = k"
  using db_ok_lookup [of "db s" k] db_ok_record [of "db s" k] by (auto simp: sched_okD otp_get_def)

lemma runs_otp_set [runs_rules]:
  assumes "0 \<le> k" "k < 40" "\<And>d. o_port (f d) = o_port d" "\<And>d. o_label (f d) = o_label d"
  shows "steps.runs m (otp_set k f)"
proof (rule steps.runsI)
  fix s :: "'a sched_scheme" assume s: "sched_ok s"
  then obtain d where d: "otp_get k s = Some d" using otp_get_ok [OF s assms(1,2)] by blast
  have "sched_ok (put_record k (f d) s)" by (rule sched_ok_put_record [OF s d]) (simp_all add: assms)
  then show "\<exists>s'. otp_set k f s = Some s' \<and> sched_ok s' \<and> msg_queue_ptr s \<le> msg_queue_ptr s' \<and>
      msg_queue_ptr s' \<le> msg_queue_ptr s + int m"
    by (simp add: otp_set_put [OF d] frame_simps)
qed

lemma runs_otp_insert [runs_rules]: "0 \<le> k \<Longrightarrow> k < 40 \<Longrightarrow> steps.runs m (otp_insert k k)"
proof (rule steps.runsI)
  fix s :: "'a sched_scheme" assume s: "sched_ok s" and k: "0 \<le> k" "k < 40"
  then obtain d where "otp_get k s = Some d" "uint (o_port d) = k" using otp_get_ok [OF s k] by blast
  then show "\<exists>s'. otp_insert k k s = Some s' \<and> sched_ok s' \<and> msg_queue_ptr s \<le> msg_queue_ptr s' \<and>
      msg_queue_ptr s' \<le> msg_queue_ptr s + int m"
    using otp_insert_same [OF s, of k d] s by simp
qed

lemma runs_insert_at_port [runs_rules]: "0 \<le> k \<Longrightarrow> k < 40 \<Longrightarrow> steps.runs m (insert_at_port k)"
  unfolding insert_at_port_def
  by (rule steps.runs_get [where P = "\<lambda>d. uint (o_port d) = k"]) (auto intro: otp_get_ok runs_otp_insert)

lemma runs_store_onoff [runs_rules]: "0 \<le> k \<Longrightarrow> k < 40 \<Longrightarrow> steps.runs m (store_onoff k v)"
  unfolding store_onoff_def by (intro steps.runs_bind0 runs_rules) simp_all

lemma runs_bc_acc [runs_rules]: "steps.runs m (bc_acc stale v)"
  unfolding bc_acc_def
  by (rule steps.runs_get [where P = "\<lambda>d. True"])
     (auto intro!: steps.runs_bind0 steps.runs_if_const steps.runs_Some runs_rules dest: otp_get_ok [where k = ACCON])

lemma runs_bc_fuel_on [runs_rules]: "steps.runs m bc_fuel_on"
  unfolding bc_fuel_on_def
  by (rule steps.runs_get [where P = "\<lambda>d. True"])
     (auto intro!: steps.runs_bind0 steps.runs_if_const steps.runs_Some runs_rules dest: otp_get_ok [where k = FUELPUMP])

lemma runs_bc_fuel_off [runs_rules]: "steps.runs m bc_fuel_off"
  unfolding bc_fuel_off_def
  by (rule steps.runs_get [where P = "\<lambda>d. True"])
     (auto intro!: steps.runs_bind0 steps.runs_if_const steps.runs_Some runs_rules dest: otp_get_ok [where k = FUELPUMP])


lemma runs_release [runs_rules]: "0 \<le> k \<Longrightarrow> k < 40 \<Longrightarrow> steps.runs m (release k)"
  unfolding release_def by (intro steps.runs_bind0 runs_rules) simp_all

lemma runs_cut [runs_rules]: "0 \<le> k \<Longrightarrow> k < 40 \<Longrightarrow> steps.runs m (cut k)"
  unfolding cut_def by (intro steps.runs_bind0 runs_rules) simp_all

lemma sched_ok_upd [simp]:
  "sched_ok (s\<lparr>engine_running := x\<rparr>) = sched_ok s" "sched_ok (s\<lparr>lights_on_countdown := x\<rparr>) = sched_ok s"
  "sched_ok (s\<lparr>running_seconds := b\<rparr>) = sched_ok s" "sched_ok (s\<lparr>running_minutes := b\<rparr>) = sched_ok s"
  "sched_ok (s\<lparr>running_hours := b\<rparr>) = sched_ok s" "sched_ok (s\<lparr>test_lblinkers := x\<rparr>) = sched_ok s"
  "sched_ok (s\<lparr>test_rblinkers := x\<rparr>) = sched_ok s" "sched_ok (s\<lparr>shutdown_all := x\<rparr>) = sched_ok s"
  "sched_ok (s\<lparr>reboot_on_exit := b\<rparr>) = sched_ok s" "sched_ok (s\<lparr>serial_out := bs\<rparr>) = sched_ok s"
  by (simp_all add: sched_ok_def shadow_ok_def msgq_ok_def ips_ok_def)

lemma same_but_tcp_sched:
  assumes "same_but_tcp s (s' :: 'a sched_scheme)"
  shows "sched_ok s' = sched_ok s" "msg_queue_ptr s' = msg_queue_ptr s" "db s' = db s"
    "card_ports s' = card_ports s" "actual_lights_on_delay s' = actual_lights_on_delay s"
proof -
  let ?t = "s'\<lparr>sock_open := sock_open s, tcp_out := tcp_out s, send_fails := send_fails s, same_msg := same_msg s\<rparr>"
  have s: "s = ?t" using assms by (simp add: same_but_tcp_def)
  show "sched_ok s' = sched_ok s" "msg_queue_ptr s' = msg_queue_ptr s" "db s' = db s"
    "card_ports s' = card_ports s" "actual_lights_on_delay s' = actual_lights_on_delay s"
    by (subst s, simp add: sched_ok_def shadow_ok_def msgq_ok_def ips_ok_def)+
qed

lemma runs_bc_start_seq1 [runs_rules]: "steps.runs m bc_start_seq1"
  unfolding bc_start_seq1_def by (intro steps.runs_bind0 runs_rules) simp_all

lemma runs_bc_start_seq2 [runs_rules]: "steps.runs m bc_start_seq2"
  unfolding bc_start_seq2_def by (intro steps.runs_bind0 runs_rules steps.runs_upd) simp_all

lemma runs_bc_shutdown [runs_rules]: "steps.runs m (bc_shutdown :: 'a sched_scheme \<Rightarrow> _)"
proof -
  have "steps.runs m (\<lambda>s :: 'a sched_scheme. Option.bind (Some (s\<lparr>running_seconds := 0, running_minutes := 0, running_hours := 0,
      engine_running := 0\<rparr>)) (\<lambda>s. Option.bind (cut ACCON s) (\<lambda>s. Option.bind (cut FUELPUMP s)
      (\<lambda>s. Some (s\<lparr>lights_on_countdown := actual_lights_on_delay s\<rparr>)))))"
    by (intro steps.runs_bind0 runs_rules steps.runs_upd) simp_all
  then show ?thesis by (simp add: bc_shutdown_def [abs_def])
qed

lemma runs_bc_engine [runs_rules]: "steps.runs m (bc_engine stale cmd)"
  unfolding bc_engine_def
  by (intro steps.runs_if_const steps.runs_bind0 steps.runs_Some runs_rules) simp_all

lemma runs_set_output1: "0 \<le> k \<Longrightarrow> k < 40 \<Longrightarrow> 1 \<le> m \<Longrightarrow> steps.runs m (set_output k v)"
  using steps.runs_weaken [OF runs_set_output] by blast

lemma runs_bc_lights [runs_rules]: "1 \<le> m \<Longrightarrow> steps.runs m (bc_lights cmd)"
  unfolding bc_lights_def
  by (intro steps.runs_if_const steps.runs_bind0 steps.runs_Some runs_set_output1 runs_change_input runs_store_onoff) simp_all

lemma runs_set_outs:
  "(\<forall>(k, v) \<in> set kvs. 0 \<le> k \<and> k < 40) \<Longrightarrow> steps.runs (length kvs) (set_outs kvs :: 'a sched_scheme \<Rightarrow> _)"
proof (induction kvs)
  case Nil
  then show ?case by (simp add: steps.runs_def)
next
  case (Cons kv kvs)
  obtain k v where kv: "kv = (k, v)" by (cases kv)
  have "steps.runs (1 + length kvs) (\<lambda>s :: 'a sched_scheme. Option.bind (set_output k v s) (set_outs kvs))"
    using Cons kv by (intro steps.runs_bind runs_set_output) auto
  then show ?case by (simp add: kv steps.runs_def)
qed

lemma runs_set_outs_le: "(\<forall>(k, v) \<in> set kvs. 0 \<le> k \<and> k < 40) \<Longrightarrow> length kvs \<le> m \<Longrightarrow> steps.runs m (set_outs kvs)"
  using steps.runs_weaken [OF runs_set_outs] by blast

lemma runs_bc_misc [runs_rules]: "32 \<le> m \<Longrightarrow> steps.runs m (bc_misc cmd)"
  unfolding bc_misc_def
  by (intro steps.runs_if_const steps.runs_bind0 steps.runs_Some runs_set_outs_le runs_change_input steps.runs_upd)
     (simp_all add: sp_cmd_arr_def)

lemma runs_send_serialother [runs_rules]: "50 \<le> length buf \<Longrightarrow> steps.runs m (send_serialother cmd buf)"
  by (rule steps.runsI) (simp add: send_serialother_eq)

lemma runs_bc_system [runs_rules]: "50 \<le> length tempx \<Longrightarrow> steps.runs m (bc_system cmd tempx)"
  unfolding bc_system_def
  by (intro steps.runs_if_const steps.runs_bind0 steps.runs_Some runs_send_serialother steps.runs_upd) simp_all

lemma bc_report_ok:
  assumes "sched_ok s" "length tempx = 50"
  shows "\<exists>t s'. bc_report cmd tempx s = Some (t, s') \<and> length t = 50 \<and> sched_ok s' \<and>
    msg_queue_ptr s' = msg_queue_ptr s \<and> db s' = db s \<and> card_ports s' = card_ports s \<and>
    actual_lights_on_delay s' = actual_lights_on_delay s"
proof (cases "cmd \<in> set reported \<and> test_sock s \<noteq> 0")
  case True
  have "cmd < 107" using True by (auto simp: reported_def)
  then obtain str where str: "cmd_str cmd = Some str" using cmd_str_defined [of cmd] by auto
  then have l: "length str \<le> 23" by (rule cmd_str_length)
  then obtain t where t: "cstr_into tempx str = Some t" "length t = 50"
    using assms(2) by (auto simp: cstr_into_def)
  from send_msg_safe [of "int (length str) * 2" t SEND_MSG s] l t(2) obtain s' where
    "send_msg (int (length str) * 2) t SEND_MSG s = Some s'" "same_but_tcp s s'" by auto
  then show ?thesis using True str t assms(1)
    by (simp add: bc_report_def send_str_def same_but_tcp_sched)
qed (use assms in \<open>auto simp: bc_report_def\<close>)

section \<open>Properties\<close>

lemma basic_control_runs:
  assumes "sched_ok s" "length tempx = 50" "msg_queue_ptr s \<le> 17"
  shows "\<exists>t s'. basic_control stale cmd tempx s = Some (t, s') \<and> length t = 50 \<and> sched_ok s' \<and>
    msg_queue_ptr s \<le> msg_queue_ptr s' \<and> msg_queue_ptr s' \<le> msg_queue_ptr s + 32"
proof -
  from bc_report_ok [OF assms(1,2), of cmd] obtain t s1 where
    r: "bc_report cmd tempx s = Some (t, s1)" "length t = 50" "sched_ok s1" "msg_queue_ptr s1 = msg_queue_ptr s" by blast
  have "steps.runs 32 (\<lambda>s. if cmd \<in> set engine_cmds then bc_engine stale cmd s
           else if cmd \<in> set light_cmds then bc_lights cmd s
           else if cmd \<in> set misc_cmds then bc_misc cmd s else bc_system cmd t s)"
    using r(2) by (intro steps.runs_if_const runs_rules) simp_all
  from steps.runsD [OF this r(3)] r assms(3) show ?thesis by (auto simp: basic_control_def)
qed




section \<open>Fuel and ignition\<close>

lemma cut_eq:
  assumes s: "sched_ok s" and d: "otp_get k s = Some d"
  shows "cut k s = Some (put_record k (d\<lparr>o_onoff := 0\<rparr>) (drive k False s))"
proof -
  have k: "0 \<le> k" "k < 40" "uint (o_port d) = k"
    using db_ok_record [of "db s" k d] assms by (auto simp: sched_okD otp_get_def)
  have d1: "otp_get k (drive k False s) = Some d" using d k by (simp add: frame_simps)
  from otp_insert_put(2) [OF sched_ok_drive [OF s k(1,2)] d1, of "d\<lparr>o_onoff := 0\<rparr>"]
  show ?thesis using k
    by (simp add: cut_def chg_output_drive otp_set_put [OF d1] insert_at_port_def otp_get_put_record d1)
qed

lemma release_eq:
  assumes s: "sched_ok s" and d: "otp_get k s = Some d"
  shows "release k s = Some (drive k True (put_record k (d\<lparr>o_onoff := 1, o_reset := 0\<rparr>) s))"
proof -
  let ?d = "d\<lparr>o_onoff := 1, o_reset := 0\<rparr>"
  have k: "0 \<le> k" "k < 40" "uint (o_port d) = k"
    using db_ok_record [of "db s" k d] assms by (auto simp: sched_okD otp_get_def)
  have g: "otp_get k (put_record k (d\<lparr>o_onoff := 1\<rparr>) s) = Some (d\<lparr>o_onoff := 1\<rparr>)"
    by (simp add: otp_get_put_record d)
  have g2: "otp_get k (drive k True (put_record k ?d s)) = Some ?d"
    using k by (simp add: frame_simps otp_get_put_record d)
  from otp_insert_put(1) [OF s d, of ?d True] show ?thesis using k
    by (simp add: release_def otp_set_put [OF d] otp_set_put [OF g] put_record_twice chg_output_drive
        insert_at_port_def g2)
qed

text \<open>What a client sees of the two outputs.\<close>

lemma cut_facts:
  assumes s: "sched_ok s" and d: "otp_get k s = Some d"
  obtains s' where "cut k s = Some s'" "sched_ok s'" "otp_get k s' = Some (d\<lparr>o_onoff := 0\<rparr>)" "\<not> out_line k s'"
    "\<And>j. j \<noteq> k \<Longrightarrow> otp_get j s' = otp_get j s"
    "\<And>j. 0 \<le> j \<Longrightarrow> j < 40 \<Longrightarrow> j \<noteq> k \<Longrightarrow> out_line j s' = out_line j s"
    "engine_running s' = engine_running s" "actual_lights_on_delay s' = actual_lights_on_delay s"
proof -
  have k: "0 \<le> k" "k < 40"
    using db_ok_record [of "db s" k d] assms by (auto simp: sched_okD otp_get_def)
  let ?s = "put_record k (d\<lparr>o_onoff := 0\<rparr>) (drive k False s)"
  have d1: "otp_get k (drive k False s) = Some d" using d k by (simp add: frame_simps)
  have "engine_running ?s = engine_running s" "actual_lights_on_delay ?s = actual_lights_on_delay s"
    using k by (simp_all add: put_record_def drive_def change_output_eq out_port_def store_port_def Let_def)
  then show thesis using that [OF cut_eq [OF assms]] k
      sched_ok_put_record [OF sched_ok_drive [OF s k] d1, of "d\<lparr>o_onoff := 0\<rparr>"]
    by (simp add: frame_simps otp_get_put_record d out_line_drive [OF s])
qed

lemma release_facts:
  assumes s: "sched_ok s" and d: "otp_get k s = Some d"
  obtains s' where "release k s = Some s'" "sched_ok s'" "otp_get k s' = Some (d\<lparr>o_onoff := 1, o_reset := 0\<rparr>)" "out_line k s'"
    "\<And>j. j \<noteq> k \<Longrightarrow> otp_get j s' = otp_get j s"
    "\<And>j. 0 \<le> j \<Longrightarrow> j < 40 \<Longrightarrow> j \<noteq> k \<Longrightarrow> out_line j s' = out_line j s"
proof -
  have k: "0 \<le> k" "k < 40"
    using db_ok_record [of "db s" k d] assms by (auto simp: sched_okD otp_get_def)
  have s1: "sched_ok (put_record k (d\<lparr>o_onoff := 1, o_reset := 0\<rparr>) s)"
    by (rule sched_ok_put_record [OF s d]) simp_all
  show thesis using that [OF release_eq [OF assms] sched_ok_drive [OF s1 k]] k
    by (simp add: frame_simps otp_get_put_record d out_line_drive [OF s1])
qed

lemma same_records:
  "db s' = db s \<Longrightarrow> otp_get j s' = otp_get j s"
  "card_ports s' = card_ports s \<Longrightarrow> out_line j s' = out_line j s"
  by (simp_all add: otp_get_def out_line_def relay_def)

lemma change_input_frame:
  assumes "sched_ok s" "0 \<le> n" "n < 40"
  obtains f where "change_input n v s = Some (s\<lparr>fake_inportstatus2 := f\<rparr>)" "sched_ok (s\<lparr>fake_inportstatus2 := f\<rparr>)"
  using assms by (auto simp: change_input_eq sched_okD sched_ok_status)

lemma basic_control_body:
  assumes "sched_ok s" "length tempx = 50"
  obtains t s1 where "length t = 50" "sched_ok s1" "msg_queue_ptr s1 = msg_queue_ptr s" "db s1 = db s"
    "card_ports s1 = card_ports s" "actual_lights_on_delay s1 = actual_lights_on_delay s"
    "cmd \<in> set engine_cmds \<Longrightarrow>
       basic_control stale cmd tempx s = map_option (\<lambda>s. (t, s)) (bc_engine stale cmd s1)"
proof -
  from bc_report_ok [OF assms, of cmd] obtain t s1 where
    "bc_report cmd tempx s = Some (t, s1)" "length t = 50" "sched_ok s1" "msg_queue_ptr s1 = msg_queue_ptr s"
    "db s1 = db s" "card_ports s1 = card_ports s" "actual_lights_on_delay s1 = actual_lights_on_delay s" by blast
  then show thesis using that [of t s1] by (simp add: basic_control_def map_conv_bind_option comp_def)
qed

text \<open>
  A latched stop holds. While the fuel pump's record is not released (\<open>reset\<close> is not 0, which is
  how the emergency stop leaves it), the commands \<open>ON_FUEL_PUMP\<close> and \<open>OFF_FUEL_PUMP\<close> change no relay and no
  record.
\<close>

theorem stopped_pump_ignores_commands:
  assumes "sched_ok s" "length tempx = 50" "otp_get FUELPUMP s = Some d" "o_reset d \<noteq> 0"
    "cmd = ON_FUEL_PUMP \<or> cmd = OFF_FUEL_PUMP"
  shows "\<exists>t s'. basic_control stale cmd tempx s = Some (t, s') \<and> sched_ok s' \<and>
    db s' = db s \<and> (\<forall>j. out_line j s' = out_line j s)"
proof -
  from basic_control_body [OF assms(1,2), of cmd stale] obtain t s1 where
    b: "sched_ok s1" "db s1 = db s" "card_ports s1 = card_ports s"
      "cmd \<in> set engine_cmds \<Longrightarrow>
         basic_control stale cmd tempx s = map_option (\<lambda>s. (t, s)) (bc_engine stale cmd s1)" by blast
  have d: "otp_get FUELPUMP s1 = Some d" using assms(3) b(2) by (simp add: otp_get_def)
  then have p: "uint (o_port d) = FUELPUMP" using otp_get_ok [OF b(1), of FUELPUMP] by auto
  have "bc_fuel_on s1 = Some s1" "bc_fuel_off s1 = Some s1"
    using assms(4) d otp_insert_same [OF b(1) d] p by (simp_all add: bc_fuel_on_def bc_fuel_off_def)
  then have "bc_engine stale cmd s1 = Some s1" using assms(5) by (auto simp: bc_engine_def)
  moreover have "cmd \<in> set engine_cmds" using assms(5) by (auto simp: engine_cmds_def)
  ultimately show ?thesis using b same_records [of s1 s] by auto
qed

lemma start_seq_effect:
  assumes "sched_ok s" "length tempx = 50" "otp_get ACCON s = Some a" "otp_get FUELPUMP s = Some d"
  shows "\<exists>t s'. basic_control stale START_SEQ tempx s = Some (t, s') \<and> sched_ok s' \<and> engine_running s' = 1 \<and>
    otp_get ACCON s' = Some (a\<lparr>o_onoff := 1, o_reset := 0\<rparr>) \<and> out_line ACCON s' \<and>
    otp_get FUELPUMP s' = Some (d\<lparr>o_onoff := 1, o_reset := 0\<rparr>) \<and> out_line FUELPUMP s' \<and>
    (\<forall>j. 0 \<le> j \<and> j < 40 \<and> j \<noteq> ACCON \<and> j \<noteq> FUELPUMP \<longrightarrow> out_line j s' = out_line j s \<and> otp_get j s' = otp_get j s)"
proof -
  from basic_control_body [OF assms(1,2), of START_SEQ stale] obtain t s1 where
    b: "sched_ok s1" "db s1 = db s" "card_ports s1 = card_ports s"
      "START_SEQ \<in> set engine_cmds \<Longrightarrow>
         basic_control stale START_SEQ tempx s = map_option (\<lambda>s. (t, s)) (bc_engine stale START_SEQ s1)" by blast
  have a: "otp_get ACCON s1 = Some a" using assms(3) b(2) by (simp add: otp_get_def)
  from release_facts [OF b(1) a] obtain s2 where
    s2: "release ACCON s1 = Some s2" "sched_ok s2" "otp_get ACCON s2 = Some (a\<lparr>o_onoff := 1, o_reset := 0\<rparr>)" "out_line ACCON s2"
      "\<And>j. j \<noteq> ACCON \<Longrightarrow> otp_get j s2 = otp_get j s1"
      "\<And>j. 0 \<le> j \<Longrightarrow> j < 40 \<Longrightarrow> j \<noteq> ACCON \<Longrightarrow> out_line j s2 = out_line j s1" by blast
  have d: "otp_get FUELPUMP s2 = Some d" using assms(4) b(2) s2(5) by (simp add: otp_get_def)
  from release_facts [OF s2(2) d] obtain s3 where
    s3: "release FUELPUMP s2 = Some s3" "sched_ok s3" "otp_get FUELPUMP s3 = Some (d\<lparr>o_onoff := 1, o_reset := 0\<rparr>)"
      "out_line FUELPUMP s3" "\<And>j. j \<noteq> FUELPUMP \<Longrightarrow> otp_get j s3 = otp_get j s2"
      "\<And>j. 0 \<le> j \<Longrightarrow> j < 40 \<Longrightarrow> j \<noteq> FUELPUMP \<Longrightarrow> out_line j s3 = out_line j s2" by blast
  from change_input_frame [OF s3(2), of STARTER_INPUT 0] obtain f where
    f: "change_input STARTER_INPUT 0 s3 = Some (s3\<lparr>fake_inportstatus2 := f\<rparr>)" "sched_ok (s3\<lparr>fake_inportstatus2 := f\<rparr>)" by auto
  from change_input_frame [OF f(2), of STARTER_INPUT 1] obtain g where
    g: "change_input STARTER_INPUT 1 (s3\<lparr>fake_inportstatus2 := f\<rparr>) = Some (s3\<lparr>fake_inportstatus2 := g\<rparr>)"
      "sched_ok (s3\<lparr>fake_inportstatus2 := g\<rparr>)" by auto
  let ?s = "s3\<lparr>fake_inportstatus2 := g, engine_running := 1\<rparr>"
  have e: "bc_engine stale START_SEQ s1 = Some ?s"
    by (simp add: bc_engine_def bc_start_seq1_def bc_start_seq2_def s2 s3 f g)
  have r: "otp_get j ?s = otp_get j s3" "out_line j ?s = out_line j s3" for j
    by (simp_all add: otp_get_def out_line_def relay_def)
  have "START_SEQ \<in> set engine_cmds" by (simp add: engine_cmds_def)
  then show ?thesis using e b s2 s3 g(2) r same_records [of s1 s] by simp
qed

text \<open>
  C11: Only the start sequence releases it, and it does so without looking at any input: \<open>START_SEQ\<close>
  arms and energises ignition and fuel pump whatever their records say (a stop switch that is still
  closed included), touches no other relay, and marks the engine as running.
\<close>

theorem start_seq_releases:
  assumes "sched_ok s" "length tempx = 50" "otp_get ACCON s = Some a" "otp_get FUELPUMP s = Some d"
  shows "\<exists>t s'. basic_control stale START_SEQ tempx s = Some (t, s') \<and> sched_ok s' \<and> engine_running s' = 1 \<and>
    otp_get ACCON s' = Some (a\<lparr>o_onoff := 1, o_reset := 0\<rparr>) \<and> out_line ACCON s' \<and>
    otp_get FUELPUMP s' = Some (d\<lparr>o_onoff := 1, o_reset := 0\<rparr>) \<and> out_line FUELPUMP s' \<and>
    (\<forall>j. 0 \<le> j \<and> j < 40 \<and> j \<noteq> ACCON \<and> j \<noteq> FUELPUMP \<longrightarrow> out_line j s' = out_line j s \<and> otp_get j s' = otp_get j s)"
  by (rule start_seq_effect [OF assms])

lemma start_seq_releases_witness:
  "\<exists>t s'. basic_control (\<lambda>d. d) START_SEQ (replicate 50 0) (sched1 2 (fuel_pump\<lparr>o_onoff := 0, o_reset := 3\<rparr>)) = Some (t, s') \<and>
    sched_ok s' \<and> engine_running s' = 1 \<and>
    otp_get 1 s' = Some ((o_data0 1)\<lparr>o_onoff := 1, o_reset := 0\<rparr>) \<and> out_line 1 s' \<and>
    otp_get 2 s' = Some (fuel_pump\<lparr>o_onoff := 0, o_reset := 3, o_onoff := 1, o_reset := 0\<rparr>) \<and> out_line 2 s' \<and>
    (\<forall>j. 0 \<le> j \<and> j < 40 \<and> j \<noteq> 1 \<and> j \<noteq> 2 \<longrightarrow>
       out_line j s' = out_line j (sched1 2 (fuel_pump\<lparr>o_onoff := 0, o_reset := 3\<rparr>)) \<and>
       otp_get j s' = otp_get j (sched1 2 (fuel_pump\<lparr>o_onoff := 0, o_reset := 3\<rparr>)))"
  by (rule start_seq_releases [OF sched1_ok(1)])
     (simp_all add: sched1_ok(2) fuel_pump_def o_data0_def sched1_def otp_get_put_record, simp_all add: otp_get_def sched0_def db0_lookup o_data0_def)

lemma stopped_pump_ignores_commands_witness:
  "\<exists>t s'. basic_control (\<lambda>d. d) ON_FUEL_PUMP (replicate 50 0) (sched1 2 (fuel_pump\<lparr>o_reset := 3\<rparr>)) = Some (t, s') \<and> sched_ok s' \<and>
    db s' = db (sched1 2 (fuel_pump\<lparr>o_reset := 3\<rparr>)) \<and> (\<forall>j. out_line j s' = out_line j (sched1 2 (fuel_pump\<lparr>o_reset := 3\<rparr>)))"
  by (rule stopped_pump_ignores_commands [OF sched1_ok(1) _ sched1_ok(2)]) (simp_all add: fuel_pump_def o_data0_def)

lemma shutdown_effect:
  assumes "sched_ok s" "length tempx = 50" "otp_get ACCON s = Some a" "otp_get FUELPUMP s = Some d"
  shows "\<exists>t s'. basic_control stale SHUTDOWN tempx s = Some (t, s') \<and> sched_ok s' \<and> engine_running s' = 0 \<and>
    \<not> out_line ACCON s' \<and> \<not> out_line FUELPUMP s' \<and> lights_on_countdown s' = actual_lights_on_delay s \<and>
    otp_get ACCON s' = Some (a\<lparr>o_onoff := 0\<rparr>) \<and> otp_get FUELPUMP s' = Some (d\<lparr>o_onoff := 0\<rparr>) \<and>
    (\<forall>j. 0 \<le> j \<and> j < 40 \<and> j \<noteq> ACCON \<and> j \<noteq> FUELPUMP \<longrightarrow> out_line j s' = out_line j s \<and> otp_get j s' = otp_get j s)"
proof -
  from basic_control_body [OF assms(1,2), of SHUTDOWN stale] obtain t s1 where
    b: "sched_ok s1" "db s1 = db s" "card_ports s1 = card_ports s" "actual_lights_on_delay s1 = actual_lights_on_delay s"
      "SHUTDOWN \<in> set engine_cmds \<Longrightarrow>
         basic_control stale SHUTDOWN tempx s = map_option (\<lambda>s. (t, s)) (bc_engine stale SHUTDOWN s1)" by blast
  define s2 where "s2 = s1\<lparr>running_seconds := 0, running_minutes := 0, running_hours := 0, engine_running := 0\<rparr>"
  have r2: "sched_ok s2" "otp_get j s2 = otp_get j s1" "out_line j s2 = out_line j s1"
    "engine_running s2 = 0" "actual_lights_on_delay s2 = actual_lights_on_delay s1" for j
    using b(1) by (simp_all add: s2_def otp_get_def out_line_def relay_def)
  have a: "otp_get ACCON s2 = Some a" using assms(3) b(2) r2 by (simp add: otp_get_def)
  from cut_facts [OF r2(1) a] obtain s3 where
    s3: "cut ACCON s2 = Some s3" "sched_ok s3" "otp_get ACCON s3 = Some (a\<lparr>o_onoff := 0\<rparr>)" "\<not> out_line ACCON s3"
      "\<And>j. j \<noteq> ACCON \<Longrightarrow> otp_get j s3 = otp_get j s2"
      "\<And>j. 0 \<le> j \<Longrightarrow> j < 40 \<Longrightarrow> j \<noteq> ACCON \<Longrightarrow> out_line j s3 = out_line j s2"
      "engine_running s3 = engine_running s2" "actual_lights_on_delay s3 = actual_lights_on_delay s2" by blast
  have d: "otp_get FUELPUMP s3 = Some d" using assms(4) b(2) r2 s3(5) by (simp add: otp_get_def)
  from cut_facts [OF s3(2) d] obtain s4 where
    s4: "cut FUELPUMP s3 = Some s4" "sched_ok s4" "otp_get FUELPUMP s4 = Some (d\<lparr>o_onoff := 0\<rparr>)" "\<not> out_line FUELPUMP s4"
      "\<And>j. j \<noteq> FUELPUMP \<Longrightarrow> otp_get j s4 = otp_get j s3"
      "\<And>j. 0 \<le> j \<Longrightarrow> j < 40 \<Longrightarrow> j \<noteq> FUELPUMP \<Longrightarrow> out_line j s4 = out_line j s3"
      "engine_running s4 = engine_running s3" "actual_lights_on_delay s4 = actual_lights_on_delay s3" by blast
  let ?s = "s4\<lparr>lights_on_countdown := actual_lights_on_delay s4\<rparr>"
  have e: "bc_engine stale SHUTDOWN s1 = Some ?s"
    by (simp add: bc_engine_def bc_shutdown_def s3 s4 flip: s2_def)
  have r: "otp_get j ?s = otp_get j s4" "out_line j ?s = out_line j s4" for j
    by (simp_all add: otp_get_def out_line_def relay_def)
  have "SHUTDOWN \<in> set engine_cmds" by (simp add: engine_cmds_def)
  then show ?thesis using e b s3 s4 r2 r same_records [of s1 s] by simp
qed

text \<open>
  \<open>SHUTDOWN\<close> switches ignition and fuel pump off, whatever their records say, changes no other relay,
  marks the engine as stopped and starts the count-down of the lights with the configured delay.
\<close>

theorem shutdown_cuts:
  assumes "sched_ok s" "length tempx = 50" "otp_get ACCON s = Some a" "otp_get FUELPUMP s = Some d"
  shows "\<exists>t s'. basic_control stale SHUTDOWN tempx s = Some (t, s') \<and> sched_ok s' \<and> engine_running s' = 0 \<and>
    \<not> out_line ACCON s' \<and> \<not> out_line FUELPUMP s' \<and> lights_on_countdown s' = actual_lights_on_delay s \<and>
    otp_get ACCON s' = Some (a\<lparr>o_onoff := 0\<rparr>) \<and> otp_get FUELPUMP s' = Some (d\<lparr>o_onoff := 0\<rparr>) \<and>
    (\<forall>j. 0 \<le> j \<and> j < 40 \<and> j \<noteq> ACCON \<and> j \<noteq> FUELPUMP \<longrightarrow> out_line j s' = out_line j s \<and> otp_get j s' = otp_get j s)"
  by (rule shutdown_effect [OF assms])

lemma shutdown_cuts_witness:
  "\<exists>t s'. basic_control (\<lambda>d. d) SHUTDOWN (replicate 50 0) sched4 = Some (t, s') \<and> sched_ok s' \<and> engine_running s' = 0 \<and>
    \<not> out_line 1 s' \<and> \<not> out_line 2 s' \<and> lights_on_countdown s' = actual_lights_on_delay sched4 \<and>
    otp_get 1 s' = Some ((o_data0 1)\<lparr>o_onoff := 0\<rparr>) \<and> otp_get 2 s' = Some ((o_data0 2)\<lparr>o_onoff := 0\<rparr>) \<and>
    (\<forall>j. 0 \<le> j \<and> j < 40 \<and> j \<noteq> 1 \<and> j \<noteq> 2 \<longrightarrow> out_line j s' = out_line j sched4 \<and> otp_get j s' = otp_get j sched4)"
  by (rule shutdown_cuts [OF sched4_ok(1)])
     (simp_all add: sched4_def sched1_def otp_get_put_record otp_get_drive, simp_all add: otp_get_def sched0_def db0_lookup)

end
