(* ===== verification/HostCmd.thy ===== *)
theory HostCmd
  imports Controls
begin

text \<open>
  The task that serves the client (\<open>get_host_cmd_task\<close> of \<open>thread_io/cmd_tasks.c\<close>): it receives a
  message, and its \<open>switch\<close> passes commands of the vehicle on (to the STM32 and to the command
  store), sets the clock, stores parameters, sets rates and configures the GPS receiver. The state
  adds what the task keeps: its buffers, the index \<open>j\<close> into \<open>msg_buf2\<close>, the last time given to \<open>stime\<close>,
  what went to the GPS line, and the odometer file. Output on the console is left out; a file can
  always be created.
\<close>

record tm =
  tm_mon :: int
  tm_mday :: int
  tm_year :: int
  tm_hour :: int
  tm_min :: int
  tm_sec :: int

record host = sched +
  h_j :: int
  h_tempx :: "u8 list"
  h_wsb :: "u8 list"
  h_buf :: "u8 list"
  h_buf2 :: "u8 list"
  h_high :: int
  h_low :: int
  h_tm :: tm
  clock :: "tm option"
  gps_out :: "u8 list"
  gps_baud :: int
  odo_file :: "string option"

text \<open>The sizes of the buffers: \<open>SERIAL_BUFF_SIZE\<close>, \<open>UPLOAD_BUFF_SIZE\<close> and half of it.\<close>

definition host_ok :: "'a host_scheme \<Rightarrow> bool" where
  "host_ok s \<longleftrightarrow> sched_ok s \<and> length (h_tempx s) = 50 \<and> length (h_wsb s) = 50 \<and>
     length (h_buf s) = 10000 \<and> length (h_buf2 s) = 5000 \<and> 0 \<le> h_j s"

section \<open>Receiving\<close>

text \<open>\<open>for(i = 2;i < msg_len+2;i+=2) msg_buf2[j++] = msg_buf[i];\<close> with \<open>n\<close> rounds to go.\<close>

fun copy_loop :: "nat \<Rightarrow> int \<Rightarrow> 'a host_scheme \<Rightarrow> 'a host_scheme option" where
  "copy_loop 0 i s = Some s"
| "copy_loop (Suc n) i s = do {
     b \<leftarrow> aget (h_buf s) i;
     buf2 \<leftarrow> aset (h_buf2 s) (h_j s) b;
     copy_loop n (i + 2) (s\<lparr>h_buf2 := buf2, h_j := h_j s + 1\<rparr>)
   }"

definition host_recv :: "u8 list \<Rightarrow> 'a host_scheme \<Rightarrow> (u8 \<times> int \<times> 'a host_scheme) option" where
  "host_recv preamble s = do {
     let s = s\<lparr>h_buf := replicate (length (h_buf s)) 0\<rparr>;
     (msg_len, s) \<leftarrow> get_msg preamble s;
     if msg_len < 0 then Some (BAD_MSG, msg_len, s)
     else do {
       (rc, buf, s) \<leftarrow> recv_tcp (h_buf s) (nat msg_len) s;
       let s = s\<lparr>h_buf := buf\<rparr>;
       cmd \<leftarrow> aget buf 0;
       s \<leftarrow> copy_loop (nat ((msg_len + 1) div 2)) 2 s;
       Some (cmd, msg_len, s)
     }
   }"

section \<open>Printing into tempx\<close>

definition print :: "string \<Rightarrow> 'a host_scheme \<Rightarrow> 'a host_scheme option" where
  "print str s = do { t \<leftarrow> cstr_into (h_tempx s) str; Some (s\<lparr>h_tempx := t\<rparr>) }"

definition print_cmd :: "u8 \<Rightarrow> 'a host_scheme \<Rightarrow> 'a host_scheme option" where
  "print_cmd cmd s = do {
     str \<leftarrow> cmd_str cmd;
     print (''cmd: '' @ dec_nat (unat cmd) @ '' '' @ str) s
   }"

text \<open>
  \<open>convertF\<close>: half degrees Celsius in 9 bits to whole degrees Fahrenheit, rounded toward zero. The
  product with 1.8 is exact in tenths, and a \<open>float\<close> has room for it.
\<close>

definition convertF :: "int \<Rightarrow> int" where
  "convertF raw_data =
     (let raw_data = (if raw_data AND 0x100 \<noteq> 0 then - ((NOT raw_data + 1) AND 0xFF) else raw_data);
          t = raw_data * 9 + 320
      in if t < 0 then - (- t div 10) else t div 10)"

definition float1 :: "int \<Rightarrow> string" where
  "float1 i = dec_int i @ ''.0''"

section \<open>Parameters\<close>

text \<open>\<open>utemp = msg_buf[i+1]; utemp <<= 8; utemp |= msg_buf[i];\<close>\<close>

definition word_at :: "int \<Rightarrow> 'a host_scheme \<Rightarrow> u32 option" where
  "word_at i s = do {
     hi \<leftarrow> aget (h_buf s) (i + 1);
     lo \<leftarrow> aget (h_buf s) i;
     Some (mk16 hi lo)
   }"

definition save_params :: "'a sched_scheme \<Rightarrow> 'a sched_scheme" where
  "save_params s = s\<lparr>param_file := Some (WriteParams (ps s) (password s))\<rparr>"

text \<open>\<open>atoi(hi_rev[k])\<close> and \<open>atoi(lo_rev[k])\<close>.\<close>

definition hi_rev :: "int list" where
  "hi_rev = [6000, 5800, 5600, 5400, 5200, 5000, 4800, 4600, 4200, 4000]"

definition lo_rev :: "int list" where
  "lo_rev = [4500, 4400, 4300, 4200, 4100, 4000, 3900, 3800, 3700]"

definition wsb_set :: "int \<Rightarrow> u8 \<Rightarrow> 'a host_scheme \<Rightarrow> 'a host_scheme option" where
  "wsb_set i b s = do { w \<leftarrow> aset (h_wsb s) i b; Some (s\<lparr>h_wsb := w\<rparr>) }"

definition send_wsb :: "u8 \<Rightarrow> 'a host_scheme \<Rightarrow> 'a host_scheme option" where
  "send_wsb cmd s = send_serialother cmd (h_wsb s) s"

definition hc_temps :: "u8 \<Rightarrow> 'a host_scheme \<Rightarrow> 'a host_scheme option" where
  "hc_temps cmd s = do {
     utemp \<leftarrow> word_at 2 s;
     let v = sint utemp;
     if cmd = SET_TEMP_LIMIT then do {
       b2 \<leftarrow> aget (h_buf s) 2;
       b3 \<leftarrow> aget (h_buf s) 3;
       s \<leftarrow> wsb_set 0 b2 (s\<lparr>ps := (ps s)\<lparr>p_engine_temp_limit := v\<rparr>\<rparr>);
       s \<leftarrow> wsb_set 1 b3 s;
       s \<leftarrow> send_wsb SET_TEMP_LIMIT s;
       Some (save_params s)
     }
     else if cmd = SET_FAN_ON then Some (save_params (s\<lparr>ps := (ps s)\<lparr>p_cooling_fan_on := v\<rparr>\<rparr>))
     else if cmd = SET_FAN_OFF then Some (save_params (s\<lparr>ps := (ps s)\<lparr>p_cooling_fan_off := v\<rparr>\<rparr>))
     else Some s
   }"

definition hc_blowers :: "u8 \<Rightarrow> 'a host_scheme \<Rightarrow> 'a host_scheme option" where
  "hc_blowers cmd s = do {
     utemp \<leftarrow> word_at 2 s;
     let v = sint utemp;
     if cmd = SET_BLOWER1_TEMP then Some (save_params (s\<lparr>ps := (ps s)\<lparr>p_blower1_on := v\<rparr>\<rparr>))
     else if cmd = SET_BLOWER2_TEMP then Some (save_params (s\<lparr>ps := (ps s)\<lparr>p_blower2_on := v\<rparr>\<rparr>))
     else if cmd = SET_BLOWER3_TEMP then Some (save_params (s\<lparr>ps := (ps s)\<lparr>p_blower3_on := v\<rparr>\<rparr>))
     else if cmd = SET_BLOWER_EN_TEMP then Some (save_params (s\<lparr>ps := (ps s)\<lparr>p_blower_enabled := v\<rparr>\<rparr>))
     else if cmd = SET_BATT_BOX_TEMP then Some (save_params (s\<lparr>ps := (ps s)\<lparr>p_batt_box_temp := v\<rparr>\<rparr>))
     else Some s
   }"

text \<open>The choices of the client's combo boxes: the parameter is an index into a table.\<close>

definition hc_choice :: "u8 \<Rightarrow> 'a host_scheme \<Rightarrow> 'a host_scheme option" where
  "hc_choice cmd s = do {
     utemp \<leftarrow> word_at 2 s;
     let v = sint utemp;
     if cmd = HIGH_REV_LIMIT then do {
       s \<leftarrow> print (''high rev limit: '' @ dec_int v) (s\<lparr>ps := (ps s)\<lparr>p_high_rev_limit := v\<rparr>\<rparr>);
       let s = save_params s;
       r \<leftarrow> aget hi_rev v;
       s \<leftarrow> print (''actual: '' @ dec_int r) (s\<lparr>h_high := r\<rparr>);
       s \<leftarrow> wsb_set 0 (lo8 utemp) s;
       send_wsb HIGH_REV_LIMIT s
     }
     else if cmd = LOW_REV_LIMIT then do {
       s \<leftarrow> print (''low rev limit: '' @ dec_int v) (s\<lparr>ps := (ps s)\<lparr>p_low_rev_limit := v\<rparr>\<rparr>);
       let s = save_params s;
       r \<leftarrow> aget lo_rev v;
       s \<leftarrow> print (''actual: '' @ dec_int r) (s\<lparr>h_low := r\<rparr>);
       s \<leftarrow> wsb_set 0 (lo8 utemp) s;
       send_wsb LOW_REV_LIMIT s
     }
     else do {
       r \<leftarrow> aget lights_on_delay v;
       let s = s\<lparr>ps := (ps s)\<lparr>p_lights_on_delay := v\<rparr>, actual_lights_on_delay := r\<rparr>;
       let u = (word_of_int r :: u32);
       buf \<leftarrow> aset (h_buf s) 2 (lo8 u);
       buf \<leftarrow> aset buf 3 (hi8 u);
       Some (save_params (s\<lparr>h_buf := buf\<rparr>))
     }
   }"

section \<open>UPDATE_CONFIG\<close>

text \<open>\<open>write_serial_buffer[k] = msg_buf[i]; write_serial_buffer[k+1] = msg_buf[i+1];\<close>\<close>

definition wsb_pair :: "int \<Rightarrow> int \<Rightarrow> 'a host_scheme \<Rightarrow> 'a host_scheme option" where
  "wsb_pair k i s = do {
     lo \<leftarrow> aget (h_buf s) i;
     hi \<leftarrow> aget (h_buf s) (i + 1);
     s \<leftarrow> wsb_set k lo s;
     wsb_set (k + 1) hi s
   }"

definition update_rates :: "'a host_scheme \<Rightarrow> 'a host_scheme option" where
  "update_rates s = do {
     u \<leftarrow> word_at 2 s;
     s \<leftarrow> wsb_set 0 (lo8 u) (s\<lparr>ps := (ps s)\<lparr>p_rpm_mph_update_rate := sint u\<rparr>\<rparr>);
     s \<leftarrow> print (''rpm/mph rate: '' @ dec_int (sint u)) s;
     u \<leftarrow> word_at 4 s;
     s \<leftarrow> wsb_set 1 (lo8 u) (s\<lparr>ps := (ps s)\<lparr>p_fpga_xmit_rate := sint u\<rparr>\<rparr>);
     print (''fpga xmit rate: '' @ dec_int (sint u)) s
   }"

definition update_revs :: "'a host_scheme \<Rightarrow> 'a host_scheme option" where
  "update_revs s = do {
     u \<leftarrow> word_at 6 s;
     s \<leftarrow> wsb_set 2 (lo8 u) (s\<lparr>ps := (ps s)\<lparr>p_high_rev_limit := sint u\<rparr>\<rparr>);
     r \<leftarrow> aget hi_rev (sint u);
     s \<leftarrow> print (''hi rev: '' @ dec_int r) (s\<lparr>h_high := r\<rparr>);
     u \<leftarrow> word_at 8 s;
     s \<leftarrow> wsb_set 3 (lo8 u) (s\<lparr>ps := (ps s)\<lparr>p_low_rev_limit := sint u\<rparr>\<rparr>);
     r \<leftarrow> aget lo_rev (sint u);
     print (''low rev: '' @ dec_int r) (s\<lparr>h_low := r\<rparr>)
   }"

definition update_temps :: "'a host_scheme \<Rightarrow> 'a host_scheme option" where
  "update_temps s = do {
     u \<leftarrow> word_at 10 s;
     s \<leftarrow> wsb_pair 4 10 (s\<lparr>ps := (ps s)\<lparr>p_cooling_fan_on := sint u\<rparr>\<rparr>);
     s \<leftarrow> print (''fan on: '' @ float1 (convertF (sint u))) s;
     u \<leftarrow> word_at 12 s;
     s \<leftarrow> wsb_pair 6 12 (s\<lparr>ps := (ps s)\<lparr>p_cooling_fan_off := sint u\<rparr>\<rparr>);
     s \<leftarrow> print (''fan off: '' @ float1 (convertF (sint u))) s;
     u \<leftarrow> word_at 14 s;
     s \<leftarrow> wsb_pair 8 14 (s\<lparr>ps := (ps s)\<lparr>p_blower_enabled := sint u\<rparr>\<rparr>);
     s \<leftarrow> print (''blower en: '' @ float1 (convertF (sint u))) s;
     u \<leftarrow> word_at 16 s;
     s \<leftarrow> wsb_pair 10 16 (s\<lparr>ps := (ps s)\<lparr>p_blower1_on := sint u\<rparr>\<rparr>);
     s \<leftarrow> print (''blower1: '' @ float1 (convertF (sint u))) s;
     u \<leftarrow> word_at 18 s;
     s \<leftarrow> wsb_pair 12 18 (s\<lparr>ps := (ps s)\<lparr>p_blower2_on := sint u\<rparr>\<rparr>);
     u \<leftarrow> word_at 20 s;
     wsb_pair 14 20 (s\<lparr>ps := (ps s)\<lparr>p_blower3_on := sint u\<rparr>\<rparr>)
   }"

definition update_rest :: "'a host_scheme \<Rightarrow> 'a host_scheme option" where
  "update_rest s = do {
     u \<leftarrow> word_at 22 s;
     r \<leftarrow> aget lights_on_delay (sint u);
     s \<leftarrow> print (''lights on delay: '' @ dec_int r @ '' '' @ dec_int (sint u))
            (s\<lparr>ps := (ps s)\<lparr>p_lights_on_delay := sint u\<rparr>, actual_lights_on_delay := r\<rparr>);
     u \<leftarrow> word_at 24 s;
     s \<leftarrow> wsb_pair 16 24 (s\<lparr>ps := (ps s)\<lparr>p_engine_temp_limit := sint u\<rparr>\<rparr>);
     s \<leftarrow> print (''eng temp limit: '' @ float1 (convertF (sint u))) s;
     u \<leftarrow> word_at 26 s;
     s \<leftarrow> wsb_pair 18 26 (s\<lparr>ps := (ps s)\<lparr>p_batt_box_temp := sint u\<rparr>\<rparr>);
     u \<leftarrow> word_at 28 s;
     let s = s\<lparr>ps := (ps s)\<lparr>p_test_bank := sint u\<rparr>\<rparr>;
     u \<leftarrow> word_at 30 s;
     let s = s\<lparr>ps := (ps s)\<lparr>p_password_timeout := sint u\<rparr>\<rparr>;
     u \<leftarrow> word_at 32 s;
     let s = s\<lparr>ps := (ps s)\<lparr>p_password_retries := sint u\<rparr>\<rparr>;
     u \<leftarrow> word_at 34 s;
     Some (s\<lparr>ps := (ps s)\<lparr>p_baudrate3 := sint u\<rparr>, h_j := 0,
              password := replicate (length (password s)) 0\<rparr>)
   }"

definition hc_update_config :: "'a host_scheme \<Rightarrow> 'a host_scheme option" where
  "hc_update_config s = do {
     s \<leftarrow> update_rates s;
     s \<leftarrow> update_revs s;
     s \<leftarrow> update_temps s;
     s \<leftarrow> update_rest s;
     s \<leftarrow> send_wsb SEND_CONFIG2 s;
     Some (save_params s)
   }"

section \<open>SET_TIME\<close>

text \<open>\<open>for(i = 0;i < n;i++) tempx[i] = msg_buf2[i];\<close>\<close>

fun time_copy :: "nat \<Rightarrow> int \<Rightarrow> 'a host_scheme \<Rightarrow> 'a host_scheme option" where
  "time_copy 0 i s = Some s"
| "time_copy (Suc n) i s = do {
     b \<leftarrow> aget (h_buf2 s) i;
     t \<leftarrow> aset (h_tempx s) i b;
     time_copy n (i + 1) (s\<lparr>h_tempx := t\<rparr>)
   }"

text \<open>
  \<open>i = 0; while(*(pch++) != c && i < msg_len) i++;\<close> with \<open>n\<close> the room that \<open>i\<close> has left. The result is
  \<open>i\<close> and the new \<open>pch\<close>.
\<close>

fun scan :: "u8 \<Rightarrow> nat \<Rightarrow> int \<Rightarrow> int \<Rightarrow> u8 list \<Rightarrow> (int \<times> int) option" where
  "scan c 0 i pch buf = do { b \<leftarrow> aget buf pch; Some (i, pch + 1) }"
| "scan c (Suc n) i pch buf = do {
     b \<leftarrow> aget buf pch;
     if b \<noteq> c then scan c n (i + 1) (pch + 1) buf else Some (i, pch + 1)
   }"

text \<open>\<open>memset(temp_time,0,5); memcpy(temp_time,from,n);\<close>\<close>

definition part :: "u8 list \<Rightarrow> int \<Rightarrow> int \<Rightarrow> u8 list option" where
  "part buf frm n =
     (if 0 \<le> frm \<and> 0 \<le> n \<and> n \<le> 5 \<and> frm + n \<le> int (length buf)
      then Some (take (nat n) (drop (nat frm) buf) @ replicate (5 - nat n) 0) else None)"

text \<open>\<open>atoi\<close>: blanks, a sign, digits. It must meet another byte before the end of the buffer.\<close>

definition is_digit :: "u8 \<Rightarrow> bool" where "is_digit b \<longleftrightarrow> 48 \<le> b \<and> b \<le> 57"

definition digits_value :: "u8 list \<Rightarrow> int" where
  "digits_value ds = foldl (\<lambda>v b. v * 10 + (uint b - 48)) 0 ds"

definition atoi :: "u8 list \<Rightarrow> int option" where
  "atoi buf =
     (let buf = dropWhile (\<lambda>b. b = 32 \<or> (9 \<le> b \<and> b \<le> 13)) buf;
          neg = (buf \<noteq> [] \<and> hd buf = 45);
          buf = (if buf \<noteq> [] \<and> (hd buf = 45 \<or> hd buf = 43) then tl buf else buf);
          ds = takeWhile is_digit buf
      in if length ds < length buf then Some ((if neg then -1 else 1) * digits_value ds) else None)"

definition hc_time :: "int \<Rightarrow> 'a host_scheme \<Rightarrow> 'a host_scheme option" where
  "hc_time msg_len s = do {
     let s = s\<lparr>h_j := 0, h_tempx := replicate (length (h_tempx s)) 0\<rparr>;
     s \<leftarrow> time_copy (nat (msg_len div 2 + 2)) 0 s;
     t \<leftarrow> aset (h_tempx s) (msg_len div 2 - 2) 0x4D;
     let s = s\<lparr>h_tempx := t\<rparr>;
     let n = nat msg_len;
     (i, pch) \<leftarrow> scan 0x2F n 0 0 t;
     tt \<leftarrow> part t 0 i;
     mon \<leftarrow> atoi tt;
     (i, pch) \<leftarrow> scan 0x2F n 0 pch t;
     tt \<leftarrow> part t (pch - i - 1) i;
     mday \<leftarrow> atoi tt;
     (i, pch) \<leftarrow> scan 0x20 n 0 pch t;
     tt \<leftarrow> part t (pch - 3) 2;
     year \<leftarrow> atoi tt;
     (i, pch) \<leftarrow> scan 0x3A n 0 pch t;
     tt \<leftarrow> part t (pch - i - 1) i;
     hour \<leftarrow> atoi tt;
     (i, pch) \<leftarrow> scan 0x3A n 0 pch t;
     tt \<leftarrow> part t (pch - 3) 2;
     mins \<leftarrow> atoi tt;
     (i, pch) \<leftarrow> scan 0x20 n 0 pch t;
     tt \<leftarrow> part t (pch - 3) 2;
     sec \<leftarrow> atoi tt;
     b \<leftarrow> aget t pch;
     let hour = (if b = 0x50 then hour + 12 else hour);
     let pt = \<lparr>tm_mon = mon - 1, tm_mday = mday, tm_year = year + 100, tm_hour = hour, tm_min = mins, tm_sec = sec\<rparr>;
     Some (s\<lparr>h_tm := pt, clock := Some pt\<rparr>)
   }"

text \<open>\<open>strftime\<close> of the present time is a parameter: 19 characters.\<close>

definition hc_get_time :: "string \<Rightarrow> 'a host_scheme \<Rightarrow> 'a host_scheme option" where
  "hc_get_time now s = do {
     s \<leftarrow> print now s;
     send_msg (int (length now) * 2) (h_tempx s) GET_TIME s
   }"

section \<open>The GPS receiver\<close>

text \<open>\<open>checksum = 0; for(i = 1;i < strlen(tempx);i++) checksum ^= tempx[i];\<close>\<close>

definition gps_checksum :: "string \<Rightarrow> u8" where
  "gps_checksum str = foldl (XOR) 0 (bytes_of (tl str))"

definition crlf :: string where "crlf = [char_of (13::nat), char_of (10::nat)]"

definition gps_sentence :: "string \<Rightarrow> string" where
  "gps_sentence str = str @ ''*'' @ hex2 (gps_checksum str) @ crlf"

text \<open>Exactly 25 bytes of the cleared buffer are written, whatever the length of the sentence.\<close>

definition hc_gps_data :: "'a host_scheme \<Rightarrow> 'a host_scheme option" where
  "hc_gps_data s = do {
     u \<leftarrow> word_at 2 s;
     v \<leftarrow> word_at 4 s;
     let s = s\<lparr>h_tempx := replicate (length (h_tempx s)) 0\<rparr>;
     s \<leftarrow> print (gps_sentence (''$PSRF103,'' @ dec2 (unat u) @ '',00,'' @ dec2 (unat v) @ '',01'')) s;
     Some (s\<lparr>gps_out := gps_out s @ take 25 (h_tempx s)\<rparr>)
   }"

definition gps_rate :: "int \<Rightarrow> nat" where
  "gps_rate b = (if b = 0 then 4800 else if b = 1 then 9600 else if b = 2 then 19200 else if b = 3 then 38400 else 4800)"

definition set_gps_baudrate :: "int \<Rightarrow> 'a host_scheme \<Rightarrow> 'a host_scheme" where
  "set_gps_baudrate baudrate s = s\<lparr>gps_out := gps_out s @
     bytes_of (gps_sentence (''$PSRF100,1,'' @ dec_nat (gps_rate baudrate) @ '',8,1,0'')), gps_baud := baudrate\<rparr>"

section \<open>Messages to the client\<close>

text \<open>
  The parameters as text. The local buffer has 40 bytes, of which \<open>send_msg\<close> reads twice the length
  of the string and one more; \<open>stk\<close> is what the stack holds.
\<close>

definition param_str :: "params \<Rightarrow> string \<Rightarrow> string" where
  "param_str p pw = concat (map (\<lambda>x. dec_int x @ '' '') (params_list p)) @ pw"

definition send_param_msg :: "u8 list \<Rightarrow> 'a host_scheme \<Rightarrow> 'a host_scheme option" where
  "send_param_msg stk s = do {
     pw \<leftarrow> buf_str (password s);
     let str = param_str (ps s) pw;
     tempx \<leftarrow> cstr_into (take 40 stk) str;
     send_msg (int (length str) * 2) tempx SEND_CONFIG s
   }"

definition send_status_msg :: "u8 list \<Rightarrow> 'a host_scheme \<Rightarrow> 'a host_scheme option" where
  "send_status_msg msg s = do {
     str \<leftarrow> buf_str msg;
     send_msg (int (length str) * 2) msg SEND_STATUS s
   }"

definition version :: "u8 list" where
  "version = bytes_of ''sched v1.31'' @ replicate 4 0"

section \<open>The switch\<close>

definition forward_cmds :: "u8 list" where
  "forward_cmds = [ENABLE_START, STARTER_OFF, ON_ACC, OFF_ACC, ON_FUEL_PUMP, OFF_FUEL_PUMP, ON_FAN, OFF_FAN,
     ON_LIGHTS, OFF_LIGHTS, START_SEQ, SHUTDOWN, SHUTDOWN_IOBOX, REBOOT_IOBOX, UPLOAD_NEW, UPLOAD_NEW_PARAM,
     UPLOAD_OTHER, SHELL_AND_RENAME, TEST_LEFT_BLINKER, TEST_RIGHT_BLINKER, ON_BRIGHTS, OFF_BRIGHTS,
     ON_BRAKES, OFF_BRAKES, ON_LLIGHTS, OFF_LLIGHTS, ON_LBRIGHTS, OFF_LBRIGHTS, ON_RLIGHTS, OFF_RLIGHTS,
     ON_RBRIGHTS, OFF_RBRIGHTS, ON_RUNNING_LIGHTS, OFF_RUNNING_LIGHTS, SPECIAL_CMD, WIPER1, WIPER2, WIPER_OFF]"

definition temp_cmds :: "u8 list" where
  "temp_cmds = [SET_TEMP_LIMIT, SET_FAN_ON, SET_FAN_OFF]"

definition blower_cmds :: "u8 list" where
  "blower_cmds = [SET_BLOWER1_TEMP, SET_BLOWER2_TEMP, SET_BLOWER3_TEMP, SET_BLOWER_EN_TEMP, SET_BATT_BOX_TEMP]"

definition choice_cmds :: "u8 list" where
  "choice_cmds = [HIGH_REV_LIMIT, LOW_REV_LIMIT, LIGHTS_ON_DELAY]"

text \<open>The commands that only pass a byte on to the STM32, with what is printed.\<close>

definition rate_cmds :: "u8 list" where
  "rate_cmds = [SET_ADC_RATE, SET_RPM_MPH_RATE, SET_FPGA_RATE, SEND_REV_LIMIT_OVERRIDE, SEND_FP_OVERRIDE]"

definition hc_forward :: "u8 \<Rightarrow> 'a host_scheme \<Rightarrow> 'a host_scheme option" where
  "hc_forward cmd s = do {
     s \<leftarrow> send_serialother cmd (h_tempx s) s;
     add_msg_queue cmd s
   }"

definition hc_rate :: "u8 \<Rightarrow> 'a host_scheme \<Rightarrow> 'a host_scheme option" where
  "hc_rate cmd s = do {
     u \<leftarrow> word_at 2 s;
     s \<leftarrow> wsb_set 0 (lo8 u) s;
     s \<leftarrow> send_wsb cmd s;
     if cmd = SET_ADC_RATE then print (''adc rate: '' @ dec_int (sint u)) s
     else if cmd = SET_FPGA_RATE then print (''fpga rate: '' @ dec_int (sint u)) s
     else if cmd = SEND_REV_LIMIT_OVERRIDE then print (''rev limit override: '' @ dec_int (sint u)) s
     else if cmd = SEND_FP_OVERRIDE then print (''fuel pump override: '' @ dec_int (sint u)) s
     else Some s
   }"

definition hc_enable :: "u8 \<Rightarrow> 'a host_scheme \<Rightarrow> 'a host_scheme option" where
  "hc_enable cmd s =
     (if cmd = ENABLE_GPS_SEND_DATA then do {
        u \<leftarrow> word_at 2 s;
        Some (s\<lparr>enable_gps_send_data := sint u\<rparr>)
      }
      else if cmd = ENABLE_ADC_SEND_DATA then do {
        u \<leftarrow> word_at 2 s;
        s \<leftarrow> wsb_set 0 (if sint u = 0 then 0 else 0xFF) (s\<lparr>enable_adc_send_data := sint u\<rparr>);
        send_wsb ADC_GATE s
      }
      else do {
        s \<leftarrow> (if enable_adc_send_data s = 0
               then wsb_set 0 0xFF (s\<lparr>enable_adc_send_data := 1\<rparr>)
               else wsb_set 0 0 (s\<lparr>enable_adc_send_data := 0\<rparr>));
        s \<leftarrow> send_wsb ADC_GATE s;
        print (''send ADC_GATE: '' @ dec_int (enable_adc_send_data s)) s
      })"

definition hc_exit :: "'a host_scheme \<Rightarrow> 'a host_scheme option" where
  "hc_exit s = do {
     s \<leftarrow> print ''odometer.txt'' (s\<lparr>h_j := 0\<rparr>);
     let str = dec_int (cmd_odometer s) @ crlf;
     s \<leftarrow> print str s;
     Some ((save_params (s\<lparr>odo_file := Some str\<rparr>))\<lparr>shutdown_all := 1\<rparr>)
   }"

definition host_cmd :: "u8 list \<Rightarrow> string \<Rightarrow> u8 \<Rightarrow> int \<Rightarrow> 'a host_scheme \<Rightarrow> 'a host_scheme option" where
  "host_cmd stk now cmd msg_len s =
     (if cmd \<in> set forward_cmds then hc_forward cmd s
      else if cmd = SET_PARAMS then send_param_msg stk s
      else if cmd = SET_TIME then hc_time msg_len s
      else if cmd = GET_TIME then hc_get_time now s
      else if cmd = DISCONNECT then Some (if test_sock s > 0 then close_tcp s else s)
      else if cmd \<in> set temp_cmds then hc_temps cmd s
      else if cmd \<in> set blower_cmds then hc_blowers cmd s
      else if cmd \<in> set choice_cmds then hc_choice cmd s
      else if cmd = UPDATE_CONFIG then hc_update_config s
      else if cmd = GET_CONFIG2 then send_wsb GET_CONFIG2 s
      else if cmd = GET_VERSION then send_status_msg version s
      else if cmd = SERVER_UP then send_serialother SERVER_UP (h_tempx s) s
      else if cmd = SET_GPS_DATA then hc_gps_data s
      else if cmd = SET_GPS_BAUDRATE then map_option (\<lambda>u. set_gps_baudrate (sint u) s) (word_at 2 s)
      else if cmd \<in> {ENABLE_GPS_SEND_DATA, ENABLE_ADC_SEND_DATA, ADC_GATE} then hc_enable cmd s
      else if cmd \<in> set rate_cmds then hc_rate cmd s
      else if cmd = EXIT_PROGRAM then hc_exit s
      else Some s)"

text \<open>
  One round of the task. \<open>True\<close> is its return. Without a connection (\<open>test_sock() != 1\<close>) it sleeps and looks
  whether the program ends.
\<close>

definition host_step :: "u8 list \<Rightarrow> u8 list \<Rightarrow> string \<Rightarrow> 'a host_scheme \<Rightarrow> (bool \<times> 'a host_scheme) option" where
  "host_step preamble stk now s =
     (if test_sock s = 1 then do {
        (cmd, msg_len, s) \<leftarrow> host_recv preamble s;
        if cmd > 0 then do {
          s \<leftarrow> print_cmd cmd s;
          s \<leftarrow> host_cmd stk now cmd msg_len s;
          Some (cmd = EXIT_PROGRAM, s)
        } else Some (False, s)
      } else Some (shutdown_all s = 1, s))"

section \<open>Receiving a message\<close>

lemma int_mk16: "push_bit 8 (uint (h::u8)) OR uint (l::u8) = uint h * 256 + uint l"
proof -
  have "push_bit 8 (uint h) OR uint l = push_bit 8 (uint h) + uint l"
    by (rule disjunctive_add [symmetric]) (auto simp: bit_simps dest: bit_imp_le_length)
  then show ?thesis by (simp add: push_bit_eq_mult)
qed

lemma get_msg_header:
  assumes "sock_open s \<noteq> 0" "tcp_in s = pre_preamble @ lo # hi # six @ body" "length six = 6" "length stk = 20"
  shows "get_msg stk s = Some (uint hi * 256 + uint lo, s\<lparr>tcp_in := body\<rparr>)"
  using assms
  by (simp add: get_msg_def recv_tcp_def test_sock_def get_sock_def pre_preamble_def aget_def int_mk16 Let_def)

lemma copy_loop_ok:
  assumes "0 \<le> i" "i + 2 * int n \<le> int (length (h_buf s)) + 1" "0 \<le> h_j s" "h_j s + int n \<le> int (length (h_buf2 s))"
  shows "\<exists>b. copy_loop n i s = Some (s\<lparr>h_buf2 := b, h_j := h_j s + int n\<rparr>) \<and> length b = length (h_buf2 s) \<and>
    (\<forall>k < n. b ! (nat (h_j s) + k) = h_buf s ! (nat i + 2 * k)) \<and> (\<forall>k < nat (h_j s). b ! k = h_buf2 s ! k)"
  using assms
proof (induction n arbitrary: i s)
  case 0
  show ?case by (intro exI [of _ "h_buf2 s"]) simp
next
  case (Suc n)
  let ?j = "nat (h_j s)" and ?v = "h_buf s ! nat i"
  let ?s = "s\<lparr>h_buf2 := (h_buf2 s)[?j := ?v], h_j := h_j s + 1\<rparr>"
  have g: "aget (h_buf s) i = Some ?v" "aset (h_buf2 s) (h_j s) ?v = Some ((h_buf2 s)[?j := ?v])"
    using Suc.prems by (simp_all add: aget_def aset_def)
  have n: "nat (h_j s + 1) = Suc ?j" "nat (i + 2) = nat i + 2" using Suc.prems by auto
  from Suc.IH [of "i + 2" ?s] Suc.prems obtain b where b:
    "copy_loop n (i + 2) ?s = Some (?s\<lparr>h_buf2 := b, h_j := h_j s + 1 + int n\<rparr>)" "length b = length (h_buf2 s)"
    "\<And>k. k < n \<Longrightarrow> b ! (Suc ?j + k) = h_buf s ! (nat i + 2 + 2 * k)"
    "\<And>k. k < Suc ?j \<Longrightarrow> b ! k = (h_buf2 s)[?j := ?v] ! k"
    unfolding n by (auto simp: n)
  have "b ! (?j + k) = h_buf s ! (nat i + 2 * k)" if "k < Suc n" for k
  proof (cases k)
    case 0
    then show ?thesis using b(4) [of ?j] Suc.prems by simp
  next
    case (Suc m)
    then show ?thesis using b(3) [of m] that by simp
  qed
  moreover have "b ! k = h_buf2 s ! k" if "k < ?j" for k using b(4) [of k] that by simp
  ultimately show ?case using b(1,2) g
    by (intro exI [of _ b]) (simp add: add.assoc)
qed

lemma copy_loop_overflow:
  "0 \<le> h_j s \<Longrightarrow> h_j s \<le> int (length (h_buf2 s)) \<Longrightarrow> h_j s + int n > int (length (h_buf2 s)) \<Longrightarrow> copy_loop n i s = None"
proof (induction n arbitrary: i s)
  case (Suc n)
  show ?case
  proof (cases "h_j s < int (length (h_buf2 s))")
    case True
    then show ?thesis using Suc.prems
      by (cases "aget (h_buf s) i") (auto simp: aset_def intro!: Suc.IH)
  next
    case False
    then show ?thesis by (cases "aget (h_buf s) i") (simp_all add: aset_def)
  qed
qed simp

text \<open>A whole message of \<open>len\<close> bytes, the command first.\<close>

definition client_msg :: "nat \<Rightarrow> u8 list \<Rightarrow> u8 list" where
  "client_msg len body = pre_preamble @ [word_of_nat len, word_of_nat (len div 256)] @ replicate 6 0 @ body"

lemma client_msg_length:
  "len < 65536 \<Longrightarrow> uint (word_of_nat (len div 256) :: u8) * 256 + uint (word_of_nat len :: u8) = int len"
proof -
  assume "len < 65536"
  then have "int (len div 256) mod 256 = int (len div 256)" by simp
  then show ?thesis by (simp add: unsigned_of_nat take_bit_eq_mod zmod_int zdiv_int flip: of_nat_mod)
qed

lemma host_recv_msg:
  assumes s: "host_ok s" "sock_open s = 1" "tcp_in s = client_msg len body @ rest" "length body = len" "0 < len"
    "len < 9999" "length stk = 20" "h_j s + int ((len + 1) div 2) \<le> 5000"
  shows "\<exists>b. host_recv stk s = Some (hd body, int len, s\<lparr>tcp_in := rest, h_buf := body @ replicate (10000 - len) 0, h_buf2 := b,
      h_j := h_j s + int ((len + 1) div 2)\<rparr>) \<and> length b = 5000 \<and>
    (\<forall>k < (len + 1) div 2. b ! (nat (h_j s) + k) = (body @ replicate (10000 - len) 0) ! (2 + 2 * k)) \<and>
    (\<forall>k < nat (h_j s). b ! k = h_buf2 s ! k)"
proof -
  define z where "z = replicate 10000 (0 :: u8)"
  define bs where "bs = body @ replicate (10000 - len) 0"
  define m where "m = (len + 1) div 2"
  have z: "length z = 10000" "drop len z = replicate (10000 - len) 0" by (simp_all add: z_def)
  have bl: "length bs = 10000" using s(4,6) by (simp add: bs_def)
  have l: "length (h_buf s) = 10000" "length (h_buf2 s) = 5000" "0 \<le> h_j s" using s(1) by (simp_all add: host_ok_def)
  let ?s1 = "s\<lparr>h_buf := z, tcp_in := body @ rest\<rparr>"
  let ?s2 = "s\<lparr>tcp_in := rest, h_buf := bs\<rparr>"
  have g: "get_msg stk (s\<lparr>h_buf := z\<rparr>) = Some (int len, ?s1)"
    using get_msg_header [of "s\<lparr>h_buf := z\<rparr>" "word_of_nat len" "word_of_nat (len div 256)" "replicate 6 0" "body @ rest" stk] s
      client_msg_length [of len]
    by (simp add: client_msg_def)
  have r: "recv_tcp z len ?s1 = Some (int len, bs, s\<lparr>tcp_in := rest, h_buf := z\<rparr>)"
    using s z by (simp add: recv_tcp_def test_sock_def get_sock_def bs_def)
  have n: "nat ((int len + 1) div 2) = m" by (simp add: m_def)
  have "(2::int) + 2 * int m \<le> int (length (h_buf ?s2)) + 1" using s(4,6) bl by (simp add: m_def)
  moreover have "h_j ?s2 + int m \<le> int (length (h_buf2 ?s2))" using s(8) l by (simp add: m_def)
  ultimately obtain b where b:
    "copy_loop m 2 ?s2 = Some (?s2\<lparr>h_buf2 := b, h_j := h_j ?s2 + int m\<rparr>)"
    "length b = length (h_buf2 ?s2)" "\<forall>k < m. b ! (nat (h_j ?s2) + k) = h_buf ?s2 ! (nat 2 + 2 * k)"
    "\<forall>k < nat (h_j ?s2). b ! k = h_buf2 ?s2 ! k"
    using copy_loop_ok [of 2 m ?s2] l(3) by auto
  have h: "aget bs 0 = Some (hd body)" using s(4,5) by (cases body) (simp_all add: aget_def bs_def)
  have "host_recv stk s = Some (hd body, int len, ?s2\<lparr>h_buf2 := b, h_j := h_j s + int m\<rparr>)"
    unfolding host_recv_def l(1) Let_def z_def [symmetric] using g r h b(1) by (simp add: n)
  then show ?thesis using b l unfolding bs_def [symmetric] m_def [symmetric] by (intro exI [of _ b]) simp
qed

section \<open>The steps on a good state\<close>

definition put_str :: "string \<Rightarrow> u8 list \<Rightarrow> u8 list" where
  "put_str str buf = bytes_of str @ 0 # drop (Suc (length str)) buf"

lemma print_eq: "length str < length (h_tempx s) \<Longrightarrow> print str s = Some (s\<lparr>h_tempx := put_str str (h_tempx s)\<rparr>)"
  by (simp add: print_def cstr_into_def put_str_def)

lemma length_put_str: "length str < length buf \<Longrightarrow> length (put_str str buf) = length buf"
  by (simp add: put_str_def)

lemma word_at_eq:
  "0 \<le> i \<Longrightarrow> i + 1 < int (length (h_buf s)) \<Longrightarrow>
   word_at i s = Some (mk16 (h_buf s ! nat (i + 1)) (h_buf s ! nat i))"
  by (simp add: word_at_def aget_def)

lemma wsb_set_eq: "0 \<le> k \<Longrightarrow> k < int (length (h_wsb s)) \<Longrightarrow> wsb_set k b s = Some (s\<lparr>h_wsb := (h_wsb s)[nat k := b]\<rparr>)"
  by (simp add: wsb_set_def aset_def)

lemma wsb_pair_eq:
  "0 \<le> k \<Longrightarrow> k + 1 < int (length (h_wsb s)) \<Longrightarrow> 0 \<le> i \<Longrightarrow> i + 1 < int (length (h_buf s)) \<Longrightarrow>
   wsb_pair k i s = Some (s\<lparr>h_wsb := (h_wsb s)[nat k := h_buf s ! nat i, nat (k + 1) := h_buf s ! nat (i + 1)]\<rparr>)"
  by (simp add: wsb_pair_def wsb_set_eq aget_def)

lemma sint_mk16: "sint (mk16 h l) = uint h * 256 + uint l"
proof -
  have "uint (mk16 h l) < 2 ^ 31"
    using uint_bounded [of h] uint_bounded [of l] by (simp add: uint_mk16)
  then have "sint (mk16 h l) = uint (mk16 h l)"
    by (simp add: sint_uint) (rule signed_take_bit_int_eq_self, rule order_trans [of _ 0], simp_all)
  then show ?thesis by (simp add: uint_mk16)
qed

lemma mk16_range: "0 \<le> sint (mk16 h l)" "sint (mk16 h l) < 65536"
  using uint_bounded [of h] uint_bounded [of l] by (simp_all add: sint_mk16)

lemma length_dec_int: "- 100000 < x \<Longrightarrow> x < 100000 \<Longrightarrow> length (dec_int x) \<le> 6"
  using length_dec_nat [of "nat (- x)" 4] length_dec_nat [of "nat x" 4]
  by (cases "x < 0") (simp_all add: dec_int_def nat_less_iff)

lemma length_dec_mk16: "length (dec_int (sint (mk16 h l))) < 7"
  using length_dec_int [of "sint (mk16 h l)"] mk16_range [of h l] by simp

lemma convertF_range: "0 \<le> x \<Longrightarrow> x < 65536 \<Longrightarrow> - 100000 < convertF x \<and> convertF x < 100000"
proof -
  assume x: "0 \<le> x" "x < 65536"
  define y where "y = (NOT x + 1) AND (255 :: int)"
  have y: "0 \<le> y" "y \<le> 255" unfolding y_def by (simp, rule AND_upper2') simp_all
  then show ?thesis using x unfolding convertF_def Let_def y_def [symmetric]
    by (cases "x AND 256 = 0") (simp_all, linarith+)
qed

lemma length_float_mk16: "length (float1 (convertF (sint (mk16 h l)))) < 9"
  using length_dec_int [of "convertF (sint (mk16 h l))"] convertF_range [of "sint (mk16 h l)"] mk16_range [of h l]
  by (simp add: float1_def)

lemma table_lengths: "length hi_rev = 10" "length lo_rev = 9" "length lights_on_delay = 13"
  by (simp_all add: hi_rev_def lo_rev_def lights_on_delay_def)

lemma table_values:
  "aget hi_rev v = Some r \<Longrightarrow> length (dec_int r) < 7" "aget lo_rev v = Some r \<Longrightarrow> length (dec_int r) < 7"
  "aget lights_on_delay v = Some r \<Longrightarrow> length (dec_int r) < 7"
proof -
  have m: "aget xs v = Some r \<Longrightarrow> list_all (\<lambda>x. - 100000 < x \<and> x < 100000) xs \<Longrightarrow> length (dec_int r) < 7" for xs
    using length_dec_int [of r] by (fastforce simp: aget_def list_all_length split: if_splits)
  show "aget hi_rev v = Some r \<Longrightarrow> length (dec_int r) < 7" "aget lo_rev v = Some r \<Longrightarrow> length (dec_int r) < 7"
    "aget lights_on_delay v = Some r \<Longrightarrow> length (dec_int r) < 7"
    by (erule m, simp add: hi_rev_def lo_rev_def lights_on_delay_def)+
qed

text \<open>What is printed is a short label and a number, so it fits.\<close>

lemma print_fits:
  assumes "length (h_tempx s) = 50" "length pre \<le> 30"
  shows "print (pre @ dec_int (sint (mk16 h l))) s = Some (s\<lparr>h_tempx := put_str (pre @ dec_int (sint (mk16 h l))) (h_tempx s)\<rparr>)"
    "print (pre @ float1 (convertF (sint (mk16 h l)))) s =
      Some (s\<lparr>h_tempx := put_str (pre @ float1 (convertF (sint (mk16 h l)))) (h_tempx s)\<rparr>)"
  using assms length_dec_mk16 [of h l] length_float_mk16 [of h l] by (simp_all add: print_eq)

lemma put_fits:
  assumes "length buf = 50" "length pre \<le> 30"
  shows "length (put_str (pre @ dec_int (sint (mk16 h l))) buf) = 50"
    "length (put_str (pre @ float1 (convertF (sint (mk16 h l)))) buf) = 50"
  using assms length_dec_mk16 [of h l] length_float_mk16 [of h l] by (simp_all add: length_put_str)

lemma print_short:
  assumes "length (h_tempx s) = 50" "length str < 50"
  obtains t where "print str s = Some (s\<lparr>h_tempx := t\<rparr>)" "length t = 50"
  using assms that [of "put_str str (h_tempx s)"] by (simp add: print_eq length_put_str)

text \<open>The 16-bit number \<open>k\<close> of a message, low byte first; the numbers start at byte 2.\<close>

definition msg_word :: "u8 list \<Rightarrow> nat \<Rightarrow> u32" where
  "msg_word buf k = mk16 (buf ! (2 * k + 3)) (buf ! (2 * k + 2))"

definition buffers_ok :: "'a host_scheme \<Rightarrow> bool" where
  "buffers_ok s \<longleftrightarrow> length (h_tempx s) = 50 \<and> length (h_wsb s) = 50 \<and> length (h_buf s) = 10000"

lemma msg_words:
  "msg_word buf 0 = mk16 (buf ! 3) (buf ! 2)"
  "msg_word buf (Suc 0) = mk16 (buf ! 5) (buf ! 4)"
  "msg_word buf 2 = mk16 (buf ! 7) (buf ! 6)"
  "msg_word buf 3 = mk16 (buf ! 9) (buf ! 8)"
  "msg_word buf 4 = mk16 (buf ! 11) (buf ! 10)"
  "msg_word buf 5 = mk16 (buf ! 13) (buf ! 12)"
  "msg_word buf 6 = mk16 (buf ! 15) (buf ! 14)"
  "msg_word buf 7 = mk16 (buf ! 17) (buf ! 16)"
  "msg_word buf 8 = mk16 (buf ! 19) (buf ! 18)"
  "msg_word buf 9 = mk16 (buf ! 21) (buf ! 20)"
  "msg_word buf 10 = mk16 (buf ! 23) (buf ! 22)"
  "msg_word buf 11 = mk16 (buf ! 25) (buf ! 24)"
  "msg_word buf 12 = mk16 (buf ! 27) (buf ! 26)"
  "msg_word buf 13 = mk16 (buf ! 29) (buf ! 28)"
  "msg_word buf 14 = mk16 (buf ! 31) (buf ! 30)"
  "msg_word buf 15 = mk16 (buf ! 33) (buf ! 32)"
  "msg_word buf 16 = mk16 (buf ! 35) (buf ! 34)"
  by (simp_all add: msg_word_def numeral_2_eq_2 [symmetric] numeral_3_eq_3 [symmetric] del: One_nat_def)

text \<open>What the four parts of \<open>hc_update_config\<close> leave; \<open>t\<close> is the text in \<open>tempx\<close>, \<open>h\<close> and \<open>l\<close> the two limits.\<close>

definition rates_done :: "u8 list \<Rightarrow> 'a host_scheme \<Rightarrow> 'a host_scheme" where
  "rates_done t s = s\<lparr>ps := (ps s)\<lparr>p_rpm_mph_update_rate := sint (msg_word (h_buf s) 0),
      p_fpga_xmit_rate := sint (msg_word (h_buf s) 1)\<rparr>,
    h_wsb := (h_wsb s)[0 := h_buf s ! 2, 1 := h_buf s ! 4], h_tempx := t\<rparr>"

definition revs_done :: "int \<Rightarrow> int \<Rightarrow> u8 list \<Rightarrow> 'a host_scheme \<Rightarrow> 'a host_scheme" where
  "revs_done h l t s = s\<lparr>h_high := h, ps := (ps s)\<lparr>p_high_rev_limit := sint (msg_word (h_buf s) 2),
      p_low_rev_limit := sint (msg_word (h_buf s) 3)\<rparr>,
    h_wsb := (h_wsb s)[2 := h_buf s ! 6, 3 := h_buf s ! 8], h_low := l, h_tempx := t\<rparr>"

definition temps_done :: "u8 list \<Rightarrow> 'a host_scheme \<Rightarrow> 'a host_scheme" where
  "temps_done t s = s\<lparr>h_tempx := t, ps := (ps s)\<lparr>p_cooling_fan_on := sint (msg_word (h_buf s) 4),
      p_cooling_fan_off := sint (msg_word (h_buf s) 5), p_blower_enabled := sint (msg_word (h_buf s) 6),
      p_blower1_on := sint (msg_word (h_buf s) 7), p_blower2_on := sint (msg_word (h_buf s) 8),
      p_blower3_on := sint (msg_word (h_buf s) 9)\<rparr>,
    h_wsb := (h_wsb s)[4 := h_buf s ! 10, 5 := h_buf s ! 11, 6 := h_buf s ! 12, 7 := h_buf s ! 13,
      8 := h_buf s ! 14, 9 := h_buf s ! 15, 10 := h_buf s ! 16, 11 := h_buf s ! 17, 12 := h_buf s ! 18,
      13 := h_buf s ! 19, 14 := h_buf s ! 20, 15 := h_buf s ! 21]\<rparr>"

definition rest_done :: "u8 list \<Rightarrow> 'a host_scheme \<Rightarrow> 'a host_scheme" where
  "rest_done t s = s\<lparr>actual_lights_on_delay := lights_on_delay ! nat (sint (msg_word (h_buf s) 10)),
      h_tempx := t, h_wsb := (h_wsb s)[16 := h_buf s ! 24, 17 := h_buf s ! 25, 18 := h_buf s ! 26, 19 := h_buf s ! 27],
      ps := (ps s)\<lparr>p_lights_on_delay := sint (msg_word (h_buf s) 10),
        p_engine_temp_limit := sint (msg_word (h_buf s) 11), p_batt_box_temp := sint (msg_word (h_buf s) 12),
        p_test_bank := sint (msg_word (h_buf s) 13), p_password_timeout := sint (msg_word (h_buf s) 14),
        p_password_retries := sint (msg_word (h_buf s) 15), p_baudrate3 := sint (msg_word (h_buf s) 16)\<rparr>,
      h_j := 0, password := replicate (length (password s)) 0\<rparr>"

lemmas update_done_defs = rates_done_def revs_done_def temps_done_def rest_done_def

lemma update_done:
  "h_buf (rates_done t s) = h_buf s" "h_buf (revs_done h l t s) = h_buf s" "h_buf (temps_done t s) = h_buf s"
  "length t = 50 \<Longrightarrow> buffers_ok s \<Longrightarrow> buffers_ok (rates_done t s)" "length t = 50 \<Longrightarrow> buffers_ok s \<Longrightarrow> buffers_ok (revs_done h l t s)"
  "length t = 50 \<Longrightarrow> buffers_ok s \<Longrightarrow> buffers_ok (temps_done t s)" "length t = 50 \<Longrightarrow> buffers_ok s \<Longrightarrow> buffers_ok (rest_done t s)"
  by (simp_all add: update_done_defs buffers_ok_def)

lemma update_rates_eq:
  assumes "buffers_ok s"
  shows "\<exists>t. update_rates s = Some (rates_done t s) \<and> length t = 50"
  using assms unfolding buffers_ok_def rates_done_def
  by (intro exI conjI, simp add: update_rates_def msg_words word_at_eq wsb_set_eq print_fits put_fits byte_simps
      del: append_Cons append_Nil) (simp add: put_fits del: append_Cons append_Nil)

lemma update_revs_eq:
  assumes "buffers_ok s" "sint (msg_word (h_buf s) 2) < 10" "sint (msg_word (h_buf s) 3) < 9"
  shows "\<exists>t h l. update_revs s = Some (revs_done h l t s) \<and> length t = 50"
proof -
  obtain h l where hl: "aget hi_rev (sint (msg_word (h_buf s) 2)) = Some h" "aget lo_rev (sint (msg_word (h_buf s) 3)) = Some l"
    using assms(2,3) mk16_range(1) by (simp add: aget_def table_lengths msg_word_def)
  note d = table_values(1) [OF hl(1)] table_values(2) [OF hl(2)]
  then show ?thesis using assms(1) hl unfolding buffers_ok_def revs_done_def
    by (intro exI conjI, simp add: update_revs_def msg_words word_at_eq wsb_set_eq byte_simps print_eq length_put_str)
       (simp add: length_put_str)
qed

lemma update_temps_eq:
  assumes "buffers_ok s"
  shows "\<exists>t. update_temps s = Some (temps_done t s) \<and> length t = 50"
  using assms
  unfolding buffers_ok_def temps_done_def
  by (intro exI conjI, simp add: update_temps_def msg_words word_at_eq wsb_pair_eq print_fits put_fits
      del: append_Cons append_Nil) (simp add: put_fits del: append_Cons append_Nil)

lemma update_rest_eq:
  assumes "buffers_ok s" "sint (msg_word (h_buf s) 10) < 13"
  shows "\<exists>t. update_rest s = Some (rest_done t s) \<and> length t = 50"
proof -
  let ?r = "lights_on_delay ! nat (sint (msg_word (h_buf s) 10))"
  have r: "aget lights_on_delay (sint (msg_word (h_buf s) 10)) = Some ?r"
    using assms(2) mk16_range(1) by (simp add: aget_def table_lengths msg_word_def)
  have d: "length (dec_int ?r) < 7" "length (dec_int (sint (msg_word (h_buf s) 10))) < 7"
    using table_values(3) [OF r] length_dec_mk16 by (simp_all add: msg_word_def)
  then show ?thesis using assms(1) r length_float_mk16 [of "h_buf s ! 25" "h_buf s ! 24"] unfolding buffers_ok_def rest_done_def
    by (intro exI conjI, simp add: update_rest_def msg_words word_at_eq wsb_pair_eq print_eq length_put_str)
       (simp add: length_put_str msg_words)
qed

text \<open>A run of stores at consecutive indices.\<close>

fun stores :: "nat \<Rightarrow> 'b list \<Rightarrow> 'b list \<Rightarrow> 'b list" where
  "stores k [] w = w"
| "stores k (x # xs) w = stores (k + 1) xs (w[k := x])"

lemma stores_eq: "k + length xs \<le> length w \<Longrightarrow> stores k xs w = take k w @ xs @ drop (k + length xs) w"
proof (induction k xs w rule: stores.induct)
  case (2 k x xs w)
  then show ?case by (simp add: take_Suc_conv_app_nth take_update_cancel)
qed simp

text \<open>The bytes of the message that go to the STM32, in the order of its serial buffer.\<close>

definition config2_bytes :: "u8 list \<Rightarrow> u8 list" where
  "config2_bytes buf = [buf ! 2, buf ! 4, buf ! 6, buf ! 8] @ map (\<lambda>k. buf ! k) [10..<22] @ map (\<lambda>k. buf ! k) [24..<28]"

definition config_of_msg :: "u8 list \<Rightarrow> params" where
  "config_of_msg buf = params_of (map (\<lambda>k. sint (msg_word buf k)) [0..<17])"

lemma config_of_msg_ok: "params_ok (config_of_msg buf)"
proof -
  have "\<forall>x \<in> set (map (\<lambda>k. sint (msg_word buf k)) [0..<17]). - (2 ^ 31) \<le> x \<and> x < 2 ^ 31"
  proof
    fix x assume "x \<in> set (map (\<lambda>k. sint (msg_word buf k)) [0..<17])"
    then obtain k where x: "x = sint (msg_word buf k)" by auto
    have "0 \<le> x" "x < 65536" unfolding x msg_word_def by (rule mk16_range)+
    then show "- (2 ^ 31) \<le> x \<and> x < 2 ^ 31" by simp
  qed
  moreover have "params_list (config_of_msg buf) = map (\<lambda>k. sint (msg_word buf k)) [0..<17]"
    by (simp add: config_of_msg_def params_list_def params_of_def upt_rec)
  ultimately show ?thesis by (simp add: params_ok_def)
qed

lemma wsb_config2:
  assumes "length w = 50"
  shows "w[0 := b 2, 1 := b 4, 2 := b 6, 3 := b 8, 4 := b 10, 5 := b 11, 6 := b 12, 7 := b 13,
      8 := b 14, 9 := b 15, 10 := b 16, 11 := b 17, 12 := b 18, 13 := b 19, 14 := b 20, 15 := b 21,
      16 := b 24, 17 := b 25, 18 := b 26, 19 := b 27] =
    ([b 2, b 4, b 6, b 8] @ map b [10..<22] @ map b [24..<28]) @ drop 20 w"
  using stores_eq [of 0 "[b 2, b 4, b 6, b 8] @ map b [10..<22] @ map b [24..<28]" w] assms
  by (simp add: eval_nat_numeral)

text \<open>What \<open>hc_update_config\<close> leaves, up to the text in \<open>tempx\<close> and the two limits.\<close>

lemma hc_update_config_eq:
  assumes "buffers_ok s" "sint (msg_word (h_buf s) 2) < 10" "sint (msg_word (h_buf s) 3) < 9"
    "sint (msg_word (h_buf s) 10) < 13"
  shows "\<exists>s'. hc_update_config s = Some s' \<and> ps s' = config_of_msg (h_buf s) \<and>
    password s' = replicate (length (password s)) 0 \<and> h_j s' = 0 \<and>
    actual_lights_on_delay s' = lights_on_delay ! nat (sint (msg_word (h_buf s) 10)) \<and>
    param_file s' = Some (WriteParams (ps s') (password s')) \<and>
    serial_out s' = serial_out s @ SEND_CONFIG2 # config2_bytes (h_buf s) @ drop 20 (h_wsb s) \<and> buffers_ok s'"
proof -
  have len: "length (h_wsb s) = 50" using assms(1) by (simp add: buffers_ok_def)
  obtain t1 where 1: "update_rates s = Some (rates_done t1 s)" "length t1 = 50" using update_rates_eq [OF assms(1)] by blast
  define s1 where "s1 = rates_done t1 s"
  have b1: "buffers_ok s1" "h_buf s1 = h_buf s" using assms(1) 1(2) by (simp_all add: s1_def update_done)
  obtain t2 h l where 2: "update_revs s1 = Some (revs_done h l t2 s1)" "length t2 = 50"
    using update_revs_eq [of s1] b1 assms(2,3) by auto
  define s2 where "s2 = revs_done h l t2 s1"
  have b2: "buffers_ok s2" "h_buf s2 = h_buf s" using b1 2(2) by (simp_all add: s2_def update_done)
  obtain t3 where 3: "update_temps s2 = Some (temps_done t3 s2)" "length t3 = 50" using update_temps_eq [OF b2(1)] by blast
  define s3 where "s3 = temps_done t3 s2"
  have b3: "buffers_ok s3" "h_buf s3 = h_buf s" using b2 3(2) by (simp_all add: s3_def update_done)
  obtain t4 where 4: "update_rest s3 = Some (rest_done t4 s3)" "length t4 = 50"
    using update_rest_eq [OF b3(1)] b3(2) assms(4) by auto
  define s4 where "s4 = rest_done t4 s3"
  note defs = s1_def s2_def s3_def s4_def update_done_defs
  have w: "h_wsb s4 = config2_bytes (h_buf s) @ drop 20 (h_wsb s)"
    using wsb_config2 [OF len, of "\<lambda>k. h_buf s ! k"] by (simp add: defs config2_bytes_def)
  have p: "ps s4 = config_of_msg (h_buf s)"
    by (simp add: defs config_of_msg_def params_of_def flip: numeral_2_eq_2)
  have wl: "length (h_wsb s4) = 50" using len by (simp add: w config2_bytes_def)
  have "hc_update_config s = Some (save_params (s4\<lparr>serial_out := serial_out s4 @ SEND_CONFIG2 # h_wsb s4\<rparr>))"
    using 1(1) [folded s1_def] 2(1) [folded s2_def] 3(1) [folded s3_def] 4(1) [folded s4_def] wl
    by (simp add: hc_update_config_def send_wsb_def send_serialother_eq)
  moreover have "buffers_ok s4" using b3(1) 4(2) by (simp add: s4_def update_done)
  moreover have "password s4 = replicate (length (password s)) 0" "serial_out s4 = serial_out s" "h_j s4 = 0"
    "actual_lights_on_delay s4 = lights_on_delay ! nat (sint (msg_word (h_buf s) 10))"
    by (simp_all add: defs)
  ultimately show ?thesis using w p by (simp add: save_params_def buffers_ok_def)
qed

section \<open>Properties\<close>

text \<open>The state of the witnesses.\<close>

definition host0 :: host where
  "host0 = sched.extend sched0 (host.fields 0 (replicate 50 0) (replicate 50 0) (replicate 10000 0) (replicate 5000 0)
     0 0 \<lparr>tm_mon = 0, tm_mday = 0, tm_year = 0, tm_hour = 0, tm_min = 0, tm_sec = 0\<rparr> None [] 0 None)"

lemma host0_ok: "host_ok host0" "buffers_ok host0"
proof -
  have "sched_ok host0" using sched0_ok
    by (simp add: sched_ok_def shadow_ok_def msgq_ok_def ips_ok_def host0_def sched.defs)
  then show "host_ok host0" "buffers_ok host0" by (simp_all add: host_ok_def buffers_ok_def host0_def sched.defs host.defs)
qed

text \<open>
  C34: \<open>UPDATE_CONFIG\<close> takes effect and survives a restart: with indices that are in their tables, the 17
  numbers of the message become the parameters, \<open>LoadParams\<close> finds the same parameters in the file the
  task writes, and the STM32 is sent \<open>SEND_CONFIG2\<close> with the bytes of the message in the order
  of its configuration. The password is cleared, in memory and in the file.
\<close>

theorem update_config_persists:
  assumes "buffers_ok s" "length (password s) = 6" "length pw = 6" "sint (msg_word (h_buf s) 2) < 10"
    "sint (msg_word (h_buf s) 3) < 9" "sint (msg_word (h_buf s) 10) < 13"
  shows "\<exists>s'. hc_update_config s = Some s' \<and> ps s' = config_of_msg (h_buf s) \<and>
    LoadParams id0 (param_file s') p0 pw = (0, config_of_msg (h_buf s), replicate 4 0 @ drop 4 pw) \<and>
    serial_out s' = serial_out s @ SEND_CONFIG2 # config2_bytes (h_buf s) @ drop 20 (h_wsb s)"
proof -
  from hc_update_config_eq [OF assms(1,4,5,6)] obtain s' where s':
    "hc_update_config s = Some s'" "ps s' = config_of_msg (h_buf s)" "password s' = replicate (length (password s)) 0"
    "param_file s' = Some (WriteParams (ps s') (password s'))"
    "serial_out s' = serial_out s @ SEND_CONFIG2 # config2_bytes (h_buf s) @ drop 20 (h_wsb s)" by blast
  have f: "param_file s' = Some (0xAA # params_bytes (config_of_msg (h_buf s)) @ replicate 4 0 @ [0x55])"
    using s' assms(2) by (simp add: WriteParams_def)
  have "LoadParams id0 (param_file s') p0 pw = (0, config_of_msg (h_buf s), replicate 4 0 @ drop 4 pw)"
    unfolding f LoadParams_def using assms(3)
    by (simp add: read_id_def Let_def file_read_exact length_params_bytes params_of_bytes_of config_of_msg_ok file_read_def)
  then show ?thesis using s' by blast
qed

lemma update_config_persists_witness:
  "\<exists>s'. hc_update_config host0 = Some s' \<and> ps s' = config_of_msg (h_buf host0) \<and>
    LoadParams 0 (param_file s') params0 (replicate 6 9) =
      (0, config_of_msg (h_buf host0), replicate 4 0 @ drop 4 (replicate 6 9)) \<and>
    serial_out s' = serial_out host0 @ SEND_CONFIG2 # config2_bytes (h_buf host0) @ drop 20 (h_wsb host0)"
proof (rule update_config_persists [OF host0_ok(2)])
  have z: "h_buf host0 ! k = 0" if "k < 10000" for k using that by (simp add: host0_def sched.defs host.defs)
  show "sint (msg_word (h_buf host0) 2) < 10" "sint (msg_word (h_buf host0) 3) < 9" "sint (msg_word (h_buf host0) 10) < 13"
    by (simp_all add: msg_words z sint_mk16)
  show "length (password host0) = 6" by (simp add: host0_def sched0_def sched.defs)
qed simp

text \<open>
  The three commands that carry an index into a table of the task: the message decides the index,
  and nothing checks it. They are defined exactly when the index is below the length of the table (10
  high limits, 9 low limits, 13 delays); any other value reads outside the table.
\<close>

theorem choice_needs_valid_index:
  assumes "buffers_ok s" "cmd \<in> set choice_cmds"
  shows "hc_choice cmd s \<noteq> None \<longleftrightarrow>
    sint (msg_word (h_buf s) 0) < (if cmd = HIGH_REV_LIMIT then 10 else if cmd = LOW_REV_LIMIT then 9 else 13)"
proof -
  let ?v = "sint (mk16 (h_buf s ! 3) (h_buf s ! 2))"
  have l: "length (h_tempx s) = 50" "length (h_wsb s) = 50" "length (h_buf s) = 10000" using assms(1) by (simp_all add: buffers_ok_def)
  have w: "word_at 2 s = Some (mk16 (h_buf s ! 3) (h_buf s ! 2))" using l by (simp add: word_at_eq)
  have g: "aget hi_rev ?v = (if ?v < 10 then Some (hi_rev ! nat ?v) else None)"
    "aget lo_rev ?v = (if ?v < 9 then Some (lo_rev ! nat ?v) else None)"
    "aget lights_on_delay ?v = (if ?v < 13 then Some (lights_on_delay ! nat ?v) else None)"
    using mk16_range(1) [of "h_buf s ! 3" "h_buf s ! 2"] by (simp_all add: aget_def table_lengths)
  have d: "?v < 10 \<Longrightarrow> length (dec_int (hi_rev ! nat ?v)) < 7" "?v < 9 \<Longrightarrow> length (dec_int (lo_rev ! nat ?v)) < 7"
    using table_values(1) [of ?v] table_values(2) [of ?v] g by auto
  note dd = length_dec_mk16 [of "h_buf s ! 3" "h_buf s ! 2"]
  from assms(2) consider "cmd = HIGH_REV_LIMIT" | "cmd = LOW_REV_LIMIT" | "cmd = LIGHTS_ON_DELAY"
    by (auto simp: choice_cmds_def)
  then show ?thesis
    by cases (use l d dd in \<open>auto simp: hc_choice_def w g Let_def msg_words print_eq length_put_str wsb_set_eq send_wsb_def
        send_serialother_eq save_params_def aset_def\<close>)
qed

lemma choice_needs_valid_index_witness:
  "hc_choice HIGH_REV_LIMIT (host0\<lparr>h_buf := [HIGH_REV_LIMIT, 0, 10, 0] @ replicate 9996 0\<rparr>) = None"
proof -
  let ?s = "host0\<lparr>h_buf := [HIGH_REV_LIMIT, 0, 10, 0] @ replicate 9996 0\<rparr>"
  have "buffers_ok ?s" using host0_ok(2) by (simp add: buffers_ok_def)
  from choice_needs_valid_index [OF this, of HIGH_REV_LIMIT] show ?thesis
    by (simp add: choice_cmds_def msg_words sint_mk16)
qed

lemma sched_ok_host [simp]:
  "sched_ok (s\<lparr>h_j := i\<rparr>) = sched_ok s" "sched_ok (s\<lparr>h_tempx := xs\<rparr>) = sched_ok s"
  "sched_ok (s\<lparr>h_buf := xs\<rparr>) = sched_ok s" "sched_ok (s\<lparr>h_buf2 := xs\<rparr>) = sched_ok s"
  "sched_ok (s\<lparr>tcp_in := xs\<rparr>) = sched_ok s"
  by (simp_all add: sched_ok_def shadow_ok_def msgq_ok_def ips_ok_def)

lemma host_updates [simp]:
  "otp_get k (s\<lparr>h_j := i\<rparr>) = otp_get k s" "otp_get k (s\<lparr>h_tempx := xs\<rparr>) = otp_get k s"
  "otp_get k (s\<lparr>h_buf := xs\<rparr>) = otp_get k s" "otp_get k (s\<lparr>h_buf2 := xs\<rparr>) = otp_get k s"
  "otp_get k (s\<lparr>tcp_in := xs\<rparr>) = otp_get k s" "otp_get k (s\<lparr>serial_out := xs\<rparr>) = otp_get k s"
  "out_line k (s\<lparr>h_j := i\<rparr>) = out_line k s" "out_line k (s\<lparr>h_tempx := xs\<rparr>) = out_line k s"
  "out_line k (s\<lparr>h_buf := xs\<rparr>) = out_line k s" "out_line k (s\<lparr>h_buf2 := xs\<rparr>) = out_line k s"
  "out_line k (s\<lparr>tcp_in := xs\<rparr>) = out_line k s" "out_line k (s\<lparr>serial_out := xs\<rparr>) = out_line k s"
  by (simp_all add: otp_get_def out_line_def relay_def)

lemma forward_cmd_small: "cmd \<in> set forward_cmds \<Longrightarrow> cmd < 107 \<and> 0 < cmd \<and> cmd \<noteq> EXIT_PROGRAM"
  by (auto simp: forward_cmds_def)

lemma print_cmd_ok:
  assumes "length (h_tempx s) = 50" "cmd < 107"
  obtains t where "print_cmd cmd s = Some (s\<lparr>h_tempx := t\<rparr>)" "length t = 50"
proof -
  obtain str where str: "cmd_str cmd = Some str" using cmd_str_defined [of cmd] assms(2) by auto
  have "length (dec_nat (unat cmd)) \<le> 3"
    using length_dec_nat [of "unat cmd" 2] assms(2) by (simp add: word_less_nat_alt)
  then have "length (''cmd: '' @ dec_nat (unat cmd) @ '' '' @ str) < 50" using cmd_str_length [OF str] by simp
  from print_short [OF assms(1) this] obtain t where
    "print (''cmd: '' @ dec_nat (unat cmd) @ '' '' @ str) s = Some (s\<lparr>h_tempx := t\<rparr>)" "length t = 50" by blast
  then show thesis using that [of t] str by (simp add: print_cmd_def)
qed

text \<open>
  A command of the vehicle that the client sends as one message is carried: if the message fits (see
  below) and the store has room, the task returns to its loop in a good state, the command is the next
  one the control task takes, and the STM32 is sent the command and 50 bytes; the outputs and
  their records are untouched, and what follows in the stream is left for the next round.
\<close>

theorem client_command_forwarded:
  assumes "host_ok s" "sock_open s = 1" "tcp_in s = client_msg (length body) body @ rest" "body \<noteq> []"
    "length body < 9999" "length stk = 20" "h_j s + int ((length body + 1) div 2) \<le> 5000"
    "hd body \<in> set forward_cmds" "msg_queue_ptr s < 49"
  shows "\<exists>s' t. host_step stk st now s = Some (False, s') \<and> host_ok s' \<and> pending s' = hd body # pending s \<and>
    serial_out s' = serial_out s @ hd body # t \<and> length t = 50 \<and> tcp_in s' = rest \<and>
    h_j s' = h_j s + int ((length body + 1) div 2) \<and>
    (\<forall>k. otp_get k s' = otp_get k s \<and> out_line k s' = out_line k s)"
proof -
  let ?cmd = "hd body"
  have c: "?cmd < 107" "0 < ?cmd" "?cmd \<noteq> EXIT_PROGRAM" using forward_cmd_small [OF assms(8)] by auto
  have len: "0 < length body" using assms(4) by simp
  obtain b where b: "host_recv stk s = Some (?cmd, int (length body), s\<lparr>tcp_in := rest,
      h_buf := body @ replicate (10000 - length body) 0, h_buf2 := b, h_j := h_j s + int ((length body + 1) div 2)\<rparr>)"
    "length b = 5000"
    using host_recv_msg [OF assms(1-3) refl len assms(5-7)] by blast
  define s1 where "s1 = s\<lparr>tcp_in := rest, h_buf := body @ replicate (10000 - length body) 0, h_buf2 := b,
    h_j := h_j s + int ((length body + 1) div 2)\<rparr>"
  have s1: "host_ok s1" using assms(1,5) b(2) by (simp add: s1_def host_ok_def)
  from print_cmd_ok [of s1 ?cmd] s1 c(1) obtain t where
    t: "print_cmd ?cmd s1 = Some (s1\<lparr>h_tempx := t\<rparr>)" "length t = 50" by (auto simp: host_ok_def)
  let ?s3 = "s1\<lparr>h_tempx := t, serial_out := serial_out s1 @ ?cmd # t\<rparr>"
  have "sched_ok ?s3" using s1 by (simp add: host_ok_def)
  moreover have "msg_queue_ptr ?s3 < 49" using assms(9) by (simp add: s1_def)
  ultimately obtain s4 where
    s4: "add_msg_queue ?cmd ?s3 = Some s4" "sched_ok s4" "pending s4 = ?cmd # pending ?s3"
      "\<And>j. otp_get j s4 = otp_get j ?s3" "\<And>j. out_line j s4 = out_line j ?s3"
      "\<exists>q p. s4 = ?s3\<lparr>msg_queue := q, msg_queue_ptr := p\<rparr>" using add_msg_queue_sched by blast
  have f: "hc_forward ?cmd (s1\<lparr>h_tempx := t\<rparr>) = Some s4"
    using t(2) s4(1) by (simp add: hc_forward_def send_serialother_eq)
  have "host_step stk st now s = Some (False, s4)"
    using assms(2,8) b(1) [folded s1_def] c t(1) f by (simp add: host_step_def test_sock_def host_cmd_def)
  moreover have "host_ok s4" "serial_out s4 = serial_out s @ ?cmd # t" "tcp_in s4 = rest"
      "h_j s4 = h_j s + int ((length body + 1) div 2)"
    using s4(2,6) s1 t(2) by (auto simp: host_ok_def s1_def)
  moreover have "pending s4 = ?cmd # pending s" using s4(3) by (simp add: pending_def s1_def)
  ultimately show ?thesis using s4(4,5) t(2) by (simp add: s1_def)
qed

text \<open>
  The messages of a session fill \<open>msg_buf2\<close>: each one adds half its length to \<open>j\<close>, which only \<open>SET_TIME\<close>,
  \<open>UPDATE_CONFIG\<close> and \<open>EXIT_PROGRAM\<close> reset. A message is received without undefined behaviour exactly when its
  share still fits into the 5000 bytes; the next one writes past the array.
\<close>

theorem message_needs_room:
  assumes "host_ok s" "sock_open s = 1" "tcp_in s = client_msg (length body) body @ rest" "body \<noteq> []"
    "length body < 9999" "length stk = 20" "h_j s \<le> 5000"
  shows "host_recv stk s \<noteq> None \<longleftrightarrow> h_j s + int ((length body + 1) div 2) \<le> 5000"
proof (cases "h_j s + int ((length body + 1) div 2) \<le> 5000")
  case True
  then show ?thesis using host_recv_msg [OF assms(1-3) refl _ assms(5,6)] assms(4) by auto
next
  case False
  let ?len = "length body"
  define z where "z = replicate 10000 (0 :: u8)"
  define bs where "bs = body @ drop ?len z"
  have l: "length (h_buf s) = 10000" "length (h_buf2 s) = 5000" "0 \<le> h_j s" using assms(1) by (simp_all add: host_ok_def)
  have z: "length z = 10000" by (simp add: z_def)
  have g: "get_msg stk (s\<lparr>h_buf := z\<rparr>) = Some (int ?len, s\<lparr>tcp_in := body @ rest, h_buf := z\<rparr>)"
    using get_msg_header [of "s\<lparr>h_buf := z\<rparr>" "word_of_nat ?len" "word_of_nat (?len div 256)" "replicate 6 0" "body @ rest" stk]
      assms client_msg_length [of ?len]
    by (simp add: client_msg_def)
  have r: "recv_tcp z ?len (s\<lparr>tcp_in := body @ rest, h_buf := z\<rparr>) = Some (int ?len, bs, s\<lparr>tcp_in := rest, h_buf := z\<rparr>)"
    using assms z by (simp add: recv_tcp_def test_sock_def get_sock_def bs_def)
  have n: "nat ((int ?len + 1) div 2) = (?len + 1) div 2" by simp
  have "copy_loop ((?len + 1) div 2) 2 (s\<lparr>tcp_in := rest, h_buf := bs\<rparr>) = None"
    using False l assms(7) by (intro copy_loop_overflow) simp_all
  then have "host_recv stk s = None"
    unfolding host_recv_def l(1) Let_def z_def [symmetric] using g r
    by (cases "aget bs 0") (simp_all add: n)
  then show ?thesis using False by simp
qed

definition host1 :: host where
  "host1 = host0\<lparr>tcp_in := client_msg (length [START_SEQ, 0, 0]) [START_SEQ, 0, 0] @ [7]\<rparr>"

lemma host1_ok: "host_ok host1" "sock_open host1 = 1" "msg_queue_ptr host1 = 0" "h_j host1 = 0"
  using host0_ok(1) by (simp_all add: host1_def host_ok_def)
     (simp_all add: host0_def sched0_def sched.defs host.defs)

lemma client_command_forwarded_witness:
  "\<exists>s' t. host_step (replicate 20 0) [] [] host1 = Some (False, s') \<and> host_ok s' \<and>
    pending s' = hd [START_SEQ, 0, 0] # pending host1 \<and>
    serial_out s' = serial_out host1 @ hd [START_SEQ, 0, 0] # t \<and> length t = 50 \<and> tcp_in s' = [7] \<and>
    h_j s' = h_j host1 + int ((length [START_SEQ, 0, 0] + 1) div 2) \<and>
    (\<forall>k. otp_get k s' = otp_get k host1 \<and> out_line k s' = out_line k host1)"
  by (rule client_command_forwarded [OF host1_ok(1,2)]) (simp_all add: host1_ok forward_cmds_def, simp add: host1_def)

lemma message_needs_room_witness:
  "host_recv (replicate 20 0) (host1\<lparr>h_j := 4999\<rparr>) = None"
proof -
  have "host_ok (host1\<lparr>h_j := 4999\<rparr>)" "sock_open (host1\<lparr>h_j := 4999\<rparr>) = 1"
    using host1_ok by (simp_all add: host_ok_def)
  from message_needs_room [OF this, of "[START_SEQ, 0, 0]" "[7]" "replicate 20 0"]
  show ?thesis by (simp add: host1_def del: not_None_eq)
qed

text \<open>
  The answer to \<open>SET_PARAMS\<close> cannot be sent: the text of 17 parameters has at least 34 characters, but
  \<open>send_msg\<close> is told to send twice its length from a buffer of 40 bytes. Whatever the parameters and
  the password are, the task reads or writes past the buffer.
\<close>

theorem send_param_msg_overruns:
  assumes "sock_open s \<noteq> 0"
  shows "send_param_msg stk s = None"
proof (cases "buf_str (password s)")
  case (Some pw)
  have d: "0 < length (dec_nat n)" for n by (subst dec_nat.simps) simp
  then have "0 < length (dec_int x)" for x by (simp add: dec_int_def)
  then have two: "1 \<le> length (dec_int x)" for x by (simp add: Suc_leI)
  have "2 * length xs \<le> length (concat (map (\<lambda>x. dec_int x @ '' '') xs))" for xs
  proof (induction xs)
    case (Cons x xs)
    then show ?case using two [of x] by simp
  qed simp
  from this [of "params_list (ps s)"] have long: "34 \<le> length (param_str (ps s) pw)"
    by (simp add: param_str_def params_list_def)
  have oob: "send_body n i msg u = None" if "0 \<le> i" "i \<le> int (length msg)" "int (length msg) < i + int n"
    for n i msg and u :: "'a host_scheme"
    using that
  proof (induction n arbitrary: i u)
    case (Suc n)
    then show ?case by (cases "i < int (length msg)") (auto simp: aget_def Let_def)
  qed simp
  have "send_msg (int (length (param_str (ps s) pw)) * 2) tempx SEND_CONFIG s = None"
    if "cstr_into (take 40 stk) (param_str (ps s) pw) = Some tempx" for tempx
  proof -
    have "length tempx \<le> 40" using cstr_into_length [OF that] by simp
    then show ?thesis using long assms by (simp add: send_msg_def test_sock_def Let_def oob)
  qed
  then show ?thesis using Some by (cases "cstr_into (take 40 stk) (param_str (ps s) pw)") (simp_all add: send_param_msg_def)
qed (simp add: send_param_msg_def)

lemma send_param_msg_overruns_witness: "send_param_msg (replicate 40 0) host0 = None"
  by (rule send_param_msg_overruns) (simp add: host0_def sched0_def sched.defs)

end
