(* ===== verification/HostTime.thy ===== *)
theory HostTime
  imports HostCmd
begin

text \<open>
  The clock: what \<open>SET_TIME\<close> makes of the text the client sends, \<open>month/day/year hour:minute:second AM\<close>
  or \<open>PM\<close>. The lemmas follow the scan through the text, field by field.
\<close>

section \<open>Digits\<close>

lemma bytes_of_Nil [simp]: "bytes_of [] = []"
  by (simp add: bytes_of_def)

lemma digit_byte: "d < 10 \<Longrightarrow> bytes_of [char_of (48 + d)] = [word_of_nat (48 + d)]"
  by (simp add: bytes_of_def)

lemma is_digit_byte: "d < 10 \<Longrightarrow> is_digit (word_of_nat (48 + d))" "d < 10 \<Longrightarrow> uint (word_of_nat (48 + d) :: u8) - 48 = int d"
proof -
  assume d: "d < 10"
  then have u: "uint (word_of_nat (48 + d) :: u8) = 48 + int d" by (simp only: unsigned_of_nat take_bit_eq_mod) simp
  show "is_digit (word_of_nat (48 + d))" unfolding is_digit_def word_le_def u using d by simp
  show "uint (word_of_nat (48 + d) :: u8) - 48 = int d" by (simp only: u)
qed

lemma digits_value_snoc: "digits_value (ds @ [b]) = digits_value ds * 10 + (uint b - 48)"
  by (simp add: digits_value_def)

lemma dec_nat_digits: "(\<forall>b \<in> set (bytes_of (dec_nat n)). is_digit b) \<and> digits_value (bytes_of (dec_nat n)) = int n \<and> dec_nat n \<noteq> []"
proof (induction n rule: dec_nat.induct)
  case (1 n)
  show ?case
  proof (cases "n < 10")
    case True
    then have "dec_nat n = [char_of (48 + n)]" by (subst dec_nat.simps) simp
    then show ?thesis using True is_digit_byte [OF True] by (simp only: digit_byte) (simp add: digits_value_def)
  next
    case False
    define r where "r = n mod 10"
    have r: "r < 10" by (simp add: r_def)
    have e: "dec_nat n = dec_nat (n div 10) @ [char_of (48 + r)]" using False by (subst dec_nat.simps) (simp add: r_def)
    have "int (n div 10) * 10 + int r = int n" unfolding r_def by presburger
    then show ?thesis unfolding e bytes_of_append digit_byte [OF r] digits_value_snoc is_digit_byte(2) [OF r]
      using 1 [OF False] is_digit_byte(1) [OF r] by auto
  qed
qed

lemma dec2_digits:
  "n < 100 \<Longrightarrow> (\<forall>b \<in> set (bytes_of (dec2 n)). is_digit b) \<and> digits_value (bytes_of (dec2 n)) = int n \<and> length (dec2 n) = 2"
proof -
  assume n: "n < 100"
  show ?thesis
  proof (cases "n < 10")
    case True
    then have "dec2 n = CHR ''0'' # [char_of (48 + n)]" by (simp add: dec2_def dec_nat.simps)
    moreover have "bytes_of (CHR ''0'' # xs) = 48 # bytes_of xs" for xs by (simp add: bytes_of_def)
    ultimately show ?thesis using is_digit_byte [OF True] digit_byte [OF True]
      by (simp add: digits_value_def is_digit_def)
  next
    case False
    then have "n div 10 < 10" using n by auto
    then have "dec_nat n = [char_of (48 + n div 10)] @ [char_of (48 + n mod 10)]"
      using False by (subst dec_nat.simps, subst dec_nat.simps) simp
    then show ?thesis using dec_nat_digits [of n] False by (simp add: dec2_def)
  qed
qed

lemma length_dec_nat2: "n < 100 \<Longrightarrow> length (dec_nat n) \<le> 2"
  using length_dec_nat [of n 1] by simp

lemma atoi_terminated:
  assumes "\<forall>b \<in> set ds. is_digit b" "ds \<noteq> []"
  shows "atoi (ds @ 0 # ys) = Some (digits_value ds)"
proof -
  obtain b ds' where ds: "ds = b # ds'" using assms(2) by (cases ds) auto
  have b: "is_digit b" using assms(1) ds by simp
  then have nb: "\<not> (b = 32 \<or> (9 \<le> b \<and> b \<le> 13))" "b \<noteq> 45" "b \<noteq> 43"
    by (auto simp: is_digit_def word_le_nat_alt)
  have "takeWhile is_digit (ds @ 0 # ys) = ds"
    using assms(1) by (subst takeWhile_append2) (auto simp: is_digit_def)
  moreover have "dropWhile (\<lambda>b. b = 32 \<or> (9 \<le> b \<and> b \<le> 13)) (ds @ 0 # ys) = ds @ 0 # ys"
    using nb(1) unfolding ds by auto
  moreover have "hd (ds @ 0 # ys) = b" "ds @ 0 # ys \<noteq> []" by (simp_all add: ds)
  ultimately show ?thesis using nb(2,3) by (simp only: atoi_def Let_def) simp
qed

lemma atoi_digits:
  assumes "\<forall>b \<in> set ds. is_digit b" "ds \<noteq> []" "0 < n"
  shows "atoi (ds @ replicate n 0) = Some (digits_value ds)"
  using atoi_terminated [OF assms(1,2)] assms(3) by (cases n) simp_all

section \<open>Fields\<close>

lemma scan_field:
  assumes "c \<notin> set xs" "length xs \<le> n"
  shows "scan c n i (int (length pre)) (pre @ xs @ c # post) = Some (i + int (length xs), int (length pre) + int (length xs) + 1)"
  using assms
proof (induction xs arbitrary: n i pre)
  case Nil
  then show ?case by (cases n) (simp_all add: aget_def)
next
  case (Cons x xs)
  then obtain m where n: "n = Suc m" by (cases n) auto
  have g: "aget (pre @ (x # xs) @ c # post) (int (length pre)) = Some x" by (simp add: aget_def nth_append)
  have "scan c m (i + 1) (int (length (pre @ [x]))) ((pre @ [x]) @ xs @ c # post) =
      Some (i + 1 + int (length xs), int (length (pre @ [x])) + int (length xs) + 1)"
    using Cons.prems n by (intro Cons.IH) auto
  then show ?case using g Cons.prems(1) by (auto simp: n add_ac)
qed

lemma part_field:
  "length xs \<le> 5 \<Longrightarrow> part (pre @ xs @ post) (int (length pre)) (int (length xs)) = Some (xs @ replicate (5 - length xs) 0)"
  by (simp add: part_def)

lemma no_digit: "c \<in> {0x2F, 0x20, 0x3A} \<Longrightarrow> \<not> is_digit c"
  by (auto simp: is_digit_def)

text \<open>A number of one or two digits, and the last two digits of a longer field.\<close>

lemma var_field:
  assumes "t = pre @ bytes_of (dec_nat n) @ c # post" "n < 100" "c \<in> {0x2F, 0x20, 0x3A}" "2 \<le> m" "p = int (length pre)"
  shows "\<exists>i tt. scan c m 0 p t = Some (i, int (length (pre @ bytes_of (dec_nat n) @ [c]))) \<and>
     int (length (pre @ bytes_of (dec_nat n) @ [c])) - i - 1 = p \<and> part t p i = Some tt \<and> atoi tt = Some (int n)"
proof -
  let ?ds = "bytes_of (dec_nat n)"
  have d: "\<forall>b \<in> set ?ds. is_digit b" "digits_value ?ds = int n" "?ds \<noteq> []" "length ?ds \<le> 2"
    using dec_nat_digits [of n] length_dec_nat2 [OF assms(2)] by (auto simp: bytes_of_def)
  have "c \<notin> set ?ds" using d(1) no_digit [OF assms(3)] by auto
  then have s: "scan c m 0 p t = Some (int (length ?ds), int (length (pre @ ?ds @ [c])))"
    using scan_field [of c ?ds m 0 pre post] assms d(4) by simp
  have "part t (int (length pre)) (int (length ?ds)) = Some (?ds @ replicate (5 - length ?ds) 0)"
    unfolding assms(1) by (rule part_field) (use d(4) in simp)
  moreover have "atoi (?ds @ replicate (5 - length ?ds) 0) = Some (int n)"
    using atoi_digits [OF d(1,3)] d(2,4) by simp
  ultimately show ?thesis using s assms(5) by (intro exI [of _ "int (length ?ds)"]) simp
qed

lemma two_field:
  assumes "t = pre @ xs @ bytes_of (dec2 n) @ c # post" "n < 100" "c \<in> {0x2F, 0x20, 0x3A}" "length xs + 2 \<le> m"
    "p = int (length pre)" "\<forall>b \<in> set xs. is_digit b"
  shows "\<exists>i tt. scan c m 0 p t = Some (i, int (length (pre @ xs @ bytes_of (dec2 n) @ [c]))) \<and>
     part t (int (length (pre @ xs @ bytes_of (dec2 n) @ [c])) - 3) 2 = Some tt \<and> atoi tt = Some (int n)"
proof -
  let ?ds = "bytes_of (dec2 n)"
  have d: "\<forall>b \<in> set ?ds. is_digit b" "digits_value ?ds = int n" "length ?ds = 2" "?ds \<noteq> []"
    using dec2_digits [OF assms(2)] by (auto simp: bytes_of_def)
  have "c \<notin> set (xs @ ?ds)" using d(1) assms(6) no_digit [OF assms(3)] by auto
  then have s: "scan c m 0 p t = Some (int (length xs) + 2, int (length (pre @ xs @ ?ds @ [c])))"
    using scan_field [of c "xs @ ?ds" m 0 pre post] assms d(3) by simp
  have "part t (int (length (pre @ xs))) (int (length ?ds)) = Some (?ds @ replicate (5 - length ?ds) 0)"
    using part_field [of ?ds "pre @ xs" "c # post"] d(3) assms(1) by simp
  moreover have "int (length (pre @ xs @ ?ds @ [c])) - 3 = int (length (pre @ xs))" "int (length ?ds) = 2" using d(3) by simp_all
  moreover have "atoi (?ds @ replicate (5 - length ?ds) 0) = Some (int n)"
    using atoi_digits [OF d(1) d(4)] d(2,3) by simp
  ultimately show ?thesis using s by (intro exI [of _ "int (length xs) + 2"] exI [of _ "?ds @ replicate (5 - length ?ds) 0"]) simp
qed

section \<open>The text\<close>

lemma dec_nat_year: "100 \<le> y \<Longrightarrow> dec_nat y = dec_nat (y div 100) @ dec2 (y mod 100)"
proof -
  assume y: "100 \<le> y"
  then have big: "\<not> y div 10 < 10" by (simp add: not_less less_eq_div_iff_mult_less_eq)
  have zero: "CHR ''0'' = char_of (48::nat)" by (simp add: char_of_def bit_0)
  have two: "dec2 (y mod 100) = [char_of (48 + y mod 100 div 10), char_of (48 + y mod 100 mod 10)]"
  proof (cases "y mod 100 < 10")
    case True
    then show ?thesis by (simp add: dec2_def dec_nat.simps [of "y mod 100"] zero)
  next
    case False
    moreover have "y mod 100 div 10 < 10" by (simp add: less_mult_imp_div_less)
    ultimately show ?thesis
      by (simp add: dec2_def dec_nat.simps [of "y mod 100"] dec_nat.simps [of "y mod 100 div 10"])
  qed
  have e: "y mod 100 div 10 = y div 10 mod 10" "y mod 100 mod 10 = y mod 10" "y div 10 div 10 = y div 100"
    using mod_mult2_eq [of y 10 10] by (simp_all add: mod_mod_cancel div_mult2_eq [symmetric])
  have "dec_nat y = dec_nat (y div 10) @ [char_of (48 + y mod 10)]"
    "dec_nat (y div 10) = dec_nat (y div 10 div 10) @ [char_of (48 + y div 10 mod 10)]"
    using y big by (simp_all add: dec_nat.simps [of y] dec_nat.simps [of "y div 10"])
  then show ?thesis by (simp add: two e)
qed

lemma time_copy_eq:
  "0 \<le> i \<Longrightarrow> nat i + n \<le> length (h_tempx s) \<Longrightarrow> nat i + n \<le> length (h_buf2 s) \<Longrightarrow>
   time_copy n i s = Some (s\<lparr>h_tempx := take (nat i) (h_tempx s) @ take n (drop (nat i) (h_buf2 s)) @ drop (nat i + n) (h_tempx s)\<rparr>)"
proof (induction n arbitrary: i s)
  case (Suc n)
  let ?s = "s\<lparr>h_tempx := (h_tempx s)[nat i := h_buf2 s ! nat i]\<rparr>"
  have g: "aget (h_buf2 s) i = Some (h_buf2 s ! nat i)"
    "aset (h_tempx s) i (h_buf2 s ! nat i) = Some ((h_tempx s)[nat i := h_buf2 s ! nat i])"
    using Suc.prems by (simp_all add: aget_def aset_def)
  have i: "nat (i + 1) = Suc (nat i)" using Suc.prems by simp
  have "take (Suc n) (drop (nat i) (h_buf2 s)) = h_buf2 s ! nat i # take n (drop (Suc (nat i)) (h_buf2 s))"
    using Suc.prems by (simp add: Cons_nth_drop_Suc [symmetric])
  moreover have "take (Suc (nat i)) ((h_tempx s)[nat i := h_buf2 s ! nat i]) = take (nat i) (h_tempx s) @ [h_buf2 s ! nat i]"
    using Suc.prems by (simp add: take_Suc_conv_app_nth take_update_cancel)
  ultimately show ?case using Suc.IH [of "i + 1" ?s] Suc.prems by (simp add: g i)
qed simp

text \<open>\<open>month/day/year hour:minute:second\<close> in the client's form, \<open>ap\<close> the first letter of AM or PM, \<open>x\<close> the last.\<close>

definition time_text :: "nat \<Rightarrow> nat \<Rightarrow> nat \<Rightarrow> nat \<Rightarrow> nat \<Rightarrow> nat \<Rightarrow> char \<Rightarrow> char \<Rightarrow> string" where
  "time_text mon d yr h mi se ap x = dec_nat mon @ ''/'' @ dec_nat d @ ''/'' @ dec_nat yr @ '' '' @
     dec_nat h @ '':'' @ dec2 mi @ '':'' @ dec2 se @ '' '' @ [ap, x]"

definition time_front :: "nat \<Rightarrow> nat \<Rightarrow> nat \<Rightarrow> nat \<Rightarrow> nat \<Rightarrow> nat \<Rightarrow> u8 list" where
  "time_front mon d yr h mi se = bytes_of (dec_nat mon) @ 0x2F # bytes_of (dec_nat d) @ 0x2F #
     bytes_of (dec_nat (yr div 100)) @ bytes_of (dec2 (yr mod 100)) @ 0x20 # bytes_of (dec_nat h) @ 0x3A #
     bytes_of (dec2 mi) @ 0x3A # bytes_of (dec2 se) @ [0x20]"

lemma bytes_of_Cons: "bytes_of (c # cs) = word_of_nat (of_char c) # bytes_of cs"
  by (simp add: bytes_of_def)

lemma time_text_bytes:
  "100 \<le> yr \<Longrightarrow> bytes_of (time_text mon d yr h mi se ap x) = time_front mon d yr h mi se @ bytes_of [ap, x]"
  by (simp add: time_text_def time_front_def dec_nat_year [of yr] bytes_of_append bytes_of_Cons)

lemma length_time_front:
  assumes "mon < 100" "d < 100" "yr < 10000" "h < 100" "mi < 100" "se < 100"
  shows "length (time_front mon d yr h mi se) \<le> 20" "15 \<le> length (time_front mon d yr h mi se)"
proof -
  have a: "n < 100 \<Longrightarrow> length (dec_nat n) \<le> 2 \<and> 1 \<le> length (dec_nat n)" for n
    using length_dec_nat2 [of n] dec_nat_digits [of n] by (simp add: Suc_leI)
  have y: "yr div 100 < 100" using assms(3) by (simp add: less_mult_imp_div_less)
  have t: "length (dec2 (yr mod 100)) = 2" "length (dec2 mi) = 2" "length (dec2 se) = 2"
    using dec2_digits assms by auto
  show "length (time_front mon d yr h mi se) \<le> 20" "15 \<le> length (time_front mon d yr h mi se)"
    using a [OF assms(1)] a [OF assms(2)] a [OF y] a [OF assms(4)] t by (simp_all add: time_front_def)
qed

text \<open>The scan of the whole text, whatever follows it in the buffer.\<close>

lemma time_fields:
  assumes t: "t = time_front mon d yr h mi se @ post" and m: "24 \<le> m"
    and r: "mon < 100" "d < 100" "yr < 10000" "h < 100" "mi < 100" "se < 100"
  obtains i1 p1 t1 i2 p2 t2 i3 p3 t3 i4 p4 t4 i5 p5 t5 i6 p6 t6 where
    "scan 0x2F m 0 0 t = Some (i1, p1)" "part t 0 i1 = Some t1" "atoi t1 = Some (int mon)"
    "scan 0x2F m 0 p1 t = Some (i2, p2)" "part t (p2 - i2 - 1) i2 = Some t2" "atoi t2 = Some (int d)"
    "scan 0x20 m 0 p2 t = Some (i3, p3)" "part t (p3 - 3) 2 = Some t3" "atoi t3 = Some (int (yr mod 100))"
    "scan 0x3A m 0 p3 t = Some (i4, p4)" "part t (p4 - i4 - 1) i4 = Some t4" "atoi t4 = Some (int h)"
    "scan 0x3A m 0 p4 t = Some (i5, p5)" "part t (p5 - 3) 2 = Some t5" "atoi t5 = Some (int mi)"
    "scan 0x20 m 0 p5 t = Some (i6, p6)" "part t (p6 - 3) 2 = Some t6" "atoi t6 = Some (int se)"
    "p6 = int (length (time_front mon d yr h mi se))"
proof -
  let ?M = "[] @ bytes_of (dec_nat mon) @ [0x2F]"
  let ?D = "?M @ bytes_of (dec_nat d) @ [0x2F]"
  let ?Yh = "bytes_of (dec_nat (yr div 100))"
  let ?Y = "?D @ ?Yh @ bytes_of (dec2 (yr mod 100)) @ [0x20]"
  let ?H = "?Y @ bytes_of (dec_nat h) @ [0x3A]"
  let ?I = "?H @ [] @ bytes_of (dec2 mi) @ [0x3A]"
  let ?S = "?I @ [] @ bytes_of (dec2 se) @ [0x20]"
  let ?P5 = "bytes_of (dec2 se) @ 0x20 # post"
  let ?P4 = "bytes_of (dec2 mi) @ 0x3A # ?P5"
  let ?P3 = "bytes_of (dec_nat h) @ 0x3A # ?P4"
  let ?P2 = "?Yh @ bytes_of (dec2 (yr mod 100)) @ 0x20 # ?P3"
  let ?P1 = "bytes_of (dec_nat d) @ 0x2F # ?P2"
  have y: "yr div 100 < 100" "yr mod 100 < 100" using r(3) by (simp_all add: less_mult_imp_div_less)
  have yd: "\<forall>b \<in> set ?Yh. is_digit b" "length ?Yh + 2 \<le> m"
    using dec_nat_digits [of "yr div 100"] length_dec_nat2 [OF y(1)] m by auto
  have m2: "2 \<le> m" "length ([] :: u8 list) + 2 \<le> m" "\<forall>b \<in> set []. is_digit b" using m by simp_all
  have c: "(0x2F :: u8) \<in> {0x2F, 0x20, 0x3A}" "(0x20 :: u8) \<in> {0x2F, 0x20, 0x3A}" "(0x3A :: u8) \<in> {0x2F, 0x20, 0x3A}" by simp_all
  have e: "t = [] @ bytes_of (dec_nat mon) @ 0x2F # ?P1" "t = ?M @ bytes_of (dec_nat d) @ 0x2F # ?P2"
    "t = ?D @ ?Yh @ bytes_of (dec2 (yr mod 100)) @ 0x20 # ?P3" "t = ?Y @ bytes_of (dec_nat h) @ 0x3A # ?P4"
    "t = ?H @ [] @ bytes_of (dec2 mi) @ 0x3A # ?P5" "t = ?I @ [] @ bytes_of (dec2 se) @ 0x20 # post"
    by (simp_all add: t time_front_def)
  from var_field [OF e(1) r(1) c(1) m2(1) refl] obtain i1 t1 where
    1: "scan 0x2F m 0 (int (length ([] :: u8 list))) t = Some (i1, int (length ?M))" "part t (int (length ([] :: u8 list))) i1 = Some t1"
      "atoi t1 = Some (int mon)" by blast
  from var_field [OF e(2) r(2) c(1) m2(1) refl] obtain i2 t2 where
    2: "scan 0x2F m 0 (int (length ?M)) t = Some (i2, int (length ?D))" "int (length ?D) - i2 - 1 = int (length ?M)"
      "part t (int (length ?M)) i2 = Some t2" "atoi t2 = Some (int d)" by blast
  from two_field [OF e(3) y(2) c(2) yd(2) refl yd(1)] obtain i3 t3 where
    3: "scan 0x20 m 0 (int (length ?D)) t = Some (i3, int (length ?Y))" "part t (int (length ?Y) - 3) 2 = Some t3"
      "atoi t3 = Some (int (yr mod 100))" by blast
  from var_field [OF e(4) r(4) c(3) m2(1) refl] obtain i4 t4 where
    4: "scan 0x3A m 0 (int (length ?Y)) t = Some (i4, int (length ?H))" "int (length ?H) - i4 - 1 = int (length ?Y)"
      "part t (int (length ?Y)) i4 = Some t4" "atoi t4 = Some (int h)" by blast
  from two_field [OF e(5) r(5) c(3) m2(2) refl m2(3)] obtain i5 t5 where
    5: "scan 0x3A m 0 (int (length ?H)) t = Some (i5, int (length ?I))" "part t (int (length ?I) - 3) 2 = Some t5"
      "atoi t5 = Some (int mi)" by blast
  from two_field [OF e(6) r(6) c(2) m2(2) refl m2(3)] obtain i6 t6 where
    6: "scan 0x20 m 0 (int (length ?I)) t = Some (i6, int (length ?S))" "part t (int (length ?S) - 3) 2 = Some t6"
      "atoi t6 = Some (int se)" by blast
  have len: "int (length ?S) = int (length (time_front mon d yr h mi se))" by (simp add: time_front_def)
  have z: "int (length ([] :: u8 list)) = 0" by simp
  show thesis
    by (rule that [OF 1 [unfolded z] 2(1) _ 2(4) 3 4(1) _ 4(4) 5 6 len]) (simp_all only: 2(2,3) 4(2,3))
qed

lemma byte_P: "(word_of_nat (of_char ap) = (0x50 :: u8)) = (ap = CHR ''P'')"
proof
  assume "word_of_nat (of_char ap) = (0x50 :: u8)"
  then have "uint (word_of_nat (of_char ap) :: u8) = 0x50" by simp
  then have "of_char ap = (0x50 :: nat)" by (simp add: unsigned_of_nat take_bit_eq_mod)
  then have "char_of (of_char ap :: nat) = (char_of (0x50 :: nat) :: char)" by (simp only:)
  then have "ap = char_of (0x50 :: nat)" by (simp only: char_of_char)
  moreover have "char_of (0x50 :: nat) = CHR ''P''" by code_simp
  ultimately show "ap = CHR ''P''" by (simp only:)
qed simp

section \<open>Property\<close>

text \<open>
  \<open>SET_TIME\<close> understands the client's text. If \<open>msg_buf2\<close> starts with it, the time given to \<open>stime\<close> has
  the month counted from 0, the year from 1900 (of the 21st century), and the hour of the text plus 12 when
  it is PM; no buffer is overrun and \<open>j\<close> is reset. So 12:30 PM is taken as hour 24, and 12:30 AM as hour 12.
\<close>

theorem set_time_parses:
  assumes "length (h_tempx s) = 50" "length (h_buf2 s) = 5000" "100 \<le> yr" "yr < 10000"
    "mon < 100" "d < 100" "h < 100" "mi < 100" "se < 100"
    and b: "take (length (time_text mon d yr h mi se ap x)) (h_buf2 s) = bytes_of (time_text mon d yr h mi se ap x)"
  shows "\<exists>s'. hc_time (2 * int (length (time_text mon d yr h mi se ap x)) + 2) s = Some s' \<and> h_j s' = 0 \<and>
    clock s' = Some \<lparr>tm_mon = int mon - 1, tm_mday = int d, tm_year = int (yr mod 100) + 100,
      tm_hour = int h + (if ap = CHR ''P'' then 12 else 0), tm_min = int mi, tm_sec = int se\<rparr>"
proof -
  let ?F = "time_front mon d yr h mi se" and ?L = "length (time_text mon d yr h mi se ap x)"
  have tx: "bytes_of (time_text mon d yr h mi se ap x) = ?F @ [word_of_nat (of_char ap), word_of_nat (of_char x)]"
    by (simp add: time_text_bytes [OF assms(3)] bytes_of_Cons)
  have L: "?L = length ?F + 2" using arg_cong [OF tx, of length] by simp
  have F: "length ?F \<le> 20" "15 \<le> length ?F"
    using length_time_front [OF assms(5,6,4,7,8,9)] .
  let ?s = "s\<lparr>h_j := 0, h_tempx := replicate 50 0\<rparr>"
  let ?junk = "take 3 (drop ?L (h_buf2 s)) @ replicate (47 - ?L) 0"
  have "take (?L + 3) (h_buf2 s) = bytes_of (time_text mon d yr h mi se ap x) @ take 3 (drop ?L (h_buf2 s))"
    unfolding take_add b by simp
  then have c: "time_copy (?L + 3) 0 ?s = Some (?s\<lparr>h_tempx := ?F @ word_of_nat (of_char ap) # word_of_nat (of_char x) # ?junk\<rparr>)"
    using time_copy_eq [of 0 "?L + 3" ?s] assms(2) L F by (simp add: tx)
  let ?t = "?F @ word_of_nat (of_char ap) # 0x4D # ?junk"
  have e: "nat (1 + int (length ?F)) = Suc (length ?F)" by simp
  have a: "aset (?F @ word_of_nat (of_char ap) # word_of_nat (of_char x) # ?junk) ((2 * int ?L + 2) div 2 - 2) 0x4D = Some ?t"
    using e by (simp add: aset_def L list_update_append)
  define ml where "ml = 2 * int ?L + 2"
  define t where "t = ?t"
  have m: "24 \<le> nat ml" using L F by (simp add: ml_def)
  obtain i1 p1 t1 i2 p2 t2 i3 p3 t3 i4 p4 t4 i5 p5 t5 i6 p6 t6 where
    f: "scan 0x2F (nat ml) 0 0 t = Some (i1, p1)" "part t 0 i1 = Some t1" "atoi t1 = Some (int mon)"
    "scan 0x2F (nat ml) 0 p1 t = Some (i2, p2)" "part t (p2 - i2 - 1) i2 = Some t2" "atoi t2 = Some (int d)"
    "scan 0x20 (nat ml) 0 p2 t = Some (i3, p3)" "part t (p3 - 3) 2 = Some t3" "atoi t3 = Some (int (yr mod 100))"
    "scan 0x3A (nat ml) 0 p3 t = Some (i4, p4)" "part t (p4 - i4 - 1) i4 = Some t4" "atoi t4 = Some (int h)"
    "scan 0x3A (nat ml) 0 p4 t = Some (i5, p5)" "part t (p5 - 3) 2 = Some t5" "atoi t5 = Some (int mi)"
    "scan 0x20 (nat ml) 0 p5 t = Some (i6, p6)" "part t (p6 - 3) 2 = Some t6" "atoi t6 = Some (int se)"
    and p6: "p6 = int (length ?F)"
    by (rule time_fields [OF t_def m assms(5,6,4,7-9)], rule that)
  have p: "aget t p6 = Some (word_of_nat (of_char ap))" by (simp add: p6 t_def aget_def)
  have t50: "length (h_tempx s) = 50" by (rule assms(1))
  have n2: "nat (ml div 2 + 2) = ?L + 3" by (simp add: ml_def)
  note run = c a [folded t_def ml_def] f p
  show ?thesis unfolding ml_def [symmetric] hc_time_def using run
    by (simp add: t50 byte_P n2 Let_def)
qed

lemma set_time_parses_witness:
  "\<exists>s'. hc_time (2 * int (length (time_text 4 20 2018 3 5 9 (CHR ''P'') (CHR ''M''))) + 2)
      (host0\<lparr>h_buf2 := bytes_of (time_text 4 20 2018 3 5 9 (CHR ''P'') (CHR ''M'')) @
        replicate (5000 - length (time_text 4 20 2018 3 5 9 (CHR ''P'') (CHR ''M''))) 0\<rparr>) = Some s' \<and> h_j s' = 0 \<and>
    clock s' = Some \<lparr>tm_mon = int 4 - 1, tm_mday = int 20, tm_year = int (2018 mod 100) + 100,
      tm_hour = int 3 + (if CHR ''P'' = CHR ''P'' then 12 else 0), tm_min = int 5, tm_sec = int 9\<rparr>"
proof (rule set_time_parses)
  have "length (bytes_of (time_text 4 20 2018 3 5 9 (CHR ''P'') (CHR ''M''))) \<le> 22"
    using length_time_front(1) [of 4 20 2018 3 5 9] by (simp only: time_text_bytes) simp
  then show "length (h_buf2 (host0\<lparr>h_buf2 := bytes_of (time_text 4 20 2018 3 5 9 (CHR ''P'') (CHR ''M'')) @
        replicate (5000 - length (time_text 4 20 2018 3 5 9 (CHR ''P'') (CHR ''M''))) 0\<rparr>)) = 5000" by simp
qed (simp_all add: host0_def sched.defs host.defs)

end
