(* ===== verification/SerialRecv.thy ===== *)
theory SerialRecv
  imports HostTime
begin

text \<open>
  The task that listens to the STM32 board (\<open>serial_recv_task\<close> of \<open>thread_io/tasks.c\<close>). A message is
  the marker \<open>0xFF\<close> and 50 bytes, the first of which is a command. Keys of the keypad become
  commands in the store; temperatures, speeds and the readings of the converters go to the client.
  What the task keeps besides the shared state is the record \<open>sr\<close>: what it believes the lights, the fan and
  the wipers do, its buffers and the last status of the FPGA. \<open>send_lcd\<close> returns at once in this
  version; the buffer it would send is still filled, and can overflow.
\<close>

section \<open>State\<close>

record FORMAT_STR =
  fs_row :: u8
  fs_col :: u8
  fs_data_col :: u8

record keys =
  kp_brights :: int
  kp_fan_on :: int
  kp_running_lights :: int
  kp_lights_on :: int
  kp_wipers :: int

record sr =
  sr_keys :: keys
  sr_tempx :: "u8 list"
  sr_ucbuff :: "u8 list"
  sr_rbuf :: "u8 list"
  status1 :: u8
  status2 :: u8
  status3 :: u8
  status4 :: u8

text \<open>\<open>tempx[30]\<close>, \<open>ucbuff[6]\<close>, \<open>read_serial_buffer[SERIAL_BUFF_SIZE]\<close>\<close>

definition sr_ok :: "sr \<Rightarrow> bool" where
  "sr_ok r \<longleftrightarrow> length (sr_tempx r) = 30 \<and> length (sr_ucbuff r) = 6 \<and> length (sr_rbuf r) = 50"

section \<open>The table of the display\<close>

text \<open>
  The loops of \<open>init_LCD\<close> that fill \<open>rtlabel_str\<close>: \<open>n\<close> entries from \<open>j\<close>. The first wraps to the next
  column after row 7; the second places single values.
\<close>

fun rt_rows :: "nat \<Rightarrow> int \<Rightarrow> u8 \<Rightarrow> u8 \<Rightarrow> u8 \<Rightarrow> FORMAT_STR list \<Rightarrow> FORMAT_STR list option" where
  "rt_rows 0 j row col data_col tab = Some tab"
| "rt_rows (Suc n) j row col data_col tab = do {
     let (row, col, data_col) = (if row > 7 then (1, col + 19, col + 19 + 9) else (row, col, data_col));
     tab \<leftarrow> aset tab j \<lparr>fs_row = row, fs_col = col, fs_data_col = data_col\<rparr>;
     rt_rows n (j + 1) (row + 1) col data_col tab
   }"

fun gps_rows :: "nat \<Rightarrow> int \<Rightarrow> u8 \<Rightarrow> u8 \<Rightarrow> u8 \<Rightarrow> FORMAT_STR list \<Rightarrow> FORMAT_STR list option" where
  "gps_rows 0 j row col data_col tab = Some tab"
| "gps_rows (Suc n) j row col data_col tab = do {
     tab \<leftarrow> aset tab j \<lparr>fs_row = row, fs_col = col,
       fs_data_col = (if j = 17 then data_col + 2 else if j = 19 \<or> j = 20 then data_col - 3 else data_col)\<rparr>;
     gps_rows n (j + 1) (row + 1) col data_col tab
   }"

definition init_LCD :: "FORMAT_STR list \<Rightarrow> FORMAT_STR list option" where
  "init_LCD tab = do {
     tab \<leftarrow> rt_rows 14 0 1 0 9 tab;
     gps_rows 7 14 9 0 9 tab
   }"

definition rtlabel_str :: "FORMAT_STR list" where
  "rtlabel_str = the (init_LCD (replicate 27 \<lparr>fs_row = 0, fs_col = 0, fs_data_col = 0\<rparr>))"

abbreviation (input) OIL_PRES :: int where "OIL_PRES \<equiv> 0"
abbreviation (input) MAP :: int where "MAP \<equiv> 2"
abbreviation (input) O2 :: int where "O2 \<equiv> 4"
abbreviation (input) RPM :: int where "RPM \<equiv> 7"
abbreviation (input) MPH :: int where "MPH \<equiv> 8"
abbreviation (input) ENG_TEMP :: int where "ENG_TEMP \<equiv> 10"
abbreviation (input) FUEL_LEVEL :: int where "FUEL_LEVEL \<equiv> 11"
abbreviation (input) IND_TEMP :: int where "IND_TEMP \<equiv> 13"

section \<open>Receiving a frame\<close>

text \<open>
  \<open>do { ch = read_serial(errmsg); } while(ch != 0xFF);\<close> and 50 more bytes, on the bytes the line will
  deliver. The result is the frame and the bytes left; \<open>None\<close> is a task that waits for more.
\<close>

definition recv_frame :: "u8 list \<Rightarrow> (u8 list \<times> u8 list) option" where
  "recv_frame line =
     (case dropWhile (\<lambda>b. b \<noteq> 0xFF) line of
        [] \<Rightarrow> None
      | _ # rest \<Rightarrow> if length rest < SERIAL_BUFF_SIZE then None
                    else Some (take SERIAL_BUFF_SIZE rest, drop SERIAL_BUFF_SIZE rest))"

section \<open>Keys\<close>

text \<open>
  The result is the value \<open>cmd\<close> has after the \<open>switch\<close>. In \<open>KP_8\<close> the call of \<open>add_msg_queue\<close> stands
  behind the \<open>break\<close> of the last case, so it is never reached.
\<close>

definition keypad :: "u8 \<Rightarrow> keys \<Rightarrow> 'a sched_scheme \<Rightarrow> (u8 \<times> keys \<times> 'a sched_scheme) option" where
  "keypad cmd k s =
     (if cmd = KP_1 then do { s \<leftarrow> add_msg_queue START_SEQ s; Some (START_SEQ, k, s) }
      else if cmd = KP_2 then do { s \<leftarrow> add_msg_queue SHUTDOWN s; Some (SHUTDOWN, k, s) }
      else if cmd = KP_3 then
        (if kp_lights_on k = 1 then do {
           let (cmd, v) = (if kp_brights k = 0 then (ON_BRIGHTS, 1) else (OFF_BRIGHTS, 0));
           s \<leftarrow> add_msg_queue cmd s;
           Some (cmd, k\<lparr>kp_brights := v\<rparr>, s)
         } else Some (cmd, k, s))
      else if cmd = KP_4 then do {
        let (cmd, v) = (if kp_fan_on k = 0 then (ON_FAN, 1) else (OFF_FAN, 0));
        s \<leftarrow> add_msg_queue cmd s;
        Some (cmd, k\<lparr>kp_fan_on := v\<rparr>, s)
      }
      else if cmd = KP_6 then do {
        let (cmd, v) = (if kp_running_lights k = 0 then (ON_RUNNING_LIGHTS, 1) else (OFF_RUNNING_LIGHTS, 0));
        s \<leftarrow> add_msg_queue cmd s;
        Some (cmd, k\<lparr>kp_running_lights := v\<rparr>, s)
      }
      else if cmd = KP_7 then do {
        let (cmd, v) = (if kp_lights_on k = 0 then (ON_LIGHTS, 1) else (OFF_LIGHTS, 0));
        s \<leftarrow> add_msg_queue cmd s;
        let k = k\<lparr>kp_lights_on := v\<rparr>;
        if kp_brights k = 1 then do {
          let k = k\<lparr>kp_brights := 0\<rparr>;
          s \<leftarrow> add_msg_queue OFF_BRIGHTS s;
          Some (OFF_BRIGHTS, k, s)
        } else Some (cmd, k, s)
      }
      else if cmd = KP_8 then
        (if kp_wipers k = 0 then Some (WIPER1, k\<lparr>kp_wipers := 1\<rparr>, s)
         else if kp_wipers k = 1 then Some (WIPER2, k\<lparr>kp_wipers := 2\<rparr>, s)
         else Some (WIPER_OFF, k\<lparr>kp_wipers := 0\<rparr>, s))
      else Some (cmd, k, s))"

section \<open>Values\<close>

definition sr_print :: "string \<Rightarrow> sr \<Rightarrow> sr option" where
  "sr_print str r = do { t \<leftarrow> cstr_into (sr_tempx r) str; Some (r\<lparr>sr_tempx := t\<rparr>) }"

definition uc_set :: "int \<Rightarrow> u8 \<Rightarrow> sr \<Rightarrow> sr option" where
  "uc_set i b r = do { u \<leftarrow> aset (sr_ucbuff r) i b; Some (r\<lparr>sr_ucbuff := u\<rparr>) }"

text \<open>\<open>if(test_sock()) send_msg(strlen((char*)tempx)*2,(UCHAR*)tempx,t);\<close> for the string just printed\<close>

definition sr_send :: "string \<Rightarrow> u8 \<Rightarrow> sr \<Rightarrow> 'a sched_scheme \<Rightarrow> 'a sched_scheme option" where
  "sr_send str t r s = (if test_sock s \<noteq> 0 then send_str (sr_tempx r) str t s else Some s)"

text \<open>\<open>memcpy(buf + i, src, n)\<close>\<close>

definition memcpy_at :: "u8 list \<Rightarrow> nat \<Rightarrow> u8 list \<Rightarrow> nat \<Rightarrow> u8 list option" where
  "memcpy_at buf i src n =
     (if i + n \<le> length buf \<and> n \<le> length src then Some (take i buf @ take n src @ drop (i + n) buf) else None)"

definition lcd_head :: "u8 \<Rightarrow> int \<Rightarrow> sr \<Rightarrow> sr option" where
  "lcd_head c label r = do {
     f \<leftarrow> aget rtlabel_str label;
     r \<leftarrow> uc_set 0 c r;
     r \<leftarrow> uc_set 1 (fs_row f) r;
     uc_set 2 (fs_data_col f) r
   }"

definition sr_temp :: "u8 \<Rightarrow> int \<Rightarrow> sr \<Rightarrow> 'a sched_scheme \<Rightarrow> (sr \<times> 'a sched_scheme) option" where
  "sr_temp cmd label r s = do {
     high_byte \<leftarrow> aget (sr_rbuf r) 1;
     low_byte \<leftarrow> aget (sr_rbuf r) 2;
     let engine_temp = (push_bit 8 (uint high_byte)) OR uint low_byte;
     let str = float1 (convertF engine_temp);
     r \<leftarrow> sr_print str r;
     s \<leftarrow> sr_send str cmd r s;
     r \<leftarrow> lcd_head 18 label r;
     u \<leftarrow> memcpy_at (sr_ucbuff r) 3 (sr_tempx r) (length str);
     Some (r\<lparr>sr_ucbuff := u\<rparr>, s)
   }"

definition sr_int_value :: "int \<Rightarrow> int \<Rightarrow> sr \<Rightarrow> sr option" where
  "sr_int_value label v r = do {
     r \<leftarrow> lcd_head 13 label r;
     let temp = (word_of_int v :: u32);
     r \<leftarrow> uc_set 4 (lo8 temp) r;
     r \<leftarrow> uc_set 3 (hi8 temp) r;
     b3 \<leftarrow> aget (sr_ucbuff r) 3;
     b4 \<leftarrow> aget (sr_ucbuff r) 4;
     sr_print (hex2 b3 @ '' '' @ hex2 b4 @ [CHR 0x0D, CHR 0x0A]) r
   }"

definition sr_rt1 :: "sr \<Rightarrow> 'a sched_scheme \<Rightarrow> (sr \<times> 'a sched_scheme) option" where
  "sr_rt1 r s = do {
     low_byte \<leftarrow> aget (sr_rbuf r) 1;
     high_byte \<leftarrow> aget (sr_rbuf r) 2;
     let rpm = (push_bit 8 (uint high_byte)) OR uint low_byte;
     r \<leftarrow> sr_print (dec_int rpm) r;
     s \<leftarrow> sr_send (dec_int rpm) SEND_RPM r s;
     low_byte \<leftarrow> aget (sr_rbuf r) 3;
     high_byte \<leftarrow> aget (sr_rbuf r) 4;
     let mph = (push_bit 8 (uint high_byte)) OR uint low_byte;
     r \<leftarrow> sr_print (dec_int mph) r;
     s \<leftarrow> sr_send (dec_int mph) SEND_MPH r s;
     r \<leftarrow> sr_int_value RPM rpm r;
     r \<leftarrow> sr_int_value MPH mph r;
     Some (r, s)
   }"

definition sr_byte_value :: "int \<Rightarrow> int \<Rightarrow> sr \<Rightarrow> sr option" where
  "sr_byte_value label i r = do {
     b \<leftarrow> aget (sr_rbuf r) i;
     r \<leftarrow> lcd_head 11 label r;
     uc_set 3 b r
   }"

text \<open>\<open>sprintf(tempx, "%02x %02x %02x %02x", ...)\<close> of bytes 1 to 4\<close>

definition adc_str :: "sr \<Rightarrow> string option" where
  "adc_str r = do {
     b1 \<leftarrow> aget (sr_rbuf r) 1;
     b2 \<leftarrow> aget (sr_rbuf r) 2;
     b3 \<leftarrow> aget (sr_rbuf r) 3;
     b4 \<leftarrow> aget (sr_rbuf r) 4;
     Some (hex2 b1 @ '' '' @ hex2 b2 @ '' '' @ hex2 b3 @ '' '' @ hex2 b4)
   }"

definition sr_rt2 :: "sr \<Rightarrow> 'a sched_scheme \<Rightarrow> (sr \<times> 'a sched_scheme) option" where
  "sr_rt2 r s = do {
     r \<leftarrow> sr_byte_value OIL_PRES 1 r;
     r \<leftarrow> sr_byte_value FUEL_LEVEL 2 r;
     r \<leftarrow> sr_byte_value MAP 3 r;
     r \<leftarrow> sr_byte_value O2 4 r;
     if enable_adc_send_data s \<noteq> 0 then do {
       str \<leftarrow> adc_str r;
       r \<leftarrow> sr_print str r;
       s \<leftarrow> sr_send str SEND_ADCS1 r s;
       Some (r, s)
     } else Some (r, s)
   }"

definition sr_rt3 :: "sr \<Rightarrow> 'a sched_scheme \<Rightarrow> (sr \<times> 'a sched_scheme) option" where
  "sr_rt3 r s = (if enable_adc_send_data s \<noteq> 0 then do {
       str \<leftarrow> adc_str r;
       r \<leftarrow> sr_print str r;
       Some (r, s)
     } else Some (r, s))"

definition sr_status :: "sr \<Rightarrow> sr option" where
  "sr_status r = do {
     b \<leftarrow> aget (sr_rbuf r) 4;
     r \<leftarrow> (if status1 r \<noteq> b then sr_print (''4: '' @ hex2 b) (r\<lparr>status1 := b\<rparr>) else Some r);
     b \<leftarrow> aget (sr_rbuf r) 1;
     r \<leftarrow> (if status2 r \<noteq> b then sr_print (''1: '' @ hex2 b) (r\<lparr>status2 := b\<rparr>) else Some r);
     b \<leftarrow> aget (sr_rbuf r) 2;
     r \<leftarrow> (if status3 r \<noteq> b then sr_print (''2: '' @ hex2 b) (r\<lparr>status3 := b\<rparr>) else Some r);
     b \<leftarrow> aget (sr_rbuf r) 3;
     if status4 r \<noteq> b then sr_print (''3: '' @ hex2 b) (r\<lparr>status4 := b\<rparr>) else Some r
   }"

definition sr_values :: "u8 \<Rightarrow> sr \<Rightarrow> 'a sched_scheme \<Rightarrow> (sr \<times> 'a sched_scheme) option" where
  "sr_values cmd r s =
     (if cmd = ENGINE_TEMP then sr_temp ENGINE_TEMP ENG_TEMP r s
      else if cmd = INDOOR_TEMP then sr_temp INDOOR_TEMP IND_TEMP r s
      else if cmd = TEMP_TOO_HIGH then Some (r, s)
      else if cmd = SEND_RT_VALUES1 then sr_rt1 r s
      else if cmd = SEND_RT_VALUES2 then sr_rt2 r s
      else if cmd = SEND_RT_VALUES3 then sr_rt3 r s
      else if cmd = SEND_RT_FPGA_STATUS then do { r \<leftarrow> sr_status r; Some (r, s) }
      else Some (r, s))"

text \<open>\<open>temp = read_serial_buffer[i+1]; temp <<= 8; temp |= read_serial_buffer[i]; sprintf(...)\<close>\<close>

definition sr_config_value :: "string \<Rightarrow> int \<Rightarrow> sr \<Rightarrow> sr option" where
  "sr_config_value label i r = do {
     hi \<leftarrow> aget (sr_rbuf r) (i + 1);
     lo \<leftarrow> aget (sr_rbuf r) i;
     sr_print (label @ float1 (convertF (sint (mk16 hi lo)))) r
   }"

text \<open>The second chain of tests. The result says whether the task ended.\<close>

definition sr_rest :: "u8 \<Rightarrow> sr \<Rightarrow> 'a sched_scheme \<Rightarrow> (bool \<times> sr \<times> 'a sched_scheme) option" where
  "sr_rest cmd r s =
     (if NAV_UP \<le> cmd \<and> cmd \<le> NAV_CLOSE then do {
        let str = ''nav cmd: '' @ dec_nat (unat cmd);
        r \<leftarrow> sr_print str r;
        s \<leftarrow> sr_send str cmd r s;
        Some (False, r, s)
      }
      else if cmd = GET_CONFIG2 then do {
        r \<leftarrow> sr_config_value ''fan on: '' 1 r;
        r \<leftarrow> sr_config_value ''fan off: '' 3 r;
        r \<leftarrow> sr_config_value ''engine temp limit: '' 5 r;
        Some (False, r, s)
      }
      else Some (shutdown_all s \<noteq> 0, r, s))"

text \<open>What the task does with a frame.\<close>

definition serial_frame :: "u8 list \<Rightarrow> sr \<Rightarrow> 'a sched_scheme \<Rightarrow> (bool \<times> sr \<times> 'a sched_scheme) option" where
  "serial_frame fr r s = do {
     let r = r\<lparr>sr_rbuf := fr\<rparr>;
     cmd \<leftarrow> aget (sr_rbuf r) 0;
     (cmd, k, s) \<leftarrow> (if (KP_1 \<le> cmd \<and> cmd \<le> KP_9) \<or> cmd = KP_0 then keypad cmd (sr_keys r) s
                     else Some (cmd, sr_keys r, s));
     (r, s) \<leftarrow> sr_values cmd (r\<lparr>sr_keys := k\<rparr>) s;
     sr_rest cmd r s
   }"

text \<open>Before the loop: the parameters are sent, with \<open>SERVER_UP\<close>. \<open>send_buffer\<close> is on the stack.\<close>

definition put16 :: "int \<Rightarrow> int \<Rightarrow> u8 list \<Rightarrow> u8 list option" where
  "put16 i v buf = do {
     let temp = (word_of_int v :: u32);
     buf \<leftarrow> aset buf i (lo8 temp);
     aset buf (i + 1) (hi8 temp)
   }"

definition serial_start :: "u8 list \<Rightarrow> sr \<Rightarrow> 'a sched_scheme \<Rightarrow> (sr \<times> 'a sched_scheme) option" where
  "serial_start send_buffer r s = do {
     b \<leftarrow> put16 0 (p_engine_temp_limit (ps s)) send_buffer;
     b \<leftarrow> put16 2 (p_cooling_fan_on (ps s)) b;
     b \<leftarrow> put16 4 (p_cooling_fan_off (ps s)) b;
     b \<leftarrow> put16 6 (p_blower1_on (ps s)) b;
     b \<leftarrow> put16 8 (p_blower2_on (ps s)) b;
     b \<leftarrow> put16 10 (p_blower3_on (ps s)) b;
     b \<leftarrow> put16 12 (p_blower_enabled (ps s)) b;
     s \<leftarrow> send_serialother SERVER_UP b s;
     Some (r\<lparr>status1 := 0, status2 := 0, status3 := 0, status4 := 0\<rparr>, s)
   }"

text \<open>The task on the bytes of the line: frame after frame, until it waits or ends; \<open>n\<close> bounds the frames.\<close>

fun serial_loop :: "nat \<Rightarrow> u8 list \<Rightarrow> sr \<Rightarrow> 'a sched_scheme \<Rightarrow> (bool \<times> u8 list \<times> sr \<times> 'a sched_scheme) option" where
  "serial_loop 0 line r s = Some (False, line, r, s)"
| "serial_loop (Suc n) line r s =
     (case recv_frame line of
        None \<Rightarrow> Some (False, line, r, s)
      | Some (fr, rest) \<Rightarrow> do {
          (fin, r, s) \<leftarrow> serial_frame fr r s;
          if fin then Some (True, rest, r, s) else serial_loop n rest r s
        })"


section \<open>What is defined\<close>

text \<open>The operations on the task's own record keep its sizes, the frame and the beliefs.\<close>

definition sr_like :: "u8 list \<Rightarrow> keys \<Rightarrow> sr \<Rightarrow> bool" where
  "sr_like b k r \<longleftrightarrow> sr_ok r \<and> sr_rbuf r = b \<and> sr_keys r = k"

interpretation srs: bounded_steps "sr_like b k" "\<lambda>_. 0" 0 for b k
  by unfold_locales

named_theorems srs_rules \<open>operations of the receiving task on its own record\<close>

lemma srs_print [srs_rules]: "length str < 30 \<Longrightarrow> srs.runs b k 0 (sr_print str)"
  by (rule srs.runsI) (auto simp: sr_print_def sr_like_def sr_ok_def cstr_into_def)

lemma srs_uc_set [srs_rules]: "0 \<le> i \<Longrightarrow> i < 6 \<Longrightarrow> srs.runs b k 0 (uc_set i v)"
  by (rule srs.runsI) (auto simp: uc_set_def sr_like_def sr_ok_def aset_def)

lemma rtlabel_length: "length rtlabel_str = 27"
  by code_simp

lemma srs_lcd_head [srs_rules]: "0 \<le> l \<Longrightarrow> l < 27 \<Longrightarrow> srs.runs b k 0 (lcd_head c l)"
  by (simp add: lcd_head_def [abs_def] aget_def rtlabel_length) (intro srs.runs_bind0 srs_rules; simp)

lemma srs_rbuf:
  assumes "0 \<le> i" "i < 50" "\<And>x. srs.runs b k 0 (f x)"
  shows "srs.runs b k 0 (\<lambda>r. Option.bind (aget (sr_rbuf r) i) (\<lambda>x. f x r))"
proof (rule srs.runs_get)
  show "\<exists>x. aget (sr_rbuf r) i = Some x \<and> True" if "sr_like b k r" for r
    using that assms(1,2) by (auto simp: sr_like_def sr_ok_def aget_def)
qed (rule assms(3))

lemma srs_ubuf:
  assumes "0 \<le> i" "i < 6" "\<And>x. srs.runs b k 0 (f x)"
  shows "srs.runs b k 0 (\<lambda>r. Option.bind (aget (sr_ucbuff r) i) (\<lambda>x. f x r))"
proof (rule srs.runs_get)
  show "\<exists>x. aget (sr_ucbuff r) i = Some x \<and> True" if "sr_like b k r" for r
    using that assms(1,2) by (simp add: sr_like_def sr_ok_def aget_def)
qed (rule assms(3))

lemma srs_int_value [srs_rules]: "0 \<le> l \<Longrightarrow> l < 27 \<Longrightarrow> srs.runs b k 0 (sr_int_value l v)"
  unfolding sr_int_value_def Let_def
  by (intro srs.runs_bind0 srs_ubuf srs_rules; simp)

lemma srs_byte_value [srs_rules]:
  "0 \<le> l \<Longrightarrow> l < 27 \<Longrightarrow> 0 \<le> i \<Longrightarrow> i < 50 \<Longrightarrow> srs.runs b k 0 (sr_byte_value l i)"
  unfolding sr_byte_value_def by (intro srs.runs_bind0 srs_rbuf srs_rules; simp)

lemma int_of_bytes: "push_bit 8 (uint h) OR uint l = sint (mk16 h l)" for h l :: u8
proof -
  have "uint (mk16 h l) = push_bit 8 (uint h) OR uint l"
    unfolding mk16_def
    by (rule bit_eqI) (auto simp: bit_simps bit_uint_iff dest: bit_imp_le_length)
  then show ?thesis by (simp add: sint_mk16 uint_mk16)
qed

lemma length_dec_nat_1: "length (dec_nat n) = Suc 0 \<longleftrightarrow> n < 10"
  by (subst dec_nat.simps) (simp, subst dec_nat.simps, simp)

lemma length_dec_nat_0: "dec_nat n \<noteq> []"
  by (subst dec_nat.simps) simp

lemma float1_short: "length (float1 x) \<le> 3 \<longleftrightarrow> 0 \<le> x \<and> x < 10"
proof -
  have "0 < length (dec_nat n)" for n using length_dec_nat_0 by simp
  then have "length (dec_nat (nat x)) \<le> 1 \<longleftrightarrow> length (dec_nat (nat x)) = Suc 0" by (metis One_nat_def le_less_Suc_eq less_Suc_eq_le linorder_not_le)
  then show ?thesis by (auto simp: float1_def dec_int_def length_dec_nat_0 length_dec_nat_1)
qed

lemma sr_send_ok: "sr_ok r \<Longrightarrow> length str \<le> 14 \<Longrightarrow> \<exists>s'. sr_send str ty r s = Some s' \<and> same_but_tcp s s'"
  using send_msg_safe [of "int (length str) * 2" "sr_tempx r" ty s]
  by (auto simp: sr_send_def send_str_def sr_ok_def)

lemma sr_likeD: "sr_like b k r \<Longrightarrow> sr_ok r" "sr_like b k r \<Longrightarrow> sr_rbuf r = b" "sr_like b k r \<Longrightarrow> sr_keys r = k"
  by (simp_all add: sr_like_def)

lemma sr_like_byte: "sr_like b k r \<Longrightarrow> 0 \<le> i \<Longrightarrow> i < 50 \<Longrightarrow> aget (sr_rbuf r) i = Some (b ! nat i)"
  by (auto simp: sr_like_def sr_ok_def aget_def)

text \<open>The outcome of a report: defined, with only the connection and the task's buffers changed.\<close>

definition reports :: "u8 list \<Rightarrow> keys \<Rightarrow> 'a sched_scheme \<Rightarrow> (sr \<times> 'a sched_scheme) option \<Rightarrow> bool" where
  "reports b k s0 res \<longleftrightarrow> (\<exists>r s. res = Some (r, s) \<and> sr_like b k r \<and> same_but_tcp s0 s)"

named_theorems report_rules \<open>the steps of a report\<close>

lemma reports_Some [report_rules]: "sr_like b k r \<Longrightarrow> same_but_tcp s0 s \<Longrightarrow> reports b k s0 (Some (r, s))"
  by (simp add: reports_def)

lemma reports_byte [report_rules]:
  "sr_like b k r \<Longrightarrow> 0 \<le> i \<Longrightarrow> i < 50 \<Longrightarrow> reports b k s0 (f (b ! nat i)) \<Longrightarrow>
   reports b k s0 (Option.bind (aget (sr_rbuf r) i) f)"
  by (auto simp: sr_like_def sr_ok_def aget_def)

lemma reports_own [report_rules]:
  "srs.runs b k 0 f \<Longrightarrow> sr_like b k r \<Longrightarrow> (\<And>r. sr_like b k r \<Longrightarrow> reports b k s0 (g r)) \<Longrightarrow>
   reports b k s0 (Option.bind (f r) g)"
  by (drule (1) srs.runsD) auto

lemma reports_send [report_rules]:
  assumes "length str \<le> 14" "sr_like b k r" "same_but_tcp s0 s"
    "\<And>s. same_but_tcp s0 s \<Longrightarrow> reports b k s0 (g s)"
  shows "reports b k s0 (Option.bind (sr_send str ty r s) g)"
proof -
  from sr_send_ok [of r str ty s] assms(1,2) obtain s' where "sr_send str ty r s = Some s'" "same_but_tcp s s'"
    by (auto simp: sr_like_def)
  then show ?thesis using assms(4) [OF same_but_tcp_trans [OF assms(3)]] by simp
qed

lemma reports_if [report_rules]:
  "(c \<Longrightarrow> reports b k s0 x) \<Longrightarrow> (\<not> c \<Longrightarrow> reports b k s0 y) \<Longrightarrow> reports b k s0 (if c then x else y)"
  by simp

lemma length_dec_bytes: "length (dec_int (push_bit 8 (uint h) OR uint l)) \<le> 14" for h l :: u8
  using length_dec_mk16 [of h l] by (simp add: int_of_bytes)

lemma length_float_bytes: "length (float1 (convertF (push_bit 8 (uint h) OR uint l))) \<le> 8" for h l :: u8
  using length_float_mk16 [of h l] by (simp add: int_of_bytes)

lemma reports_rt1: "sr_like b k r \<Longrightarrow> reports b k s (sr_rt1 r s)"
  unfolding sr_rt1_def Let_def
  by (intro report_rules srs_print srs_int_value length_dec_bytes same_but_tcp_refl
      le_less_trans [OF length_dec_bytes]; assumption?; simp)

lemma reports_adc [report_rules]:
  assumes "sr_like b k r" "\<And>str. length str = 11 \<Longrightarrow> reports b k s0 (f str)"
  shows "reports b k s0 (Option.bind (adc_str r) f)"
  using assms sr_likeD [OF assms(1)] by (auto simp: adc_str_def sr_ok_def aget_def)

lemma reports_rt2: "sr_like b k r \<Longrightarrow> reports b k s (sr_rt2 r s)"
  unfolding sr_rt2_def
  by (intro report_rules srs_byte_value srs_print same_but_tcp_refl; assumption?; simp)

lemma reports_rt3: "sr_like b k r \<Longrightarrow> reports b k s (sr_rt3 r s)"
  unfolding sr_rt3_def
  by (intro report_rules srs_print same_but_tcp_refl; assumption?; simp)

lemma srs_status_if: "srs.runs b k 0 f \<Longrightarrow> (\<And>r. sr_like b k r \<Longrightarrow> sr_like b k (u r)) \<Longrightarrow>
   srs.runs b k 0 (\<lambda>r. if c r then f (u r) else Some r)"
  by (simp add: srs.runs_def)

lemma sr_like_status: "sr_like b k (r\<lparr>status1 := x\<rparr>) = sr_like b k r" "sr_like b k (r\<lparr>status2 := x\<rparr>) = sr_like b k r"
  "sr_like b k (r\<lparr>status3 := x\<rparr>) = sr_like b k r" "sr_like b k (r\<lparr>status4 := x\<rparr>) = sr_like b k r"
  by (simp_all add: sr_like_def sr_ok_def)

lemma srs_status [srs_rules]: "srs.runs b k 0 sr_status"
  unfolding sr_status_def
  by (intro srs_rbuf srs.runs_bind0 srs_status_if srs_print; simp add: sr_like_status)

lemma reports_status: "sr_like b k r \<Longrightarrow> reports b k s (do { r \<leftarrow> sr_status r; Some (r, s) })"
  by (intro report_rules srs_status same_but_tcp_refl; assumption?)

lemma reports_config [report_rules]:
  "length label \<le> 20 \<Longrightarrow> sr_like b k r \<Longrightarrow> 0 \<le> i \<Longrightarrow> i < 49 \<Longrightarrow> (\<And>r. sr_like b k r \<Longrightarrow> reports b k s0 (g r)) \<Longrightarrow>
   reports b k s0 (Option.bind (sr_config_value label i r) g)"
proof -
  assume a: "length label \<le> 20" "0 \<le> i" "i < 49" and r: "sr_like b k r" and g: "\<And>r. sr_like b k r \<Longrightarrow> reports b k s0 (g r)"
  let ?h = "b ! nat (i + 1)" and ?l = "b ! nat i"
  have "length (label @ float1 (convertF (sint (mk16 ?h ?l)))) < 30"
    using a(1) length_float_mk16 [of ?h ?l] by simp
  from srs.runsD [OF srs_print [OF this, of b k] r] obtain r' where
    r': "sr_print (label @ float1 (convertF (sint (mk16 ?h ?l)))) r = Some r'" "sr_like b k r'" by auto
  have "aget (sr_rbuf r) (i + 1) = Some ?h" "aget (sr_rbuf r) i = Some ?l"
    using a r by (auto simp: sr_like_def sr_ok_def aget_def)
  then show ?thesis using r' g by (simp add: sr_config_value_def)
qed

text \<open>
  A temperature: the string of the client message is copied into the three bytes left of \<open>ucbuff\<close>.
\<close>

lemma sr_temp_outcome:
  assumes "sr_like b k r" "0 \<le> l" "l < 27"
  defines "x \<equiv> convertF (push_bit 8 (uint (b ! 1)) OR uint (b ! 2))"
  shows "if 0 \<le> x \<and> x < 10 then reports b k s (sr_temp cmd l r s) else sr_temp cmd l r s = None"
proof -
  define str where "str = float1 x"
  have len: "length str \<le> 8" unfolding str_def x_def by (rule length_float_bytes)
  from srs.runsD [OF srs_print [of str b k] assms(1)] len obtain r1 where
    r1: "sr_print str r = Some r1" "sr_like b k r1" by auto
  from sr_send_ok [OF sr_likeD(1) [OF r1(2)], of str cmd s] len obtain s1 where
    s1: "sr_send str cmd r1 s = Some s1" "same_but_tcp s s1" by auto
  from srs.runsD [OF srs_lcd_head [OF assms(2,3), of b k 18] r1(2)] obtain r2 where
    r2: "lcd_head 18 l r1 = Some r2" "sr_like b k r2" by auto
  have sz: "length (sr_ucbuff r2) = 6" "length (sr_tempx r2) = 30" using r2(2) by (simp_all add: sr_like_def sr_ok_def)
  have "sr_temp cmd l r s = do { u \<leftarrow> memcpy_at (sr_ucbuff r2) 3 (sr_tempx r2) (length str); Some (r2\<lparr>sr_ucbuff := u\<rparr>, s1) }"
    using r1 s1 r2 sr_like_byte [OF assms(1), of 1] sr_like_byte [OF assms(1), of 2]
    by (simp add: sr_temp_def str_def x_def)
  moreover have "length str \<le> 3 \<longleftrightarrow> 0 \<le> x \<and> x < 10" unfolding str_def by (rule float1_short)
  moreover have "sr_like b k (r2\<lparr>sr_ucbuff := u\<rparr>)" if "length u = 6" for u
    using r2(2) that by (auto simp: sr_like_def sr_ok_def)
  ultimately show ?thesis using sz s1(2) by (auto simp: memcpy_at_def reports_def)
qed

lemma reports_values:
  assumes "sr_like b k r"
  defines "x \<equiv> convertF (push_bit 8 (uint (b ! 1)) OR uint (b ! 2))"
  shows "if cmd \<notin> {ENGINE_TEMP, INDOOR_TEMP} \<or> 0 \<le> x \<and> x < 10 then reports b k s (sr_values cmd r s)
     else sr_values cmd r s = None"
  using assms(1) sr_temp_outcome [OF assms(1), of 10 s ENGINE_TEMP] sr_temp_outcome [OF assms(1), of 13 s INDOOR_TEMP]
    reports_rt1 [OF assms(1), of s] reports_rt2 [OF assms(1), of s] reports_rt3 [OF assms(1), of s]
    reports_status [OF assms(1), of s] reports_Some [OF assms(1) same_but_tcp_refl [of s]]
  by (simp add: sr_values_def x_def)

definition finishes :: "u8 list \<Rightarrow> keys \<Rightarrow> 'a sched_scheme \<Rightarrow> (bool \<times> sr \<times> 'a sched_scheme) option \<Rightarrow> bool" where
  "finishes b k s0 res \<longleftrightarrow> (\<exists>fin r s. res = Some (fin, r, s) \<and> sr_like b k r \<and> same_but_tcp s0 s)"

lemma finishes_reports: "reports b k s0 (map_option snd res) \<Longrightarrow> finishes b k s0 res"
  by (auto simp: reports_def finishes_def)

lemma finishes_rest:
  assumes "sr_like b k r" "same_but_tcp s0 s"
  shows "finishes b k s0 (sr_rest cmd r s)"
proof (rule finishes_reports)
  have n: "length (''nav cmd: '' @ dec_nat (unat cmd)) \<le> 14"
    using length_dec_nat [of "unat cmd" 2] unsigned_less [of cmd, where 'a = nat] by simp
  have "map_option snd (sr_rest cmd r s) =
     (if NAV_UP \<le> cmd \<and> cmd \<le> NAV_CLOSE then do {
        r \<leftarrow> sr_print (''nav cmd: '' @ dec_nat (unat cmd)) r;
        s \<leftarrow> sr_send (''nav cmd: '' @ dec_nat (unat cmd)) cmd r s;
        Some (r, s) }
      else if cmd = GET_CONFIG2 then do {
        r \<leftarrow> sr_config_value ''fan on: '' 1 r;
        r \<leftarrow> sr_config_value ''fan off: '' 3 r;
        r \<leftarrow> sr_config_value ''engine temp limit: '' 5 r;
        Some (r, s) }
      else Some (r, s))"
    by (simp add: sr_rest_def Let_def map_option_bind option.map_comp comp_def)
  also have "reports b k s0 \<dots>"
    by (intro report_rules srs_print n le_less_trans [OF n]; (rule assms)?; assumption?; simp)
  finally show "reports b k s0 (map_option snd (sr_rest cmd r s))" .
qed

section \<open>The keys\<close>

text \<open>The commands a key adds, in order, and the new beliefs.\<close>

definition key_log :: "u8 \<Rightarrow> keys \<Rightarrow> u8 list \<times> keys" where
  "key_log key k =
     (if key = KP_1 then ([START_SEQ], k)
      else if key = KP_2 then ([SHUTDOWN], k)
      else if key = KP_3 then
        (if kp_lights_on k \<noteq> 1 then ([], k)
         else if kp_brights k = 0 then ([ON_BRIGHTS], k\<lparr>kp_brights := 1\<rparr>) else ([OFF_BRIGHTS], k\<lparr>kp_brights := 0\<rparr>))
      else if key = KP_4 then
        (if kp_fan_on k = 0 then ([ON_FAN], k\<lparr>kp_fan_on := 1\<rparr>) else ([OFF_FAN], k\<lparr>kp_fan_on := 0\<rparr>))
      else if key = KP_6 then
        (if kp_running_lights k = 0 then ([ON_RUNNING_LIGHTS], k\<lparr>kp_running_lights := 1\<rparr>)
         else ([OFF_RUNNING_LIGHTS], k\<lparr>kp_running_lights := 0\<rparr>))
      else if key = KP_7 then
        (let (c, v) = (if kp_lights_on k = 0 then (ON_LIGHTS, 1) else (OFF_LIGHTS, 0)); k' = k\<lparr>kp_lights_on := v\<rparr>
         in if kp_brights k = 1 then ([c, OFF_BRIGHTS], k'\<lparr>kp_brights := 0\<rparr>) else ([c], k'))
      else if key = KP_8 then
        ([], k\<lparr>kp_wipers := (if kp_wipers k = 0 then 1 else if kp_wipers k = 1 then 2 else 0)\<rparr>)
      else ([], k))"

definition is_key :: "u8 \<Rightarrow> bool" where
  "is_key c \<longleftrightarrow> (KP_1 \<le> c \<and> c \<le> KP_9) \<or> c = KP_0"

text \<open>Commands one after another into the store.\<close>

fun add_all :: "u8 list \<Rightarrow> 'a sched_scheme \<Rightarrow> 'a sched_scheme option" where
  "add_all [] s = Some s"
| "add_all (c # cs) s = do { s \<leftarrow> add_msg_queue c s; add_all cs s }"

lemma add_all_sched:
  assumes "sched_ok s" "msg_queue_ptr s + int (length cs) \<le> 49"
  shows "\<exists>s'. add_all cs s = Some s' \<and> sched_ok s' \<and> pending s' = rev cs @ pending s \<and>
    (\<exists>q. s' = s\<lparr>msg_queue := q, msg_queue_ptr := msg_queue_ptr s + int (length cs)\<rparr>)"
  using assms
proof (induction cs arbitrary: s)
  case Nil
  then show ?case by (auto intro!: exI [of _ "msg_queue s"])
next
  case (Cons c cs)
  then have "msg_queue_ptr s < 49" by simp
  from add_msg_queue_sched [OF Cons.prems(1) this, of c] obtain s1 where
    s1: "add_msg_queue c s = Some s1" "sched_ok s1" "pending s1 = c # pending s"
      "\<exists>q p. s1 = s\<lparr>msg_queue := q, msg_queue_ptr := p\<rparr>" by metis
  have "msg_queue_ptr s1 = msg_queue_ptr s + 1"
  proof -
    have "msgq_ok s" "msgq_ok s1" using Cons.prems(1) s1(2) by (simp_all add: sched_okD)
    then have "int (length (pending s)) = msg_queue_ptr s" "int (length (pending s1)) = msg_queue_ptr s1"
      by (simp_all add: length_pending msgq_ok_def)
    then show ?thesis using s1(3) by simp
  qed
  with Cons.IH [OF s1(2)] Cons.prems(2) obtain s2 where
    "add_all cs s1 = Some s2" "sched_ok s2" "pending s2 = rev cs @ pending s1"
    "\<exists>q. s2 = s1\<lparr>msg_queue := q, msg_queue_ptr := msg_queue_ptr s1 + int (length cs)\<rparr>"
    by fastforce
  then show ?case using s1 \<open>msg_queue_ptr s1 = msg_queue_ptr s + 1\<close> by (auto simp: algebra_simps)
qed

lemma keypad_adds:
  "\<exists>c. \<forall>s :: 'a sched_scheme. keypad key k s =
     map_option (\<lambda>s. (c, snd (key_log key k), s)) (add_all (fst (key_log key k)) s) \<and>
     (is_key key \<longrightarrow> c < 44 \<or> 220 < c)"
  unfolding keypad_def key_log_def is_key_def Let_def map_conv_bind_option
  by (cases "key = KP_1"; cases "key = KP_2"; cases "key = KP_3"; cases "key = KP_4"; cases "key = KP_6";
      cases "key = KP_7"; cases "key = KP_8")
     (auto simp: map_option_bind comp_def word_less_def word_le_def)

lemma key_log_short: "length (fst (key_log key k)) \<le> 2"
  by (simp add: key_log_def Let_def)

text \<open>A frame, in terms of its parts.\<close>

lemma serial_frame_parts:
  assumes "aget fr 0 = Some c" "(if is_key c then keypad c (sr_keys r) s else Some (c, sr_keys r, s)) = Some (c', k, s1)"
  shows "serial_frame fr r s = Option.bind (sr_values c' (r\<lparr>sr_rbuf := fr, sr_keys := k\<rparr>) s1) (\<lambda>(r, s). sr_rest c' r s)"
  using assms by (simp add: serial_frame_def is_key_def Let_def cong: if_cong split del: if_split)

lemma serial_frame_other:
  "aget fr 0 = Some c \<Longrightarrow> \<not> is_key c \<Longrightarrow>
   serial_frame fr r s = Option.bind (sr_values c (r\<lparr>sr_rbuf := fr\<rparr>) s) (\<lambda>(r, s). sr_rest c r s)"
  using serial_frame_parts [of fr c r s c "sr_keys r" s] by (cases r) simp

lemma serial_frame_outcome:
  fixes s :: "'a sched_scheme"
  assumes "sched_ok s" "sr_ok r" "length fr = 50" "msg_queue_ptr s \<le> 47"
  defines "c \<equiv> fr ! 0" and "x \<equiv> convertF (push_bit 8 (uint (fr ! 1)) OR uint (fr ! 2))"
    and "log \<equiv> (if is_key (fr ! 0) then fst (key_log (fr ! 0) (sr_keys r)) else [])"
    and "k \<equiv> (if is_key (fr ! 0) then snd (key_log (fr ! 0) (sr_keys r)) else sr_keys r)"
  shows "c \<notin> {ENGINE_TEMP, INDOOR_TEMP} \<or> 0 \<le> x \<and> x < 10 \<Longrightarrow>
      \<exists>s1. add_all log s = Some s1 \<and> finishes fr k s1 (serial_frame fr r s)"
    "\<not> (c \<notin> {ENGINE_TEMP, INDOOR_TEMP} \<or> 0 \<le> x \<and> x < 10) \<Longrightarrow> serial_frame fr r s = None"
proof -
  have room: "msg_queue_ptr s + int (length log) \<le> 49" using assms(4) key_log_short [of "fr ! 0" "sr_keys r"] by (auto simp: log_def)
  from add_all_sched [OF assms(1) room] obtain s1 where s1: "add_all log s = Some s1" by blast
  obtain c' where c': "(if is_key c then keypad c (sr_keys r) s else Some (c, sr_keys r, s)) = Some (c', k, s1)"
    "is_key c \<and> (c' < 44 \<or> 220 < c') \<or> \<not> is_key c \<and> c' = c"
  proof (cases "is_key c")
    case True
    from keypad_adds [of c "sr_keys r"] obtain c' where
      "keypad c (sr_keys r) s = map_option (\<lambda>s. (c', snd (key_log c (sr_keys r)), s)) (add_all (fst (key_log c (sr_keys r))) s)"
      "is_key c \<longrightarrow> c' < 44 \<or> 220 < c'" by blast
    with True s1 show ?thesis by (intro that [of c']) (simp_all add: log_def k_def c_def)
  next
    case False
    with s1 show ?thesis by (intro that [of c]) (simp_all add: log_def k_def c_def)
  qed
  define r1 where "r1 = r\<lparr>sr_rbuf := fr, sr_keys := k\<rparr>"
  have r1: "sr_like fr k r1" using assms(2,3) by (simp add: sr_like_def sr_ok_def r1_def)
  have "aget fr 0 = Some c" using assms(3) by (simp add: aget_def c_def)
  note f = serial_frame_parts [OF this c'(1), folded r1_def]
  have t: "c' \<notin> {ENGINE_TEMP, INDOOR_TEMP} \<longleftrightarrow> c \<notin> {ENGINE_TEMP, INDOOR_TEMP}"
    using c'(2) by (auto simp: is_key_def word_less_def word_le_def)
  note v = reports_values [OF r1, of c' s1, folded x_def]
  {
    assume "c \<notin> {ENGINE_TEMP, INDOOR_TEMP} \<or> 0 \<le> x \<and> x < 10"
    with v t have "reports fr k s1 (sr_values c' r1 s1)" by auto
    then obtain r2 s2 where "sr_values c' r1 s1 = Some (r2, s2)" "sr_like fr k r2" "same_but_tcp s1 s2"
      by (auto simp: reports_def)
    with finishes_rest [of fr k r2 s1 s2 c'] f s1
    show "\<exists>s1. add_all log s = Some s1 \<and> finishes fr k s1 (serial_frame fr r s)" by simp
  next
    assume "\<not> (c \<notin> {ENGINE_TEMP, INDOOR_TEMP} \<or> 0 \<le> x \<and> x < 10)"
    with v t have "sr_values c' r1 s1 = None" by auto
    with f show "serial_frame fr r s = None" by simp
  }
qed

section \<open>Properties\<close>

text \<open>
  C28: Exactly the cold temperatures are reported safely. With room for two commands, a frame is processed
  without undefined behaviour, and leaves a good state, if and only if it is not a temperature or the
  temperature is from 0 to 9 degrees Fahrenheit: any other is printed with at least four characters,
  which do not fit into the three bytes that \<open>ucbuff\<close> has left.
\<close>

theorem frame_defined_iff:
  assumes "sched_ok s" "sr_ok r" "length fr = 50" "msg_queue_ptr s \<le> 47"
  shows "(\<exists>fin r' s'. serial_frame fr r s = Some (fin, r', s') \<and> sr_ok r' \<and> sched_ok s' \<and>
      msg_queue_ptr s \<le> msg_queue_ptr s' \<and> msg_queue_ptr s' \<le> msg_queue_ptr s + 2)
    \<longleftrightarrow> fr ! 0 \<notin> {ENGINE_TEMP, INDOOR_TEMP} \<or>
      convertF (uint (fr ! 1) * 256 + uint (fr ! 2)) \<in> {0..9}"
proof -
  define log where "log = (if is_key (fr ! 0) then fst (key_log (fr ! 0) (sr_keys r)) else [])"
  have l: "length log \<le> 2" using key_log_short [of "fr ! 0" "sr_keys r"] by (simp add: log_def)
  have room: "msg_queue_ptr s + int (length log) \<le> 49" using assms(4) l by simp
  from add_all_sched [OF assms(1) room] obtain s1 q where
    s1: "add_all log s = Some s1" "sched_ok s1" "s1 = s\<lparr>msg_queue := q, msg_queue_ptr := msg_queue_ptr s + int (length log)\<rparr>" by blast
  have p1: "msg_queue_ptr s1 = msg_queue_ptr s + int (length log)" by (simp add: s1(3))
  note o = serial_frame_outcome [OF assms, folded log_def]
  have fin: "\<exists>fin r' s'. res = Some (fin, r', s') \<and> sr_ok r' \<and> sched_ok s' \<and>
      msg_queue_ptr s \<le> msg_queue_ptr s' \<and> msg_queue_ptr s' \<le> msg_queue_ptr s + 2" if "finishes fr k s1 res" for k res
  proof -
    from that obtain e r' s' where e: "res = Some (e, r', s')" "sr_ok r'" "same_but_tcp s1 s'"
      by (auto simp: finishes_def sr_like_def)
    from same_but_tcp_sched(1,2) [OF e(3)] have "sched_ok s'" "msg_queue_ptr s' = msg_queue_ptr s + int (length log)"
      using s1(2) p1 by simp_all
    with e l show ?thesis by auto
  qed
  let ?x = "convertF (push_bit 8 (uint (fr ! 1)) OR uint (fr ! 2))"
  have x: "convertF (uint (fr ! 1) * 256 + uint (fr ! 2)) = convertF (push_bit 8 (uint (fr ! 1)) OR uint (fr ! 2))"
    by (simp add: int_of_bytes sint_mk16)
  show ?thesis
  proof (cases "fr ! 0 \<notin> {ENGINE_TEMP, INDOOR_TEMP} \<or> 0 \<le> ?x \<and> ?x < 10")
    case True
    from o(1) [OF this] s1(1) obtain k where "finishes fr k s1 (serial_frame fr r s)" by auto
    from fin [OF this] show ?thesis using True unfolding x by (simp only: atLeastAtMost_iff simp_thms) linarith
  next
    case False
    from o(2) [OF this] False show ?thesis unfolding x by (simp only: atLeastAtMost_iff simp_thms) auto
  qed
qed

text \<open>A frame of the engine at 140 degrees Fahrenheit (120 half degrees Celsius), and a start state.\<close>

definition sr0 :: sr where
  "sr0 = \<lparr>sr_keys = \<lparr>kp_brights = 0, kp_fan_on = 0, kp_running_lights = 0, kp_lights_on = 0, kp_wipers = 0\<rparr>,
     sr_tempx = replicate 30 0, sr_ucbuff = replicate 6 0, sr_rbuf = replicate 50 0,
     status1 = 0, status2 = 0, status3 = 0, status4 = 0\<rparr>"

lemma sr0_ok: "sr_ok sr0"
  by (simp add: sr0_def sr_ok_def)

lemma frame_defined_iff_witness:
  "(\<exists>fin r' s'. serial_frame (ENGINE_TEMP # 0 # 120 # replicate 47 0) sr0 sched0 = Some (fin, r', s') \<and> sr_ok r' \<and> sched_ok s' \<and>
      msg_queue_ptr sched0 \<le> msg_queue_ptr s' \<and> msg_queue_ptr s' \<le> msg_queue_ptr sched0 + 2)
    \<longleftrightarrow> (ENGINE_TEMP # 0 # 120 # replicate 47 0) ! 0 \<notin> {ENGINE_TEMP, INDOOR_TEMP} \<or>
      convertF (uint ((ENGINE_TEMP # 0 # 120 # replicate 47 0) ! 1 :: u8) * 256 + uint ((ENGINE_TEMP # 0 # 120 # replicate 47 0) ! 2 :: u8)) \<in> {0..9}"
  by (rule frame_defined_iff [OF sched0_ok sr0_ok]) (simp_all add: sched0_def)

text \<open>
  Commands of the STM32 are dropped. A frame whose command is one of the vehicle's, from
  \<open>ENABLE_START\<close> to \<open>WIPER_OFF\<close> (the thermostat's \<open>ON_FAN\<close> and \<open>OFF_FAN\<close>, \<open>SHUTDOWN\<close> after a wrong
  password), or \<open>TEMP_TOO_HIGH\<close>, changes no record, no relay, no command store, and sends nothing.
\<close>

theorem vehicle_frames_ignored:
  fixes s :: "'a sched_scheme"
  assumes "length fr = 50" "fr ! 0 = c" "ENABLE_START \<le> c \<and> c \<le> WIPER_OFF \<or> c = TEMP_TOO_HIGH"
  shows "serial_frame fr r s = Some (shutdown_all s \<noteq> 0, r\<lparr>sr_rbuf := fr\<rparr>, s)"
proof -
  have a: "aget fr 0 = Some c" using assms(1,2) by (simp add: aget_def)
  have n: "\<not> (KP_1 \<le> c \<and> c \<le> KP_9)" "c \<noteq> KP_0" "c \<notin> {ENGINE_TEMP, INDOOR_TEMP, SEND_RT_VALUES1, SEND_RT_VALUES2,
      SEND_RT_VALUES3, SEND_RT_FPGA_STATUS, GET_CONFIG2}" "\<not> (NAV_UP \<le> c \<and> c \<le> NAV_CLOSE)"
    using assms(3) by (auto simp: word_le_def word_less_def)
  then have v: "sr_values c r' s' = Some (r', s')" "sr_rest c r' s' = Some (shutdown_all s' \<noteq> 0, r', s')"
    for r' and s' :: "'a sched_scheme" by (auto simp add: sr_values_def sr_rest_def)
  have nk: "\<not> is_key c" using n(1,2) by (simp add: is_key_def)
  show ?thesis by (simp add: serial_frame_other [OF a nk] v)
qed

lemma vehicle_frames_ignored_witness:
  "serial_frame (ON_FAN # replicate 49 0) sr0 sched0 =
     Some (shutdown_all sched0 \<noteq> 0, sr0\<lparr>sr_rbuf := ON_FAN # replicate 49 0\<rparr>, sched0)"
  by (rule vehicle_frames_ignored [of _ ON_FAN]) simp_all

text \<open>The bytes of frames on the line, and the frames one after another.\<close>

definition wire :: "u8 list list \<Rightarrow> u8 list" where
  "wire fs = concat (map (\<lambda>f. 0xFF # f) fs)"

fun run_frames :: "u8 list list \<Rightarrow> sr \<Rightarrow> 'a sched_scheme \<Rightarrow> (bool \<times> u8 list list \<times> sr \<times> 'a sched_scheme) option" where
  "run_frames [] r s = Some (False, [], r, s)"
| "run_frames (f # fs) r s = do {
     (fin, r, s) \<leftarrow> serial_frame f r s;
     if fin then Some (True, fs, r, s) else run_frames fs r s
   }"

lemma recv_frame_wire:
  "0xFF \<notin> set junk \<Longrightarrow> length f = 50 \<Longrightarrow> recv_frame (junk @ 0xFF # f @ rest) = Some (f, rest)"
  using dropWhile_append2 [of junk "\<lambda>b. b \<noteq> 0xFF" "0xFF # f @ rest"] by (fastforce simp: recv_frame_def)

lemma serial_loop_wire:
  assumes "\<forall>f \<in> set fs. length f = 50" "length fs \<le> n"
  shows "serial_loop n (wire fs) r s = map_option (\<lambda>(fin, rest, r, s). (fin, wire rest, r, s)) (run_frames fs r s)"
  using assms
proof (induction fs arbitrary: n r s)
  case Nil
  then show ?case by (cases n) (simp_all add: wire_def recv_frame_def)
next
  case (Cons f fs)
  then obtain m where n: "n = Suc m" by (cases n) auto
  have w: "recv_frame (wire (f # fs)) = Some (f, wire fs)"
    using recv_frame_wire [of "[]" f "wire fs"] Cons.prems(1) by (simp add: wire_def)
  have "length fs \<le> m" "\<forall>f \<in> set fs. length f = 50" using Cons.prems n by simp_all
  from Cons.IH [OF this(2,1)] show ?case
    by (simp add: n w split_beta split: option.split bind_split)
qed

text \<open>
  The receiver finds the frames. Whatever was on the line before (without a marker), if whole frames
  follow, the task processes them one after another, whatever bytes they contain, and waits at the end.
\<close>

theorem frames_recovered:
  assumes "0xFF \<notin> set junk" "\<forall>f \<in> set fs. length f = 50" "fs \<noteq> []" "length fs \<le> n"
  shows "serial_loop n (junk @ wire fs) r s =
    map_option (\<lambda>(fin, rest, r, s). (fin, wire rest, r, s)) (run_frames fs r s)"
proof -
  from assms(3) obtain f gs where fs: "fs = f # gs" by (cases fs) auto
  from assms(4) obtain m where n: "n = Suc m" using fs by (cases n) auto
  have "recv_frame (junk @ wire fs) = recv_frame (wire fs)"
    using recv_frame_wire [OF assms(1), of f "wire gs"] recv_frame_wire [of "[]" f "wire gs"] assms(2) fs
    by (simp add: wire_def)
  then have "serial_loop n (junk @ wire fs) r s = serial_loop n (wire fs) r s"
    using recv_frame_wire [of "[]" f "wire gs"] assms(2) fs by (simp add: n wire_def)
  with serial_loop_wire [OF assms(2,4)] show ?thesis by (simp add: split_beta)
qed

lemma frames_recovered_witness:
  "serial_loop 3 ([1, 2] @ wire [KP_1 # replicate 49 0xFF, KP_7 # replicate 49 0]) sr0 sched0 =
    map_option (\<lambda>(fin, rest, r, s). (fin, wire rest, r, s))
      (run_frames [KP_1 # replicate 49 0xFF, KP_7 # replicate 49 0] sr0 sched0)"
  by (rule frames_recovered) simp_all

text \<open>What a log of commands does to the lights; \<open>None\<close> is a command that makes no sense.\<close>

definition light_step :: "bool \<times> bool \<Rightarrow> u8 \<Rightarrow> (bool \<times> bool) option" where
  "light_step = (\<lambda>(l, b) c.
     if c = ON_LIGHTS then (if l then None else Some (True, b))
     else if c = OFF_LIGHTS then (if l then Some (False, b) else None)
     else if c = ON_BRIGHTS then (if l \<and> \<not> b then Some (l, True) else None)
     else if c = OFF_BRIGHTS then (if b then Some (l, False) else None)
     else Some (l, b))"

fun light_run :: "bool \<times> bool \<Rightarrow> u8 list \<Rightarrow> (bool \<times> bool) option" where
  "light_run st [] = Some st"
| "light_run st (c # cs) = do { st \<leftarrow> light_step st c; light_run st cs }"

definition belief :: "keys \<Rightarrow> bool \<times> bool" where
  "belief k = (kp_lights_on k = 1, kp_brights k = 1)"

definition keys_ok :: "keys \<Rightarrow> bool" where
  "keys_ok k \<longleftrightarrow> kp_lights_on k \<in> {0, 1} \<and> kp_brights k \<in> {0, 1} \<and> (kp_brights k = 1 \<longrightarrow> kp_lights_on k = 1)"

lemma light_run_append: "light_run st (xs @ ys) = do { st \<leftarrow> light_run st xs; light_run st ys }"
  by (induction xs arbitrary: st) (simp_all add: split: bind_split)

lemma key_log_legal:
  "keys_ok k \<Longrightarrow> light_run (belief k) (fst (key_log key k)) = Some (belief (snd (key_log key k))) \<and>
     keys_ok (snd (key_log key k)) \<and> set (fst (key_log key k)) \<inter> {WIPER1, WIPER2, WIPER_OFF} = {}"
  by (auto simp: keys_ok_def key_log_def belief_def light_step_def Let_def)

lemma key_frame:
  fixes s :: "'a sched_scheme"
  assumes "length fr = 50" "is_key (fr ! 0)"
  shows "serial_frame fr r s = map_option (\<lambda>s. (shutdown_all s \<noteq> 0,
    r\<lparr>sr_rbuf := fr, sr_keys := snd (key_log (fr ! 0) (sr_keys r))\<rparr>, s)) (add_all (fst (key_log (fr ! 0) (sr_keys r))) s)"
proof -
  let ?key = "fr ! 0"
  have a: "aget fr 0 = Some ?key" using assms(1) by (simp add: aget_def)
  from keypad_adds [of ?key "sr_keys r"] obtain c' where
    kp: "keypad ?key (sr_keys r) s = map_option (\<lambda>s. (c', snd (key_log ?key (sr_keys r)), s)) (add_all (fst (key_log ?key (sr_keys r))) s)"
    and c: "c' < 44 \<or> 220 < c'" using assms(2) by blast
  have v: "sr_values c' r' s' = Some (r', s')" "sr_rest c' r' s' = Some (shutdown_all s' \<noteq> 0, r', s')"
    for r' and s' :: "'a sched_scheme" using c by (auto simp: sr_values_def sr_rest_def word_le_def word_less_def)
  show ?thesis
  proof (cases "add_all (fst (key_log ?key (sr_keys r))) s")
    case None
    with kp assms(2) a show ?thesis by (simp add: serial_frame_def is_key_def cong: if_cong split del: if_split)
  next
    case (Some s1)
    with kp assms(2) have "(if is_key ?key then keypad ?key (sr_keys r) s else Some (?key, sr_keys r, s)) =
      Some (c', snd (key_log ?key (sr_keys r)), s1)" by simp
    from serial_frame_parts [OF a this] Some show ?thesis by (simp add: v)
  qed
qed



text \<open>A number printed into the buffer is read back from what \<open>send_msg\<close> takes of the buffer.\<close>

lemma printed_number:
  assumes "0 \<le> v" "length (dec_int v) < length buf"
  shows "atoi (take (Suc (2 * length (dec_int v))) (bytes_of (dec_int v) @ 0 # rest)) = Some v"
proof -
  let ?d = "bytes_of (dec_nat (nat v))"
  have d: "dec_int v = dec_nat (nat v)" using assms(1) by (simp add: dec_int_def)
  have l: "0 < length (dec_nat (nat v))" using dec_nat_digits [of "nat v"] by simp
  have "take (Suc (2 * length (dec_int v))) (bytes_of (dec_int v) @ 0 # rest) =
      ?d @ 0 # take (length (dec_nat (nat v))) rest"
    by (simp add: d)
  moreover have "atoi (?d @ 0 # ys) = Some v" for ys
    using atoi_terminated [of ?d ys] dec_nat_digits [of "nat v"] assms(1) by (auto simp: bytes_of_def)
  ultimately show ?thesis by simp
qed

lemma sr_print_eq:
  "length str < length (sr_tempx r) \<Longrightarrow>
   sr_print str r = Some (r\<lparr>sr_tempx := bytes_of str @ 0 # drop (Suc (length str)) (sr_tempx r)\<rparr>)"
  by (simp add: sr_print_def cstr_into_def)

lemma sr_send_eq:
  assumes "sock_open s \<noteq> 0" "send_fails s = []" "2 * length str < length (sr_tempx r)"
  shows "sr_send str ty r s = Some (s\<lparr>same_msg := 0, tcp_out := tcp_out s @ frame (2 * int (length str)) (sr_tempx r) ty\<rparr>)"
  using send_msg_good [OF assms(1,2), of "int (length str) * 2" "sr_tempx r" ty] assms
  by (simp add: sr_send_def send_str_def test_sock_def mult.commute)

lemma speeds_sent:
  fixes s :: "'a sched_scheme"
  assumes "sr_ok r" "length fr = 50" "fr ! 0 = SEND_RT_VALUES1" "sock_open s \<noteq> 0" "send_fails s = []"
  shows "\<exists>r' n1 t1 n2 t2. serial_frame fr r s = Some (shutdown_all s \<noteq> 0, r', s\<lparr>same_msg := 0,
      tcp_out := tcp_out s @ frame n1 t1 SEND_RPM @ frame n2 t2 SEND_MPH\<rparr>) \<and> sr_ok r' \<and>
    atoi (take (Suc (nat n1)) t1) = Some (uint (fr ! 2) * 256 + uint (fr ! 1)) \<and>
    atoi (take (Suc (nat n2)) t2) = Some (uint (fr ! 4) * 256 + uint (fr ! 3))"
proof -
  let ?r0 = "r\<lparr>sr_rbuf := fr\<rparr>"
  have r0: "sr_like fr (sr_keys r) ?r0" using assms(1,2) by (simp add: sr_like_def sr_ok_def)
  define l1 h1 l2 h2 where "l1 = fr ! 1" and "h1 = fr ! 2" and "l2 = fr ! 3" and "h2 = fr ! 4"
  define rpm mph where "rpm = sint (mk16 h1 l1)" and "mph = sint (mk16 h2 l2)"
  have v: "rpm = uint (fr ! 2) * 256 + uint (fr ! 1)" "mph = uint (fr ! 4) * 256 + uint (fr ! 3)"
    by (simp_all add: rpm_def mph_def sint_mk16 l1_def h1_def l2_def h2_def)
  have l: "length (dec_int rpm) < 7" "length (dec_int mph) < 7" unfolding rpm_def mph_def by (rule length_dec_mk16)+
  define t1 where "t1 = bytes_of (dec_int rpm) @ 0 # drop (Suc (length (dec_int rpm))) (sr_tempx r)"
  define t2 where "t2 = bytes_of (dec_int mph) @ 0 # drop (Suc (length (dec_int mph))) t1"
  have t: "length (sr_tempx r) = 30" "length t1 = 30" "length t2 = 30"
    using assms(1) l by (simp_all add: sr_ok_def t1_def t2_def)
  let ?r1 = "?r0\<lparr>sr_tempx := t1\<rparr>" and ?r2 = "?r0\<lparr>sr_tempx := t2\<rparr>"
  let ?s1 = "s\<lparr>same_msg := 0, tcp_out := tcp_out s @ frame (2 * int (length (dec_int rpm))) t1 SEND_RPM\<rparr>"
  let ?s2 = "s\<lparr>same_msg := 0, tcp_out := tcp_out s @ frame (2 * int (length (dec_int rpm))) t1 SEND_RPM @
     frame (2 * int (length (dec_int mph))) t2 SEND_MPH\<rparr>"
  have p1: "sr_print (dec_int rpm) ?r0 = Some ?r1" using t l by (simp add: sr_print_eq t1_def)
  have p2: "sr_print (dec_int mph) ?r1 = Some ?r2" using t l by (simp add: sr_print_eq t2_def)
  have s1: "sr_send (dec_int rpm) SEND_RPM ?r1 s = Some ?s1" using assms(4,5) t l by (simp add: sr_send_eq)
  have s2: "sr_send (dec_int mph) SEND_MPH ?r2 ?s1 = Some ?s2" using assms(4,5) t l by (simp add: sr_send_eq)
  have r2: "sr_like fr (sr_keys r) ?r2" using assms(1,2) t by (simp add: sr_like_def sr_ok_def)
  from srs.runsD [OF srs_int_value r2, of 7 rpm] obtain r3 where
    r3: "sr_int_value 7 rpm ?r2 = Some r3" "sr_like fr (sr_keys r) r3" by auto
  from srs.runsD [OF srs_int_value r3(2), of 8 mph] obtain r4 where
    r4: "sr_int_value 8 mph r3 = Some r4" "sr_like fr (sr_keys r) r4" by auto
  have b: "aget fr 1 = Some l1" "aget fr 2 = Some h1" "aget fr 3 = Some l2" "aget fr 4 = Some h2"
    using assms(2) by (simp_all add: aget_def l1_def h1_def l2_def h2_def)
  have f: "sr_rt1 ?r0 s = Some (r4, ?s2)"
    unfolding sr_rt1_def Let_def
    by (simp add: b int_of_bytes p1 p2 s1 s2 r3(1) r4(1) flip: rpm_def mph_def)
  have a: "aget fr 0 = Some SEND_RT_VALUES1" using assms(2,3) by (simp add: aget_def)
  have "serial_frame fr r s = Some (shutdown_all s \<noteq> 0, r4, ?s2)"
    by (simp add: serial_frame_other [OF a] is_key_def sr_values_def f sr_rest_def)
  moreover have "atoi (take (Suc (nat (2 * int (length (dec_int rpm))))) t1) = Some rpm"
    "atoi (take (Suc (nat (2 * int (length (dec_int mph))))) t2) = Some mph"
    using printed_number [of rpm "sr_tempx r" "drop (Suc (length (dec_int rpm))) (sr_tempx r)", folded t1_def]
      printed_number [of mph t1 "drop (Suc (length (dec_int mph))) t1", folded t2_def] l t
    by (simp_all add: v nat_mult_distrib)
  ultimately show ?thesis using r4(2) v by (auto simp: sr_like_def)
qed

text \<open>
  Speeds reach the client as numbers. From a frame with \<open>rpm\<close> and \<open>mph\<close>, low bytes first, the client is
  sent two messages whose texts read as these two numbers.
\<close>

theorem speeds_reported:
  fixes s :: "'a sched_scheme"
  assumes "sr_ok r" "length fr = 50" "fr ! 0 = SEND_RT_VALUES1" "sock_open s \<noteq> 0" "send_fails s = []"
  shows "\<exists>r' n1 t1 n2 t2. serial_frame fr r s = Some (shutdown_all s \<noteq> 0, r', s\<lparr>same_msg := 0,
      tcp_out := tcp_out s @ frame n1 t1 SEND_RPM @ frame n2 t2 SEND_MPH\<rparr>) \<and> sr_ok r' \<and>
    atoi (take (Suc (nat n1)) t1) = Some (uint (fr ! 2) * 256 + uint (fr ! 1)) \<and>
    atoi (take (Suc (nat n2)) t2) = Some (uint (fr ! 4) * 256 + uint (fr ! 3))"
  by (rule speeds_sent [OF assms])

lemma speeds_reported_witness:
  "\<exists>r' n1 t1 n2 t2. serial_frame (SEND_RT_VALUES1 # 0xB8 # 0x0B # 55 # 0 # replicate 45 0) sr0 sched0 =
      Some (shutdown_all sched0 \<noteq> 0, r', sched0\<lparr>same_msg := 0,
      tcp_out := tcp_out sched0 @ frame n1 t1 SEND_RPM @ frame n2 t2 SEND_MPH\<rparr>) \<and> sr_ok r' \<and>
    atoi (take (Suc (nat n1)) t1) = Some 3000 \<and> atoi (take (Suc (nat n2)) t2) = Some 55"
  using speeds_reported [OF sr0_ok, of "SEND_RT_VALUES1 # 0xB8 # 0x0B # 55 # 0 # replicate 45 0" sched0]
  by (simp add: sched0_def)

end
