(* ===== verification/TcpMon.thy ===== *)
theory TcpMon
  imports Controls
begin

text \<open>
  The task that waits for a client (\<open>tcp_monitor_task\<close> of \<open>thread_io/tasks.c\<close>). It owns the flag
  \<open>sock_open\<close>: while a client is connected it only watches for the end of the program, otherwise it
  waits in \<open>accept\<close> and greets the client with the state of the engine. The result of \<open>accept\<close> is
  the environment's; creating the socket and binding it is left out. \<open>tempx\<close> is the local buffer of 20 bytes.
\<close>

definition tcp_start :: "'a links_scheme \<Rightarrow> 'a links_scheme" where
  "tcp_start s = s\<lparr>sock_open := 0\<rparr>"

text \<open>One round; the first component says whether the task ends.\<close>

definition tcp_round :: "int \<Rightarrow> u8 list \<Rightarrow> 'a sched_scheme \<Rightarrow> (bool \<times> u8 list \<times> 'a sched_scheme) option" where
  "tcp_round global_socket tempx s =
     (if test_sock s \<noteq> 0 then
        (if shutdown_all s \<noteq> 0 then Some (True, tempx, close_tcp s) else Some (False, tempx, s))
      else if global_socket < 0 then Some (True, tempx, s)
      else do {
        let s = (if global_socket > 0 then s\<lparr>sock_open := 1\<rparr> else s);
        let str = (if engine_running s \<noteq> 0 then ''START_SEQ'' else ''SHUTDOWN'');
        tempx \<leftarrow> cstr_into tempx str;
        s \<leftarrow> send_str tempx str SEND_MSG s;
        Some (shutdown_all s \<noteq> 0, tempx, s)
      })"

text \<open>The greeting fits the buffer, with the bytes that \<open>send_msg\<close> reads beyond it.\<close>

lemma tcp_round_defined:
  assumes "length tempx = 20"
  shows "\<exists>fin t s'. tcp_round acc tempx s = Some (fin, t, s') \<and> length t = 20 \<and> same_but_tcp s s'"
proof -
  define s1 where "s1 = (if acc > 0 then s\<lparr>sock_open := 1\<rparr> else s)"
  define str where "str = (if engine_running s1 \<noteq> 0 then ''START_SEQ'' else ''SHUTDOWN'')"
  have l: "length str \<le> 9" by (simp add: str_def)
  then obtain t where t: "cstr_into tempx str = Some t" "length t = 20" using assms by (simp add: cstr_into_def)
  from send_msg_safe [of "int (length str) * 2" t SEND_MSG s1] l t(2) obtain s2 where
    s2: "send_msg (int (length str) * 2) t SEND_MSG s1 = Some s2" "same_but_tcp s1 s2" by auto
  have "same_but_tcp s s1" by (simp add: s1_def same_but_tcp_def)
  with s2 have "same_but_tcp s s2" using same_but_tcp_trans by blast
  moreover have "same_but_tcp s (close_tcp s)" by (simp add: same_but_tcp_def close_tcp_def)
  ultimately show ?thesis
    using assms t s2(1) by (auto simp: tcp_round_def Let_def send_str_def simp flip: s1_def str_def)
qed

text \<open>A client that connects is told whether the engine runs.\<close>

lemma client_greeted:
  assumes "sock_open s = 0" "send_fails s = []" "acc > 0" "length tempx = 20"
  defines "str \<equiv> (if engine_running s \<noteq> 0 then ''START_SEQ'' else ''SHUTDOWN'')"
  shows "\<exists>t. tcp_round acc tempx s = Some (shutdown_all s \<noteq> 0, t, s\<lparr>sock_open := 1, same_msg := 0,
     tcp_out := tcp_out s @ frame (2 * int (length str)) t SEND_MSG\<rparr>) \<and> take (Suc (length str)) t = bytes_of str @ [0]"
proof -
  let ?s = "s\<lparr>sock_open := 1\<rparr>"
  have l: "length str \<le> 9" by (simp add: str_def)
  define t where "t = bytes_of str @ 0 # drop (Suc (length str)) tempx"
  have t: "cstr_into tempx str = Some t" "length t = 20" using assms(4) l by (simp_all add: cstr_into_def t_def)
  have e: "(if engine_running ?s \<noteq> 0 then ''START_SEQ'' else ''SHUTDOWN'') = str" by (simp add: str_def)
  have "send_msg (int (length str) * 2) t SEND_MSG ?s =
      Some (?s\<lparr>same_msg := 0, tcp_out := tcp_out s @ frame (2 * int (length str)) t SEND_MSG\<rparr>)"
    using send_msg_good [of ?s "int (length str) * 2" t SEND_MSG] assms(2) l t(2) by (simp add: mult.commute)
  then have "tcp_round acc tempx s = Some (shutdown_all s \<noteq> 0, t, ?s\<lparr>same_msg := 0,
     tcp_out := tcp_out s @ frame (2 * int (length str)) t SEND_MSG\<rparr>)"
    using assms(1,3) t(1) unfolding tcp_round_def Let_def
    by (simp add: test_sock_def send_str_def e [simplified])
  then show ?thesis using l by (auto simp: t_def)
qed

end
