(* ===== verification/RdWr.thy ===== *)
theory RdWr
  imports Prelude
begin

text \<open>
  The reader/writer lock of the output database (\<open>thread_io/queue/rdwr.c\<close>). Each function is split
  where it can wait: the test of its \<open>while\<close> loop, made with the mutex held, either takes the lock or puts the
  thread to sleep on the condition. A step of the system is one such region of one thread; a
  sleeping thread may also wake up without being signalled, as POSIX allows.
\<close>

section \<open>The functions\<close>

record rdwr =
  readers_reading :: int
  writer_writing :: int

datatype wake = No_wake | Signal | Broadcast

definition rdwr_init :: rdwr where
  "rdwr_init = \<lparr>readers_reading = 0, writer_writing = 0\<rparr>"

text \<open>\<open>None\<close> is \<open>pthread_cond_wait\<close>.\<close>

definition rdwr_rlock :: "rdwr \<Rightarrow> rdwr option" where
  "rdwr_rlock rw = (if writer_writing rw \<noteq> 0 then None else Some (rw\<lparr>readers_reading := readers_reading rw + 1\<rparr>))"

definition rdwr_runlock :: "rdwr \<Rightarrow> int \<times> wake \<times> rdwr" where
  "rdwr_runlock rw =
     (if readers_reading rw = 0 then (-1, No_wake, rw)
      else
        let rw = rw\<lparr>readers_reading := readers_reading rw - 1\<rparr>
        in (0, if readers_reading rw = 0 then Signal else No_wake, rw))"

definition rdwr_wlock :: "rdwr \<Rightarrow> rdwr option" where
  "rdwr_wlock rw = (if writer_writing rw \<noteq> 0 \<or> readers_reading rw \<noteq> 0 then None
     else Some (rw\<lparr>writer_writing := writer_writing rw + 1\<rparr>))"

definition rdwr_wunlock :: "rdwr \<Rightarrow> int \<times> wake \<times> rdwr" where
  "rdwr_wunlock rw =
     (if writer_writing rw = 0 then (-1, No_wake, rw) else (0, Broadcast, rw\<lparr>writer_writing := 0\<rparr>))"

section \<open>Threads\<close>

datatype pc = Idle | Want_read | Want_write | Sleep_read | Sleep_write | Reading | Writing

fun awake :: "pc \<Rightarrow> pc" where
  "awake Sleep_read = Want_read"
| "awake Sleep_write = Want_write"
| "awake p = p"

definition asleep :: "pc \<Rightarrow> bool" where
  "asleep p \<longleftrightarrow> p = Sleep_read \<or> p = Sleep_write"

definition wanting :: "pc \<Rightarrow> bool" where
  "wanting p \<longleftrightarrow> p = Want_read \<or> p = Want_write"

text \<open>\<open>pthread_cond_signal\<close> wakes one sleeping thread, if there is one; \<open>pthread_cond_broadcast\<close> all of them.\<close>

inductive wakes :: "wake \<Rightarrow> pc list \<Rightarrow> pc list \<Rightarrow> bool" where
  no_wake: "wakes No_wake ps ps"
| signal_none: "\<forall>p \<in> set ps. \<not> asleep p \<Longrightarrow> wakes Signal ps ps"
| signal_one: "t < length ps \<Longrightarrow> asleep (ps ! t) \<Longrightarrow> wakes Signal ps (ps[t := awake (ps ! t)])"
| broadcast: "wakes Broadcast ps (map awake ps)"

inductive_simps wakes_simps: "wakes No_wake ps qs" "wakes Broadcast ps qs"
inductive_cases wakes_signal: "wakes Signal ps qs"

inductive rw_step :: "rdwr \<times> pc list \<Rightarrow> rdwr \<times> pc list \<Rightarrow> bool" where
  call_read: "t < length ps \<Longrightarrow> ps ! t = Idle \<Longrightarrow> rw_step (rw, ps) (rw, ps[t := Want_read])"
| call_write: "t < length ps \<Longrightarrow> ps ! t = Idle \<Longrightarrow> rw_step (rw, ps) (rw, ps[t := Want_write])"
| enter_read: "t < length ps \<Longrightarrow> ps ! t = Want_read \<Longrightarrow> rdwr_rlock rw = Some rw' \<Longrightarrow>
    rw_step (rw, ps) (rw', ps[t := Reading])"
| sleep_read: "t < length ps \<Longrightarrow> ps ! t = Want_read \<Longrightarrow> rdwr_rlock rw = None \<Longrightarrow>
    rw_step (rw, ps) (rw, ps[t := Sleep_read])"
| enter_write: "t < length ps \<Longrightarrow> ps ! t = Want_write \<Longrightarrow> rdwr_wlock rw = Some rw' \<Longrightarrow>
    rw_step (rw, ps) (rw', ps[t := Writing])"
| sleep_write: "t < length ps \<Longrightarrow> ps ! t = Want_write \<Longrightarrow> rdwr_wlock rw = None \<Longrightarrow>
    rw_step (rw, ps) (rw, ps[t := Sleep_write])"
| leave_read: "t < length ps \<Longrightarrow> ps ! t = Reading \<Longrightarrow> rdwr_runlock rw = (rc, w, rw') \<Longrightarrow>
    wakes w (ps[t := Idle]) qs \<Longrightarrow> rw_step (rw, ps) (rw', qs)"
| leave_write: "t < length ps \<Longrightarrow> ps ! t = Writing \<Longrightarrow> rdwr_wunlock rw = (rc, w, rw') \<Longrightarrow>
    wakes w (ps[t := Idle]) qs \<Longrightarrow> rw_step (rw, ps) (rw', qs)"
| spurious: "t < length ps \<Longrightarrow> asleep (ps ! t) \<Longrightarrow> rw_step (rw, ps) (rw, ps[t := awake (ps ! t)])"

inductive rw_reach :: "nat \<Rightarrow> rdwr \<times> pc list \<Rightarrow> bool" for n where
  start: "rw_reach n (rdwr_init, replicate n Idle)"
| step: "rw_reach n s \<Longrightarrow> rw_step s s' \<Longrightarrow> rw_reach n s'"

section \<open>Counting threads\<close>

definition reading :: "pc \<Rightarrow> bool" where "reading p \<longleftrightarrow> p = Reading"
definition writing :: "pc \<Rightarrow> bool" where "writing p \<longleftrightarrow> p = Writing"

lemma pc_classes [simp]:
  "\<not> asleep Idle" "\<not> asleep Want_read" "\<not> asleep Want_write" "asleep Sleep_read" "asleep Sleep_write"
  "\<not> asleep Reading" "\<not> asleep Writing" "\<not> wanting Idle" "wanting Want_read" "wanting Want_write"
  "\<not> wanting Sleep_read" "\<not> wanting Sleep_write" "\<not> wanting Reading" "\<not> wanting Writing"
  "reading Reading" "\<not> reading Idle" "\<not> reading Want_read" "\<not> reading Want_write" "\<not> reading Sleep_read"
  "\<not> reading Sleep_write" "\<not> reading Writing"
  "writing Writing" "\<not> writing Idle" "\<not> writing Want_read" "\<not> writing Want_write" "\<not> writing Sleep_read"
  "\<not> writing Sleep_write" "\<not> writing Reading"
  by (simp_all add: asleep_def wanting_def reading_def writing_def)

lemma awake_classes [simp]: "\<not> asleep (awake p)" "reading (awake p) = reading p" "writing (awake p) = writing p"
  by (cases p; simp)+

lemma asleep_classes: "asleep p \<Longrightarrow> wanting (awake p) \<and> \<not> wanting p \<and> \<not> reading p \<and> \<not> writing p"
  by (auto simp: asleep_def)

lemma cnt_map_awake [simp]:
  "cnt reading (map awake ps) = cnt reading ps" "cnt writing (map awake ps) = cnt writing ps"
  "cnt asleep (map awake ps) = 0"
  by (induction ps) auto

section \<open>The invariant\<close>

text \<open>
  The counters are the numbers of threads inside, a writer is alone, and a thread sleeps only while
  another one is inside or about to test.
\<close>

definition rw_inv :: "rdwr \<times> pc list \<Rightarrow> bool" where
  "rw_inv = (\<lambda>(rw, ps). readers_reading rw = cnt reading ps \<and> writer_writing rw = cnt writing ps \<and>
     writer_writing rw \<le> 1 \<and> (writer_writing rw = 0 \<or> readers_reading rw = 0) \<and>
     (cnt asleep ps = 0 \<or> 1 \<le> cnt reading ps + cnt writing ps + cnt wanting ps))"

lemmas rw_fun_defs = rdwr_rlock_def rdwr_runlock_def rdwr_wlock_def rdwr_wunlock_def

lemma rw_inv_init: "rw_inv (rdwr_init, replicate n Idle)"
proof -
  have "P Idle \<or> cnt P (replicate n Idle) = 0" for P by (induction n) auto
  then have "cnt reading (replicate n Idle) = 0" "cnt writing (replicate n Idle) = 0" "cnt asleep (replicate n Idle) = 0"
    using pc_classes by blast+
  then show ?thesis by (simp add: rw_inv_def rdwr_init_def)
qed

text \<open>A reader leaves: the last one wakes a sleeper, if there is one.\<close>

lemma reader_leaves:
  assumes l: "t < length ps" "ps ! t = Reading" "rdwr_runlock rw = (rc, w, rw')" "wakes w (ps[t := Idle]) qs" "rw_inv (rw, ps)"
  shows "rw_inv (rw', qs)"
proof -
  let ?ps = "ps[t := Idle]"
  have pos: "1 \<le> cnt reading ps" using l by (intro cnt_pos) auto
  have inv: "readers_reading rw = cnt reading ps" "writer_writing rw = 0" "cnt writing ps = 0"
    using l(5) pos by (auto simp: rw_inv_def)
  have c: "cnt reading ?ps = cnt reading ps - 1" "cnt writing ?ps = 0"
    using l(1,2) inv by (simp_all add: cnt_update)
  have rw': "rw' = rw\<lparr>readers_reading := cnt reading ps - 1\<rparr>" "w = (if cnt reading ps = 1 then Signal else No_wake)"
    using l(3) pos inv by (auto simp: rw_fun_defs Let_def)
  show ?thesis
  proof (cases "w = Signal")
    case True
    then have one: "cnt reading ps = 1" using rw'(2) by (simp split: if_splits)
    from l(4) True have "wakes Signal ?ps qs" by simp
    then show ?thesis
    proof (rule wakes_signal)
      assume q: "qs = ?ps" "\<forall>p \<in> set ?ps. \<not> asleep p"
      then have "cnt asleep qs = 0" unfolding cnt_zero by blast
      then show ?thesis using q(1) c rw' inv one by (simp add: rw_inv_def)
    next
      fix u assume q: "qs = ?ps[u := awake (?ps ! u)]" "u < length ?ps" "asleep (?ps ! u)"
      then have "1 \<le> cnt wanting qs" using asleep_classes [of "?ps ! u"] by (intro cnt_pos [of u]) auto
      moreover have "cnt reading qs = 0" "cnt writing qs = 0"
        unfolding q(1) using q(2) c one asleep_classes [OF q(3)] by (simp_all only: cnt_update) simp_all
      ultimately show ?thesis using rw' inv one by (simp add: rw_inv_def)
    qed
  next
    case False
    then have "qs = ?ps" "2 \<le> cnt reading ps" using l(4) rw'(2) pos by (auto simp: wakes_simps split: if_splits)
    then show ?thesis using c rw' inv cnt_nonneg [of wanting ?ps] by (simp add: rw_inv_def)
  qed
qed

lemma rw_inv_step:
  assumes "rw_step s s'" "rw_inv s"
  shows "rw_inv s'"
  using assms
proof (induction rule: rw_step.induct)
  case (enter_read t ps rw rw')
  then show ?case using cnt_nonneg [of reading ps] cnt_nonneg [of writing ps] cnt_pos [of t ps wanting]
    by (auto simp: rw_inv_def rw_fun_defs cnt_update split: if_splits)
next
  case (sleep_read t ps rw)
  then show ?case using cnt_nonneg [of writing ps] cnt_nonneg [of reading ps] cnt_pos [of t ps wanting]
    by (auto simp: rw_inv_def rw_fun_defs cnt_update split: if_splits)
next
  case (enter_write t ps rw rw')
  then show ?case using cnt_nonneg [of reading ps] cnt_pos [of t ps wanting]
    by (auto simp: rw_inv_def rw_fun_defs cnt_update split: if_splits)
next
  case (sleep_write t ps rw)
  then show ?case using cnt_nonneg [of writing ps] cnt_nonneg [of reading ps] cnt_pos [of t ps wanting]
    by (auto simp: rw_inv_def rw_fun_defs cnt_update split: if_splits)
next
  case (leave_read t ps rw rc w rw' qs)
  then show ?case by (auto intro: reader_leaves)
next
  case (leave_write t ps rw rc w rw' qs)
  then have pos: "1 \<le> cnt writing ps" by (intro cnt_pos) auto
  with leave_write show ?case
    by (auto simp: rw_inv_def rw_fun_defs cnt_update wakes_simps split: if_splits)
next
  case (spurious t ps rw)
  then show ?case using asleep_classes [of "ps ! t"] cnt_nonneg [of reading ps] cnt_nonneg [of writing ps] cnt_nonneg [of wanting ps]
    by (auto simp: rw_inv_def cnt_update)
qed (auto simp: rw_inv_def cnt_update)

lemma rw_reach_inv: "rw_reach n s \<Longrightarrow> rw_inv s"
  by (induction rule: rw_reach.induct) (auto simp: rw_inv_init intro: rw_inv_step)


section \<open>Properties\<close>

text \<open>
  C26: Mutual exclusion. Whatever the threads do, at most one of them is in a writer's section, and then none
  is in a reader's; and a thread that leaves a section it is in gets 0, not \<open>-1\<close>, from the unlock.
\<close>

theorem rdwr_mutual_exclusion:
  assumes "rw_reach n (rw, ps)" "t < length ps" "u < length ps" "ps ! t = Writing"
  shows "ps ! u \<noteq> Reading \<and> (ps ! u = Writing \<longrightarrow> u = t) \<and> fst (rdwr_wunlock rw) = 0"
proof -
  have inv: "rw_inv (rw, ps)" using rw_reach_inv [OF assms(1)] .
  have w: "1 \<le> cnt writing ps" using cnt_pos [OF assms(2), of writing] assms(4) by simp
  have "ps ! u \<noteq> Reading"
  proof
    assume "ps ! u = Reading"
    then have "1 \<le> cnt reading ps" using cnt_pos [OF assms(3), of reading] by simp
    then show False using inv w by (auto simp: rw_inv_def)
  qed
  moreover have "u = t" if "ps ! u = Writing"
  proof (rule ccontr)
    assume "u \<noteq> t"
    then have "1 \<le> cnt writing (ps[t := Idle])" using that assms(3) by (intro cnt_pos [of u]) auto
    then show False using inv assms(2,4) by (auto simp: rw_inv_def cnt_update)
  qed
  ultimately show ?thesis using inv w by (auto simp: rw_inv_def rdwr_wunlock_def)
qed

text \<open>Two threads, one of which writes while the other one waits.\<close>

lemma rw_reach_write: "rw_reach 2 (\<lparr>readers_reading = 0, writer_writing = 1\<rparr>, [Writing, Sleep_read])"
proof -
  have s0: "rw_reach 2 (rdwr_init, [Idle, Idle])" using rw_reach.start [of 2] by (simp add: numeral_2_eq_2)
  have s1: "rw_reach 2 (rdwr_init, [Want_write, Idle])"
    using rw_reach.step [OF s0 call_write [of 0]] by simp
  have s2: "rw_reach 2 (\<lparr>readers_reading = 0, writer_writing = 1\<rparr>, [Writing, Idle])"
    using rw_reach.step [OF s1 enter_write [of 0]] by (simp add: rdwr_wlock_def rdwr_init_def)
  have s3: "rw_reach 2 (\<lparr>readers_reading = 0, writer_writing = 1\<rparr>, [Writing, Want_read])"
    using rw_reach.step [OF s2 call_read [of 1]] by simp
  show ?thesis using rw_reach.step [OF s3 sleep_read [of 1]] by (simp add: rdwr_rlock_def)
qed

lemma rdwr_mutual_exclusion_witness:
  "[Writing, Sleep_read] ! 1 \<noteq> Reading \<and> fst (rdwr_wunlock \<lparr>readers_reading = 0, writer_writing = 1\<rparr>) = 0"
  using rdwr_mutual_exclusion [OF rw_reach_write, of 0 1] by simp

text \<open>
  C27: No wake-up is lost. Although the last reader signals one thread only, a thread never sleeps on a lock that
  is free while nobody is about to test it: whenever one sleeps, another one is inside, or one is awake and
  wants the lock and takes it when it runs next.
\<close>

theorem rdwr_no_lost_wakeup:
  assumes "rw_reach n (rw, ps)" "t < length ps" "asleep (ps ! t)"
  shows "\<exists>u < length ps. ps ! u = Reading \<or> ps ! u = Writing \<or>
     (wanting (ps ! u) \<and> (\<exists>rw' p. rw_step (rw, ps) (rw', ps[u := p]) \<and> (p = Reading \<or> p = Writing)))"
proof -
  have inv: "rw_inv (rw, ps)" using rw_reach_inv [OF assms(1)] .
  have "1 \<le> cnt asleep ps" using cnt_pos [OF assms(2), of asleep] assms(3) by simp
  then have some: "1 \<le> cnt reading ps + cnt writing ps + cnt wanting ps" using inv by (auto simp: rw_inv_def)
  have ex: "\<exists>u < length ps. P (ps ! u)" if "1 \<le> cnt P ps" for P
    using that cnt_zero [of P ps] by (force simp: in_set_conv_nth)
  show ?thesis
  proof (cases "cnt reading ps = 0 \<and> cnt writing ps = 0")
    case True
    then obtain u where u: "u < length ps" "wanting (ps ! u)" using some ex [of wanting] by auto
    have free: "readers_reading rw = 0" "writer_writing rw = 0" using inv True by (auto simp: rw_inv_def)
    have "\<exists>rw' p. rw_step (rw, ps) (rw', ps[u := p]) \<and> (p = Reading \<or> p = Writing)"
      using u free enter_read [of u ps rw] enter_write [of u ps rw]
      by (auto simp: wanting_def rdwr_rlock_def rdwr_wlock_def)
    then show ?thesis using u by blast
  next
    case False
    then have "1 \<le> cnt reading ps \<or> 1 \<le> cnt writing ps" using cnt_nonneg [of reading ps] cnt_nonneg [of writing ps] by linarith
    then show ?thesis using ex [of reading] ex [of writing] by (auto simp: reading_def writing_def)
  qed
qed

lemma rdwr_no_lost_wakeup_witness:
  "\<exists>u < length [Writing, Sleep_read]. [Writing, Sleep_read] ! u = Reading \<or> [Writing, Sleep_read] ! u = Writing \<or>
     (wanting ([Writing, Sleep_read] ! u) \<and>
      (\<exists>rw' p. rw_step (\<lparr>readers_reading = 0, writer_writing = 1\<rparr>, [Writing, Sleep_read]) (rw', [Writing, Sleep_read][u := p]) \<and>
        (p = Reading \<or> p = Writing)))"
  by (rule rdwr_no_lost_wakeup [OF rw_reach_write, of 1]) simp_all

end
