(* ===== verification/System.thy ===== *)
theory System
  imports SerialRecv TcpMon RdWr
begin

text \<open>
  The tasks together. They share the state of \<open>Sched\<close>; each task's round is one step, and the steps of
  different tasks come in any order. \<open>timer_task\<close> and \<open>basic_controls_task\<close> each keep a local buffer. The
  environment changes what the input registers read, the connection and the bytes it delivers. The
  first part shows that every operation keeps \<open>sched_ok\<close> whenever it is defined, the second that
  the rounds are defined while the command store has room.
\<close>

section \<open>Operations keep the invariant\<close>

definition keeps :: "('a sched_scheme \<Rightarrow> 'a sched_scheme option) \<Rightarrow> bool" where
  "keeps f \<longleftrightarrow> (\<forall>s s'. sched_ok s \<longrightarrow> f s = Some s' \<longrightarrow> sched_ok s')"

named_theorems keeps_rules \<open>operations that keep the invariant\<close>

lemma keepsI: "(\<And>s s'. sched_ok s \<Longrightarrow> f s = Some s' \<Longrightarrow> sched_ok s') \<Longrightarrow> keeps f"
  by (auto simp: keeps_def)

lemma keepsD: "keeps f \<Longrightarrow> sched_ok s \<Longrightarrow> f s = Some s' \<Longrightarrow> sched_ok s'"
  by (auto simp: keeps_def)

lemma keeps_runs:
  assumes "\<And>m. steps.runs m f"
  shows "keeps f"
proof (rule keepsI)
  fix s s' assume s: "sched_ok s" "f s = Some s'"
  then have "msg_queue_ptr s + int 0 \<le> 49" using sched_okD(3) [OF s(1)] by (simp add: msgq_ok_def)
  from steps.runsD [OF assms s(1) this] s(2) show "sched_ok s'" by auto
qed

lemma keeps_Some [keeps_rules]: "keeps Some"
  by (simp add: keeps_def)

lemma keeps_bind [keeps_rules]: "keeps f \<Longrightarrow> keeps g \<Longrightarrow> keeps (\<lambda>s. Option.bind (f s) g)"
proof (rule keepsI)
  fix s s' assume k: "keeps f" "keeps g" and s: "sched_ok s" "Option.bind (f s) g = Some s'"
  from s(2) obtain t where t: "f s = Some t" "g t = Some s'" unfolding bind_eq_Some_conv by blast
  show "sched_ok s'" by (rule keepsD [OF k(2) keepsD [OF k(1) s(1) t(1)] t(2)])
qed

lemma keeps_get [keeps_rules]:
  assumes "\<And>x. keeps (h x)"
  shows "keeps (\<lambda>s. Option.bind (g s) (\<lambda>x. h x s))"
proof (rule keepsI)
  fix s s' assume s: "sched_ok s" "Option.bind (g s) (\<lambda>x. h x s) = Some s'"
  from s(2) obtain x where x: "h x s = Some s'" unfolding bind_eq_Some_conv by blast
  show "sched_ok s'" by (rule keepsD [OF assms s(1) x])
qed

lemma keeps_if [keeps_rules]: "keeps f \<Longrightarrow> keeps g \<Longrightarrow> keeps (\<lambda>s. if b s then f s else g s)"
proof (rule keepsI)
  fix s s' assume k: "keeps f" "keeps g" and s: "sched_ok s" "(if b s then f s else g s) = Some s'"
  show "sched_ok s'"
  proof (cases "b s")
    case True
    with s(2) show ?thesis by (intro keepsD [OF k(1) s(1)]) simp
  next
    case False
    with s(2) show ?thesis by (intro keepsD [OF k(2) s(1)]) simp
  qed
qed

lemma keeps_upd:
  assumes "\<And>s. sched_ok s \<Longrightarrow> sched_ok (f s)" "keeps g"
  shows "keeps (\<lambda>s. g (f s))"
proof (rule keepsI)
  fix s s' assume s: "sched_ok s" "g (f s) = Some s'"
  show "sched_ok s'" by (rule keepsD [OF assms(2) assms(1) [OF s(1)] s(2)])
qed

lemma keeps_add_msg_queue [keeps_rules]: "keeps (add_msg_queue c)"
proof (rule keepsI)
  fix s s' :: "'a sched_scheme" assume s: "sched_ok s" "add_msg_queue c s = Some s'"
  have "msgq_ok s'" using sched_okD(3) [OF s(1)] s(2)
    by (auto simp: add_msg_queue_def msgq_ok_def aset_def Let_def bind_eq_Some_conv split: if_splits)
  with add_msg_queue_frame [OF s(2)] sched_ok_msgs [OF s(1)] show "sched_ok s'" by blast
qed

lemma keeps_set_output [keeps_rules]: "keeps (set_output k v)"
proof (rule keepsI)
  fix s s' :: "'a sched_scheme" assume s: "sched_ok s" "set_output k v s = Some s'"
  then obtain d where d: "otp_get k s = Some d" by (auto simp: set_output_def bind_eq_Some_conv)
  note ok = sched_ok_after [OF s(1) d, of v]
  show "sched_ok s'"
  proof (cases "snd (snd (output_spec v d))")
    case True
    then have "add_msg_queue ESTOP_SIGNAL (after_output k v d s) = Some s'" using set_output_eq [OF s(1) d, of v] s(2) by simp
    then show ?thesis by (rule keepsD [OF keeps_add_msg_queue ok])
  next
    case False
    then show ?thesis using set_output_eq [OF s(1) d, of v] s(2) ok by simp
  qed
qed

lemma keeps_route_loop [keeps_rules]: "keeps (route_loop n i index v)"
proof (induction n arbitrary: i)
  case (Suc n)
  show ?case
  proof (rule keepsI)
    fix s s' :: "'a sched_scheme" assume s: "sched_ok s" "route_loop (Suc n) i index v s = Some s'"
    show "sched_ok s'"
    proof (cases "aget (ip s) i")
      case (Some e)
      have "keeps (\<lambda>s :: 'a sched_scheme. Option.bind (if ip_input e = index then set_output (ip_port e) v s else Some s)
          (route_loop n (i + 1) index v))"
        by (intro keeps_bind keeps_if keeps_Some keeps_set_output Suc.IH)
      from keepsD [OF this s(1)] s(2) Some show ?thesis by simp
    qed (use s in simp)
  qed
qed (simp add: keeps_def)

lemma aset_6: "length xs = 6 \<Longrightarrow> aset xs i v = Some ys \<Longrightarrow> length ys = 6"
  using aset_length by fastforce

lemma keeps_monitor_bank [keeps_rules]: "keeps (monitor_bank b)"
proof (rule keepsI)
  fix s s' :: "'a sched_scheme" assume s: "sched_ok s" "monitor_bank b s = Some s'"
  show "sched_ok s'"
  proof (cases "s' = s")
    case False
    with s(2) obtain n v s1 st r where 1: "route_loop (nat (max_ips s)) 0 n v s = Some s1" "aset (inportstatus s1) b r = Some st"
        "s' = s1\<lparr>inportstatus := st\<rparr>"
      by (auto simp: monitor_bank_def Let_def bind_eq_Some_conv split: if_splits)
    have "sched_ok s1" using keepsD [OF keeps_route_loop s(1) 1(1)] .
    then show ?thesis using 1 aset_6 [of "inportstatus s1"] by (simp add: sched_ok_status sched_okD)
  qed (use s in simp)
qed

lemma keeps_fake_monitor_bank [keeps_rules]: "keeps (fake_monitor_bank b)"
proof (rule keepsI)
  fix s s' :: "'a sched_scheme" assume s: "sched_ok s" "fake_monitor_bank b s = Some s'"
  show "sched_ok s'"
  proof (cases "s' = s")
    case False
    with s(2) obtain n v s1 st r st2 w where 1: "aset (fake_inportstatus2 s) b r = Some st"
        "route_loop (nat (max_ips s)) 0 n v (s\<lparr>fake_inportstatus2 := st\<rparr>) = Some s1"
        "aset (fake_inportstatus1 s1) b w = Some st2" "s' = s1\<lparr>fake_inportstatus1 := st2\<rparr>"
      by (auto simp: fake_monitor_bank_def Let_def bind_eq_Some_conv split: if_splits)
    have "sched_ok (s\<lparr>fake_inportstatus2 := st\<rparr>)" using s(1) 1(1) aset_6 [of "fake_inportstatus2 s"]
      by (simp add: sched_ok_status sched_okD)
    then have "sched_ok s1" using keepsD [OF keeps_route_loop _ 1(2)] by blast
    then show ?thesis using 1 aset_6 [of "fake_inportstatus1 s1"] by (simp add: sched_ok_status sched_okD)
  qed (use s in simp)
qed

lemma keeps_change_input [keeps_rules]: "0 \<le> n \<Longrightarrow> n < 40 \<Longrightarrow> keeps (change_input n v)"
  by (rule keeps_runs) (rule runs_change_input)

lemma keeps_store_onoff [keeps_rules]: "0 \<le> k \<Longrightarrow> k < 40 \<Longrightarrow> keeps (store_onoff k v)"
  by (rule keeps_runs) (rule runs_store_onoff)

lemma keeps_bc_engine: "keeps (bc_engine stale cmd)"
  by (rule keeps_runs) (rule runs_bc_engine)

lemma keeps_bc_lights: "keeps (bc_lights cmd)"
  unfolding bc_lights_def by (intro keeps_rules) simp_all

lemma keeps_set_outs [keeps_rules]: "keeps (set_outs kvs :: 'a sched_scheme \<Rightarrow> _)"
proof (induction kvs)
  case (Cons kv kvs)
  have "keeps (\<lambda>s :: 'a sched_scheme. Option.bind (set_output (fst kv) (snd kv) s) (set_outs kvs))"
    by (intro keeps_bind keeps_set_output Cons.IH)
  then show ?case by (cases kv) (simp add: keeps_def)
qed (simp add: keeps_def)

lemma keeps_put: "(\<And>s. sched_ok s \<Longrightarrow> sched_ok (f s)) \<Longrightarrow> keeps (\<lambda>s. Some (f s))"
  by (simp add: keeps_def)

lemma keeps_bc_misc: "keeps (bc_misc cmd)"
  unfolding bc_misc_def by (intro keeps_rules keeps_put) simp_all

lemma keeps_basic_control:
  assumes "sched_ok s" "length tempx = 50" "basic_control stale cmd tempx s = Some (t, s')"
  shows "sched_ok s' \<and> length t = 50"
proof -
  from bc_report_ok [OF assms(1,2), of cmd] obtain u s1 where
    r: "bc_report cmd tempx s = Some (u, s1)" "length u = 50" "sched_ok s1" by blast
  have "keeps (\<lambda>s :: 'a sched_scheme. if cmd \<in> set engine_cmds then bc_engine stale cmd s
           else if cmd \<in> set light_cmds then bc_lights cmd s
           else if cmd \<in> set misc_cmds then bc_misc cmd s else bc_system cmd u s)"
    by (intro keeps_if keeps_bc_engine keeps_bc_lights keeps_bc_misc keeps_runs [OF runs_bc_system]) (simp add: r(2))
  from keepsD [OF this r(3)] assms(3) r(1,2) show ?thesis by (auto simp: basic_control_def bind_eq_Some_conv)
qed

lemma keeps_basic_controls_step:
  assumes "sched_ok s" "length tempx = 50" "basic_controls_step stale tempx s = Some (t, s')"
  shows "sched_ok s' \<and> length t = 50"
proof -
  from assms(3) obtain c s1 where s1: "get_msg_queue s = Some (c, s1)" "basic_control stale c tempx s1 = Some (t, s')"
    by (auto simp: basic_controls_step_def bind_eq_Some_conv)
  have "msgq_ok s1" using get_msg_queue_ok [OF sched_okD(3) [OF assms(1)]] s1(1) by auto
  moreover have "s1 = s\<lparr>msg_queue := msg_queue s, msg_queue_ptr := msg_queue_ptr s1\<rparr>"
    using s1(1) by (auto simp: get_msg_queue_def bind_eq_Some_conv split: if_splits)
  ultimately have "sched_ok s1" by (rule sched_ok_msgs [OF assms(1)])
  from keeps_basic_control [OF this assms(2) s1(2)] show ?thesis .
qed

section \<open>The timer\<close>

lemma keeps_send_str [keeps_rules]: "keeps (send_str t str ty)"
  by (rule keepsI) (metis same_but_tcp_sched(1) send_msg_frame_rule send_str_def)

lemma runs_send_str: "2 * length str < length t \<Longrightarrow> steps.runs m (send_str t str ty)"
proof (rule steps.runsI)
  fix s :: "'a sched_scheme" assume l: "2 * length str < length t" and s: "sched_ok s"
  from l have "0 \<le> int (length str) * 2" "int (length str) * 2 < int (length t)" by simp_all
  from send_msg_safe [OF this, of ty s] obtain s' where
    s': "send_msg (int (length str) * 2) t ty s = Some s'" "same_but_tcp s s'" by blast
  from same_but_tcp_sched(1,2) [OF s'(2)] s s'(1)
  show "\<exists>s'. send_str t str ty s = Some s' \<and> sched_ok s' \<and> msg_queue_ptr s \<le> msg_queue_ptr s' \<and>
      msg_queue_ptr s' \<le> msg_queue_ptr s + int m" by (simp add: send_str_def)
qed

lemma runs_add_msg_queue: "steps.runs 1 (add_msg_queue c)"
proof (rule steps.runsI)
  fix s :: "'a sched_scheme" assume s: "sched_ok s" "msg_queue_ptr s + int 1 \<le> 49"
  from add_all_sched [of s "[c]"] s show "\<exists>s'. add_msg_queue c s = Some s' \<and> sched_ok s' \<and>
      msg_queue_ptr s \<le> msg_queue_ptr s' \<and> msg_queue_ptr s' \<le> msg_queue_ptr s + int 1"
    by (auto simp: bind_eq_Some_conv)
qed

text \<open>The two reports of \<open>timer_task\<close> on the text it has printed.\<close>

definition running_report :: "bool \<Rightarrow> u8 list \<Rightarrow> string \<Rightarrow> 'a sched_scheme \<Rightarrow> 'a sched_scheme option" where
  "running_report lights t str s = do {
     s \<leftarrow> send_str t str ENGINE_RUNTIME s;
     if lights then do {
       s \<leftarrow> add_msg_queue ON_LIGHTS s;
       s \<leftarrow> add_msg_queue ON_RUNNING_LIGHTS s;
       s \<leftarrow> send_serialother ON_LIGHTS t s;
       s \<leftarrow> send_serialother ON_RUNNING_LIGHTS t s;
       s \<leftarrow> send_str t str ON_LIGHTS s;
       send_str t str ON_RUNNING_LIGHTS s
     } else Some s
   }"

definition stopped_report :: "u8 list \<Rightarrow> 'a sched_scheme \<Rightarrow> 'a sched_scheme option" where
  "stopped_report t s = do {
     s \<leftarrow> add_msg_queue OFF_LLIGHTS s;
     s \<leftarrow> add_msg_queue OFF_RLIGHTS s;
     s \<leftarrow> add_msg_queue OFF_LIGHTS s;
     s \<leftarrow> add_msg_queue OFF_RUNNING_LIGHTS s;
     s \<leftarrow> add_msg_queue OFF_FAN s;
     s \<leftarrow> send_serialother OFF_LIGHTS t s;
     s \<leftarrow> send_serialother OFF_RUNNING_LIGHTS t s;
     s \<leftarrow> send_serialother OFF_FAN t s;
     str \<leftarrow> buf_str t;
     send_str t str OFF_LIGHTS s
   }"

lemma timer_running_report:
  "timer_running t s = (let (h, m, sec) = tick_hms (running_hours s, running_minutes s, running_seconds s) in
     Option.bind (cstr_into t (hms_string h m sec)) (\<lambda>t. map_option (Pair t)
       (running_report (m = 0 \<and> sec = 15) t (hms_string h m sec)
         (s\<lparr>running_hours := h, running_minutes := m, running_seconds := sec\<rparr>))))"
proof -
  obtain h m sec where e: "tick_hms (running_hours s, running_minutes s, running_seconds s) = (h, m, sec)"
    by (cases "tick_hms (running_hours s, running_minutes s, running_seconds s)")
  show ?thesis
    by (cases "m = 0 \<and> sec = 15")
       (auto simp: timer_running_def running_report_def e Let_def map_conv_bind_option comp_def)
qed

lemma timer_stopped_report:
  "timer_stopped t s = map_option (Pair t) (let s = s\<lparr>running_seconds := 0, running_minutes := 0, running_hours := 0\<rparr> in
     if lights_on_countdown s > 0 then (let s = s\<lparr>lights_on_countdown := lights_on_countdown s - 1\<rparr> in
       if lights_on_countdown s = 0 then stopped_report t s else Some s) else Some s)"
  by (simp add: timer_stopped_def stopped_report_def Let_def map_conv_bind_option comp_def)

text \<open>A text that \<open>send_msg\<close> can send from the buffer: it ends within 24 bytes.\<close>

definition text_ok :: "u8 list \<Rightarrow> bool" where
  "text_ok t \<longleftrightarrow> length t = 50 \<and> (\<exists>str. buf_str t = Some str \<and> length str \<le> 24)"

lemma keeps_running_report: "length t = 50 \<Longrightarrow> keeps (running_report b t str)"
  unfolding running_report_def
  by (intro keeps_rules keeps_runs [OF runs_send_serialother]) simp_all

lemma runs_running_report:
  assumes "length t = 50" "length str \<le> 24"
  shows "steps.runs 2 (running_report b t str)"
proof -
  have "steps.runs 2 (\<lambda>s. Option.bind (add_msg_queue ON_LIGHTS s) (\<lambda>s. Option.bind (add_msg_queue ON_RUNNING_LIGHTS s)
      (\<lambda>s. Option.bind (send_serialother ON_LIGHTS t s) (\<lambda>s. Option.bind (send_serialother ON_RUNNING_LIGHTS t s)
      (\<lambda>s. Option.bind (send_str t str ON_LIGHTS s) (send_str t str ON_RUNNING_LIGHTS))))))"
    by (rule steps.runs_weaken [OF steps.runs_bind [OF runs_add_msg_queue steps.runs_bind [OF runs_add_msg_queue
          steps.runs_bind0 [OF runs_send_serialother steps.runs_bind0 [OF runs_send_serialother
          steps.runs_bind0 [OF runs_send_str runs_send_str [where m = 0]]]]]]])
       (use assms in simp_all)
  then show ?thesis unfolding running_report_def
    by (intro steps.runs_bind0 [OF runs_send_str] steps.runs_if_const steps.runs_Some) (use assms in simp_all)
qed

lemma keeps_stopped_report: "length t = 50 \<Longrightarrow> keeps (stopped_report t)"
  unfolding stopped_report_def
  by (intro keeps_rules keeps_runs [OF runs_send_serialother] keeps_get) simp_all

lemma runs_stopped_report:
  assumes "text_ok t"
  shows "steps.runs 5 (stopped_report t)"
proof -
  from assms obtain str where t: "length t = 50" "buf_str t = Some str" "length str \<le> 24" by (auto simp: text_ok_def)
  have "steps.runs (1 + (1 + (1 + (1 + (1 + 0))))) (stopped_report t)"
    unfolding stopped_report_def t(2) bind.bind_lunit
    by (intro steps.runs_bind runs_add_msg_queue steps.runs_bind0 runs_send_serialother runs_send_str) (use t in simp_all)
  then show ?thesis by (rule steps.runs_weaken) simp
qed

lemma sched_ok_times [simp]:
  "sched_ok (s\<lparr>odometer := x\<rparr>) = sched_ok s" "sched_ok (s\<lparr>trip := x\<rparr>) = sched_ok s"
  "sched_ok (s\<lparr>trunning_seconds := b\<rparr>) = sched_ok s" "sched_ok (s\<lparr>trunning_minutes := b\<rparr>) = sched_ok s"
  "sched_ok (s\<lparr>trunning_hours := b\<rparr>) = sched_ok s"
  by (simp_all add: sched_ok_def shadow_ok_def msgq_ok_def ips_ok_def)

lemma keeps_timer_running:
  assumes "sched_ok s" "length t = 50" "timer_running t s = Some (t', s')"
  shows "sched_ok s' \<and> length t' = 50"
proof -
  obtain h m sec where e: "tick_hms (running_hours s, running_minutes s, running_seconds s) = (h, m, sec)"
    by (cases "tick_hms (running_hours s, running_minutes s, running_seconds s)")
  let ?s = "s\<lparr>running_hours := h, running_minutes := m, running_seconds := sec\<rparr>"
  from assms(3) have c: "cstr_into t (hms_string h m sec) = Some t'"
    and r: "running_report (m = 0 \<and> sec = 15) t' (hms_string h m sec) ?s = Some s'"
    by (auto simp: timer_running_report e bind_eq_Some_conv)
  have "length t' = 50" using cstr_into_length [OF c] assms(2) by simp
  moreover have "sched_ok ?s" using assms(1) by simp
  ultimately show ?thesis using keepsD [OF keeps_running_report _ r] by blast
qed

lemma keeps_timer_stopped:
  assumes "sched_ok s" "length t = 50" "timer_stopped t s = Some (t', s')"
  shows "sched_ok s' \<and> length t' = 50"
proof -
  have k: "keeps (\<lambda>s :: 'a sched_scheme. if lights_on_countdown s > 0 then
      (if lights_on_countdown s - 1 = 0 then stopped_report t (s\<lparr>lights_on_countdown := lights_on_countdown s - 1\<rparr>)
       else Some (s\<lparr>lights_on_countdown := lights_on_countdown s - 1\<rparr>)) else Some s)"
    by (intro keeps_if keeps_upd [OF _ keeps_stopped_report] keeps_put keeps_Some) (use assms(2) in simp_all)
  have "sched_ok (s\<lparr>running_seconds := 0, running_minutes := 0, running_hours := 0\<rparr>)" using assms(1) by simp
  from keepsD [OF k this] assms(2,3) show ?thesis by (auto simp: timer_stopped_report Let_def split: if_splits)
qed

lemma keeps_timer_uptime:
  assumes "sched_ok s" "length t = 50" "timer_uptime t s = Some (t', s')"
  shows "sched_ok s' \<and> length t' = 50"
proof -
  define s1 where "s1 = (let s = s\<lparr>odometer := odometer s + 1\<rparr> in if odometer s mod 2 = 0 then s\<lparr>trip := trip s + 1\<rparr> else s)"
  obtain h m sec where e: "tick_hms (trunning_hours s1, trunning_minutes s1, trunning_seconds s1) = (h, m, sec)"
    by (cases "tick_hms (trunning_hours s1, trunning_minutes s1, trunning_seconds s1)")
  let ?s = "s1\<lparr>trunning_hours := h, trunning_minutes := m, trunning_seconds := sec\<rparr>"
  from assms(3) have c: "cstr_into t (hms_string h m sec) = Some t'"
    and r: "send_str t' (hms_string h m sec) SERVER_UPTIME ?s = Some s'"
    unfolding timer_uptime_def Let_def [of "s\<lparr>odometer := odometer s + 1\<rparr>"] s1_def [unfolded Let_def, symmetric]
    using e by (auto simp: bind_eq_Some_conv s1_def Let_def)
  have "sched_ok ?s" using assms(1) by (simp add: s1_def Let_def)
  then show ?thesis using keepsD [OF keeps_send_str _ r] cstr_into_length [OF c] assms(2) by simp
qed

lemma runs_comp: "(\<And>s. sched_ok s \<Longrightarrow> sched_ok (f s) \<and> msg_queue_ptr (f s) = msg_queue_ptr s) \<Longrightarrow> steps.runs n g \<Longrightarrow>
   steps.runs n (\<lambda>s. g (f s))"
  unfolding steps.runs_def by metis

lemma runs_timer_blinkers: "steps.runs m (timer_blinkers :: 'a sched_scheme \<Rightarrow> _)"
proof -
  have l: "steps.runs 0 (\<lambda>s :: 'a sched_scheme. if test_lblinkers s = 2
      then change_input LEFTBLINKER_INPUT 0 (s\<lparr>test_lblinkers := 0\<rparr>) else Some s)"
    by (intro steps.runs_if runs_comp [OF _ runs_change_input] steps.runs_Some) simp_all
  have r: "steps.runs m (\<lambda>s :: 'a sched_scheme. if test_rblinkers s = 2
      then change_input RIGHTBLINKER_INPUT 0 (s\<lparr>test_rblinkers := 0\<rparr>) else Some s)"
    by (intro steps.runs_if runs_comp [OF _ runs_change_input] steps.runs_Some) simp_all
  show ?thesis unfolding timer_blinkers_def Let_def
    by (intro steps.runs_bind0 steps.runs_if steps.runs_Some runs_comp [OF _ l] runs_comp [OF _ r]) simp_all
qed

lemma timer_tick_keeps:
  assumes "sched_ok s" "length t = 50" "stale_port stale" "timer_tick stale t s = Some (t', s')"
  shows "sched_ok s' \<and> length t' = 50"
proof -
  from assms(4) obtain t1 s1 s2 s3 where
    a: "(if engine_running s = 1 then timer_running t s else timer_stopped t s) = Some (t1, s1)"
    and b: "timer_uptime t1 s1 = Some (t', s2)" and c: "timer_blinkers s2 = Some s3"
    and d: "tick_outputs stale s3 = Some s'"
    by (auto simp: timer_tick_def tick_outputs_def bind_eq_Some_conv)
  from a have 1: "sched_ok s1 \<and> length t1 = 50"
    using keeps_timer_running [OF assms(1,2)] keeps_timer_stopped [OF assms(1,2)] by (auto split: if_splits)
  then have 2: "sched_ok s2 \<and> length t' = 50" using keeps_timer_uptime b by blast
  then have 3: "sched_ok s3" using keepsD [OF keeps_runs [OF runs_timer_blinkers]] c by blast
  from tick_outputs_step [OF 3 assms(3)] d have "sched_ok s'" by (metis option.inject)
  with 2 show ?thesis by simp
qed

lemma hms_length: "length (hms_string h m sec) \<le> 15"
proof -
  have "length (dec_nat (unat b)) \<le> 3" for b :: u8
    using length_dec_nat [of "unat b" 2] unsigned_less [of b, where 'a = nat] by simp
  from this [of h] this [of m] this [of sec] show ?thesis by (simp add: hms_string_def)
qed

lemma buf_str_text:
  assumes "0 \<notin> set (bytes_of str)"
  shows "buf_str (bytes_of str @ 0 # rest) = Some str"
proof -
  have t: "takeWhile (\<lambda>b. b \<noteq> 0) (bytes_of str @ 0 # rest) = bytes_of str"
    using assms by (subst takeWhile_append2) auto
  have "char_of (unat (word_of_nat (of_char c) :: u8)) = c" for c :: char
    by (simp add: unsigned_of_nat take_bit_eq_mod)
  then have "map (\<lambda>b. char_of (unat b)) (bytes_of str) = str"
    by (simp add: bytes_of_def comp_def)
  then show ?thesis by (simp add: buf_str_def Let_def t)
qed

text \<open>What the timer leaves in the buffer can be sent.\<close>

lemma text_ok_hms: "length t = 50 \<Longrightarrow> cstr_into t (hms_string h m sec) = Some t' \<Longrightarrow> text_ok t'"
proof -
  assume t: "length t = 50" "cstr_into t (hms_string h m sec) = Some t'"
  have "0 \<notin> set (bytes_of (dec_nat n))" for n using dec_nat_digits [of n] by (auto simp: is_digit_def)
  then have "0 \<notin> set (bytes_of (hms_string h m sec))" by (auto simp: hms_string_def bytes_of_def)
  note b = buf_str_text [OF this]
  from t b hms_length [of h m sec] show "text_ok t'"
    by (auto simp: text_ok_def cstr_into_def split: if_splits)
qed

text \<open>With room for five commands a tick is defined.\<close>

lemma timer_tick_defined:
  assumes "sched_ok s" "text_ok t" "stale_port stale" "msg_queue_ptr s \<le> 44"
  shows "\<exists>t' s'. timer_tick stale t s = Some (t', s') \<and> text_ok t' \<and> sched_ok s'"
proof -
  have t: "length t = 50" using assms(2) by (simp add: text_ok_def)
  have "\<exists>t1 s1. (if engine_running s = 1 then timer_running t s else timer_stopped t s) = Some (t1, s1) \<and> sched_ok s1 \<and> length t1 = 50"
  proof (cases "engine_running s = 1")
    case True
    obtain h m sec where e: "tick_hms (running_hours s, running_minutes s, running_seconds s) = (h, m, sec)"
      by (cases "tick_hms (running_hours s, running_minutes s, running_seconds s)")
    have l: "length (hms_string h m sec) \<le> 24" using hms_length [of h m sec] by simp
    then obtain t1 where t1: "cstr_into t (hms_string h m sec) = Some t1" "length t1 = 50" using t by (auto simp: cstr_into_def)
    let ?s = "s\<lparr>running_hours := h, running_minutes := m, running_seconds := sec\<rparr>"
    have "sched_ok ?s" "msg_queue_ptr ?s + int 2 \<le> 49" using assms(1,4) by simp_all
    from steps.runsD [OF runs_running_report [OF t1(2) l] this] True t1 show ?thesis
      by (auto simp: timer_running_report e)
  next
    case False
    have "steps.runs 5 (\<lambda>s :: 'a sched_scheme. if lights_on_countdown s > 0 then
      (if lights_on_countdown s - 1 = 0 then stopped_report t (s\<lparr>lights_on_countdown := lights_on_countdown s - 1\<rparr>)
       else Some (s\<lparr>lights_on_countdown := lights_on_countdown s - 1\<rparr>)) else Some s)"
      by (intro steps.runs_if runs_comp [OF _ runs_stopped_report [OF assms(2)]] steps.runs_upd steps.runs_Some) simp_all
    moreover have "sched_ok (s\<lparr>running_seconds := 0, running_minutes := 0, running_hours := 0\<rparr>)"
      "msg_queue_ptr (s\<lparr>running_seconds := 0, running_minutes := 0, running_hours := 0\<rparr>) + int 5 \<le> 49"
      using assms(1,4) by simp_all
    ultimately show ?thesis using steps.runsD False t by (fastforce simp: timer_stopped_report Let_def)
  qed
  then obtain t1 s1 where 1: "(if engine_running s = 1 then timer_running t s else timer_stopped t s) = Some (t1, s1)"
    "sched_ok s1" "length t1 = 50" by blast
  define s2 where "s2 = (let s = s1\<lparr>odometer := odometer s1 + 1\<rparr> in if odometer s mod 2 = 0 then s\<lparr>trip := trip s + 1\<rparr> else s)"
  obtain h m sec where e: "tick_hms (trunning_hours s2, trunning_minutes s2, trunning_seconds s2) = (h, m, sec)"
    by (cases "tick_hms (trunning_hours s2, trunning_minutes s2, trunning_seconds s2)")
  let ?s = "s2\<lparr>trunning_hours := h, trunning_minutes := m, trunning_seconds := sec\<rparr>"
  have l: "length (hms_string h m sec) \<le> 24" using hms_length [of h m sec] by simp
  then obtain t2 where t2: "cstr_into t1 (hms_string h m sec) = Some t2" "length t2 = 50" using 1(3) by (auto simp: cstr_into_def)
  have "sched_ok ?s" using 1(2) by (simp add: s2_def Let_def)
  moreover have "0 \<le> int (length (hms_string h m sec)) * 2" "int (length (hms_string h m sec)) * 2 < int (length t2)" using l t2(2) by simp_all
  ultimately obtain s3 where s3: "send_str t2 (hms_string h m sec) SERVER_UPTIME ?s = Some s3" "sched_ok s3"
    using send_msg_safe same_but_tcp_sched(1) unfolding send_str_def by metis
  have u: "timer_uptime t1 s1 = Some (t2, s3)"
    using e t2(1) s3(1) by (cases "(odometer s1 + 1) mod 2 = 0") (simp_all add: timer_uptime_def s2_def Let_def)
  have p3: "msg_queue_ptr s3 + int 0 \<le> 49" using sched_okD(3) [OF s3(2)] by (simp add: msgq_ok_def)
  from steps.runsD [OF runs_timer_blinkers s3(2) p3] obtain s4 where s4: "timer_blinkers s3 = Some s4" "sched_ok s4" by auto
  from tick_outputs_step [OF s4(2) assms(3)] obtain s5 where s5: "tick_outputs stale s4 = Some s5" "sched_ok s5" by blast
  have "timer_tick stale t s = Some (t2, s5)"
    using 1(1) u s4(1) s5(1) by (simp add: timer_tick_def tick_outputs_def)
  with text_ok_hms [OF 1(3) t2(1)] s5(2) show ?thesis by blast
qed

section \<open>The monitors\<close>

lemma monitor_bank_defined:
  assumes "sched_ok s" "msg_queue_ptr s + max_ips s \<le> 49" "0 \<le> b" "b < 6"
  shows "\<exists>s'. monitor_bank b s = Some s'"
proof -
  have r: "\<exists>s'. route_loop (nat (max_ips s)) 0 n v s = Some s' \<and> sched_ok s'" for n v
    using route_spec [OF assms(1,2)] by blast
  have a: "\<exists>st. aset (inportstatus s') b x = Some st" if "sched_ok s'" for s' :: "'a sched_scheme" and x
    using sched_okD(5) [OF that] assms(3,4) by (simp add: aset_def)
  have g: "\<exists>x. aget (inportstatus s) b = Some x" using sched_okD(5) [OF assms(1)] assms(3,4) by (simp add: aget_def)
  show ?thesis using r a g unfolding monitor_bank_def Let_def by (fastforce simp: bind_eq_Some_conv)
qed

lemma fake_monitor_bank_defined:
  assumes "sched_ok s" "msg_queue_ptr s + max_ips s \<le> 49" "0 \<le> b" "b < 6"
  shows "\<exists>s'. fake_monitor_bank b s = Some s'"
proof -
  have r: "\<exists>s'. route_loop (nat (max_ips s)) 0 n v (s\<lparr>fake_inportstatus2 := st\<rparr>) = Some s' \<and> sched_ok s'"
    if "length st = 6" for n v st
    using route_spec [OF sched_ok_status(3) [OF assms(1) that], of n v] assms(2) by auto
  have l: "length (fake_inportstatus1 s') = 6" "length (fake_inportstatus2 s') = 6" if "sched_ok s'" for s' :: "'a sched_scheme"
    using sched_okD [OF that] by simp_all
  obtain result old where g: "aget (fake_inportstatus2 s) b = Some result" "aget (fake_inportstatus1 s) b = Some old"
    using l [OF assms(1)] assms(3,4) by (simp add: aget_def)
  have d: "\<exists>s2. Option.bind (aset (fake_inportstatus2 s) b y) (\<lambda>st. Option.bind
      (route_loop (nat (max_ips s)) 0 n v (s\<lparr>fake_inportstatus2 := st\<rparr>))
      (\<lambda>s. Option.bind (aget (fake_inportstatus2 s) b) (\<lambda>v. Option.bind (aset (fake_inportstatus1 s) b v)
        (\<lambda>st. Some (s\<lparr>fake_inportstatus1 := st\<rparr>))))) = Some s2" for y n v
  proof -
    obtain st where st: "aset (fake_inportstatus2 s) b y = Some st" "length st = 6"
      using l [OF assms(1)] assms(3,4) by (simp add: aset_def)
    from r [OF st(2), of n v] obtain s1 where
      "route_loop (nat (max_ips s)) 0 n v (s\<lparr>fake_inportstatus2 := st\<rparr>) = Some s1" "sched_ok s1" by blast
    with st(1) l [of s1] assms(3,4) show ?thesis by (simp add: aset_def aget_def)
  qed
  show ?thesis using d unfolding fake_monitor_bank_def Let_def g bind.bind_lunit by simp
qed

section \<open>The system\<close>

record sys =
  st :: sched
  t_buf :: "u8 list"
  c_buf :: "u8 list"
  m_buf :: "u8 list"
  rx :: sr
  ser_in :: "u8 list"

definition sys_ok :: "sys \<Rightarrow> bool" where
  "sys_ok y \<longleftrightarrow> sched_ok (st y) \<and> length (t_buf y) = 50 \<and> length (c_buf y) = 50 \<and> length (m_buf y) = 20 \<and> sr_ok (rx y)"

text \<open>
  A step is a round of a task (a scan of one bank, a tick, a command, a frame from the STM32, a look at the
  connection) or of the environment: a command the client task adds, new values of the input registers,
  bytes on the serial line, a change of the connection.
\<close>

inductive sys_step :: "(o_data \<Rightarrow> o_data) \<Rightarrow> sys \<Rightarrow> sys \<Rightarrow> bool" for stale :: "o_data \<Rightarrow> o_data" where
  scan: "0 \<le> b \<Longrightarrow> b < 6 \<Longrightarrow> monitor_bank b (st y) = Some s \<Longrightarrow> sys_step stale y (y\<lparr>st := s\<rparr>)"
| fake_scan: "0 \<le> b \<Longrightarrow> b < 6 \<Longrightarrow> fake_monitor_bank b (st y) = Some s \<Longrightarrow> sys_step stale y (y\<lparr>st := s\<rparr>)"
| tick: "timer_tick stale (t_buf y) (st y) = Some (t, s) \<Longrightarrow> sys_step stale y (y\<lparr>st := s, t_buf := t\<rparr>)"
| control: "basic_controls_step stale (c_buf y) (st y) = Some (t, s) \<Longrightarrow> sys_step stale y (y\<lparr>st := s, c_buf := t\<rparr>)"
| serial: "recv_frame (ser_in y) = Some (fr, rest) \<Longrightarrow> serial_frame fr (rx y) (st y) = Some (fin, r, s) \<Longrightarrow>
    sys_step stale y (y\<lparr>st := s, rx := r, ser_in := rest\<rparr>)"
| tcp: "tcp_round acc (m_buf y) (st y) = Some (fin, t, s) \<Longrightarrow> sys_step stale y (y\<lparr>st := s, m_buf := t\<rparr>)"
| client: "add_msg_queue c (st y) = Some s \<Longrightarrow> sys_step stale y (y\<lparr>st := s\<rparr>)"
| inputs: "(\<forall>p. p \<notin> set [DIR_1, DIR_2, DIR_3, DIR_4, DIR_5, DIR_6] \<longrightarrow> f p = card_ports (st y) p) \<Longrightarrow>
    sys_step stale y (y\<lparr>st := (st y)\<lparr>card_ports := f\<rparr>\<rparr>)"
| bytes: "sys_step stale y (y\<lparr>ser_in := ser_in y @ bs\<rparr>)"
| lcd_queue: "sys_step stale y (y\<lparr>st := snd (LCD_serial_queue (st y))\<rparr>)"
| network: "same_but_tcp (st y) s \<Longrightarrow> sys_step stale y (y\<lparr>st := s\<rparr>)"

inductive sys_reach :: "(o_data \<Rightarrow> o_data) \<Rightarrow> sys \<Rightarrow> sys \<Rightarrow> bool" for stale :: "o_data \<Rightarrow> o_data" and y :: sys where
  start: "sys_reach stale y y"
| step: "sys_reach stale y z \<Longrightarrow> sys_step stale z w \<Longrightarrow> sys_reach stale y w"

lemma sched_ok_gps: "sched_ok s \<Longrightarrow> sched_ok (s\<lparr>enable_gps_send_data := 0, enable_adc_send_data := 0\<rparr>)"
  by (simp add: sched_ok_def shadow_ok_def msgq_ok_def ips_ok_def)

lemma sched_ok_inputs:
  assumes "sched_ok s" "\<forall>p. p \<notin> set [DIR_1, DIR_2, DIR_3, DIR_4, DIR_5, DIR_6] \<longrightarrow> f p = card_ports s p"
  shows "sched_ok (s\<lparr>card_ports := f\<rparr>)"
proof -
  have "f (roc k) = card_ports s (roc k)" if "k < 6" for k
    using assms(2) roc_ranges [OF that] by auto
  then show ?thesis using assms(1) by (simp add: sched_ok_def shadow_ok_def msgq_ok_def ips_ok_def)
qed

lemma keeps_add_all [keeps_rules]: "keeps (add_all cs)"
proof (induction cs)
  case (Cons c cs)
  then show ?case using keeps_bind [OF keeps_add_msg_queue Cons.IH, of c] by simp
qed (simp add: keeps_def)

lemma keeps_serial_frame:
  assumes "sched_ok s" "sr_ok r" "length fr = 50" "serial_frame fr r s = Some (fin, r', s')"
  shows "sched_ok s' \<and> sr_ok r'"
proof -
  let ?c = "fr ! 0"
  have a: "aget fr 0 = Some ?c" using assms(3) by (simp add: aget_def)
  let ?kp = "if is_key ?c then keypad ?c (sr_keys r) s else Some (?c, sr_keys r, s)"
  have "?kp \<noteq> None"
  proof
    assume "?kp = None"
    then have "serial_frame fr r s = None"
      using a by (simp add: serial_frame_def is_key_def Let_def cong: if_cong split del: if_split)
    with assms(4) show False by simp
  qed
  then obtain c' k s1 where kp: "?kp = Some (c', k, s1)" by auto
  have s1: "sched_ok s1"
  proof (cases "is_key ?c")
    case True
    from keypad_adds [of ?c "sr_keys r"] obtain d where
      "keypad ?c (sr_keys r) s = map_option (\<lambda>s. (d, snd (key_log ?c (sr_keys r)), s)) (add_all (fst (key_log ?c (sr_keys r))) s)"
      by blast
    with True kp have "add_all (fst (key_log ?c (sr_keys r))) s = Some s1" by auto
    then show ?thesis using keepsD [OF keeps_add_all assms(1)] by blast
  qed (use kp assms(1) in simp)
  define r1 where "r1 = r\<lparr>sr_rbuf := fr, sr_keys := k\<rparr>"
  have r1: "sr_like fr k r1" using assms(2,3) by (simp add: sr_like_def sr_ok_def r1_def)
  note f = serial_frame_parts [OF a kp, folded r1_def]
  have "Option.bind (sr_values c' r1 s1) (\<lambda>(r, s). sr_rest c' r s) = Some (fin, r', s')" using f assms(4) by simp
  then obtain r2 s2 where v: "sr_values c' r1 s1 = Some (r2, s2)" and e: "sr_rest c' r2 s2 = Some (fin, r', s')"
    by (auto simp: bind_eq_Some_conv)
  have "reports fr k s1 (sr_values c' r1 s1)" using reports_values [OF r1, of c' s1] v by (auto split: if_splits)
  with v have 2: "sr_like fr k r2" "same_but_tcp s1 s2" by (auto simp: reports_def)
  from finishes_rest [OF 2, of c'] e have "sr_like fr k r'" "same_but_tcp s1 s'" by (auto simp: finishes_def)
  then show ?thesis using same_but_tcp_sched(1) [of s1 s'] s1 by (simp add: sr_like_def)
qed

lemma recv_frame_length: "recv_frame l = Some (fr, rest) \<Longrightarrow> length fr = 50"
  by (auto simp: recv_frame_def split: list.splits if_splits)

lemma sys_step_ok:
  assumes "sys_step stale y z" "stale_port stale" "sys_ok y"
  shows "sys_ok z"
  using assms
proof (induction rule: sys_step.induct)
  case (scan b y s)
  then show ?case using keepsD [OF keeps_monitor_bank] by (auto simp: sys_ok_def)
next
  case (fake_scan b y s)
  then show ?case using keepsD [OF keeps_fake_monitor_bank] by (auto simp: sys_ok_def)
next
  case (tick y t s)
  then show ?case using timer_tick_keeps [of "st y" "t_buf y" stale t s] by (simp add: sys_ok_def)
next
  case (control y t s)
  then show ?case using keeps_basic_controls_step [of "st y" "c_buf y" stale t s] by (simp add: sys_ok_def)
next
  case (serial y fr rest fin r s)
  then show ?case using keeps_serial_frame [of "st y" "rx y" fr fin r s] recv_frame_length by (simp add: sys_ok_def)
next
  case (tcp acc y fin t s)
  then show ?case using tcp_round_defined [of "m_buf y" acc "st y"] same_but_tcp_sched(1) [of "st y" s]
    by (auto simp: sys_ok_def)
next
  case (client c y s)
  then show ?case using keepsD [OF keeps_add_msg_queue] by (auto simp: sys_ok_def)
next
  case (inputs f y)
  then show ?case using sched_ok_inputs [of "st y" f] by (simp add: sys_ok_def)
next
  case (bytes y bs)
  then show ?case by (simp add: sys_ok_def)
next
  case (lcd_queue y)
  then show ?case by (simp add: sys_ok_def LCD_serial_queue_def Let_def sched_ok_gps)
next
  case (network y s)
  then show ?case using same_but_tcp_sched(1) [of "st y" s] by (simp add: sys_ok_def)
qed

lemma sys_reach_ok: "sys_reach stale y z \<Longrightarrow> sys_ok y \<Longrightarrow> stale_port stale \<Longrightarrow> sys_ok z"
  by (induction rule: sys_reach.induct) (auto intro: sys_step_ok)

lemma basic_controls_defined:
  assumes "sched_ok s" "length t = 50" "msg_queue_ptr s \<le> 17"
  shows "\<exists>t' s'. basic_controls_step stale t s = Some (t', s')"
proof -
  from get_msg_queue_ok [OF sched_okD(3) [OF assms(1)]] obtain c s1 where
    s1: "get_msg_queue s = Some (c, s1)" "msgq_ok s1" by blast
  have e: "s1 = s\<lparr>msg_queue := msg_queue s, msg_queue_ptr := msg_queue_ptr s1\<rparr>" "msg_queue_ptr s1 \<le> msg_queue_ptr s"
    using s1(1) by (auto simp: get_msg_queue_def bind_eq_Some_conv split: if_splits)
  have "sched_ok s1" by (rule sched_ok_msgs [OF assms(1) s1(2) e(1)])
  from basic_control_runs [OF this assms(2), of stale c] s1(1) e(2) assms(3) show ?thesis
    by (auto simp: basic_controls_step_def)
qed

section \<open>Properties\<close>



definition sys0 :: sys where
  "sys0 = \<lparr>st = sched0, t_buf = replicate 50 0, c_buf = replicate 50 0, m_buf = replicate 20 0, rx = sr0, ser_in = []\<rparr>"

lemma sys0_ok: "sys_ok sys0"
  by (simp add: sys_ok_def sys0_def sched0_ok sr0_ok)



end
