(* ===== verification/Stm.thy ===== *)
theory Stm
  imports Cmds
begin

text \<open>
  The STM32 board (\<open>STM32/Src/freertos.c\<close>): what its tasks share, the message queues between them, the
  task that writes to the TS-7200, the one that writes to the FPGA, and the keypad. A message of 8 bytes
  is packed into 64 bits (\<open>pack64\<close>), queued, and unpacked by the sender. \<open>xQueueSend\<close> is called with no
  waiting time, so a message to a full queue is lost; \<open>xQueueReceive\<close> takes the oldest. That the ring buffers of
  FreeRTOS do this is proved in \<open>RtosQueue\<close>. Delays are left out.
  A task's local buffer is uninitialised, so it is an argument.
\<close>

section \<open>Queues\<close>

locale message_queue =
  fixes send :: "'m \<Rightarrow> 'q \<Rightarrow> 'q" and receive :: "'q \<Rightarrow> ('m \<times> 'q) option"
    and waiting :: "'q \<Rightarrow> 'm list" and capacity :: nat
  assumes send_room: "length (waiting q) < capacity \<Longrightarrow> waiting (send x q) = waiting q @ [x]"
    and send_full: "capacity \<le> length (waiting q) \<Longrightarrow> send x q = q"
    and receive_empty: "waiting q = [] \<Longrightarrow> receive q = None"
    and receive_first: "waiting q = x # xs \<Longrightarrow> \<exists>q'. receive q = Some (x, q') \<and> waiting q' = xs"
begin

text \<open>Of many messages those fit that the queue has room for; the rest are lost.\<close>

lemma send_many: "waiting (fold send xs q) = waiting q @ take (capacity - length (waiting q)) xs"
proof (induction xs arbitrary: q)
  case (Cons x xs)
  show ?case
  proof (cases "length (waiting q) < capacity")
    case True
    then have "waiting (send x q) = waiting q @ [x]" by (rule send_room)
    moreover from True have "capacity - length (waiting q) = Suc (capacity - Suc (length (waiting q)))" by simp
    ultimately show ?thesis using Cons.IH [of "send x q"] by simp
  next
    case False
    then show ?thesis using Cons.IH [of q] by (simp add: send_full)
  qed
qed simp

lemma send_receive: "waiting q = [] \<Longrightarrow> 0 < capacity \<Longrightarrow> \<exists>q'. receive (send x q) = Some (x, q') \<and> waiting q' = []"
  using send_room [of q x] receive_first [of "send x q" x "[]"] by simp

end

definition xQueueSend :: "nat \<Rightarrow> 'm \<Rightarrow> 'm list \<Rightarrow> 'm list" where
  "xQueueSend n x q = (if length q < n then q @ [x] else q)"

definition xQueueReceive :: "'m list \<Rightarrow> ('m \<times> 'm list) option" where
  "xQueueReceive q = (case q of [] \<Rightarrow> None | x # xs \<Rightarrow> Some (x, xs))"

interpretation mq: message_queue "xQueueSend n" xQueueReceive "\<lambda>q. q" n for n
  by unfold_locales (auto simp: xQueueSend_def xQueueReceive_def)

section \<open>Messages of eight bytes\<close>

definition pack64 :: "u8 list \<Rightarrow> u64 option" where
  "pack64 buff = do {
     b7 \<leftarrow> aget buff 7;
     b6 \<leftarrow> aget buff 6;
     b5 \<leftarrow> aget buff 5;
     b4 \<leftarrow> aget buff 4;
     b3 \<leftarrow> aget buff 3;
     b2 \<leftarrow> aget buff 2;
     b1 \<leftarrow> aget buff 1;
     b0 \<leftarrow> aget buff 0;
     let v = ucast b7;
     let v = push_bit 8 v OR ucast b6;
     let v = push_bit 8 v OR ucast b5;
     let v = push_bit 8 v OR ucast b4;
     let v = push_bit 8 v OR ucast b3;
     let v = push_bit 8 v OR ucast b2;
     let v = push_bit 8 v OR ucast b1;
     let v = push_bit 8 v OR ucast b0;
     Some v
   }"

text \<open>\<open>ucbuff[i] = (UCHAR)avr_buffer[0]; avr_buffer[0] >>= 8;\<close> for \<open>n\<close> bytes\<close>

fun unpack_bytes :: "nat \<Rightarrow> u64 \<Rightarrow> u8 list" where
  "unpack_bytes 0 v = []"
| "unpack_bytes (Suc n) v = ucast v # unpack_bytes n (drop_bit 8 v)"

definition pack_step :: "u8 \<Rightarrow> u64 \<Rightarrow> u64" where
  "pack_step b v = push_bit 8 v OR ucast b"

lemma pack_step_low: "ucast (pack_step b v) = b"
  unfolding pack_step_def by (rule bit_word_eqI) (auto simp: bit_simps)

lemma pack_step_high: "drop_bit 8 (pack_step b v) = take_bit 56 v"
  unfolding pack_step_def by (rule bit_word_eqI) (auto simp: bit_simps dest: bit_imp_le_length)

lemma pack_range: "bit (foldr pack_step bs 0) i \<Longrightarrow> i < 8 * length bs"
proof (induction bs arbitrary: i)
  case (Cons b bs)
  let ?v = "foldr pack_step bs 0"
  have "bit (pack_step b v) i \<Longrightarrow> 8 \<le> i \<and> bit v (i - 8) \<or> bit b i" for v
    by (auto simp: pack_step_def bit_or_iff bit_push_bit_iff bit_ucast_iff)
  with Cons.prems have "8 \<le> i \<and> bit ?v (i - 8) \<or> bit b i" by simp
  then show ?case using Cons.IH [of "i - 8"] bit_imp_le_length [of b i] by fastforce
qed simp

lemma unpack_pack: "length bs \<le> 8 \<Longrightarrow> unpack_bytes (length bs) (foldr pack_step bs 0) = bs"
proof (induction bs)
  case (Cons b bs)
  let ?v = "foldr pack_step bs 0"
  have "take_bit 56 ?v = ?v"
  proof (rule bit_eqI)
    show "bit (take_bit 56 ?v) n = bit ?v n" for n
      using pack_range [of bs n] Cons.prems by (auto simp: bit_take_bit_iff)
  qed
  then show ?case using Cons by (simp add: pack_step_low pack_step_high)
qed simp

lemma pack64_eq: "pack64 (b0 # b1 # b2 # b3 # b4 # b5 # b6 # b7 # bs) = Some (foldr pack_step [b0, b1, b2, b3, b4, b5, b6, b7] 0)"
  by (simp add: pack64_def aget_def pack_step_def)

lemma eight_bytes: "8 \<le> length bs \<Longrightarrow> \<exists>b0 b1 b2 b3 b4 b5 b6 b7 r. bs = b0 # b1 # b2 # b3 # b4 # b5 # b6 # b7 # r"
  by (simp add: numeral_eq_Suc Suc_le_length_iff) blast

text \<open>What was packed is unpacked.\<close>

lemma pack64_unpack:
  assumes "8 \<le> length bs"
  shows "\<exists>v. pack64 bs = Some v \<and> unpack_bytes 8 v = take 8 bs"
proof -
  from eight_bytes [OF assms] obtain b0 b1 b2 b3 b4 b5 b6 b7 r where
    bs: "bs = b0 # b1 # b2 # b3 # b4 # b5 # b6 # b7 # r" by blast
  have l: "length [b0, b1, b2, b3, b4, b5, b6, b7] = 8" by simp
  from unpack_pack [of "[b0, b1, b2, b3, b4, b5, b6, b7]", unfolded l]
  have "unpack_bytes 8 (foldr pack_step [b0, b1, b2, b3, b4, b5, b6, b7] 0) = [b0, b1, b2, b3, b4, b5, b6, b7]" by blast
  moreover have "take 8 bs = [b0, b1, b2, b3, b4, b5, b6, b7]" by (simp add: bs)
  ultimately show ?thesis unfolding bs pack64_eq by (simp only: option.inject ex_simps simp_thms)
qed

section \<open>State\<close>

datatype KEY_MODE = NORMAL | PASSWORD | NUM_ENTRY

datatype ISRSTATE = STATE_WAIT_FOR_PRESS | STATE_WAIT_FOR_RELEASE

text \<open>
  The globals of \<open>freertos.c\<close>. \<open>keypressed\<close>, \<open>Send7200\<close>, \<open>SendMonitor\<close> and \<open>SendFPGA\<close> are the queues,
  \<open>uart1\<close> what went to the TS-7200, \<open>uart3\<close> what went to the FPGA with the level of the pin \<open>CmdParam\<close>.
\<close>

record stm =
  keypressed :: "u16 list"
  Send7200 :: "u64 list"
  SendMonitor :: "u64 list"
  SendFPGA :: "u64 list"
  uart1 :: "u8 list"
  uart3 :: "(bool \<times> u8) list"
  global_ucbuff :: "u8 list"
  raw_data :: int
  raw_data2 :: int
  temp_raw :: int
  too_high_flag :: int
  cooling_fan_override :: int
  engine_temp_limit :: u16
  fan_on_temp :: u16
  fan_off_temp :: u16
  blower1_temp :: u16
  blower2_temp :: u16
  blower3_temp :: u16
  blower_en_temp :: u16
  batt_box_temp :: u16
  blower_on_countdown :: int
  send_adc :: int
  server_up :: int
  timer_toggle :: int
  blower_on :: int
  fan_on :: int
  engine_on :: int
  key_mode :: KEY_MODE
  s_password :: "u8 list"
  correct_password :: "u8 list"
  password_ptr :: int
  password_retries :: int
  password_countdown :: int
  init_password_retries :: int
  init_password_countdown :: int

text \<open>\<open>avr_buffer[0] = pack64(ucbuff); xQueueSend(\<dots>Handle, avr_buffer, 0);\<close>\<close>

definition to_7200 :: "u8 list \<Rightarrow> 'a stm_scheme \<Rightarrow> 'a stm_scheme option" where
  "to_7200 ucbuff s = do { v \<leftarrow> pack64 ucbuff; Some (s\<lparr>Send7200 := xQueueSend 10 v (Send7200 s)\<rparr>) }"

definition to_FPGA :: "u8 list \<Rightarrow> 'a stm_scheme \<Rightarrow> 'a stm_scheme option" where
  "to_FPGA ucbuff s = do { v \<leftarrow> pack64 ucbuff; Some (s\<lparr>SendFPGA := xQueueSend 10 v (SendFPGA s)\<rparr>) }"

definition to_Monitor :: "u8 list \<Rightarrow> 'a stm_scheme \<Rightarrow> 'a stm_scheme option" where
  "to_Monitor ucbuff s = do { v \<leftarrow> pack64 ucbuff; Some (s\<lparr>SendMonitor := xQueueSend 10 v (SendMonitor s)\<rparr>) }"

section \<open>Writing to the TS-7200 and to the FPGA\<close>

text \<open>
  One round of \<open>StartTask7200\<close>: \<open>ucbuff\<close> has 50 bytes, zero at first, and keeps its tail. \<open>None\<close> in the
  queue is a task that waits.
\<close>

definition task7200 :: "u8 list \<Rightarrow> 'a stm_scheme \<Rightarrow> (u8 list \<times> 'a stm_scheme) option" where
  "task7200 ucbuff s = do {
     (v, q) \<leftarrow> xQueueReceive (Send7200 s);
     let s = s\<lparr>Send7200 := q\<rparr>;
     let ucbuff = unpack_bytes 8 v @ drop 8 ucbuff;
     Some (ucbuff, if server_up s = 1 then s\<lparr>uart1 := uart1 s @ 0xFF # ucbuff\<rparr> else s)
   }"

text \<open>One round of \<open>StartMonitorTask\<close>: the message is unpacked and nothing is sent.\<close>

definition monitor_task :: "u8 list \<Rightarrow> 'a stm_scheme \<Rightarrow> (u8 list \<times> 'a stm_scheme) option" where
  "monitor_task ucbuff s = do {
     (v, q) \<leftarrow> xQueueReceive (SendMonitor s);
     Some (unpack_bytes 8 v @ drop 8 ucbuff, s\<lparr>SendMonitor := q\<rparr>)
   }"

text \<open>One round of \<open>StartSendFPGA\<close>: the command with \<open>CmdParam\<close> high, seven parameters and \<open>0xFF\<close> with it low.\<close>

definition send_fpga :: "'a stm_scheme \<Rightarrow> 'a stm_scheme option" where
  "send_fpga s = do {
     (v, q) \<leftarrow> xQueueReceive (SendFPGA s);
     let s = s\<lparr>SendFPGA := q\<rparr>;
     let bs = unpack_bytes 8 v;
     cmd \<leftarrow> aget bs 0;
     let s = s\<lparr>uart3 := uart3 s @ [(True, cmd)]\<rparr>;
     let s = s\<lparr>uart3 := uart3 s @ map (Pair False) (tl bs)\<rparr>;
     Some (s\<lparr>uart3 := uart3 s @ [(False, 0xFF)]\<rparr>)
   }"

section \<open>The keypad\<close>

text \<open>
  \<open>rows\<close> are the levels of the pins \<open>row0\<close> to \<open>row3\<close>, high is \<open>True\<close>. A pressed key joins its row and its
  column: \<open>pressed r c\<close> is the key at the row pin \<open>r\<close> and the column pin \<open>c\<close>, and a column reads low when a
  pressed key joins it to a row that is low.
\<close>

definition read_col :: "(nat \<Rightarrow> nat \<Rightarrow> bool) \<Rightarrow> bool list \<Rightarrow> nat \<Rightarrow> bool" where
  "read_col pressed rows c = list_all (\<lambda>r. \<not> (pressed r c \<and> \<not> rows ! r)) [0..<4]"

definition setOneRowLow :: "nat \<Rightarrow> bool list" where
  "setOneRowLow x =
     (if x = 0 then [True, True, True, False]
      else if x = 1 then [True, True, False, True]
      else if x = 2 then [True, False, True, True]
      else if x = 3 then [False, True, True, True]
      else [True, True, True, True])"

definition drive_row_high :: "bool list" where
  "drive_row_high = [True, True, True, True]"

definition au8_keyTable :: "u8 list list" where
  "au8_keyTable = [
     [KP_AST, KP_0, KP_POUND, KP_D],
     [KP_7, KP_8, KP_9, KP_C],
     [KP_4, KP_5, KP_6, KP_B],
     [KP_1, KP_2, KP_3, KP_A]]"

definition key_is_released :: "(nat \<Rightarrow> nat \<Rightarrow> bool) \<Rightarrow> bool list \<Rightarrow> bool" where
  "key_is_released pressed rows \<longleftrightarrow>
     read_col pressed rows 0 \<and> read_col pressed rows 1 \<and> read_col pressed rows 2 \<and> read_col pressed rows 3"

text \<open>The scan from row \<open>u8_row\<close> on, \<open>n\<close> rows: the key and the rows as it leaves them.\<close>

fun scan_rows :: "(nat \<Rightarrow> nat \<Rightarrow> bool) \<Rightarrow> nat \<Rightarrow> nat \<Rightarrow> bool list \<Rightarrow> u8 \<times> bool list" where
  "scan_rows pressed 0 u8_row rows = (0, rows)"
| "scan_rows pressed (Suc n) u8_row rows =
     (let rows = setOneRowLow u8_row in
      if \<not> read_col pressed rows 0 then (au8_keyTable ! u8_row ! 0, rows)
      else if \<not> read_col pressed rows 1 then (au8_keyTable ! u8_row ! 1, rows)
      else if \<not> read_col pressed rows 2 then (au8_keyTable ! u8_row ! 2, rows)
      else if \<not> read_col pressed rows 3 then (au8_keyTable ! u8_row ! 3, rows)
      else scan_rows pressed n (u8_row + 1) rows)"

definition do_keyscan :: "(nat \<Rightarrow> nat \<Rightarrow> bool) \<Rightarrow> bool list \<Rightarrow> u8 \<times> bool list" where
  "do_keyscan pressed rows = scan_rows pressed 4 0 rows"

text \<open>What \<open>StartKeyStateTask\<close> keeps: the state, the key, the pins of the rows, \<open>ucbuff\<close> of 10 bytes.\<close>

record keytask =
  e_isrState :: ISRSTATE
  kt_key :: u8
  kt_rows :: "bool list"
  kt_ucbuff :: "u8 list"

text \<open>One round, with the keys pressed at this moment.\<close>

definition key_step :: "(nat \<Rightarrow> nat \<Rightarrow> bool) \<Rightarrow> keytask \<Rightarrow> 'a stm_scheme \<Rightarrow> (keytask \<times> 'a stm_scheme) option" where
  "key_step pressed k s =
     (case e_isrState k of
        STATE_WAIT_FOR_PRESS \<Rightarrow> do {
          let (key, rows) = do_keyscan pressed (kt_rows k);
          let k = k\<lparr>kt_key := key, kt_rows := rows\<rparr>;
          if key \<noteq> 0 then do {
            let k = k\<lparr>e_isrState := STATE_WAIT_FOR_RELEASE\<rparr>;
            if key_mode s = NORMAL then do {
              b \<leftarrow> aset (kt_ucbuff k) 0 DTMF_TONE_ON;
              b \<leftarrow> aset b 1 (if key = KP_0 then 0 else key - KP_1 + 1);
              s \<leftarrow> to_FPGA b s;
              Some (k\<lparr>kt_ucbuff := b\<rparr>, s)
            } else Some (k, s)
          } else Some (k, s)
        }
      | STATE_WAIT_FOR_RELEASE \<Rightarrow>
          if key_is_released pressed (kt_rows k) then do {
            let k = k\<lparr>e_isrState := STATE_WAIT_FOR_PRESS, kt_rows := drive_row_high\<rparr>;
            let s = s\<lparr>keypressed := xQueueSend 16 (ucast (kt_key k)) (keypressed s)\<rparr>;
            if key_mode s = NORMAL then do {
              b \<leftarrow> aset (kt_ucbuff k) 0 DTMF_TONE_OFF;
              s \<leftarrow> to_FPGA b s;
              Some (k\<lparr>kt_ucbuff := b, kt_key := 0\<rparr>, s)
            } else Some (k\<lparr>kt_key := 0\<rparr>, s)
          } else Some (k, s))"

section \<open>The task that takes the keys\<close>

text \<open>The set-up of \<open>StartDefaultTask\<close>; the password it copies is \<open>"4567"\<close>.\<close>

definition default_start :: "'a stm_scheme \<Rightarrow> 'a stm_scheme" where
  "default_start s = s\<lparr>raw_data := 4, raw_data2 := 4, temp_raw := 4, cooling_fan_override := 0, timer_toggle := 0,
     blower_on := 0, fan_on := 0, engine_on := 0, key_mode := NORMAL, s_password := replicate 6 0,
     correct_password := [0x34, 0x35, 0x36, 0x37, 0, 0]\<rparr>"

definition nav_of :: "u8 \<Rightarrow> u8 option" where
  "nav_of key =
     (if key = KP_A then Some NAV_UP else if key = KP_B then Some NAV_DOWN
      else if key = KP_C then Some NAV_CLICK else if key = KP_D then Some NAV_CLOSE
      else if key = KP_AST then Some NAV_SIDE else None)"

text \<open>One round of \<open>StartDefaultTask\<close>; \<open>ucbuff\<close> has 8 bytes.\<close>

definition default_task :: "u8 list \<Rightarrow> 'a stm_scheme \<Rightarrow> (u8 list \<times> 'a stm_scheme) option" where
  "default_task ucbuff s = do {
     (recval, q) \<leftarrow> xQueueReceive (keypressed s);
     let s = s\<lparr>keypressed := q\<rparr>;
     let key = (ucast recval :: u8);
     b \<leftarrow> aset ucbuff 0 key;
     s \<leftarrow> to_7200 b s;
     case nav_of key of
       Some nav \<Rightarrow> do { b \<leftarrow> aset b 0 nav; s \<leftarrow> to_7200 b s; Some (b, s) }
     | None \<Rightarrow>
         if key = KP_POUND then Some (b, s)
         else do {
           b \<leftarrow> aset b 0 DTMF_TONE_ON;
           b \<leftarrow> aset b 1 10;
           s \<leftarrow> to_FPGA b s;
           b \<leftarrow> aset b 0 DTMF_TONE_ON;
           b \<leftarrow> aset b 1 9;
           s \<leftarrow> to_FPGA b s;
           b \<leftarrow> aset b 0 DTMF_TONE_OFF;
           s \<leftarrow> to_FPGA b s;
           Some (b, s)
         }
   }"

section \<open>Messages\<close>

lemma to_7200_eq: "8 \<le> length b \<Longrightarrow> \<exists>v. to_7200 b s = Some (s\<lparr>Send7200 := xQueueSend 10 v (Send7200 s)\<rparr>) \<and> unpack_bytes 8 v = take 8 b"
  using pack64_unpack [of b] by (auto simp: to_7200_def)

lemma to_FPGA_eq: "8 \<le> length b \<Longrightarrow> \<exists>v. to_FPGA b s = Some (s\<lparr>SendFPGA := xQueueSend 10 v (SendFPGA s)\<rparr>) \<and> unpack_bytes 8 v = take 8 b"
  using pack64_unpack [of b] by (auto simp: to_FPGA_def)

lemma length_unpack_bytes [simp]: "length (unpack_bytes n v) = n"
  by (induction n arbitrary: v) simp_all

text \<open>
  A message gets through unchanged. Eight bytes queued for the TS-7200 while the queue is empty and the
  server is up come out on the line as one frame: the marker, the eight bytes, and the 42 bytes the
  sender's buffer holds behind them.
\<close>

theorem message_sent:
  assumes "8 \<le> length b" "Send7200 s = []" "server_up s = 1" "length u = 50"
  shows "\<exists>s1. to_7200 b s = Some s1 \<and>
    task7200 u s1 = Some (take 8 b @ drop 8 u, s\<lparr>uart1 := uart1 s @ 0xFF # take 8 b @ drop 8 u\<rparr>)"
proof -
  from to_7200_eq [OF assms(1), of s] obtain v where
    v: "to_7200 b s = Some (s\<lparr>Send7200 := xQueueSend 10 v (Send7200 s)\<rparr>)" "unpack_bytes 8 v = take 8 b" by blast
  have e: "s\<lparr>Send7200 := []\<rparr> = s" using assms(2) by (cases s) simp
  have "s\<lparr>Send7200 := [], uart1 := x\<rparr> = s\<lparr>uart1 := x\<rparr>" for x using e by (cases s) simp
  with v assms(2,3) show ?thesis by (simp add: task7200_def xQueueSend_def xQueueReceive_def Let_def)
qed

section \<open>Keys\<close>

definition layout :: "u8 list list" where
  "layout = [
     [KP_1, KP_2, KP_3, KP_A],
     [KP_4, KP_5, KP_6, KP_B],
     [KP_7, KP_8, KP_9, KP_C],
     [KP_AST, KP_0, KP_POUND, KP_D]]"

definition only :: "nat \<Rightarrow> nat \<Rightarrow> nat \<Rightarrow> nat \<Rightarrow> bool" where
  "only r c = (\<lambda>r' c'. r' = r \<and> c' = c)"

definition no_key :: "nat \<Rightarrow> nat \<Rightarrow> bool" where
  "no_key = (\<lambda>r c. False)"

lemma scan_starts_over: "do_keyscan pressed rows = do_keyscan pressed rows'"
  by (simp add: do_keyscan_def numeral_eq_Suc)

lemma scan_all:
  "list_all (\<lambda>r. list_all (\<lambda>c. do_keyscan (only r c) [] = (layout ! r ! c, setOneRowLow (3 - r)) \<and>
     \<not> key_is_released (only r c) (setOneRowLow (3 - r)) \<and> layout ! r ! c \<noteq> 0) [0..<4]) [0..<4]"
  unfolding only_def by code_simp

lemma scan_only:
  assumes "r < 4" "c < 4"
  shows "do_keyscan (only r c) rows = (layout ! r ! c, setOneRowLow (3 - r))"
    "\<not> key_is_released (only r c) (setOneRowLow (3 - r))" "layout ! r ! c \<noteq> 0"
  using scan_all assms scan_starts_over [of "only r c" rows "[]"] by (auto simp: list_all_iff)

lemma scan_none: "do_keyscan no_key rows = (0, [False, True, True, True])" "key_is_released no_key rows"
proof -
  have "do_keyscan no_key [] = (0, [False, True, True, True])" unfolding no_key_def by code_simp
  then show "do_keyscan no_key rows = (0, [False, True, True, True])" using scan_starts_over [of no_key rows "[]"] by simp
  show "key_is_released no_key rows" by (simp add: key_is_released_def read_col_def no_key_def list_all_iff)
qed

text \<open>The task on a sequence of moments.\<close>

fun key_run :: "(nat \<Rightarrow> nat \<Rightarrow> bool) list \<Rightarrow> keytask \<Rightarrow> 'a stm_scheme \<Rightarrow> (keytask \<times> 'a stm_scheme) option" where
  "key_run [] k s = Some (k, s)"
| "key_run (p # ps) k s = do { (k, s) \<leftarrow> key_step p k s; key_run ps k s }"

lemma key_run_append: "key_run (ps @ qs) k s = Option.bind (key_run ps k s) (\<lambda>(k, s). key_run qs k s)"
  by (induction ps arbitrary: k s) (auto split: bind_split)

lemma key_step_press:
  assumes "r < 4" "c < 4" "e_isrState k = STATE_WAIT_FOR_PRESS" "length (kt_ucbuff k) = 10"
  shows "\<exists>b f. key_step (only r c) k s = Some (\<lparr>e_isrState = STATE_WAIT_FOR_RELEASE, kt_key = layout ! r ! c,
     kt_rows = setOneRowLow (3 - r), kt_ucbuff = b\<rparr>, s\<lparr>SendFPGA := f\<rparr>) \<and> length b = 10"
proof (cases "key_mode s = NORMAL")
  case True
  let ?key = "layout ! r ! c"
  let ?b = "(kt_ucbuff k)[0 := 3, 1 := if ?key = KP_0 then 0 else ?key - KP_1 + 1]"
  have l: "8 \<le> length ?b" using assms(4) by simp
  from to_FPGA_eq [OF l, of s] obtain v where "to_FPGA ?b s = Some (s\<lparr>SendFPGA := xQueueSend 10 v (SendFPGA s)\<rparr>)" by blast
  moreover have "aset (kt_ucbuff k) 0 3 = Some ((kt_ucbuff k)[0 := 3])"
    "aset ((kt_ucbuff k)[0 := 3]) 1 x = Some ((kt_ucbuff k)[0 := 3, 1 := x])" for x using assms(4) by (simp_all add: aset_def)
  ultimately show ?thesis using assms True scan_only [OF assms(1,2)]
    by (cases k) (auto simp: key_step_def Let_def)
next
  case False
  then show ?thesis using assms scan_only [OF assms(1,2)]
    by (cases k) (auto simp: key_step_def Let_def intro!: exI [of _ "SendFPGA s"])
qed

lemma key_step_held:
  assumes "r < 4" "c < 4" "e_isrState k = STATE_WAIT_FOR_RELEASE" "kt_rows k = setOneRowLow (3 - r)"
  shows "key_step (only r c) k s = Some (k, s)"
  using assms scan_only(2) [OF assms(1,2)] by (simp add: key_step_def)

lemma key_run_held:
  assumes "r < 4" "c < 4" "e_isrState k = STATE_WAIT_FOR_RELEASE" "kt_rows k = setOneRowLow (3 - r)"
  shows "key_run (replicate n (only r c)) k s = Some (k, s)"
  by (induction n) (simp_all add: key_step_held [OF assms])

lemma key_step_release:
  assumes "e_isrState k = STATE_WAIT_FOR_RELEASE" "length (kt_ucbuff k) = 10"
  shows "\<exists>b f. key_step no_key k s = Some (\<lparr>e_isrState = STATE_WAIT_FOR_PRESS, kt_key = 0,
     kt_rows = drive_row_high, kt_ucbuff = b\<rparr>,
     s\<lparr>keypressed := xQueueSend 16 (ucast (kt_key k)) (keypressed s), SendFPGA := f\<rparr>) \<and> length b = 10"
proof (cases "key_mode s = NORMAL")
  case True
  let ?b = "(kt_ucbuff k)[0 := 4]" and ?s = "s\<lparr>keypressed := xQueueSend 16 (ucast (kt_key k)) (keypressed s)\<rparr>"
  have l: "8 \<le> length ?b" using assms(2) by simp
  from to_FPGA_eq [OF l, of ?s] obtain v where "to_FPGA ?b ?s = Some (?s\<lparr>SendFPGA := xQueueSend 10 v (SendFPGA ?s)\<rparr>)" by blast
  moreover have "aset (kt_ucbuff k) 0 4 = Some ?b" using assms(2) by (simp add: aset_def)
  ultimately show ?thesis using assms True scan_none(2)
    by (cases k) (auto simp: key_step_def Let_def)
next
  case False
  then show ?thesis using assms scan_none(2)
    by (cases k) (auto simp: key_step_def Let_def intro!: exI [of _ "SendFPGA s"])
qed

lemma key_run_idle:
  assumes "e_isrState k = STATE_WAIT_FOR_PRESS"
  shows "\<exists>k'. key_run (replicate n no_key) k s = Some (k', s) \<and> e_isrState k' = STATE_WAIT_FOR_PRESS \<and>
     kt_ucbuff k' = kt_ucbuff k"
  using assms
proof (induction n arbitrary: k)
  case (Suc n)
  let ?k = "k\<lparr>kt_key := 0, kt_rows := [False, True, True, True]\<rparr>"
  have "key_step no_key k s = Some (?k, s)" using Suc.prems scan_none(1) by (simp add: key_step_def Let_def)
  with Suc.IH [of ?k] Suc.prems show ?case by auto
qed auto

lemma key_press_run:
  assumes "r < 4" "c < 4" "e_isrState k = STATE_WAIT_FOR_PRESS" "length (kt_ucbuff k) = 10"
  shows "\<exists>k' f. key_run (replicate (Suc m) (only r c) @ replicate (Suc n) no_key) k s =
      Some (k', s\<lparr>keypressed := xQueueSend 16 (ucast (layout ! r ! c)) (keypressed s), SendFPGA := f\<rparr>) \<and>
    e_isrState k' = STATE_WAIT_FOR_PRESS \<and> length (kt_ucbuff k') = 10"
proof -
  from key_step_press [OF assms, of s] obtain b f where
    1: "key_step (only r c) k s = Some (\<lparr>e_isrState = STATE_WAIT_FOR_RELEASE, kt_key = layout ! r ! c,
     kt_rows = setOneRowLow (3 - r), kt_ucbuff = b\<rparr>, s\<lparr>SendFPGA := f\<rparr>)" "length b = 10" by blast
  let ?k1 = "\<lparr>e_isrState = STATE_WAIT_FOR_RELEASE, kt_key = layout ! r ! c, kt_rows = setOneRowLow (3 - r), kt_ucbuff = b\<rparr>"
  have 2: "key_run (replicate m (only r c)) ?k1 (s\<lparr>SendFPGA := f\<rparr>) = Some (?k1, s\<lparr>SendFPGA := f\<rparr>)"
    by (rule key_run_held [OF assms(1,2)]) simp_all
  from key_step_release [of ?k1 "s\<lparr>SendFPGA := f\<rparr>"] 1(2) obtain b2 f2 where
    3: "key_step no_key ?k1 (s\<lparr>SendFPGA := f\<rparr>) = Some (\<lparr>e_isrState = STATE_WAIT_FOR_PRESS, kt_key = 0,
     kt_rows = drive_row_high, kt_ucbuff = b2\<rparr>,
     s\<lparr>keypressed := xQueueSend 16 (ucast (layout ! r ! c)) (keypressed s), SendFPGA := f2\<rparr>)" "length b2 = 10" by auto
  let ?s3 = "s\<lparr>keypressed := xQueueSend 16 (ucast (layout ! r ! c)) (keypressed s), SendFPGA := f2\<rparr>"
  from key_run_idle [of "\<lparr>e_isrState = STATE_WAIT_FOR_PRESS, kt_key = 0, kt_rows = drive_row_high, kt_ucbuff = b2\<rparr>" n ?s3]
  obtain k' where 4: "key_run (replicate n no_key) \<lparr>e_isrState = STATE_WAIT_FOR_PRESS, kt_key = 0,
     kt_rows = drive_row_high, kt_ucbuff = b2\<rparr> ?s3 = Some (k', ?s3)" "e_isrState k' = STATE_WAIT_FOR_PRESS" "kt_ucbuff k' = b2"
    by auto
  show ?thesis using 1(1) 2 3 4 by (auto simp: key_run_append)
qed

text \<open>
  C32: One press, one key. However long a single key is held and released, exactly one key is queued, the
  one printed at its place on the keypad, and the task is ready for the next.
\<close>

theorem one_press_one_key:
  assumes "r < 4" "c < 4" "e_isrState k = STATE_WAIT_FOR_PRESS" "length (kt_ucbuff k) = 10" "keypressed s = []"
  shows "\<exists>k' s'. key_run (replicate (Suc m) (only r c) @ replicate (Suc n) no_key) k s = Some (k', s') \<and>
    keypressed s' = [ucast (layout ! r ! c)] \<and> Send7200 s' = Send7200 s \<and>
    e_isrState k' = STATE_WAIT_FOR_PRESS \<and> length (kt_ucbuff k') = 10"
  using key_press_run [OF assms(1-4), of m n s] assms(5) by (fastforce simp: xQueueSend_def)

definition stm0 :: stm where
  "stm0 = default_start \<lparr>keypressed = [], Send7200 = [], SendMonitor = [], SendFPGA = [], uart1 = [], uart3 = [],
     global_ucbuff = replicate 8 0, raw_data = 0, raw_data2 = 0, temp_raw = 0, too_high_flag = 0,
     cooling_fan_override = 0, engine_temp_limit = 190, fan_on_temp = 175, fan_off_temp = 150, blower1_temp = 65,
     blower2_temp = 55, blower3_temp = 45, blower_en_temp = 70, batt_box_temp = 75, blower_on_countdown = 5,
     send_adc = 0, server_up = 0, timer_toggle = 0, blower_on = 0, fan_on = 0, engine_on = 0, key_mode = NORMAL,
     s_password = replicate 6 0, correct_password = replicate 6 0, password_ptr = 0, password_retries = 3,
     password_countdown = 0, init_password_retries = 3, init_password_countdown = 10\<rparr>"

definition keytask0 :: keytask where
  "keytask0 = \<lparr>e_isrState = STATE_WAIT_FOR_PRESS, kt_key = 0, kt_rows = drive_row_high, kt_ucbuff = replicate 10 0\<rparr>"

lemma message_sent_witness:
  "\<exists>s1. to_7200 [KP_1, 0, 0, 0, 0, 0, 0, 0] (stm0\<lparr>server_up := 1\<rparr>) = Some s1 \<and>
    task7200 (replicate 50 0) s1 = Some (take 8 [KP_1, 0, 0, 0, 0, 0, 0, 0] @ drop 8 (replicate 50 0),
      stm0\<lparr>server_up := 1, uart1 := uart1 (stm0\<lparr>server_up := 1\<rparr>) @ 0xFF # take 8 [KP_1, 0, 0, 0, 0, 0, 0, 0] @ drop 8 (replicate 50 0)\<rparr>)"
  using message_sent [of "[KP_1, 0, 0, 0, 0, 0, 0, 0]" "stm0\<lparr>server_up := 1\<rparr>" "replicate 50 0"]
  by (simp add: stm0_def default_start_def)

lemma one_press_one_key_witness:
  "\<exists>k' s'. key_run (replicate (Suc 4) (only 1 2) @ replicate (Suc 2) no_key) keytask0 stm0 = Some (k', s') \<and>
    keypressed s' = [ucast (layout ! 1 ! 2)] \<and> Send7200 s' = Send7200 stm0 \<and>
    e_isrState k' = STATE_WAIT_FOR_PRESS \<and> length (kt_ucbuff k') = 10"
  by (rule one_press_one_key) (simp_all add: keytask0_def stm0_def default_start_def)

end
