(* ===== verification/StmRecv.thy ===== *)
theory StmRecv
  imports Stm
begin

text \<open>
  What the STM32 receives: \<open>StartRecv7200\<close> (commands and parameters of the TS-7200) and \<open>StartRecvFPGA\<close>
  (speeds and readings) of \<open>STM32/Src/freertos.c\<close>. \<open>HAL_UART_Receive_IT\<close> only starts a reception: the
  interrupt stores byte after byte into \<open>buff\<close> while the task goes on, and the call does nothing while a
  reception is in progress. So the task looks at \<open>buff[0]\<close> every 50 ms, whatever has arrived.
\<close>

section \<open>Reception by interrupt\<close>

text \<open>\<open>buff\<close> of \<open>StartRecv7200\<close> (51 bytes), where the next byte goes, and how many are still to come.\<close>

record uart =
  rx_buff :: "u8 list"
  rx_pos :: nat
  rx_left :: nat

definition receive_it :: "nat \<Rightarrow> uart \<Rightarrow> uart" where
  "receive_it n u = (if rx_left u = 0 then u\<lparr>rx_pos := 0, rx_left := n\<rparr> else u)"

text \<open>
  A byte arrives; with no reception in progress \<open>buff\<close> does not change. (What the UART then does with the byte, and
  what the next reception finds, is in \<open>HalUart\<close>, with the proof that until then this is what the library does.)
\<close>

definition rx_byte :: "u8 \<Rightarrow> uart \<Rightarrow> uart" where
  "rx_byte b u = (if rx_left u = 0 then u
     else u\<lparr>rx_buff := (rx_buff u)[rx_pos u := b], rx_pos := rx_pos u + 1, rx_left := rx_left u - 1\<rparr>)"

section \<open>Commands of the TS-7200\<close>

definition accepted :: "u8 \<Rightarrow> bool" where
  "accepted cmd \<longleftrightarrow> (ENABLE_START \<le> cmd \<and> cmd \<le> WIPER_OFF) \<or>
     cmd \<in> {SERVER_UP, SERVER_DOWN, SEND_CONFIG2, GET_CONFIG2, ADC_GATE, SET_ADC_RATE, SET_FPGA_RATE,
       SET_RPM_MPH_RATE, HIGH_REV_LIMIT, LOW_REV_LIMIT, SEND_REV_LIMIT_OVERRIDE, SEND_FP_OVERRIDE}"

text \<open>\<open>x = (uint16_t)buff[i+1]; x <<= 8; x |= (uint16_t)buff[i];\<close>\<close>

definition u16_at :: "u8 list \<Rightarrow> int \<Rightarrow> u16 option" where
  "u16_at buff i = do {
     hi \<leftarrow> aget buff (i + 1);
     lo \<leftarrow> aget buff i;
     Some (mk16s hi lo)
   }"

text \<open>\<open>for(i = 0;i < n;i++)\<close>: the two lights take turns.\<close>

definition toggle :: "int \<Rightarrow> int" where
  "toggle x = (if x = 0 then 1 else 0)"

definition rc_server_up :: "u8 list \<Rightarrow> 'a stm_scheme \<Rightarrow> 'a stm_scheme option" where
  "rc_server_up buff s = do {
     v \<leftarrow> u16_at buff 1;
     let s = s\<lparr>engine_temp_limit := v\<rparr>;
     v \<leftarrow> u16_at buff 3;
     let s = s\<lparr>fan_on_temp := v\<rparr>;
     v \<leftarrow> u16_at buff 5;
     let s = s\<lparr>fan_off_temp := v\<rparr>;
     v \<leftarrow> u16_at buff 7;
     let s = s\<lparr>blower1_temp := v\<rparr>;
     v \<leftarrow> u16_at buff 9;
     let s = s\<lparr>blower2_temp := v\<rparr>;
     v \<leftarrow> u16_at buff 11;
     let s = s\<lparr>blower3_temp := v\<rparr>;
     v \<leftarrow> u16_at buff 13;
     let s = s\<lparr>blower_en_temp := v\<rparr>;
     let s = s\<lparr>timer_toggle := (toggle ^^ 20) (timer_toggle s)\<rparr>;
     Some (s\<lparr>server_up := 1\<rparr>)
   }"

text \<open>\<open>ucbuff[0] = c; ucbuff[1] = buff[i]; \<dots> xQueueSend(SendFPGAHandle,avr_buffer,0);\<close>\<close>

definition rc_param :: "u8 \<Rightarrow> int \<Rightarrow> u8 list \<Rightarrow> u8 list \<Rightarrow> 'a stm_scheme \<Rightarrow> (u8 list \<times> 'a stm_scheme) option" where
  "rc_param c i buff ucbuff s = do {
     ucbuff \<leftarrow> aset ucbuff 0 c;
     b \<leftarrow> aget buff i;
     ucbuff \<leftarrow> aset ucbuff 1 b;
     s \<leftarrow> to_FPGA ucbuff s;
     Some (ucbuff, s)
   }"

definition rc_config :: "u8 list \<Rightarrow> u8 list \<Rightarrow> 'a stm_scheme \<Rightarrow> (u8 list \<times> 'a stm_scheme) option" where
  "rc_config buff ucbuff s = do {
     (ucbuff, s) \<leftarrow> rc_param SET_RPM_MPH_UPDATE_RATE 1 buff ucbuff s;
     (ucbuff, s) \<leftarrow> rc_param SET_FPGA_SEND_UPDATE_RATE 2 buff ucbuff s;
     (ucbuff, s) \<leftarrow> rc_param SET_HIGH_REV_LIMIT 3 buff ucbuff s;
     (ucbuff, s) \<leftarrow> rc_param SET_LOW_REV_LIMIT 4 buff ucbuff s;
     v \<leftarrow> u16_at buff 5;
     let s = s\<lparr>fan_on_temp := v\<rparr>;
     v \<leftarrow> u16_at buff 7;
     let s = s\<lparr>fan_off_temp := v\<rparr>;
     v \<leftarrow> u16_at buff 9;
     let s = s\<lparr>blower_en_temp := v\<rparr>;
     v \<leftarrow> u16_at buff 11;
     let s = s\<lparr>blower1_temp := v\<rparr>;
     v \<leftarrow> u16_at buff 13;
     let s = s\<lparr>blower2_temp := v\<rparr>;
     v \<leftarrow> u16_at buff 15;
     let s = s\<lparr>blower3_temp := v\<rparr>;
     v \<leftarrow> u16_at buff 17;
     let s = s\<lparr>engine_temp_limit := v\<rparr>;
     v \<leftarrow> u16_at buff 19;
     let s = s\<lparr>batt_box_temp := v\<rparr>;
     Some (ucbuff, s)
   }"

text \<open>\<open>utemp = x; ucbuff[i] = (UCHAR)utemp; utemp >>= 8; ucbuff[i+1] = (UCHAR)utemp;\<close>\<close>

definition put_u16 :: "int \<Rightarrow> u16 \<Rightarrow> u8 list \<Rightarrow> u8 list option" where
  "put_u16 i x ucbuff = do {
     let utemp = (ucast x :: u32);
     ucbuff \<leftarrow> aset ucbuff i (lo8 utemp);
     aset ucbuff (i + 1) (hi8 utemp)
   }"

definition rc_get_config :: "u8 list \<Rightarrow> 'a stm_scheme \<Rightarrow> (u8 list \<times> 'a stm_scheme) option" where
  "rc_get_config ucbuff s = do {
     ucbuff \<leftarrow> aset ucbuff 0 GET_CONFIG2;
     ucbuff \<leftarrow> put_u16 1 (fan_on_temp s) ucbuff;
     ucbuff \<leftarrow> put_u16 3 (fan_off_temp s) ucbuff;
     ucbuff \<leftarrow> put_u16 5 (engine_temp_limit s) ucbuff;
     s \<leftarrow> to_7200 ucbuff s;
     Some (ucbuff, s)
   }"

text \<open>The \<open>switch\<close>.\<close>

definition recv_cmd :: "u8 \<Rightarrow> u8 list \<Rightarrow> u8 list \<Rightarrow> 'a stm_scheme \<Rightarrow> (u8 list \<times> 'a stm_scheme) option" where
  "recv_cmd cmd buff ucbuff s =
     (if cmd = ON_FAN then Some (ucbuff, s\<lparr>fan_on := 1\<rparr>)
      else if cmd = OFF_FAN then Some (ucbuff, s\<lparr>fan_on := 0\<rparr>)
      else if cmd = START_SEQ then Some (ucbuff, s\<lparr>engine_on := 1, blower_on_countdown := 5\<rparr>)
      else if cmd = SHUTDOWN \<or> cmd = ESTOP_SIGNAL then Some (ucbuff, s\<lparr>engine_on := 0\<rparr>)
      else if cmd = SERVER_UP then do { s \<leftarrow> rc_server_up buff s; Some (ucbuff, s) }
      else if cmd = SERVER_DOWN then
        Some (ucbuff, s\<lparr>timer_toggle := (toggle ^^ 30) (timer_toggle s), server_up := 0\<rparr>)
      else if cmd = SEND_CONFIG2 then rc_config buff ucbuff s
      else if cmd = GET_CONFIG2 then rc_get_config ucbuff s
      else if cmd = ADC_GATE then do {
        (ucbuff, s) \<leftarrow> rc_param ADC_CTL 1 buff ucbuff s;
        b \<leftarrow> aget buff 1;
        Some (ucbuff, s\<lparr>send_adc := (if b > 0 then 1 else 0)\<rparr>)
      }
      else if cmd = SET_ADC_RATE then rc_param SET_ADC_RATE2 1 buff ucbuff s
      else if cmd = SET_FPGA_RATE then rc_param SET_FPGA_SEND_UPDATE_RATE 1 buff ucbuff s
      else if cmd = SET_RPM_MPH_RATE then rc_param SET_RPM_MPH_UPDATE_RATE 1 buff ucbuff s
      else if cmd = HIGH_REV_LIMIT then rc_param SET_HIGH_REV_LIMIT 1 buff ucbuff s
      else if cmd = LOW_REV_LIMIT then rc_param SET_LOW_REV_LIMIT 1 buff ucbuff s
      else if cmd = SEND_REV_LIMIT_OVERRIDE then rc_param REV_LIMIT_OVERRIDE 1 buff ucbuff s
      else if cmd = SEND_FP_OVERRIDE then rc_param FUEL_PUMP_OVERRIDE 1 buff ucbuff s
      else Some (ucbuff, s))"

text \<open>One round of the task; \<open>memset(buff,0,SERIAL_BUFF_SIZE)\<close> leaves the last byte.\<close>

definition recv7200 :: "uart \<Rightarrow> u8 list \<Rightarrow> 'a stm_scheme \<Rightarrow> (uart \<times> u8 list \<times> 'a stm_scheme) option" where
  "recv7200 u ucbuff s = do {
     let u = receive_it 51 u;
     cmd \<leftarrow> aget (rx_buff u) 0;
     if accepted cmd then do {
       (ucbuff, s) \<leftarrow> recv_cmd cmd (rx_buff u) ucbuff s;
       ucbuff \<leftarrow> aset ucbuff 0 cmd;
       s \<leftarrow> to_Monitor ucbuff s;
       Some (u\<lparr>rx_buff := replicate 50 0 @ drop 50 (rx_buff u)\<rparr>, ucbuff, s)
     } else Some (u, ucbuff, s)
   }"

section \<open>Frames of the FPGA\<close>

text \<open>
  What \<open>StartRecvFPGA\<close> keeps: \<open>xbyte\<close>, \<open>buff[25]\<close>, \<open>frame_ptr\<close> and \<open>ucbuff[8]\<close>. A byte is read from
  eight pins and or-ed into \<open>xbyte\<close>, which is 0 but the first time. \<open>0xFE\<close> ends a frame.
\<close>

record fpga =
  xbyte :: u8
  fbuff :: "u8 list"
  frame_ptr :: int
  f_ucbuff :: "u8 list"

text \<open>\<open>ucbuff[0] = c; ucbuff[1] = buff[i]; \<dots> ucbuff[4] = buff[i+3]; \<dots> xQueueSend(Send7200Handle,\<dots>)\<close>\<close>

definition fpga_report :: "u8 \<Rightarrow> int \<Rightarrow> fpga \<Rightarrow> 'a stm_scheme \<Rightarrow> (fpga \<times> 'a stm_scheme) option" where
  "fpga_report c i f s = do {
     b0 \<leftarrow> aget (fbuff f) i;
     b1 \<leftarrow> aget (fbuff f) (i + 1);
     b2 \<leftarrow> aget (fbuff f) (i + 2);
     b3 \<leftarrow> aget (fbuff f) (i + 3);
     u \<leftarrow> aset (f_ucbuff f) 0 c;
     u \<leftarrow> aset u 1 b0;
     u \<leftarrow> aset u 2 b1;
     u \<leftarrow> aset u 3 b2;
     u \<leftarrow> aset u 4 b3;
     s \<leftarrow> to_7200 u s;
     Some (f\<lparr>f_ucbuff := u\<rparr>, s)
   }"

definition fpga_frame :: "fpga \<Rightarrow> 'a stm_scheme \<Rightarrow> (fpga \<times> 'a stm_scheme) option" where
  "fpga_frame f s = do {
     let f = f\<lparr>frame_ptr := 0\<rparr>;
     (f, s) \<leftarrow> (if engine_on s \<noteq> 0 then fpga_report SEND_RT_VALUES1 0 f s else Some (f, s));
     (f, s) \<leftarrow> (if send_adc s = 1 then do {
         (f, s) \<leftarrow> fpga_report SEND_RT_VALUES2 4 f s;
         fpga_report SEND_RT_VALUES3 8 f s
       } else Some (f, s));
     fpga_report SEND_RT_FPGA_STATUS 12 f s
   }"

text \<open>The byte \<open>b\<close> is on the pins; nothing is read while the server is down.\<close>

definition fpga_byte :: "u8 \<Rightarrow> fpga \<Rightarrow> 'a stm_scheme \<Rightarrow> (fpga \<times> 'a stm_scheme) option" where
  "fpga_byte b f s =
     (if server_up s > 0 then do {
        let x = xbyte f OR b;
        (f, s) \<leftarrow> (if x = 0xFE then fpga_frame f s
          else do {
            buf \<leftarrow> aset (fbuff f) (frame_ptr f) x;
            Some (f\<lparr>fbuff := buf, frame_ptr := frame_ptr f + 1\<rparr>, s)
          });
        Some (f\<lparr>xbyte := 0\<rparr>, s)
      } else Some (f, s))"

fun fpga_bytes :: "u8 list \<Rightarrow> fpga \<Rightarrow> 'a stm_scheme \<Rightarrow> (fpga \<times> 'a stm_scheme) option" where
  "fpga_bytes [] f s = Some (f, s)"
| "fpga_bytes (b # bs) f s = do { (f, s) \<leftarrow> fpga_byte b f s; fpga_bytes bs f s }"

section \<open>Whole and torn frames\<close>

text \<open>Bytes of a reception in progress go one behind the other.\<close>

lemma rx_bytes:
  assumes "length bs \<le> rx_left u" "rx_pos u + rx_left u \<le> length (rx_buff u)"
  shows "fold rx_byte bs u = u\<lparr>rx_buff := take (rx_pos u) (rx_buff u) @ bs @ drop (rx_pos u + length bs) (rx_buff u),
    rx_pos := rx_pos u + length bs, rx_left := rx_left u - length bs\<rparr>"
  using assms
proof (induction bs arbitrary: u)
  case Nil
  then show ?case by (cases u) simp
next
  case (Cons b bs)
  let ?p = "rx_pos u" and ?x = "rx_buff u"
  have p: "?p < length ?x" "rx_left u \<noteq> 0" using Cons.prems by auto
  let ?u = "u\<lparr>rx_buff := ?x[?p := b], rx_pos := ?p + 1, rx_left := rx_left u - 1\<rparr>"
  have u: "rx_byte b u = ?u" using p(2) by (simp add: rx_byte_def)
  have "take (Suc ?p) (?x[?p := b]) = take ?p ?x @ [b]" using p(1) by (simp add: take_Suc_conv_app_nth)
  then show ?case using Cons.IH [of ?u] Cons.prems p by (simp add: u)
qed

lemma rx_whole:
  assumes "length (rx_buff u) = 51" "rx_left u = 0" "length f = 51"
  shows "fold rx_byte f (receive_it 51 u) = u\<lparr>rx_buff := f, rx_pos := 51, rx_left := 0\<rparr>"
  using rx_bytes [of f "receive_it 51 u"] assms by (simp add: receive_it_def)

lemma u16_at_eq: "0 \<le> i \<Longrightarrow> i < 50 \<Longrightarrow> length buff = 51 \<Longrightarrow> u16_at buff i = Some (mk16s (buff ! nat (i + 1)) (buff ! nat i))"
  by (simp add: u16_at_def aget_def)

lemma rc_param_ok:
  "length buff = 51 \<Longrightarrow> length uc = 10 \<Longrightarrow> 0 \<le> i \<Longrightarrow> i < 51 \<Longrightarrow>
   \<exists>uc' v. rc_param c i buff uc s = Some (uc', s\<lparr>SendFPGA := xQueueSend 10 v (SendFPGA s)\<rparr>) \<and> length uc' = 10 \<and>
     take 2 (unpack_bytes 8 v) = [c, buff ! nat i]"
proof -
  assume a: "length buff = 51" "length uc = 10" "0 \<le> i" "i < 51"
  let ?b = "uc[0 := c, 1 := buff ! nat i]"
  have l: "8 \<le> length ?b" using a by simp
  from to_FPGA_eq [OF l, of s] obtain v where
    v: "to_FPGA ?b s = Some (s\<lparr>SendFPGA := xQueueSend 10 v (SendFPGA s)\<rparr>)" "unpack_bytes 8 v = take 8 ?b" by blast
  obtain x y zs where uc: "uc = x # y # zs" using a(2) by (cases uc; cases "tl uc") auto
  have "take 2 (take 8 ?b) = [c, buff ! nat i]" by (simp add: uc)
  then show ?thesis using a v by (auto simp: rc_param_def aset_def aget_def)
qed

text \<open>The limits the server sends are read from the frame.\<close>

lemma rc_server_up_eq:
  assumes "length buff = 51"
  shows "rc_server_up buff s = Some (s\<lparr>engine_temp_limit := mk16s (buff ! 2) (buff ! 1),
    fan_on_temp := mk16s (buff ! 4) (buff ! 3), fan_off_temp := mk16s (buff ! 6) (buff ! 5),
    blower1_temp := mk16s (buff ! 8) (buff ! 7), blower2_temp := mk16s (buff ! 10) (buff ! 9),
    blower3_temp := mk16s (buff ! 12) (buff ! 11), blower_en_temp := mk16s (buff ! 14) (buff ! 13),
    server_up := 1, timer_toggle := (toggle ^^ 20) (timer_toggle s)\<rparr>)"
  by (simp add: rc_server_up_def u16_at_eq assms Let_def)

lemma to_Monitor_eq: "8 \<le> length b \<Longrightarrow> \<exists>v. to_Monitor b s = Some (s\<lparr>SendMonitor := v\<rparr>)"
  using pack64_unpack [of b] by (auto simp: to_Monitor_def)

lemma accepted_server_up: "accepted SERVER_UP" "\<not> accepted 0"
  by (simp_all add: accepted_def)

text \<open>A round with \<open>SERVER_UP\<close> at the start of the buffer.\<close>

lemma recv_server_up:
  assumes "length (rx_buff u) = 51" "rx_buff u ! 0 = SERVER_UP" "length uc = 10"
  shows "\<exists>uc' m. recv7200 u uc s = Some ((receive_it 51 u)\<lparr>rx_buff := replicate 50 0 @ drop 50 (rx_buff u)\<rparr>, uc',
    (the (rc_server_up (rx_buff u) s))\<lparr>SendMonitor := m\<rparr>) \<and> length uc' = 10"
proof -
  have r: "rx_buff (receive_it 51 u) = rx_buff u" by (simp add: receive_it_def)
  have a: "aget (rx_buff u) 0 = Some SERVER_UP" using assms(1,2) by (simp add: aget_def)
  let ?s = "the (rc_server_up (rx_buff u) s)"
  have c: "recv_cmd SERVER_UP (rx_buff u) uc s = Some (uc, ?s)"
    by (simp add: recv_cmd_def rc_server_up_eq [OF assms(1)])
  have l: "8 \<le> length (uc[0 := SERVER_UP])" using assms(3) by simp
  from to_Monitor_eq [OF l, of ?s] obtain m where "to_Monitor (uc[0 := SERVER_UP]) ?s = Some (?s\<lparr>SendMonitor := m\<rparr>)" by blast
  then show ?thesis using a c assms(3) by (auto simp: recv7200_def r accepted_server_up aset_def Let_def)
qed

lemma recv_idle:
  assumes "length (rx_buff u) = 51" "\<not> accepted (rx_buff u ! 0)"
  shows "recv7200 u uc s = Some (receive_it 51 u, uc, s)"
proof -
  have "rx_buff (receive_it 51 u) = rx_buff u" by (simp add: receive_it_def)
  then show ?thesis using assms by (auto simp: recv7200_def aget_def Let_def)
qed

text \<open>
  A torn message is worse than none. If the task looks at the buffer when only the first byte of the
  server's message has come, it takes all seven limits as 0, and the rest of the message is never looked at:
  the engine counts as too hot, and the fan is wanted, at any temperature.
\<close>

theorem torn_server_up:
  assumes "rx_buff u = replicate 51 0" "rx_left u = 0" "length f = 51" "f ! 0 = SERVER_UP" "length uc = 10"
  shows "\<exists>u1 u2 uc2 s2 u3. recv7200 u uc s = Some (u1, uc, s) \<and>
    recv7200 (fold rx_byte (take 1 f) u1) uc s = Some (u2, uc2, s2) \<and>
    engine_temp_limit s2 = 0 \<and> fan_on_temp s2 = 0 \<and> fan_off_temp s2 = 0 \<and> server_up s2 = 1 \<and>
    recv7200 (fold rx_byte (drop 1 f) u2) uc2 s2 = Some (u3, uc2, s2)"
proof -
  have b: "length (rx_buff u) = 51" "rx_buff u ! 0 = 0" using assms(1) by simp_all
  let ?u1 = "receive_it 51 u"
  have 1: "recv7200 u uc s = Some (?u1, uc, s)" using recv_idle [of u] b accepted_server_up(2) by simp
  obtain f0 g where f: "f = f0 # g" using assms(3) by (cases f) auto
  have f0: "f0 = SERVER_UP" "length g = 50" using assms(3,4) f by simp_all
  let ?w = "fold rx_byte (take 1 f) ?u1"
  have w: "?w = u\<lparr>rx_buff := SERVER_UP # replicate 50 0, rx_pos := 1, rx_left := 50\<rparr>"
    using rx_bytes [of "take 1 f" ?u1] assms(1,2) f f0 by (simp add: receive_it_def)
  have wl: "length (rx_buff ?w) = 51" "rx_buff ?w ! 0 = SERVER_UP" unfolding w by simp_all
  from recv_server_up [OF wl assms(5), of s] obtain uc2 m where
    2: "recv7200 ?w uc s = Some ((receive_it 51 ?w)\<lparr>rx_buff := replicate 50 0 @ drop 50 (rx_buff ?w)\<rparr>, uc2,
      (the (rc_server_up (rx_buff ?w) s))\<lparr>SendMonitor := m\<rparr>)" by blast
  let ?u2 = "(receive_it 51 ?w)\<lparr>rx_buff := replicate 50 0 @ drop 50 (rx_buff ?w)\<rparr>"
  let ?s2 = "(the (rc_server_up (rx_buff ?w) s))\<lparr>SendMonitor := m\<rparr>"
  have u2: "?u2 = u\<lparr>rx_buff := replicate 51 0, rx_pos := 1, rx_left := 50\<rparr>"
    unfolding w by (simp add: receive_it_def numeral_eq_Suc)
  have lim: "engine_temp_limit ?s2 = 0 \<and> fan_on_temp ?s2 = 0 \<and> fan_off_temp ?s2 = 0 \<and> server_up ?s2 = 1"
    unfolding w by (simp add: rc_server_up_eq mk16s_def nth_Cons')
  have 3: "fold rx_byte (drop 1 f) ?u2 = u\<lparr>rx_buff := 0 # g, rx_pos := 51, rx_left := 0\<rparr>"
    using rx_bytes [of g ?u2] f f0 unfolding u2 by simp
  have 4: "recv7200 (fold rx_byte (drop 1 f) ?u2) uc2 ?s2 = Some (receive_it 51 (fold rx_byte (drop 1 f) ?u2), uc2, ?s2)"
    by (rule recv_idle; unfold 3) (simp_all add: f0 accepted_server_up)
  show ?thesis using 1 2 lim 4 by blast
qed

definition uart0 :: uart where
  "uart0 = \<lparr>rx_buff = replicate 51 0, rx_pos = 0, rx_left = 0\<rparr>"

lemma torn_server_up_witness:
  "\<exists>u1 u2 uc2 s2 u3. recv7200 uart0 (replicate 10 0) stm0 = Some (u1, replicate 10 0, stm0) \<and>
    recv7200 (fold rx_byte (take 1 (SERVER_UP # replicate 50 0x55)) u1) (replicate 10 0) stm0 = Some (u2, uc2, s2) \<and>
    engine_temp_limit s2 = 0 \<and> fan_on_temp s2 = 0 \<and> fan_off_temp s2 = 0 \<and> server_up s2 = 1 \<and>
    recv7200 (fold rx_byte (drop 1 (SERVER_UP # replicate 50 0x55)) u2) uc2 s2 = Some (u3, uc2, s2)"
  by (rule torn_server_up) (simp_all add: uart0_def)

text \<open>Every command is processed without undefined behaviour.\<close>

lemma rc_config_ok:
  assumes "length buff = 51" "length uc = 10"
  shows "\<exists>uc' q. rc_config buff uc s = Some (uc', s\<lparr>SendFPGA := q, engine_temp_limit := mk16s (buff ! 18) (buff ! 17),
    fan_on_temp := mk16s (buff ! 6) (buff ! 5), fan_off_temp := mk16s (buff ! 8) (buff ! 7),
    blower1_temp := mk16s (buff ! 12) (buff ! 11), blower2_temp := mk16s (buff ! 14) (buff ! 13),
    blower3_temp := mk16s (buff ! 16) (buff ! 15), blower_en_temp := mk16s (buff ! 10) (buff ! 9),
    batt_box_temp := mk16s (buff ! 20) (buff ! 19)\<rparr>) \<and> length uc' = 10"
proof -
  from rc_param_ok [OF assms, of 1 2 s] obtain u1 q1 where
    1: "rc_param 2 1 buff uc s = Some (u1, s\<lparr>SendFPGA := q1\<rparr>)" "length u1 = 10" by auto
  from rc_param_ok [OF assms(1) 1(2), of 2 1 "s\<lparr>SendFPGA := q1\<rparr>"] obtain u2 q2 where
    2: "rc_param 1 2 buff u1 (s\<lparr>SendFPGA := q1\<rparr>) = Some (u2, s\<lparr>SendFPGA := q2\<rparr>)" "length u2 = 10" by auto
  from rc_param_ok [OF assms(1) 2(2), of 3 13 "s\<lparr>SendFPGA := q2\<rparr>"] obtain u3 q3 where
    3: "rc_param 13 3 buff u2 (s\<lparr>SendFPGA := q2\<rparr>) = Some (u3, s\<lparr>SendFPGA := q3\<rparr>)" "length u3 = 10" by auto
  from rc_param_ok [OF assms(1) 3(2), of 4 14 "s\<lparr>SendFPGA := q3\<rparr>"] obtain u4 q4 where
    4: "rc_param 14 4 buff u3 (s\<lparr>SendFPGA := q3\<rparr>) = Some (u4, s\<lparr>SendFPGA := q4\<rparr>)" "length u4 = 10" by auto
  show ?thesis using 1 2 3 4 by (cases s) (simp add: rc_config_def u16_at_eq assms(1) Let_def)
qed

section \<open>Frames of the FPGA\<close>

definition fpga_ok :: "fpga \<Rightarrow> bool" where
  "fpga_ok f \<longleftrightarrow> length (fbuff f) = 25 \<and> length (f_ucbuff f) = 8 \<and> 0 \<le> frame_ptr f"

lemma fpga_data:
  assumes "0xFE \<notin> set bs" "xbyte f = 0" "server_up s > 0" "0 \<le> frame_ptr f"
  shows "fpga_bytes bs f s =
    (if bs = [] then Some (f, s)
     else if nat (frame_ptr f) + length bs \<le> length (fbuff f) then
       Some (f\<lparr>fbuff := take (nat (frame_ptr f)) (fbuff f) @ bs @ drop (nat (frame_ptr f) + length bs) (fbuff f),
         frame_ptr := frame_ptr f + int (length bs)\<rparr>, s)
     else None)"
  using assms
proof (induction bs arbitrary: f)
  case (Cons b bs)
  let ?p = "nat (frame_ptr f)"
  have b: "b \<noteq> 0xFE" "0xFE \<notin> set bs" using Cons.prems(1) by auto
  show ?case
  proof (cases "?p < length (fbuff f)")
    case True
    let ?f = "f\<lparr>fbuff := (fbuff f)[?p := b], frame_ptr := frame_ptr f + 1\<rparr>"
    have e: "f\<lparr>xbyte := 0\<rparr> = f" using Cons.prems(2) by (cases f) simp
    have s: "fpga_byte b f s = Some (?f, s)"
      using Cons.prems(2-4) b(1) True e by (cases f) (simp add: fpga_byte_def aset_def Let_def)
    have t: "take (Suc ?p) ((fbuff f)[?p := b]) = take ?p (fbuff f) @ [b]" using True by (simp add: take_Suc_conv_app_nth)
    have n: "nat (frame_ptr f + 1) = Suc ?p" using Cons.prems(4) by simp
    have i: "xbyte ?f = 0" "0 \<le> frame_ptr ?f" using Cons.prems(2,4) by simp_all
    show ?thesis
    proof (cases "bs = []")
      case True
      then show ?thesis using s t \<open>?p < _\<close> by (auto simp: Suc_le_eq take_Suc_conv_app_nth list_update_append upd_conv_take_nth_drop)
    next
      case False
      then show ?thesis using Cons.IH [OF b(2) i(1) Cons.prems(3) i(2)] s t n by (auto simp: Suc_le_eq)
    qed
  next
    case False
    then show ?thesis using Cons.prems(2-4) b(1) by (auto simp: fpga_byte_def aset_def Let_def)
  qed
qed simp

lemma fpga_report_ok:
  assumes "fpga_ok f" "0 \<le> i" "i \<le> 12"
  shows "\<exists>u v. fpga_report c i f s = Some (f\<lparr>f_ucbuff := u\<rparr>, s\<lparr>Send7200 := xQueueSend 10 v (Send7200 s)\<rparr>) \<and> length u = 8 \<and>
    take 5 (unpack_bytes 8 v) = c # map (\<lambda>j. fbuff f ! (nat i + j)) [0, 1, 2, 3]"
proof -
  let ?x = "\<lambda>j. fbuff f ! nat (i + j)"
  let ?u = "(f_ucbuff f)[0 := c, 1 := ?x 0, 2 := ?x 1, 3 := ?x 2, 4 := ?x 3]"
  have l: "8 \<le> length ?u" using assms(1) by (simp add: fpga_ok_def)
  from to_7200_eq [OF l, of s] obtain v where
    v: "to_7200 ?u s = Some (s\<lparr>Send7200 := xQueueSend 10 v (Send7200 s)\<rparr>)" "unpack_bytes 8 v = take 8 ?u" by blast
  have u: "length (f_ucbuff f) = 8" using assms(1) by (simp add: fpga_ok_def)
  have "take 5 (take 8 ?u) = c # map (\<lambda>j. fbuff f ! (nat i + j)) [0, 1, 2, 3]"
    using eight_bytes [of "f_ucbuff f"] u assms(2) by (auto simp: nat_add_distrib)
  then show ?thesis using assms v u
    by (intro exI [of _ ?u] exI [of _ v]) (auto simp: fpga_report_def aget_def aset_def fpga_ok_def)
qed

lemma fpga_bytes_append: "fpga_bytes (bs @ cs) f s = Option.bind (fpga_bytes bs f s) (\<lambda>(f, s). fpga_bytes cs f s)"
  by (induction bs arbitrary: f s) (auto split: bind_split)

lemma fpga_frame_queued:
  assumes "fpga_ok f" "xbyte f = 0" "frame_ptr f = 0" "0xFE \<notin> set bs" "16 \<le> length bs"
    "server_up s > 0" "engine_on s \<noteq> 0" "send_adc s = 0" "Send7200 s = []"
  shows "if length bs \<le> 25 then
      \<exists>f' v w. fpga_bytes (bs @ [0xFE]) f s = Some (f', s\<lparr>Send7200 := [v, w]\<rparr>) \<and> fpga_ok f' \<and> frame_ptr f' = 0 \<and> xbyte f' = 0 \<and>
        take 5 (unpack_bytes 8 v) = SEND_RT_VALUES1 # take 4 bs \<and>
        take 5 (unpack_bytes 8 w) = SEND_RT_FPGA_STATUS # take 4 (drop 12 bs)
    else fpga_bytes (bs @ [0xFE]) f s = None"
proof (cases "length bs \<le> 25")
  case True
  have ne: "bs \<noteq> []" using assms(5) by auto
  let ?buf = "bs @ drop (length bs) (fbuff f)"
  let ?f1 = "f\<lparr>fbuff := ?buf, frame_ptr := int (length bs)\<rparr>" and ?f2 = "f\<lparr>fbuff := ?buf\<rparr>"
  have d: "fpga_bytes bs f s = Some (?f1, s)"
    using fpga_data [OF assms(4,2,6)] assms(1,3) True ne by (simp add: fpga_ok_def)
  have e: "?f1\<lparr>frame_ptr := 0\<rparr> = ?f2" using assms(3) by (cases f) simp
  have ok: "fpga_ok ?f2" using assms(1) True by (simp add: fpga_ok_def)
  from fpga_report_ok [OF ok, of 0 SEND_RT_VALUES1 s] obtain u v where
    1: "fpga_report SEND_RT_VALUES1 0 ?f2 s = Some (?f2\<lparr>f_ucbuff := u\<rparr>, s\<lparr>Send7200 := [v]\<rparr>)" "length u = 8"
      "take 5 (unpack_bytes 8 v) = SEND_RT_VALUES1 # map (\<lambda>j. ?buf ! (nat 0 + j)) [0, 1, 2, 3]"
    using assms(9) by (auto simp: xQueueSend_def)
  let ?f3 = "?f2\<lparr>f_ucbuff := u\<rparr>" and ?s3 = "s\<lparr>Send7200 := [v]\<rparr>"
  have ok3: "fpga_ok ?f3" using ok 1(2) by (simp add: fpga_ok_def)
  from fpga_report_ok [OF ok3, of 12 SEND_RT_FPGA_STATUS ?s3] obtain u2 w where
    2: "fpga_report SEND_RT_FPGA_STATUS 12 ?f3 ?s3 = Some (?f3\<lparr>f_ucbuff := u2\<rparr>, s\<lparr>Send7200 := [v, w]\<rparr>)" "length u2 = 8"
      "take 5 (unpack_bytes 8 w) = SEND_RT_FPGA_STATUS # map (\<lambda>j. ?buf ! (nat 12 + j)) [0, 1, 2, 3]"
    by (auto simp: xQueueSend_def)
  let ?f4 = "?f3\<lparr>f_ucbuff := u2\<rparr>"
  have "fpga_frame ?f1 s = Some (?f4, s\<lparr>Send7200 := [v, w]\<rparr>)"
    using 1(1) 2(1) assms(7,8) e unfolding fpga_frame_def Let_def e by simp
  then have "fpga_bytes (bs @ [0xFE]) f s = Some (?f4\<lparr>xbyte := 0\<rparr>, s\<lparr>Send7200 := [v, w]\<rparr>)"
    using d assms(2,6) by (simp add: fpga_bytes_append fpga_byte_def Let_def)
  moreover have "map (\<lambda>j. ?buf ! (nat 0 + j)) [0, 1, 2, 3] = take 4 bs" "map (\<lambda>j. ?buf ! (nat 12 + j)) [0, 1, 2, 3] = take 4 (drop 12 bs)"
    using assms(5) by (auto intro!: nth_equalityI simp: nth_append less_Suc_eq numeral_eq_Suc)
  moreover have "fpga_ok (?f4\<lparr>xbyte := 0\<rparr>)" using ok3 2(2) by (simp add: fpga_ok_def)
  ultimately show ?thesis using True 1(3) 2(3) assms(3) by auto
next
  case False
  have "bs \<noteq> []" using assms(5) by auto
  then have "fpga_bytes bs f s = None"
    using fpga_data [OF assms(4,2,6)] assms(1,3) False by (simp add: fpga_ok_def)
  then show ?thesis using False by (simp add: fpga_bytes_append)
qed

text \<open>
  Frames of the FPGA. With the engine on, the server up and an empty queue, a frame of 16 to 25 bytes and
  its end mark queues the first four bytes as \<open>SEND_RT_VALUES1\<close> and bytes 12 to 15 as the status, and the
  next frame starts at the start of the buffer; a frame of more than 25 bytes writes past \<open>buff\<close>.
\<close>

theorem fpga_frames:
  assumes "fpga_ok f" "xbyte f = 0" "frame_ptr f = 0" "0xFE \<notin> set bs" "16 \<le> length bs"
    "server_up s > 0" "engine_on s \<noteq> 0" "send_adc s = 0" "Send7200 s = []"
  shows "if length bs \<le> 25 then
      \<exists>f' v w. fpga_bytes (bs @ [0xFE]) f s = Some (f', s\<lparr>Send7200 := [v, w]\<rparr>) \<and> fpga_ok f' \<and> frame_ptr f' = 0 \<and> xbyte f' = 0 \<and>
        take 5 (unpack_bytes 8 v) = SEND_RT_VALUES1 # take 4 bs \<and>
        take 5 (unpack_bytes 8 w) = SEND_RT_FPGA_STATUS # take 4 (drop 12 bs)
    else fpga_bytes (bs @ [0xFE]) f s = None"
  by (rule fpga_frame_queued [OF assms])

definition fpga0 :: fpga where
  "fpga0 = \<lparr>xbyte = 0, fbuff = replicate 25 0, frame_ptr = 0, f_ucbuff = replicate 8 0\<rparr>"

lemma fpga_frames_witness:
  "\<exists>f' v w. fpga_bytes (([0xB8, 0x0B, 55, 0] @ replicate 12 7) @ [0xFE]) fpga0 (stm0\<lparr>server_up := 1, engine_on := 1\<rparr>) =
      Some (f', stm0\<lparr>server_up := 1, engine_on := 1\<rparr>\<lparr>Send7200 := [v, w]\<rparr>) \<and> fpga_ok f' \<and> frame_ptr f' = 0 \<and> xbyte f' = 0 \<and>
    take 5 (unpack_bytes 8 v) = SEND_RT_VALUES1 # take 4 ([0xB8, 0x0B, 55, 0] @ replicate 12 7) \<and>
    take 5 (unpack_bytes 8 w) = SEND_RT_FPGA_STATUS # take 4 (drop 12 ([0xB8, 0x0B, 55, 0] @ replicate 12 7))"
proof -
  let ?bs = "[0xB8, 0x0B, 55, 0] @ replicate 12 7 :: u8 list"
  have l: "length ?bs \<le> 25" by simp
  have "0xFE \<notin> set ?bs" "16 \<le> length ?bs" by simp_all
  from fpga_frames [OF _ _ _ this, of fpga0 "stm0\<lparr>server_up := 1, engine_on := 1\<rparr>", unfolded if_P [OF l]]
  show ?thesis by (simp only: fpga0_def fpga_ok_def stm0_def default_start_def) simp
qed

end
