(* ===== verification/StmTemp.thy ===== *)
theory StmTemp
  imports Stm "HOL-Library.Sublist"
begin

text \<open>
  Temperatures on the STM32: the two DS1620 thermometers (\<open>STM32/Src/ds1620.c\<close> for the engine,
  \<open>ds1620_2.c\<close> for the cabin, the same on other pins) and the timer that reads them once a second, sends
  them to the TS-7200, sounds the alarm and switches the fan (\<open>Callback01\<close> of \<open>STM32/Src/freertos.c\<close>).
  A thermometer is seen through its pins; what its data pin shows while it is read is the environment's.
  Delays are left out, so a round is one step.
\<close>

section \<open>The thermometers\<close>

abbreviation (input) READTEMP :: u8 where "READTEMP \<equiv> 0xAA"
abbreviation (input) WRITECONF :: u8 where "WRITECONF \<equiv> 0x0C"
abbreviation (input) STARTCONV :: u8 where "STARTCONV \<equiv> 0xEE"
abbreviation (input) STOPCONV :: u8 where "STOPCONV \<equiv> 0x22"

datatype chip = Engine | Indoor

datatype pin = RST bool | CLK bool | DQ bool

text \<open>\<open>for( i = 0; i < 8; i++ )\<close>: the clock low, bit \<open>i\<close> on the data pin, the clock high.\<close>

fun shift_bits :: "chip \<Rightarrow> nat \<Rightarrow> nat \<Rightarrow> u8 \<Rightarrow> (chip \<times> pin) list" where
  "shift_bits d 0 i v = []"
| "shift_bits d (Suc n) i v =
     (d, CLK False) # (d, DQ (v AND push_bit i 1 \<noteq> 0)) # (d, CLK True) # shift_bits d n (i + 1) v"

definition shiftOutByte :: "chip \<Rightarrow> u8 \<Rightarrow> (chip \<times> pin) list" where
  "shiftOutByte d v = shift_bits d 8 0 v"

definition writeByteTo1620 :: "chip \<Rightarrow> u8 \<Rightarrow> (chip \<times> pin) list" where
  "writeByteTo1620 d cmd = (d, RST True) # shiftOutByte d cmd @ [(d, RST False)]"

definition writeCommandTo1620 :: "chip \<Rightarrow> u8 \<Rightarrow> u8 \<Rightarrow> (chip \<times> pin) list" where
  "writeCommandTo1620 d cmd data = (d, RST True) # shiftOutByte d cmd @ shiftOutByte d data @ [(d, RST False)]"

definition initDS1620 :: "chip \<Rightarrow> (chip \<times> pin) list" where
  "initDS1620 d = writeCommandTo1620 d WRITECONF 0x02"

definition writeTempTo1620 :: "chip \<Rightarrow> u8 \<Rightarrow> int \<Rightarrow> (chip \<times> pin) list" where
  "writeTempTo1620 d reg temp =
     (let lsb = word_of_int temp; msb = word_of_int (drop_bit 8 temp) in
      (d, RST True) # shiftOutByte d reg @ shiftOutByte d lsb @ shiftOutByte d msb @ [(d, RST False)])"

text \<open>\<open>for( i=0; i<9; i++ )\<close>: \<open>level i\<close> is what the data pin shows for bit \<open>i\<close>.\<close>

fun read_bits :: "chip \<Rightarrow> (nat \<Rightarrow> bool) \<Rightarrow> nat \<Rightarrow> nat \<Rightarrow> int \<Rightarrow> (chip \<times> pin) list \<times> int" where
  "read_bits d level 0 i raw = ([], raw)"
| "read_bits d level (Suc n) i raw =
     (let raw = (if level i then raw OR push_bit i 1 else raw); (tr, raw) = read_bits d level n (i + 1) raw
      in ((d, CLK False) # (d, CLK True) # tr, raw))"

definition readTempFrom1620 :: "chip \<Rightarrow> (nat \<Rightarrow> bool) \<Rightarrow> (chip \<times> pin) list \<times> int" where
  "readTempFrom1620 d level =
     (let (tr, raw) = read_bits d level 9 0 0
      in ((d, RST True) # shiftOutByte d READTEMP @ tr @ [(d, RST False)], raw))"

section \<open>The timer\<close>

text \<open>\<open>global_ucbuff[0] = c; \<dots> xQueueSend(\<dots>)\<close>; the other seven bytes are what the last message left.\<close>

definition cb_send :: "u8 \<Rightarrow> 'a stm_scheme \<Rightarrow> 'a stm_scheme option" where
  "cb_send c s = do {
     g \<leftarrow> aset (global_ucbuff s) 0 c;
     to_7200 g (s\<lparr>global_ucbuff := g\<rparr>)
   }"

definition cb_tone :: "u8 \<Rightarrow> 'a stm_scheme \<Rightarrow> 'a stm_scheme option" where
  "cb_tone c s = do {
     g \<leftarrow> aset (global_ucbuff s) 0 c;
     to_FPGA g (s\<lparr>global_ucbuff := g\<rparr>)
   }"

text \<open>A temperature, high byte first.\<close>

definition cb_temp :: "u8 \<Rightarrow> int \<Rightarrow> 'a stm_scheme \<Rightarrow> 'a stm_scheme option" where
  "cb_temp c raw s = do {
     g \<leftarrow> aset (global_ucbuff s) 0 c;
     g \<leftarrow> aset g 2 (word_of_int raw);
     let t = drop_bit 8 raw;
     g \<leftarrow> aset g 1 (word_of_int t);
     to_7200 g (s\<lparr>global_ucbuff := g, temp_raw := t\<rparr>)
   }"

text \<open>\<open>if(raw_data <= 511 && raw_data >= 403) raw_data =- 511;\<close>\<close>

definition negative :: "int \<Rightarrow> int" where
  "negative raw = (if raw \<le> 511 \<and> raw \<ge> 403 then - 511 else raw)"

definition cb_alarm :: "'a stm_scheme \<Rightarrow> 'a stm_scheme option" where
  "cb_alarm s =
     (if too_high_flag s = 0 \<and> raw_data s > uint (engine_temp_limit s) then do {
        s \<leftarrow> cb_tone SPECIAL_TONE_ON s;
        s \<leftarrow> cb_send TEMP_TOO_HIGH s;
        Some (s\<lparr>too_high_flag := 1\<rparr>)
      }
      else if too_high_flag s = 1 then do {
        s \<leftarrow> cb_tone DTMF_TONE_OFF s;
        Some (s\<lparr>too_high_flag := 0\<rparr>)
      }
      else Some s)"

definition cb_fan :: "'a stm_scheme \<Rightarrow> 'a stm_scheme option" where
  "cb_fan s = do {
     s \<leftarrow> (if engine_on s > 0 \<and> fan_on s = 0 \<and> raw_data s \<ge> uint (fan_on_temp s)
            then cb_send ON_FAN (s\<lparr>fan_on := 1\<rparr>) else Some s);
     if cooling_fan_override s = 0 \<and> fan_on s = 1 \<and> raw_data s \<le> uint (fan_off_temp s)
     then cb_send OFF_FAN (s\<lparr>fan_on := 0\<rparr>) else Some s
   }"

text \<open>Start, read and stop a conversion.\<close>

definition conversion :: "chip \<Rightarrow> (nat \<Rightarrow> bool) \<Rightarrow> (chip \<times> pin) list \<times> int" where
  "conversion d level =
     (let (tr, raw) = readTempFrom1620 d level
      in (writeByteTo1620 d STARTCONV @ tr @ writeByteTo1620 d STOPCONV, raw))"

text \<open>
  The callback, with what the data pins of the two thermometers show; the result is what it does to the pins, and
  the state.
\<close>

definition Callback01 :: "(nat \<Rightarrow> bool) \<Rightarrow> (nat \<Rightarrow> bool) \<Rightarrow> 'a stm_scheme \<Rightarrow> ((chip \<times> pin) list \<times> 'a stm_scheme) option" where
  "Callback01 engine indoor s =
     (if server_up s = 1 then do {
        let (tr, raw) = conversion Engine engine;
        s \<leftarrow> cb_temp ENGINE_TEMP raw (s\<lparr>raw_data := raw\<rparr>);
        let (tr2, raw2) = conversion Indoor indoor;
        s \<leftarrow> cb_temp INDOOR_TEMP raw2 (s\<lparr>raw_data2 := raw2\<rparr>);
        let s = s\<lparr>raw_data := negative (raw_data s), raw_data2 := negative (raw_data2 s)\<rparr>;
        let s = (if blower_on_countdown s \<noteq> 0 then s\<lparr>blower_on_countdown := blower_on_countdown s - 1\<rparr> else s);
        s \<leftarrow> cb_alarm s;
        s \<leftarrow> cb_fan s;
        Some (tr @ tr2, s\<lparr>timer_toggle := (if timer_toggle s = 0 then 1 else 0)\<rparr>)
      } else Some ([], s))"

section \<open>What the thermometer sees and says\<close>

text \<open>A thermometer samples its data pin when the clock rises.\<close>

fun sampled :: "bool \<Rightarrow> (chip \<times> pin) list \<Rightarrow> bool list" where
  "sampled dq [] = []"
| "sampled dq ((d, DQ b) # tr) = sampled b tr"
| "sampled dq ((d, CLK True) # tr) = dq # sampled dq tr"
| "sampled dq ((d, CLK False) # tr) = sampled dq tr"
| "sampled dq ((d, RST b) # tr) = sampled dq tr"

lemma and_bit: "(v AND 2 ^ i \<noteq> 0) = bit v i" for v :: u8
proof -
  have "v AND 2 ^ i = (if bit v i then 2 ^ i else 0)"
    by (rule bit_word_eqI) (auto simp: bit_simps)
  moreover have "(2 :: u8) ^ i \<noteq> 0" if "bit v i"
  proof -
    have "i < 8" using bit_imp_le_length [OF that] by simp
    then show ?thesis by simp
  qed
  ultimately show ?thesis by (auto split: if_splits)
qed

fun last_dq :: "bool \<Rightarrow> nat \<Rightarrow> nat \<Rightarrow> u8 \<Rightarrow> bool" where
  "last_dq dq 0 i v = dq"
| "last_dq dq (Suc n) i v = last_dq (bit v i) n (i + 1) v"

lemma sampled_shift: "sampled dq (shift_bits d n i v @ tr) = map (bit v) [i..<i + n] @ sampled (last_dq dq n i v) tr"
  by (induction n arbitrary: i dq) (simp_all add: and_bit upt_conv_Cons del: upt_Suc)

lemma read_bits_value:
  "raw = take_bit i w \<Longrightarrow> snd (read_bits d (bit w) n i raw) = take_bit (i + n) w" for w :: int
proof (induction n arbitrary: i raw)
  case (Suc n)
  have "(if bit w i then raw OR push_bit i 1 else raw) = take_bit (Suc i) w"
    unfolding Suc.prems by (rule bit_eqI) (auto simp: bit_simps less_Suc_eq)
  from Suc.IH [OF this] show ?case by (simp add: split_beta Let_def)
qed simp

text \<open>
  Bytes reach the thermometer in order, low bit first: of a command with a temperature it samples the
  24 bits of the register, the low and the high byte; and what it answers, nine bits low first, is the
  number read.
\<close>

theorem thermometer_bits:
  "sampled dq (writeTempTo1620 d reg temp) =
     map (bit reg) [0..<8] @ map (bit (word_of_int temp :: u8)) [0..<8] @ map (bit (word_of_int (drop_bit 8 temp) :: u8)) [0..<8] \<and>
   snd (readTempFrom1620 d (bit w)) = take_bit 9 w" for w :: int
proof -
  have s: "sampled b (shiftOutByte d v @ tr) = map (bit v) [0..<8] @ sampled (last_dq b 8 0 v) tr" for b v tr
    using sampled_shift [of b d 8 0 v tr] by (simp add: shiftOutByte_def)
  have "snd (read_bits d (bit w) 9 0 0) = take_bit 9 w" using read_bits_value [of 0 0 w d 9] by simp
  then show ?thesis by (simp add: writeTempTo1620_def readTempFrom1620_def Let_def s split_beta)
qed

section \<open>Fan and alarm\<close>

lemma cb_send_eq: "length (global_ucbuff s) = 8 \<Longrightarrow>
  \<exists>v. cb_send c s = Some (s\<lparr>global_ucbuff := (global_ucbuff s)[0 := c], Send7200 := xQueueSend 10 v (Send7200 s)\<rparr>) \<and>
    unpack_bytes 8 v = (global_ucbuff s)[0 := c]"
  using to_7200_eq [of "(global_ucbuff s)[0 := c]" "s\<lparr>global_ucbuff := (global_ucbuff s)[0 := c]\<rparr>"]
  by (auto simp: cb_send_def aset_def)

lemma cb_tone_eq: "length (global_ucbuff s) = 8 \<Longrightarrow>
  \<exists>q. cb_tone c s = Some (s\<lparr>global_ucbuff := (global_ucbuff s)[0 := c], SendFPGA := q\<rparr>)"
  using to_FPGA_eq [of "(global_ucbuff s)[0 := c]" "s\<lparr>global_ucbuff := (global_ucbuff s)[0 := c]\<rparr>"]
  by (auto simp: cb_tone_def aset_def)

text \<open>The bytes of a temperature message: the command and the value, high byte first.\<close>

lemma cb_temp_eq: "length (global_ucbuff s) = 8 \<Longrightarrow>
  \<exists>v g. cb_temp c raw s = Some (s\<lparr>global_ucbuff := g, temp_raw := drop_bit 8 raw, Send7200 := xQueueSend 10 v (Send7200 s)\<rparr>) \<and>
    length g = 8 \<and> take 3 (unpack_bytes 8 v) = [c, word_of_int (drop_bit 8 raw), word_of_int raw]"
proof -
  assume l: "length (global_ucbuff s) = 8"
  let ?g = "(global_ucbuff s)[0 := c, 2 := word_of_int raw, 1 := word_of_int (drop_bit 8 raw)]"
  have g: "8 \<le> length ?g" using l by simp
  from to_7200_eq [OF g, of "s\<lparr>global_ucbuff := ?g, temp_raw := drop_bit 8 raw\<rparr>"] obtain v where
    v: "to_7200 ?g (s\<lparr>global_ucbuff := ?g, temp_raw := drop_bit 8 raw\<rparr>) =
      Some (s\<lparr>global_ucbuff := ?g, temp_raw := drop_bit 8 raw, Send7200 := xQueueSend 10 v (Send7200 s)\<rparr>)"
      "unpack_bytes 8 v = take 8 ?g" by auto
  have "take 3 (take 8 ?g) = [c, word_of_int (drop_bit 8 raw), word_of_int raw]"
    using eight_bytes [of "global_ucbuff s"] l by auto
  with v l show ?thesis by (intro exI [of _ v] exI [of _ ?g]) (simp add: cb_temp_def aset_def Let_def)
qed

text \<open>The reference: a fan with hysteresis, and an alarm that is reset one tick after it was set.\<close>

definition fan_spec :: "'a stm_scheme \<Rightarrow> int \<Rightarrow> bool \<Rightarrow> bool" where
  "fan_spec s t on \<longleftrightarrow>
     (let on = (on \<or> engine_on s > 0 \<and> uint (fan_on_temp s) \<le> t)
      in on \<and> \<not> (cooling_fan_override s = 0 \<and> t \<le> uint (fan_off_temp s)))"

definition alarm_spec :: "'a stm_scheme \<Rightarrow> int \<Rightarrow> bool \<Rightarrow> bool" where
  "alarm_spec s t on \<longleftrightarrow> \<not> on \<and> uint (engine_temp_limit s) < t"

text \<open>What a round does not change: the limits and flags of other tasks, and the messages that wait.\<close>

definition same_limits :: "'a stm_scheme \<Rightarrow> 'a stm_scheme \<Rightarrow> bool" where
  "same_limits s s' \<longleftrightarrow> engine_temp_limit s' = engine_temp_limit s \<and> fan_on_temp s' = fan_on_temp s \<and>
     fan_off_temp s' = fan_off_temp s \<and> engine_on s' = engine_on s \<and> server_up s' = server_up s \<and>
     cooling_fan_override s' = cooling_fan_override s \<and> keypressed s' = keypressed s \<and>
     prefix (Send7200 s) (Send7200 s')"

lemma prefix_queue [simp]: "prefix q (xQueueSend n v q)"
  by (simp add: xQueueSend_def)

lemma same_limits_trans: "same_limits s s' \<Longrightarrow> same_limits s' s'' \<Longrightarrow> same_limits s s''"
  unfolding same_limits_def by (auto intro: prefix_order.trans)

definition cb_ok :: "'a stm_scheme \<Rightarrow> bool" where
  "cb_ok s \<longleftrightarrow> length (global_ucbuff s) = 8 \<and> fan_on s \<in> {0, 1} \<and> too_high_flag s \<in> {0, 1}"

lemma cb_alarm_spec:
  assumes "cb_ok s"
  shows "\<exists>s'. cb_alarm s = Some s' \<and> cb_ok s' \<and> same_limits s s' \<and> raw_data s' = raw_data s \<and> fan_on s' = fan_on s \<and>
    (too_high_flag s' = 1) = alarm_spec s (raw_data s) (too_high_flag s = 1)"
proof -
  have l: "length (global_ucbuff s) = 8" "fan_on s \<in> {0, 1}" "too_high_flag s \<in> {0, 1}" using assms by (simp_all add: cb_ok_def)
  consider "too_high_flag s = 0" "raw_data s > uint (engine_temp_limit s)" | "too_high_flag s = 1"
    | "too_high_flag s = 0" "\<not> raw_data s > uint (engine_temp_limit s)" using l(3) by auto
  then show ?thesis
  proof cases
    case 1
    from cb_tone_eq [OF l(1), of SPECIAL_TONE_ON] obtain q where
      t: "cb_tone SPECIAL_TONE_ON s = Some (s\<lparr>global_ucbuff := (global_ucbuff s)[0 := SPECIAL_TONE_ON], SendFPGA := q\<rparr>)" by blast
    let ?s = "s\<lparr>global_ucbuff := (global_ucbuff s)[0 := SPECIAL_TONE_ON], SendFPGA := q\<rparr>"
    from cb_send_eq [of ?s TEMP_TOO_HIGH] l(1) obtain v g where
      "cb_send TEMP_TOO_HIGH ?s = Some (s\<lparr>SendFPGA := q, global_ucbuff := g, Send7200 := xQueueSend 10 v (Send7200 s)\<rparr>)"
      "length g = 8" by auto
    with 1 t l show ?thesis by (auto simp: cb_alarm_def alarm_spec_def cb_ok_def same_limits_def)
  next
    case 2
    from cb_tone_eq [OF l(1), of DTMF_TONE_OFF] obtain q where
      "cb_tone DTMF_TONE_OFF s = Some (s\<lparr>global_ucbuff := (global_ucbuff s)[0 := DTMF_TONE_OFF], SendFPGA := q\<rparr>)" by blast
    with 2 l show ?thesis by (auto simp: cb_alarm_def alarm_spec_def cb_ok_def same_limits_def)
  next
    case 3
    with l show ?thesis by (auto simp: cb_alarm_def alarm_spec_def cb_ok_def same_limits_def)
  qed
qed

lemma cb_send_any: "length (global_ucbuff s) = 8 \<Longrightarrow>
  \<exists>g v. cb_send c s = Some (s\<lparr>global_ucbuff := g, Send7200 := xQueueSend 10 v (Send7200 s)\<rparr>) \<and> length g = 8"
  using cb_send_eq [of s c] by auto

lemma cb_fan_spec:
  assumes "cb_ok s"
  shows "\<exists>s'. cb_fan s = Some s' \<and> cb_ok s' \<and> same_limits s s' \<and> too_high_flag s' = too_high_flag s \<and>
    (fan_on s' = 1) = fan_spec s (raw_data s) (fan_on s = 1)"
proof -
  have l: "length (global_ucbuff s) = 8" "fan_on s \<in> {0, 1}" "too_high_flag s \<in> {0, 1}" using assms by (simp_all add: cb_ok_def)
  let ?c = "engine_on s > 0 \<and> fan_on s = 0 \<and> raw_data s \<ge> uint (fan_on_temp s)"
  have "\<exists>s1. (if ?c then cb_send ON_FAN (s\<lparr>fan_on := 1\<rparr>) else Some s) = Some s1 \<and> cb_ok s1 \<and> same_limits s s1 \<and>
      raw_data s1 = raw_data s \<and> too_high_flag s1 = too_high_flag s \<and> (fan_on s1 = 1) = (fan_on s = 1 \<or> ?c)"
  proof (cases ?c)
    case True
    from cb_send_any [of "s\<lparr>fan_on := 1\<rparr>" ON_FAN] l(1) obtain g q where
      "cb_send ON_FAN (s\<lparr>fan_on := 1\<rparr>) = Some (s\<lparr>fan_on := 1, global_ucbuff := g, Send7200 := xQueueSend 10 q (Send7200 s)\<rparr>)"
      "length g = 8" by auto
    with True l show ?thesis by (simp add: cb_ok_def same_limits_def)
  qed (use l in \<open>auto simp: cb_ok_def same_limits_def\<close>)
  then obtain s1 where s1: "(if ?c then cb_send ON_FAN (s\<lparr>fan_on := 1\<rparr>) else Some s) = Some s1" "cb_ok s1" "same_limits s s1"
    "raw_data s1 = raw_data s" "too_high_flag s1 = too_high_flag s" "(fan_on s1 = 1) = (fan_on s = 1 \<or> ?c)" by blast
  let ?d = "cooling_fan_override s1 = 0 \<and> fan_on s1 = 1 \<and> raw_data s1 \<le> uint (fan_off_temp s1)"
  have lim: "cooling_fan_override s1 = cooling_fan_override s" "fan_off_temp s1 = fan_off_temp s"
    using s1(3) by (simp_all add: same_limits_def)
  have "\<exists>s2. (if ?d then cb_send OFF_FAN (s1\<lparr>fan_on := 0\<rparr>) else Some s1) = Some s2 \<and> cb_ok s2 \<and> same_limits s1 s2 \<and>
      too_high_flag s2 = too_high_flag s1 \<and> (fan_on s2 = 1) = (fan_on s1 = 1 \<and> \<not> ?d)"
  proof (cases ?d)
    case True
    from cb_send_any [of "s1\<lparr>fan_on := 0\<rparr>" OFF_FAN] s1(2) obtain g q where
      "cb_send OFF_FAN (s1\<lparr>fan_on := 0\<rparr>) = Some (s1\<lparr>fan_on := 0, global_ucbuff := g, Send7200 := xQueueSend 10 q (Send7200 s1)\<rparr>)" "length g = 8"
      by (auto simp: cb_ok_def)
    with True s1(2) show ?thesis by (simp add: cb_ok_def same_limits_def)
  qed (use s1(2) in \<open>auto simp: same_limits_def\<close>)
  then obtain s2 where s2: "(if ?d then cb_send OFF_FAN (s1\<lparr>fan_on := 0\<rparr>) else Some s1) = Some s2" "cb_ok s2" "same_limits s1 s2"
    "too_high_flag s2 = too_high_flag s1" "(fan_on s2 = 1) = (fan_on s1 = 1 \<and> \<not> ?d)" by blast
  have "cb_fan s = Some s2" unfolding cb_fan_def s1(1) bind.bind_lunit by (rule s2(1))
  moreover have "same_limits s s2" using same_limits_trans [OF s1(3) s2(3)] .
  moreover have "(fan_on s2 = 1) = fan_spec s (raw_data s) (fan_on s = 1)"
    using s2(5) s1(4,6) lim l(2) by (auto simp: fan_spec_def Let_def)
  ultimately show ?thesis using s2(2,4) s1(5) by auto
qed

lemma conversion_value: "snd (conversion d (bit w)) = take_bit 9 w" for w :: int
  using read_bits_value [of 0 0 w d 9] by (simp add: conversion_def readTempFrom1620_def split_beta)

lemma Callback01_spec:
  fixes e f :: int
  assumes "server_up s = 1" "cb_ok s"
  shows "\<exists>tr v w s'. Callback01 (bit e) (bit f) s = Some (tr, s') \<and> cb_ok s' \<and> same_limits s s' \<and>
    prefix (xQueueSend 10 w (xQueueSend 10 v (Send7200 s))) (Send7200 s') \<and>
    take 3 (unpack_bytes 8 v) = [ENGINE_TEMP, word_of_int (drop_bit 8 (take_bit 9 e)), word_of_int (take_bit 9 e)] \<and>
    take 3 (unpack_bytes 8 w) = [INDOOR_TEMP, word_of_int (drop_bit 8 (take_bit 9 f)), word_of_int (take_bit 9 f)] \<and>
    (fan_on s' = 1) = fan_spec s (negative (take_bit 9 e)) (fan_on s = 1) \<and>
    (too_high_flag s' = 1) = alarm_spec s (negative (take_bit 9 e)) (too_high_flag s = 1)"
proof -
  define engine where "engine = take_bit 9 e"
  define indoor where "indoor = take_bit 9 f"
  obtain tr where tr: "conversion Engine (bit e) = (tr, engine)"
    using conversion_value [of Engine e] unfolding engine_def by (metis prod.collapse)
  obtain tr2 where tr2: "conversion Indoor (bit f) = (tr2, indoor)"
    using conversion_value [of Indoor f] unfolding indoor_def by (metis prod.collapse)
  have l: "length (global_ucbuff s) = 8" using assms(2) by (simp add: cb_ok_def)
  obtain v g where e: "cb_temp ENGINE_TEMP engine (s\<lparr>raw_data := engine\<rparr>) =
      Some (s\<lparr>raw_data := engine, global_ucbuff := g, temp_raw := drop_bit 8 engine, Send7200 := xQueueSend 10 v (Send7200 s)\<rparr>)"
    "length g = 8" "take 3 (unpack_bytes 8 v) = [ENGINE_TEMP, word_of_int (drop_bit 8 engine), word_of_int engine]"
    using cb_temp_eq [of "s\<lparr>raw_data := engine\<rparr>" ENGINE_TEMP engine] l by auto
  define a where "a = s\<lparr>raw_data := engine, global_ucbuff := g, temp_raw := drop_bit 8 engine, Send7200 := xQueueSend 10 v (Send7200 s)\<rparr>"
  obtain v' g' where i: "cb_temp INDOOR_TEMP indoor (a\<lparr>raw_data2 := indoor\<rparr>) =
      Some (a\<lparr>raw_data2 := indoor, global_ucbuff := g', temp_raw := drop_bit 8 indoor, Send7200 := xQueueSend 10 v' (Send7200 a)\<rparr>)"
    "length g' = 8" "take 3 (unpack_bytes 8 v') = [INDOOR_TEMP, word_of_int (drop_bit 8 indoor), word_of_int indoor]"
    using cb_temp_eq [of "a\<lparr>raw_data2 := indoor\<rparr>" INDOOR_TEMP indoor] e(2) by (auto simp: a_def)
  define b where "b = a\<lparr>raw_data2 := indoor, global_ucbuff := g', temp_raw := drop_bit 8 indoor, Send7200 := xQueueSend 10 v' (Send7200 a)\<rparr>"
  define c where "c = b\<lparr>raw_data := negative (raw_data b), raw_data2 := negative (raw_data2 b)\<rparr>"
  define d where "d = (if blower_on_countdown c \<noteq> 0 then c\<lparr>blower_on_countdown := blower_on_countdown c - 1\<rparr> else c)"
  have q: "Send7200 d = xQueueSend 10 v' (xQueueSend 10 v (Send7200 s))"
    by (simp add: d_def c_def b_def a_def)
  have pq: "prefix (Send7200 s) (Send7200 d)" unfolding q by (rule prefix_order.trans [OF prefix_queue prefix_queue])
  then have d: "cb_ok d" "same_limits s d" "raw_data d = negative engine" "fan_on d = fan_on s" "too_high_flag d = too_high_flag s"
    using assms(2) i(2) by (simp_all add: d_def c_def b_def a_def cb_ok_def same_limits_def)
  obtain x where x: "cb_alarm d = Some x" "cb_ok x" "same_limits d x" "raw_data x = raw_data d" "fan_on x = fan_on d"
    "(too_high_flag x = 1) = alarm_spec d (raw_data d) (too_high_flag d = 1)" using cb_alarm_spec [OF d(1)] by blast
  obtain y where y: "cb_fan x = Some y" "cb_ok y" "same_limits x y" "too_high_flag y = too_high_flag x"
    "(fan_on y = 1) = fan_spec x (raw_data x) (fan_on x = 1)" using cb_fan_spec [OF x(2)] by blast
  have r: "Callback01 (bit e) (bit f) s = Some (tr @ tr2, y\<lparr>timer_toggle := (if timer_toggle y = 0 then 1 else 0)\<rparr>)"
    unfolding Callback01_def assms(1) if_P [OF refl] tr tr2 Let_def split e(1) bind.bind_lunit a_def [symmetric] i(1) b_def [symmetric]
      c_def [symmetric] d_def [symmetric] x(1) y(1) ..
  have sp: "alarm_spec d t on = alarm_spec s t on" "fan_spec x t on = fan_spec s t on" for t on
    using d(2) x(3) by (simp_all add: alarm_spec_def fan_spec_def same_limits_def)
  have lim: "same_limits s y" "prefix (Send7200 d) (Send7200 y)"
    using same_limits_trans [OF d(2) same_limits_trans [OF x(3) y(3)]] same_limits_trans [OF x(3) y(3)]
    by (simp_all add: same_limits_def)
  define z where "z = y\<lparr>timer_toggle := (if timer_toggle y = 0 then 1 else 0)\<rparr>"
  have z: "cb_ok z" "same_limits s z" "prefix (Send7200 d) (Send7200 z)" "fan_on z = fan_on y" "too_high_flag z = too_high_flag y"
    using y(2) lim by (simp_all add: z_def cb_ok_def same_limits_def)
  show ?thesis unfolding engine_def [symmetric] indoor_def [symmetric] r z_def [symmetric]
    using z x y d sp e(3) i(3) unfolding q
    by (intro exI [of _ "tr @ tr2"] exI [of _ v] exI [of _ v'] exI [of _ z] conjI) simp_all
qed

text \<open>The timer fires again and again; the thermometers answer with the numbers \<open>e\<close> and \<open>i\<close>, nine bits of them.\<close>

fun cb_run :: "(int \<times> int) list \<Rightarrow> 'a stm_scheme \<Rightarrow> 'a stm_scheme option" where
  "cb_run [] s = Some s"
| "cb_run ((e, i) # rs) s = do { (tr, s) \<leftarrow> Callback01 (bit e) (bit i) s; cb_run rs s }"

lemma same_limits_spec: "same_limits s s' \<Longrightarrow> fan_spec s' = fan_spec s \<and> alarm_spec s' = alarm_spec s"
  by (simp add: same_limits_def fan_spec_def alarm_spec_def fun_eq_iff)

lemma cb_run_spec:
  "server_up s = 1 \<Longrightarrow> cb_ok s \<Longrightarrow> \<exists>s'. cb_run rs s = Some s' \<and> cb_ok s' \<and> same_limits s s' \<and>
    (fan_on s' = 1) = fold (fan_spec s) (map (\<lambda>r. negative (take_bit 9 (fst r))) rs) (fan_on s = 1) \<and>
    (too_high_flag s' = 1) = fold (alarm_spec s) (map (\<lambda>r. negative (take_bit 9 (fst r))) rs) (too_high_flag s = 1)"
proof (induction rs arbitrary: s)
  case (Cons r rs)
  obtain e i where r: "r = (e, i)" by (cases r)
  obtain tr s1 where s1: "Callback01 (bit e) (bit i) s = Some (tr, s1)" "cb_ok s1" "same_limits s s1"
    "(fan_on s1 = 1) = fan_spec s (negative (take_bit 9 e)) (fan_on s = 1)"
    "(too_high_flag s1 = 1) = alarm_spec s (negative (take_bit 9 e)) (too_high_flag s = 1)"
    using Callback01_spec [OF Cons.prems] by blast
  have u: "server_up s1 = 1" using s1(3) Cons.prems(1) by (simp add: same_limits_def)
  have q: "fan_spec s1 = fan_spec s" "alarm_spec s1 = alarm_spec s" using same_limits_spec [OF s1(3)] by simp_all
  from Cons.IH [OF u s1(2)] obtain s2 where s2: "cb_run rs s1 = Some s2" "cb_ok s2" "same_limits s1 s2"
    "(fan_on s2 = 1) = fold (fan_spec s) (map (\<lambda>r. negative (take_bit 9 (fst r))) rs) (fan_on s1 = 1)"
    "(too_high_flag s2 = 1) = fold (alarm_spec s) (map (\<lambda>r. negative (take_bit 9 (fst r))) rs) (too_high_flag s1 = 1)"
    unfolding q by blast
  have "same_limits s s2" using same_limits_trans [OF s1(3) s2(3)] .
  with s2 s1 show ?case by (simp add: r)
qed (simp add: same_limits_def)



end
