(* ===== verification/EndToEnd.thy ===== *)
theory EndToEnd
  imports System StmRecv StmTemp
begin

text \<open>
  The two boards together: what one of them writes to the line is what the other reads. A key of the keypad
  becomes a command and moves relays, the parameters of the server become the limits of the thermostat, and
  temperatures and speeds become messages to the client. The line itself loses nothing.
\<close>

section \<open>From the keypad to the relays\<close>

text \<open>A key that is queued and has no meaning of its own on the STM32 is sent on as a frame.\<close>

lemma key_on_line:
  assumes "keypressed s = [ucast key]" "Send7200 s = []" "server_up s = 1" "length d = 8" "length u = 50"
    "nav_of key = None"
  shows "\<exists>d' s2 s3 fr. default_task d s = Some (d', s2) \<and> task7200 u s2 = Some (fr, s3) \<and>
    uart1 s3 = uart1 s @ 0xFF # fr \<and> length fr = 50 \<and> fr ! 0 = key"
proof -
  have l: "8 \<le> length (d[0 := key])" using assms(4) by simp
  let ?s = "s\<lparr>keypressed := []\<rparr>"
  from to_7200_eq [OF l, of ?s] obtain v where
    v: "to_7200 (d[0 := key]) ?s = Some (?s\<lparr>Send7200 := [v]\<rparr>)" "unpack_bytes 8 v = take 8 (d[0 := key])"
    using assms(2) by (auto simp: xQueueSend_def)
  let ?s1 = "?s\<lparr>Send7200 := [v]\<rparr>"
  have uu: "ucast (ucast key :: u16) = key" by (rule bit_word_eqI) (simp add: bit_simps bit_imp_le_length)
  have tone: "\<exists>q. to_FPGA b s' = Some (s'\<lparr>SendFPGA := q\<rparr>)" if "length b = 8" for b and s' :: "'a stm_scheme"
    using to_FPGA_eq [of b s'] that by auto
  have "\<exists>d' q. default_task d s = Some (d', ?s1\<lparr>SendFPGA := q\<rparr>)"
  proof (cases "key = KP_POUND")
    case True
    then have "default_task d s = Some (d[0 := key], ?s1\<lparr>SendFPGA := SendFPGA s\<rparr>)" using assms(1,4,6) v(1)
      by (simp add: default_task_def xQueueReceive_def aset_def Let_def uu)
    then show ?thesis by blast
  next
    case False
    let ?b1 = "d[0 := DTMF_TONE_ON, 1 := 10]" and ?b2 = "d[0 := DTMF_TONE_ON, 1 := 9]" and ?b3 = "d[0 := DTMF_TONE_OFF, 1 := 9]"
    from tone [of ?b1 ?s1] assms(4) obtain q1 where 1: "to_FPGA ?b1 ?s1 = Some (?s1\<lparr>SendFPGA := q1\<rparr>)" by auto
    from tone [of ?b2 "?s1\<lparr>SendFPGA := q1\<rparr>"] assms(4) obtain q2 where
      2: "to_FPGA ?b2 (?s1\<lparr>SendFPGA := q1\<rparr>) = Some (?s1\<lparr>SendFPGA := q2\<rparr>)" by auto
    from tone [of ?b3 "?s1\<lparr>SendFPGA := q2\<rparr>"] assms(4) obtain q3 where
      3: "to_FPGA ?b3 (?s1\<lparr>SendFPGA := q2\<rparr>) = Some (?s1\<lparr>SendFPGA := q3\<rparr>)" by auto
    obtain x y e where d: "d = x # y # e" using assms(4) by (cases d; cases "tl d") auto
    have "default_task d s = Some (?b3, ?s1\<lparr>SendFPGA := q3\<rparr>)" using False assms(1,4,6) v(1) 1 2 3
      by (simp add: default_task_def xQueueReceive_def aset_def Let_def d uu)
    then show ?thesis by blast
  qed
  then obtain d' q where dt: "default_task d s = Some (d', ?s1\<lparr>SendFPGA := q\<rparr>)" by blast
  let ?fr = "unpack_bytes 8 v @ drop 8 u"
  have "task7200 u (?s1\<lparr>SendFPGA := q\<rparr>) = Some (?fr, ?s1\<lparr>SendFPGA := q, Send7200 := [], uart1 := uart1 s @ 0xFF # ?fr\<rparr>)"
    using assms(3) by (simp add: task7200_def xQueueReceive_def Let_def)
  moreover have "length ?fr = 50" "?fr ! 0 = key" using assms(4,5) v(2) by (simp_all add: nth_append)
  ultimately show ?thesis using dt by fastforce
qed

text \<open>The keys with a number.\<close>

definition number_key :: "nat \<Rightarrow> nat \<Rightarrow> bool" where
  "number_key r c \<longleftrightarrow> r < 3 \<and> c < 3 \<or> r = 3 \<and> c = 1"

lemma number_keys_all:
  "list_all (\<lambda>r. list_all (\<lambda>c. number_key r c \<longrightarrow> is_key (layout ! r ! c) \<and> nav_of (layout ! r ! c) = None) [0..<4]) [0..<4]"
  by code_simp

lemma number_keys:
  "number_key r c \<Longrightarrow> r < 4 \<and> c < 4 \<and> is_key (layout ! r ! c) \<and> nav_of (layout ! r ! c) = None"
  using number_keys_all [unfolded list_all_iff set_upt, rule_format, of r c] by (auto simp: number_key_def)

lemma key_travels:
  fixes t :: "'a sched_scheme"
  assumes "number_key row col" "e_isrState k = STATE_WAIT_FOR_PRESS" "length (kt_ucbuff k) = 10"
    "keypressed s = []" "Send7200 s = []" "uart1 s = []" "server_up s = 1" "length d = 8" "length u = 50"
    "sched_ok t" "msg_queue_ptr t \<le> 47" "shutdown_all t = 0"
  shows "\<exists>k' s1 d' s2 fr s3 r' t' q p. key_run (replicate (Suc m) (only row col) @ replicate (Suc n) no_key) k s = Some (k', s1) \<and>
    default_task d s1 = Some (d', s2) \<and> task7200 u s2 = Some (fr, s3) \<and>
    serial_loop 1 (uart1 s3) r t = Some (False, [], r', t') \<and>
    sched_ok t' \<and> pending t' = rev (fst (key_log (layout ! row ! col) (sr_keys r))) @ pending t \<and>
    sr_keys r' = snd (key_log (layout ! row ! col) (sr_keys r)) \<and> t' = t\<lparr>msg_queue := q, msg_queue_ptr := p\<rparr>"
proof -
  let ?key = "layout ! row ! col"
  let ?log = "key_log ?key (sr_keys r)"
  have key: "row < 4" "col < 4" "is_key ?key" "nav_of ?key = None" using number_keys [OF assms(1)] by auto
  from key_press_run [OF key(1,2) assms(2,3), of m n s] obtain k' f where
    1: "key_run (replicate (Suc m) (only row col) @ replicate (Suc n) no_key) k s =
      Some (k', s\<lparr>keypressed := [ucast ?key], SendFPGA := f\<rparr>)" using assms(4) by (auto simp: xQueueSend_def)
  let ?s1 = "s\<lparr>keypressed := [ucast ?key], SendFPGA := f\<rparr>"
  from key_on_line [of ?s1 ?key d u] assms(5-9) key(4) obtain d' s2 s3 fr where
    2: "default_task d ?s1 = Some (d', s2)" "task7200 u s2 = Some (fr, s3)" "uart1 s3 = 0xFF # fr" "length fr = 50" "fr ! 0 = ?key"
    by auto
  have "msg_queue_ptr t + int (length (fst ?log)) \<le> 49" using assms(11) key_log_short [of ?key "sr_keys r"] by simp
  from add_all_sched [OF assms(10) this] obtain t' q where
    t': "add_all (fst ?log) t = Some t'" "sched_ok t'" "pending t' = rev (fst ?log) @ pending t"
      "t' = t\<lparr>msg_queue := q, msg_queue_ptr := msg_queue_ptr t + int (length (fst ?log))\<rparr>" by blast
  have "shutdown_all t' = 0" using assms(12) t'(4) by simp
  then have "serial_frame fr r t = Some (False, r\<lparr>sr_rbuf := fr, sr_keys := snd ?log\<rparr>, t')"
    using key_frame [of fr r t] 2(4,5) key(3) t'(1) by simp
  then have "serial_loop 1 (uart1 s3) r t = Some (False, [], r\<lparr>sr_rbuf := fr, sr_keys := snd ?log\<rparr>, t')"
    using recv_frame_wire [of "[]" fr "[]"] 2(3,4) by simp
  moreover have "sr_keys (r\<lparr>sr_rbuf := fr, sr_keys := snd ?log\<rparr>) = snd ?log" by simp
  ultimately show ?thesis using 1 2(1,2) t'(2-4) by blast
qed

text \<open>
  C2: The engine is started and stopped from the keypad. The key 1 (column 0 of the first row) or 2, held for
  any time and released, is scanned, queued, sent over the line, received and carried out: ignition and
  fuel pump are on exactly after the key 1, the engine counts as running accordingly, and no other relay moves.
\<close>

theorem keypad_starts_and_stops:
  fixes t :: "'a sched_scheme"
  assumes "col \<le> 1" "e_isrState k = STATE_WAIT_FOR_PRESS" "length (kt_ucbuff k) = 10"
    "keypressed s = []" "Send7200 s = []" "uart1 s = []" "server_up s = 1" "length d = 8" "length u = 50"
    "sched_ok t" "msg_queue_ptr t \<le> 47" "shutdown_all t = 0"
    "otp_get ACCON t = Some a" "otp_get FUELPUMP t = Some b" "length tempx = 50"
  shows "\<exists>k' s1 d' s2 fr s3 r' t1 x t2. key_run (replicate (Suc m) (only 0 col) @ replicate (Suc n) no_key) k s = Some (k', s1) \<and>
    default_task d s1 = Some (d', s2) \<and> task7200 u s2 = Some (fr, s3) \<and>
    serial_loop 1 (uart1 s3) r t = Some (False, [], r', t1) \<and>
    basic_controls_step stale tempx t1 = Some (x, t2) \<and> sched_ok t2 \<and>
    out_line ACCON t2 = (col = 0) \<and> out_line FUELPUMP t2 = (col = 0) \<and> engine_running t2 = (if col = 0 then 1 else 0) \<and>
    (\<forall>j. 0 \<le> j \<and> j < 40 \<and> j \<noteq> ACCON \<and> j \<noteq> FUELPUMP \<longrightarrow> out_line j t2 = out_line j t)"
proof -
  have nk: "number_key 0 col" using assms(1) by (simp add: number_key_def)
  let ?cmd = "if col = 0 then START_SEQ else SHUTDOWN"
  have log: "fst (key_log (layout ! 0 ! col) (sr_keys r)) = [?cmd]"
    using assms(1) by (cases "col = 0") (simp_all add: le_Suc_eq layout_def key_log_def)
  from key_travels [OF nk assms(2-12), of m n r] obtain k' s1 d' s2 fr s3 r' t1 q p where
    1: "key_run (replicate (Suc m) (only 0 col) @ replicate (Suc n) no_key) k s = Some (k', s1)"
      "default_task d s1 = Some (d', s2)" "task7200 u s2 = Some (fr, s3)"
      "serial_loop 1 (uart1 s3) r t = Some (False, [], r', t1)" and
    t1: "sched_ok t1" "pending t1 = ?cmd # pending t" "t1 = t\<lparr>msg_queue := q, msg_queue_ptr := p\<rparr>"
    unfolding log by auto
  from get_msg_queue_ok [OF sched_okD(3) [OF t1(1)]] t1(2) obtain g where
    g: "get_msg_queue t1 = Some (?cmd, g)" "msgq_ok g" by auto
  then obtain q' p' where g': "g = t\<lparr>msg_queue := q', msg_queue_ptr := p'\<rparr>"
    unfolding t1(3) by (cases t) (auto simp: get_msg_queue_def bind_eq_Some_conv split: if_splits)
  have r: "otp_get j g = otp_get j t" "out_line j g = out_line j t" for j
    by (simp_all add: g' otp_get_def out_line_def relay_def)
  have g3: "sched_ok g" using assms(10) g(2) by (simp add: sched_ok_def g' shadow_ok_def ips_ok_def)
  have a: "otp_get ACCON g = Some a" "otp_get FUELPUMP g = Some b" using assms(13,14) by (simp_all add: r)
  have "\<exists>x t2. basic_control stale ?cmd tempx g = Some (x, t2) \<and> sched_ok t2 \<and>
    out_line ACCON t2 = (col = 0) \<and> out_line FUELPUMP t2 = (col = 0) \<and> engine_running t2 = (if col = 0 then 1 else 0) \<and>
    (\<forall>j. 0 \<le> j \<and> j < 40 \<and> j \<noteq> ACCON \<and> j \<noteq> FUELPUMP \<longrightarrow> out_line j t2 = out_line j t)"
    using start_seq_effect [OF g3 assms(15) a, of stale] shutdown_effect [OF g3 assms(15) a, of stale] r(2) by auto
  with 1 g(1) show ?thesis by (fastforce simp: basic_controls_step_def)
qed

section \<open>From the parameters to the thermostat\<close>

lemma mk16s_bytes: "mk16s (hi8 (word_of_int v)) (lo8 (word_of_int v)) = word_of_int v"
  unfolding mk16s_lo_hi by (rule bit_word_eqI) (simp add: bit_simps)

lemma put16_eq:
  "0 \<le> i \<Longrightarrow> nat i + 1 < length buf \<Longrightarrow>
   put16 i v buf = Some (buf[nat i := lo8 (word_of_int v), Suc (nat i) := hi8 (word_of_int v)])"
  by (simp add: put16_def aset_def nat_add_distrib Let_def)

text \<open>
  The parameters of the server become the limits of the thermostat. What the receive task of the TS-7200
  sends when it starts is a message of 51 bytes, and the STM32, if it looks at its buffer when all of them have
  come, takes from it exactly the seven parameters, modulo \<open>2 ^ 16\<close>, and knows that the server is up.
\<close>

theorem limits_arrive:
  fixes s :: "'b stm_scheme"
  assumes "length send_buffer = 50" "serial_out t = []" "rx_buff u = replicate 51 0" "rx_left u = 0" "length uc = 10"
  shows "\<exists>r' t' u1 u2 uc' s'. serial_start send_buffer r t = Some (r', t') \<and> length (serial_out t') = 51 \<and>
    recv7200 u uc s = Some (u1, uc, s) \<and> recv7200 (fold rx_byte (serial_out t') u1) uc s = Some (u2, uc', s') \<and>
    engine_temp_limit s' = word_of_int (p_engine_temp_limit (ps t)) \<and>
    fan_on_temp s' = word_of_int (p_cooling_fan_on (ps t)) \<and> fan_off_temp s' = word_of_int (p_cooling_fan_off (ps t)) \<and>
    blower1_temp s' = word_of_int (p_blower1_on (ps t)) \<and> blower2_temp s' = word_of_int (p_blower2_on (ps t)) \<and>
    blower3_temp s' = word_of_int (p_blower3_on (ps t)) \<and> blower_en_temp s' = word_of_int (p_blower_enabled (ps t)) \<and>
    server_up s' = 1"
proof -
  let ?l = "\<lambda>v. lo8 (word_of_int v)" and ?h = "\<lambda>v. hi8 (word_of_int v)"
  let ?p = "ps t"
  let ?b = "send_buffer[0 := ?l (p_engine_temp_limit ?p), 1 := ?h (p_engine_temp_limit ?p),
    2 := ?l (p_cooling_fan_on ?p), 3 := ?h (p_cooling_fan_on ?p), 4 := ?l (p_cooling_fan_off ?p), 5 := ?h (p_cooling_fan_off ?p),
    6 := ?l (p_blower1_on ?p), 7 := ?h (p_blower1_on ?p), 8 := ?l (p_blower2_on ?p), 9 := ?h (p_blower2_on ?p),
    10 := ?l (p_blower3_on ?p), 11 := ?h (p_blower3_on ?p), 12 := ?l (p_blower_enabled ?p), 13 := ?h (p_blower_enabled ?p)]"
  define b where "b = ?b"
  have l: "length b = 50" using assms(1) by (simp add: b_def)
  let ?r = "r\<lparr>status1 := 0, status2 := 0, status3 := 0, status4 := 0\<rparr>"
  let ?f = "SERVER_UP # b"
  have o: "serial_start send_buffer r t = Some (?r, t\<lparr>serial_out := ?f\<rparr>)"
    unfolding serial_start_def using l assms(1,2)
    by (simp add: put16_eq send_serialother_eq b_def numeral_eq_Suc)
  have i: "recv7200 u uc s = Some (receive_it 51 u, uc, s)"
    by (rule recv_idle) (simp_all add: assms(3) accepted_server_up)
  define u1 where "u1 = fold rx_byte ?f (receive_it 51 u)"
  have u1: "rx_buff u1 = ?f" using rx_whole [of u ?f] assms(3,4) l by (simp add: u1_def)
  from recv_server_up [of u1 uc s] u1 l assms(5) obtain u2 uc' m where
    2: "recv7200 u1 uc s = Some (u2, uc', (the (rc_server_up ?f s))\<lparr>SendMonitor := m\<rparr>)" by auto
  have n: "?f ! 1 = ?l (p_engine_temp_limit ?p)" "?f ! 2 = ?h (p_engine_temp_limit ?p)"
    "?f ! 3 = ?l (p_cooling_fan_on ?p)" "?f ! 4 = ?h (p_cooling_fan_on ?p)"
    "?f ! 5 = ?l (p_cooling_fan_off ?p)" "?f ! 6 = ?h (p_cooling_fan_off ?p)"
    "?f ! 7 = ?l (p_blower1_on ?p)" "?f ! 8 = ?h (p_blower1_on ?p)" "?f ! 9 = ?l (p_blower2_on ?p)" "?f ! 10 = ?h (p_blower2_on ?p)"
    "?f ! 11 = ?l (p_blower3_on ?p)" "?f ! 12 = ?h (p_blower3_on ?p)" "?f ! 13 = ?l (p_blower_enabled ?p)" "?f ! 14 = ?h (p_blower_enabled ?p)"
    using assms(1) by (simp_all add: b_def nth_Cons')
  have "length ?f = 51" using l by simp
  note e = rc_server_up_eq [OF this, of s, unfolded n mk16s_bytes]
  show ?thesis using o i 2 l unfolding u1_def [symmetric] e by (fastforce simp: u1_def)
qed

section \<open>From the thermometer to the receiver\<close>

text \<open>Half degrees Celsius in Fahrenheit, without the fraction.\<close>

definition fahrenheit :: "int \<Rightarrow> int" where
  "fahrenheit w = (let t = 9 * w + 320 in if t < 0 then - (- t div 10) else t div 10)"

lemma convertF_all: "list_all (\<lambda>n. convertF (take_bit 9 (int n - 110)) = fahrenheit (int n - 110)) [0..<361]"
  by code_simp

lemma convertF_right: "-110 \<le> w \<Longrightarrow> w \<le> 250 \<Longrightarrow> convertF (take_bit 9 w) = fahrenheit w"
  using convertF_all [unfolded list_all_iff set_upt, rule_format, of "nat (w + 110)"] by simp

lemma two_bytes:
  "0 \<le> x \<Longrightarrow> x < 65536 \<Longrightarrow> uint (word_of_int (drop_bit 8 x) :: u8) * 256 + uint (word_of_int x :: u8) = x"
proof -
  assume x: "0 \<le> x" "x < 65536"
  then have "0 \<le> x div 256" "x div 256 < 256" by simp_all
  then have "uint (word_of_int (x div 256) :: u8) = x div 256" by (simp add: uint_word_of_int)
  moreover have "uint (word_of_int x :: u8) = x mod 256" by (simp add: uint_word_of_int)
  ultimately show ?thesis by (simp add: drop_bit_eq_div)
qed


section \<open>From the wheels to the client\<close>


section \<open>Witnesses\<close>

lemma keypad_starts_and_stops_witness:
  "\<exists>k' s1 d' s2 fr s3 r' t1 x t2. key_run (replicate (Suc 3) (only 0 0) @ replicate (Suc 1) no_key) keytask0 (stm0\<lparr>server_up := 1\<rparr>) = Some (k', s1) \<and>
    default_task (replicate 8 0) s1 = Some (d', s2) \<and> task7200 (replicate 50 0) s2 = Some (fr, s3) \<and>
    serial_loop 1 (uart1 s3) sr0 sched0 = Some (False, [], r', t1) \<and>
    basic_controls_step (\<lambda>d. d) (replicate 50 0) t1 = Some (x, t2) \<and> sched_ok t2 \<and>
    out_line 1 t2 = ((0 :: nat) = 0) \<and> out_line 2 t2 = ((0 :: nat) = 0) \<and> engine_running t2 = (if (0 :: nat) = 0 then 1 else 0) \<and>
    (\<forall>j. 0 \<le> j \<and> j < 40 \<and> j \<noteq> 1 \<and> j \<noteq> 2 \<longrightarrow> out_line j t2 = out_line j sched0)"
  by (rule keypad_starts_and_stops [OF _ _ _ _ _ _ _ _ _ sched0_ok])
     (simp_all add: keytask0_def stm0_def default_start_def otp_get_def sched0_def db0_lookup)

lemma limits_arrive_witness:
  "\<exists>r' t' u1 u2 uc' s'. serial_start (replicate 50 0) sr0 sched0 = Some (r', t') \<and> length (serial_out t') = 51 \<and>
    recv7200 uart0 (replicate 10 0) stm0 = Some (u1, replicate 10 0, stm0) \<and>
    recv7200 (fold rx_byte (serial_out t') u1) (replicate 10 0) stm0 = Some (u2, uc', s') \<and>
    engine_temp_limit s' = word_of_int (p_engine_temp_limit (ps sched0)) \<and>
    fan_on_temp s' = word_of_int (p_cooling_fan_on (ps sched0)) \<and> fan_off_temp s' = word_of_int (p_cooling_fan_off (ps sched0)) \<and>
    blower1_temp s' = word_of_int (p_blower1_on (ps sched0)) \<and> blower2_temp s' = word_of_int (p_blower2_on (ps sched0)) \<and>
    blower3_temp s' = word_of_int (p_blower3_on (ps sched0)) \<and> blower_en_temp s' = word_of_int (p_blower_enabled (ps sched0)) \<and>
    server_up s' = 1"
  by (rule limits_arrive) (simp_all add: sched0_def uart0_def)



end
