(* ===== verification/Xmega.thy ===== *)
theory Xmega
  imports Prelude
begin

text \<open>
  The XMEGA that drives the two LED displays of the dashboard (\<open>XMEGA/main.c\<close>): the interrupt that receives
  frames with engine and road speed, the timer interrupt that shows what has changed, and the
  conversion to decimal digits. On this processor an \<open>int\<close> has 16 bits, so a shift of a 16-bit number by 16
  is undefined. \<open>tx\<close> records what is sent (\<open>True\<close> is the display for the engine), and \<open>tx_busy\<close> says of each attempt
  whether the transmitter is still busy; past its end it is not.
\<close>

section \<open>State\<close>

abbreviation (input) LED_CLRDISP :: u8 where "LED_CLRDISP \<equiv> 0x76"
abbreviation (input) LED_CURSOR :: u8 where "LED_CURSOR \<equiv> 0x79"
abbreviation (input) LED_BRIGHT :: u8 where "LED_BRIGHT \<equiv> 0x7A"

record xmega =
  x_rpm :: u16
  x_mph :: u16
  x_rpm2 :: u16
  x_mph2 :: u16
  x_digit :: int
  done_rpm :: int
  done_mph :: int
  done_cmd :: int
  x_cmd :: u8
  x_cmd2 :: u8
  led :: bool
  tx_busy :: "bool list"
  tx :: "(bool \<times> u8) list"

section \<open>Receiving\<close>

text \<open>The receive interrupt of \<open>USARTC0\<close> with the byte it reads; the one of \<open>USARTD0\<close> throws its byte away.\<close>

definition rx_isr :: "u8 \<Rightarrow> xmega \<Rightarrow> xmega" where
  "rx_isr ch s =
     (if ch = 0xFF then s\<lparr>x_digit := 0, led := \<not> led s, x_rpm := 0, x_mph := 0\<rparr>
      else if x_digit s = 0 then s\<lparr>x_digit := 1, x_rpm := ucast ch\<rparr>
      else if x_digit s = 1 then
        (let s = s\<lparr>x_digit := 2, x_rpm := x_rpm s OR push_bit 8 (ucast ch)\<rparr>
         in if x_rpm s \<noteq> x_rpm2 s then s\<lparr>x_rpm2 := x_rpm s, done_rpm := 1, x_rpm := 0\<rparr> else s)
      else if x_digit s = 2 then s\<lparr>x_digit := 3, x_mph := ucast ch\<rparr>
      else if x_digit s = 3 then
        (let s = s\<lparr>x_digit := 4, x_mph := x_mph s OR push_bit 8 (ucast ch)\<rparr>
         in if x_mph s \<noteq> x_mph2 s then s\<lparr>x_mph2 := x_mph s, done_mph := 1, x_mph := 0\<rparr> else s)
      else if x_digit s = 4 then
        (let s = s\<lparr>x_digit := 5, x_cmd := ch\<rparr>
         in if x_cmd s \<noteq> x_cmd2 s then s\<lparr>x_cmd2 := x_cmd s, done_cmd := 1\<rparr> else s)
      else s)"

section \<open>Digits\<close>

lemma unat_div_10 [simp]: "unat (v div 10) = unat v div 10" for v :: u16
  by (simp add: unat_div)

lemma unat_mod_10 [simp]: "unat (v mod 10) = unat v mod 10" for v :: u16
  by (simp add: unat_mod)

text \<open>\<open>while (dec) { result += (dec % 10) << shift; dec = dec / 10; shift += 4; }\<close>\<close>

function dec2bcd_loop :: "u16 \<Rightarrow> u32 \<Rightarrow> nat \<Rightarrow> u32 option" where
  "dec2bcd_loop dec result shift =
     (if dec \<noteq> 0 then
        (if shift < 16 then dec2bcd_loop (dec div 10) (result + ucast (push_bit shift (dec mod 10))) (shift + 4) else None)
      else Some result)"
  by pat_completeness auto

termination
  by (relation "measure (\<lambda>(d, r, s). unat d)") (auto simp: unat_eq_zero [symmetric] simp del: unat_eq_zero)

declare dec2bcd_loop.simps [simp del]

definition dec2bcd :: "u16 \<Rightarrow> u32 option" where
  "dec2bcd dec = dec2bcd_loop dec 0 0"

function dec2bcd_r :: "u16 \<Rightarrow> u32" where
  "dec2bcd_r dec = (if dec \<noteq> 0 then push_bit 4 (dec2bcd_r (dec div 10)) + ucast (dec mod 10) else 0)"
  by pat_completeness auto

termination
  by (relation "measure unat") (auto simp: unat_eq_zero [symmetric] simp del: unat_eq_zero)

declare dec2bcd_r.simps [simp del]

section \<open>Sending\<close>

definition sendChar :: "u8 \<Rightarrow> bool \<Rightarrow> xmega \<Rightarrow> xmega" where
  "sendChar ch which s =
     (let (busy, rest) = (case tx_busy s of [] \<Rightarrow> (False, []) | b # bs \<Rightarrow> (b, bs))
      in s\<lparr>tx_busy := rest, tx := (if busy then tx s else tx s @ [(which, ch)])\<rparr>)"

text \<open>\<open>for(i = n - 1;i >= 0;i--) sendChar(buff[i],uart);\<close>\<close>

fun digits_loop :: "nat \<Rightarrow> u8 list \<Rightarrow> bool \<Rightarrow> xmega \<Rightarrow> xmega" where
  "digits_loop 0 buff uart s = s"
| "digits_loop (Suc i) buff uart s = digits_loop i buff uart (sendChar (buff ! i) uart s)"

definition process_digits :: "u16 \<Rightarrow> bool \<Rightarrow> xmega \<Rightarrow> xmega option" where
  "process_digits val uart s = do {
     res \<leftarrow> dec2bcd val;
     let utemp = (ucast res :: u16);
     let b0 = (ucast (utemp AND 0x000f) :: u8);
     let utemp = drop_bit 4 utemp;
     let b1 = (ucast (utemp AND 0x000f) :: u8);
     let utemp = drop_bit 4 utemp;
     let b2 = (ucast (utemp AND 0x000f) :: u8);
     let utemp = drop_bit 4 utemp;
     let b3 = (ucast (utemp AND 0x000f) :: u8);
     let s = sendChar LED_CLRDISP uart s;
     let (cursor, n) = (if val < 1000 \<and> val > 99 then (1, 2) else if val < 100 then (2, 1)
                        else if val < 10 then (3, 0) else (0, 3));
     let s = sendChar cursor uart (sendChar LED_CURSOR uart s);
     let s = digits_loop (n + 1) [b0, b1, b2, b3] uart s;
     Some (sendChar 0 uart (sendChar LED_CURSOR uart s))
   }"

text \<open>The timer interrupt and its three parts.\<close>

definition show_rpm :: "xmega \<Rightarrow> xmega option" where
  "show_rpm s = (if done_rpm s = 1 then do {
       s \<leftarrow> process_digits (x_rpm2 s) True (s\<lparr>led := \<not> led s\<rparr>);
       Some (s\<lparr>done_rpm := 0\<rparr>)
     } else Some s)"

definition show_mph :: "xmega \<Rightarrow> xmega option" where
  "show_mph s = (if done_mph s = 1 then do {
       s \<leftarrow> process_digits (x_mph2 s) False s;
       Some (s\<lparr>done_mph := 0\<rparr>)
     } else Some s)"

definition send_bright :: "xmega \<Rightarrow> xmega" where
  "send_bright s = (if done_cmd s = 1 then
       (sendChar (x_cmd s) False (sendChar LED_BRIGHT False (sendChar (x_cmd s) True (sendChar LED_BRIGHT True s))))
         \<lparr>done_cmd := 0\<rparr>
     else s)"

definition tick_isr :: "xmega \<Rightarrow> xmega option" where
  "tick_isr s = do {
     s \<leftarrow> show_rpm s;
     s \<leftarrow> show_mph s;
     Some (send_bright s)
   }"

text \<open>What \<open>main\<close> does before its idle loop.\<close>

definition xmega_start :: "xmega \<Rightarrow> xmega" where
  "xmega_start s =
     (let s = s\<lparr>x_digit := 0, x_rpm := 6010, x_mph := 10, done_rpm := 0, done_mph := 0, done_cmd := 0, x_cmd := 0xFF, x_cmd2 := 0xFF\<rparr>;
          s = sendChar LED_CLRDISP False (sendChar LED_CLRDISP True s);
          s = sendChar 0 True (sendChar LED_CURSOR True s);
          s = sendChar 0 False (sendChar LED_CURSOR False s);
          s = sendChar 100 True (sendChar LED_BRIGHT True s)
      in sendChar 100 False (sendChar LED_BRIGHT False s))"

section \<open>Digits and their conversion\<close>

text \<open>Digit \<open>i\<close> of a number, and the number whose hexadecimal digits are the decimal digits of \<open>n\<close>.\<close>

definition digit :: "nat \<Rightarrow> nat \<Rightarrow> nat" where
  "digit n i = n div 10 ^ i mod 10"

fun bcd :: "nat \<Rightarrow> nat" where
  "bcd n = (if n = 0 then 0 else 16 * bcd (n div 10) + n mod 10)"

declare bcd.simps [simp del]

lemma bcd_step: "bcd n = 16 * bcd (n div 10) + n mod 10"
  by (cases "n = 0") (simp_all add: bcd.simps [of 0] bcd.simps [of n])

lemma bcd_bound: "n < 10 ^ k \<Longrightarrow> bcd n < 16 ^ k"
proof (induction k arbitrary: n)
  case (Suc k)
  then have "n div 10 < 10 ^ k" by (simp add: less_mult_imp_div_less mult.commute)
  then have "bcd (n div 10) < 16 ^ k" by (rule Suc.IH)
  moreover have "16 * x + y < 16 * K" if "x < K" "y < 10" for x y K :: nat using that by linarith
  ultimately have "16 * bcd (n div 10) + n mod 10 < 16 * 16 ^ k" by simp
  then show ?case by (simp add: bcd_step [of n])
qed (simp add: bcd.simps [of 0])

lemma bcd_digit: "bcd n div 16 ^ i mod 16 = digit n i"
proof (induction i arbitrary: n)
  case 0
  have "n mod 10 < 16" by (rule less_trans [OF mod_less_divisor]) simp_all
  then show ?case by (simp add: digit_def bcd_step [of n])
next
  case (Suc i)
  have m: "n mod 10 < 16" by (rule less_trans [OF mod_less_divisor]) simp_all
  have "bcd n div 16 = bcd (n div 10)" using m by (simp add: bcd_step [of n])
  then have "bcd n div 16 ^ Suc i = bcd (n div 10) div 16 ^ i" by (simp add: div_mult2_eq)
  with Suc.IH [of "n div 10"] show ?case by (simp add: digit_def div_mult2_eq)
qed

lemma unat_dec2bcd_r: "unat (dec2bcd_r v) = bcd (unat v)"
proof (induction v rule: dec2bcd_r.induct)
  case (1 v)
  show ?case
  proof (cases "v = 0")
    case False
    have "unat v < 2 ^ 16" using unsigned_less [of v] by simp
    then have b: "bcd (unat v div 10) < 16 ^ 4" by (intro bcd_bound) simp
    then have p: "unat (push_bit 4 (dec2bcd_r (v div 10))) = 16 * bcd (unat v div 10)"
      using 1 [OF False] unat_word_ariths(2) [of "dec2bcd_r (v div 10)" 16] by (simp add: push_bit_eq_mult)
    have m: "unat (ucast (v mod 10) :: u32) = unat v mod 10"
      by (simp add: unsigned_ucast_eq take_bit_nat_eq_self unat_mod) 
    have "unat v mod 10 < 10" by simp
    with b have "16 * bcd (unat v div 10) + unat v mod 10 < 2 ^ 32" by simp
    then have "unat (dec2bcd_r v) = 16 * bcd (unat v div 10) + unat v mod 10"
      using False by (subst dec2bcd_r.simps) (simp add: unat_word_ariths p m)
    then show ?thesis by (simp add: bcd_step [of "unat v"])
  qed (simp add: dec2bcd_r.simps bcd.simps [of 0])
qed

text \<open>The loop, from digit \<open>4 - m\<close> on.\<close>

lemma small_word: "unat w < 16 \<Longrightarrow> bit w n \<Longrightarrow> n < 4" for w :: u16
proof -
  assume w: "unat w < 16" and b: "bit w n"
  have "take_bit 4 (unat w) = unat w" using w by (simp add: take_bit_nat_eq_self)
  moreover have "bit (unat w) n" using b by (simp add: bit_unsigned_iff bit_imp_le_length)
  ultimately show "n < 4" by (metis bit_take_bit_iff)
qed

lemma digit_shift: "unat d < 16 \<Longrightarrow> k \<le> 12 \<Longrightarrow> (ucast (push_bit k d) :: u32) = push_bit k (ucast d)" for d :: u16
proof (rule bit_word_eqI)
  fix n
  assume d: "unat d < 16" "k \<le> 12" and n: "n < LENGTH(32)"
  have "n < 16" if "bit d (n - k)" using small_word [OF d(1) that] d(2) by simp
  then show "bit (ucast (push_bit k d) :: u32) n = bit (push_bit k (ucast d) :: u32) n"
    using n by (auto simp: bit_simps)
qed

lemma dec2bcd_loop_eq:
  "k + m = 4 \<Longrightarrow> dec2bcd_loop d r (4 * k) =
     (if unat d < 10 ^ m then Some (r + push_bit (4 * k) (dec2bcd_r d)) else None)"
proof (induction m arbitrary: k d r)
  case 0
  then show ?case by (subst dec2bcd_loop.simps) (auto simp: dec2bcd_r.simps [of 0] unat_eq_zero)
next
  case (Suc m)
  show ?case
  proof (cases "d = 0")
    case False
    have "unat (d mod 10) < 16" unfolding unat_mod_10 by (rule less_trans [OF mod_less_divisor]) simp_all
    then have s: "ucast (push_bit (4 * k) (d mod 10)) = (push_bit (4 * k) (ucast (d mod 10)) :: u32)"
      using Suc.prems by (intro digit_shift) simp_all
    have "dec2bcd_loop d r (4 * k) = dec2bcd_loop (d div 10) (r + push_bit (4 * k) (ucast (d mod 10))) (4 * Suc k)"
      using False Suc.prems by (subst dec2bcd_loop.simps) (simp add: s add.commute)
    also have "\<dots> = (if unat d div 10 < 10 ^ m
        then Some (r + push_bit (4 * k) (ucast (d mod 10)) + push_bit (4 * Suc k) (dec2bcd_r (d div 10))) else None)"
      using Suc.IH [of "Suc k"] Suc.prems by simp
    also have "unat d div 10 < 10 ^ m \<longleftrightarrow> unat d < 10 ^ Suc m" by (simp add: div_less_iff_less_mult mult.commute)
    also have "r + push_bit (4 * k) (ucast (d mod 10)) + push_bit (4 * Suc k) (dec2bcd_r (d div 10)) =
        r + push_bit (4 * k) (dec2bcd_r d)"
      using False by (subst (2) dec2bcd_r.simps) (simp add: push_bit_eq_mult power_add algebra_simps)
    finally show ?thesis .
  qed (subst dec2bcd_loop.simps, simp add: dec2bcd_r.simps [of 0])
qed

lemma dec2bcd_eq: "dec2bcd v = (if unat v < 10000 then Some (dec2bcd_r v) else None)"
  using dec2bcd_loop_eq [of 0 4 v 0] by (simp add: dec2bcd_def)

text \<open>
  Two conversions. \<open>dec2bcd_r\<close>, which the code says to be the same, agrees with \<open>dec2bcd\<close> on all numbers
  of four digits, and either yields the number whose hexadecimal digits are the decimal ones; on a number of
  five digits \<open>dec2bcd\<close> shifts a 16-bit integer by 16.
\<close>

theorem bcd_conversions:
  "dec2bcd v = (if unat v < 10000 then Some (dec2bcd_r v) else None) \<and>
   unat (dec2bcd_r v) div 16 ^ i mod 16 = unat v div 10 ^ i mod 10"
  using bcd_digit [of "unat v" i] by (simp add: dec2bcd_eq unat_dec2bcd_r digit_def)

section \<open>From a frame to the displays\<close>

text \<open>What is sent to show a number: two to four digits behind the cursor's place.\<close>

definition width :: "nat \<Rightarrow> nat" where
  "width n = (if n < 100 then 2 else if n < 1000 then 3 else 4)"

definition shown :: "bool \<Rightarrow> nat \<Rightarrow> (bool \<times> u8) list" where
  "shown which n = map (Pair which) ([LED_CLRDISP, LED_CURSOR, word_of_nat (4 - width n)] @
     map (\<lambda>i. word_of_nat (digit n i)) (rev [0..<width n]) @ [LED_CURSOR, 0])"

lemma sendChar_idle: "tx_busy s = [] \<Longrightarrow> sendChar ch which s = s\<lparr>tx := tx s @ [(which, ch)]\<rparr>"
  by (simp add: sendChar_def)

lemma digits_loop_idle:
  "tx_busy s = [] \<Longrightarrow> digits_loop n buff which s = s\<lparr>tx := tx s @ map (\<lambda>i. (which, buff ! i)) (rev [0..<n])\<rparr>"
proof (induction n arbitrary: s)
  case (Suc n)
  then show ?case by (simp add: sendChar_idle)
qed simp

text \<open>The four bytes are the four digits.\<close>

lemma nibble:
  assumes "unat v < 10000" "dec2bcd v = Some res" "i < 4"
  shows "(ucast (drop_bit (4 * i) (ucast res :: u16) AND 0x000f) :: u8) = word_of_nat (digit (unat v) i)"
proof -
  have m: "x AND 0x000f = take_bit 4 x" for x :: u16 by (simp add: take_bit_eq_mask mask_eq_exp_minus_1)
  have n: "unat (take_bit 4 (drop_bit (4 * i) x)) = unat x div 16 ^ i mod 16" for x :: u16
  proof -
    have "unat x < 2 ^ 16" using unsigned_less [of x] by simp
    then show ?thesis unfolding unsigned_take_bit_eq unsigned_drop_bit_eq
      by (simp add: take_bit_eq_mod drop_bit_eq_div power_mult)
  qed
  have res: "res = dec2bcd_r v" using assms(1,2) by (simp add: dec2bcd_eq)
  have "bcd (unat v) < 16 ^ 4" using assms(1) by (intro bcd_bound) simp
  then have "unat (ucast res :: u16) = bcd (unat v)" by (simp add: res unat_dec2bcd_r unsigned_ucast_eq take_bit_nat_eq_self)
  then have "unat (drop_bit (4 * i) (ucast res :: u16) AND 0x000f) = digit (unat v) i"
    using bcd_digit [of "unat v" i] unfolding m n by simp
  then show ?thesis by (metis of_nat_unat)
qed

lemma digit_limits:
  "(v < 1000 \<and> v > 99) = (100 \<le> unat v \<and> unat v < 1000)" "(v < 100) = (unat v < 100)" "(v < 10) = (unat v < 10)"
  for v :: u16
  by (auto simp: word_less_nat_alt)

lemma countdown:
  "rev [0..<1 + 1] = [1, 0 :: nat]" "rev [0..<2 + 1] = [2, 1, 0 :: nat]" "rev [0..<3 + 1] = [3, 2, 1, 0 :: nat]"
  "rev [0..<2] = [1, 0 :: nat]" "rev [0..<3] = [2, 1, 0 :: nat]" "rev [0..<4] = [3, 2, 1, 0 :: nat]"
  by code_simp+

lemma nibbles:
  assumes "unat v < 10000" "dec2bcd v = Some res"
  shows "ucast (ucast res AND 0x000f :: u16) = (word_of_nat (digit (unat v) 0) :: u8)"
    "ucast (drop_bit 4 (ucast res) AND 0x000f :: u16) = (word_of_nat (digit (unat v) 1) :: u8)"
    "ucast (drop_bit 4 (drop_bit 4 (ucast res)) AND 0x000f :: u16) = (word_of_nat (digit (unat v) 2) :: u8)"
    "ucast (drop_bit 4 (drop_bit 4 (drop_bit 4 (ucast res))) AND 0x000f :: u16) = (word_of_nat (digit (unat v) 3) :: u8)"
  using nibble [OF assms, of 0] nibble [OF assms, of 1] nibble [OF assms, of 2] nibble [OF assms, of 3]
  by (simp_all add: drop_bit_drop_bit)

definition digit_bytes :: "nat \<Rightarrow> u8 list" where
  "digit_bytes n = [word_of_nat (digit n 0), word_of_nat (digit n 1), word_of_nat (digit n 2), word_of_nat (digit n 3)]"

lemma process_digits_bytes:
  assumes "unat v < 10000"
  shows "process_digits v which s = (let
      (cursor, n) = (if 100 \<le> unat v \<and> unat v < 1000 then (1, 2) else if unat v < 100 then (2, 1) else if unat v < 10 then (3, 0) else (0, 3)) in
      Some (sendChar 0 which (sendChar LED_CURSOR which (digits_loop (n + 1) (digit_bytes (unat v)) which
        (sendChar cursor which (sendChar LED_CURSOR which (sendChar LED_CLRDISP which s)))))))"
proof -
  from assms obtain res where res: "dec2bcd v = Some res" by (simp add: dec2bcd_eq)
  show ?thesis
    unfolding process_digits_def res bind.bind_lunit Let_def nibbles [OF assms res] digit_limits digit_bytes_def ..
qed

lemma show_digits:
  "tx_busy s = [] \<Longrightarrow>
   sendChar 0 which (sendChar LED_CURSOR which (digits_loop w b which
     (sendChar c which (sendChar LED_CURSOR which (sendChar LED_CLRDISP which s))))) =
   s\<lparr>tx := tx s @ map (Pair which) ([LED_CLRDISP, LED_CURSOR, c] @ map (\<lambda>i. b ! i) (rev [0..<w]) @ [LED_CURSOR, 0])\<rparr>"
  by (simp add: sendChar_idle digits_loop_idle comp_def)

lemma shown_cases:
  "n < 100 \<Longrightarrow> shown which n = map (Pair which) ([LED_CLRDISP, LED_CURSOR, 2] @ map (\<lambda>i. digit_bytes n ! i) (rev [0..<1 + 1]) @ [LED_CURSOR, 0])"
  "100 \<le> n \<Longrightarrow> n < 1000 \<Longrightarrow> shown which n = map (Pair which) ([LED_CLRDISP, LED_CURSOR, 1] @ map (\<lambda>i. digit_bytes n ! i) (rev [0..<2 + 1]) @ [LED_CURSOR, 0])"
  "1000 \<le> n \<Longrightarrow> shown which n = map (Pair which) ([LED_CLRDISP, LED_CURSOR, 0] @ map (\<lambda>i. digit_bytes n ! i) (rev [0..<3 + 1]) @ [LED_CURSOR, 0])"
  unfolding shown_def width_def countdown by (simp_all add: countdown digit_bytes_def)

lemma process_digits_eq:
  assumes "tx_busy s = []"
  shows "process_digits v which s = (if unat v < 10000 then Some (s\<lparr>tx := tx s @ shown which (unat v)\<rparr>) else None)"
proof (cases "unat v < 10000")
  case True
  consider "unat v < 100" | "100 \<le> unat v" "unat v < 1000" | "1000 \<le> unat v" by linarith
  then show ?thesis
  proof cases
    case 1
    then have "(100 \<le> unat v \<and> unat v < 1000) = False" "(unat v < 100) = True" by simp_all
    then show ?thesis unfolding process_digits_bytes [OF True] if_P [OF True] shown_cases(1) [OF 1]
      by (simp only: if_True if_False Let_def split show_digits [OF assms])
  next
    case 2
    then have "(100 \<le> unat v \<and> unat v < 1000) = True" by simp
    then show ?thesis unfolding process_digits_bytes [OF True] if_P [OF True] shown_cases(2) [OF 2]
      by (simp only: if_True if_False Let_def split show_digits [OF assms])
  next
    case 3
    then have "(100 \<le> unat v \<and> unat v < 1000) = False" "(unat v < 100) = False" "(unat v < 10) = False" by simp_all
    then show ?thesis unfolding process_digits_bytes [OF True] if_P [OF True] shown_cases(3) [OF 3]
      by (simp only: if_True if_False Let_def split show_digits [OF assms])
  qed
qed (simp add: process_digits_def dec2bcd_eq)

section \<open>Frames\<close>

definition speed_frame :: "u16 \<Rightarrow> u16 \<Rightarrow> u8 \<Rightarrow> u8 list" where
  "speed_frame rpm mph c = [0xFF, ucast rpm, ucast (drop_bit 8 rpm), ucast mph, ucast (drop_bit 8 mph), c]"

lemma u16_of_bytes: "(ucast (ucast v :: u8) :: u16) OR push_bit 8 (ucast (ucast (drop_bit 8 v) :: u8)) = v"
  by (rule bit_word_eqI) (auto simp: bit_simps)

text \<open>A number is taken from two bytes, and marked if it is new.\<close>

lemma rpm_received:
  "l \<noteq> 0xFF \<Longrightarrow> h \<noteq> 0xFF \<Longrightarrow> x_digit s = 0 \<Longrightarrow> \<exists>x. rx_isr h (rx_isr l s) =
     s\<lparr>x_digit := 2, x_rpm := x, x_rpm2 := ucast l OR push_bit 8 (ucast h),
       done_rpm := (if ucast l OR push_bit 8 (ucast h) \<noteq> x_rpm2 s then 1 else done_rpm s)\<rparr>"
  by (cases s) (auto simp: rx_isr_def Let_def)

lemma mph_received:
  "l \<noteq> 0xFF \<Longrightarrow> h \<noteq> 0xFF \<Longrightarrow> x_digit s = 2 \<Longrightarrow> \<exists>x. rx_isr h (rx_isr l s) =
     s\<lparr>x_digit := 4, x_mph := x, x_mph2 := ucast l OR push_bit 8 (ucast h),
       done_mph := (if ucast l OR push_bit 8 (ucast h) \<noteq> x_mph2 s then 1 else done_mph s)\<rparr>"
  by (cases s) (auto simp: rx_isr_def Let_def)

lemma cmd_received:
  "c \<noteq> 0xFF \<Longrightarrow> x_digit s = 4 \<Longrightarrow> rx_isr c s = s\<lparr>x_digit := 5, x_cmd := c, x_cmd2 := c,
     done_cmd := (if c \<noteq> x_cmd2 s then 1 else done_cmd s)\<rparr>"
  by (cases s) (auto simp: rx_isr_def Let_def)

text \<open>A frame whose bytes are not the marker.\<close>

lemma frame_received:
  assumes "0xFF \<notin> set (tl (speed_frame rpm mph c))"
  shows "\<exists>s'. fold rx_isr (speed_frame rpm mph c) s = s' \<and> x_rpm2 s' = rpm \<and> x_mph2 s' = mph \<and> x_cmd s' = c \<and> x_cmd2 s' = c \<and>
    done_rpm s' = (if rpm \<noteq> x_rpm2 s then 1 else done_rpm s) \<and> done_mph s' = (if mph \<noteq> x_mph2 s then 1 else done_mph s) \<and>
    done_cmd s' = (if c \<noteq> x_cmd2 s then 1 else done_cmd s) \<and> tx_busy s' = tx_busy s \<and> tx s' = tx s"
proof -
  let ?s = "rx_isr 0xFF s"
  have f: "x_digit ?s = 0" "x_rpm2 ?s = x_rpm2 s" "x_mph2 ?s = x_mph2 s" "x_cmd2 ?s = x_cmd2 s" "done_rpm ?s = done_rpm s"
    "done_mph ?s = done_mph s" "done_cmd ?s = done_cmd s" "tx_busy ?s = tx_busy s" "tx ?s = tx s"
    by (simp_all add: rx_isr_def)
  have b: "ucast rpm \<noteq> (0xFF :: u8)" "ucast (drop_bit 8 rpm) \<noteq> (0xFF :: u8)" "ucast mph \<noteq> (0xFF :: u8)"
    "ucast (drop_bit 8 mph) \<noteq> (0xFF :: u8)" "c \<noteq> 0xFF" using assms by (auto simp: speed_frame_def)
  from rpm_received [OF b(1,2) f(1)] obtain x where 1: "rx_isr (ucast (drop_bit 8 rpm)) (rx_isr (ucast rpm) ?s) =
    ?s\<lparr>x_digit := 2, x_rpm := x, x_rpm2 := rpm, done_rpm := (if rpm \<noteq> x_rpm2 s then 1 else done_rpm s)\<rparr>"
    unfolding u16_of_bytes f by blast
  let ?s2 = "?s\<lparr>x_digit := 2, x_rpm := x, x_rpm2 := rpm, done_rpm := (if rpm \<noteq> x_rpm2 s then 1 else done_rpm s)\<rparr>"
  have d2: "x_digit ?s2 = 2" "x_mph2 ?s2 = x_mph2 s" "done_mph ?s2 = done_mph s" using f by simp_all
  from mph_received [OF b(3,4) d2(1)] obtain y where 2: "rx_isr (ucast (drop_bit 8 mph)) (rx_isr (ucast mph) ?s2) =
    ?s2\<lparr>x_digit := 4, x_mph := y, x_mph2 := mph, done_mph := (if mph \<noteq> x_mph2 s then 1 else done_mph s)\<rparr>"
    unfolding u16_of_bytes d2 by blast
  let ?s3 = "?s2\<lparr>x_digit := 4, x_mph := y, x_mph2 := mph, done_mph := (if mph \<noteq> x_mph2 s then 1 else done_mph s)\<rparr>"
  have d3: "x_digit ?s3 = 4" by simp
  have "fold rx_isr (speed_frame rpm mph c) s = rx_isr c ?s3"
    by (simp only: speed_frame_def fold_simps 1 2)
  then show ?thesis using cmd_received [OF b(5) d3] f by simp
qed

lemma show_rpm_eq:
  assumes "tx_busy s = []" "done_rpm s = (if new then 1 else 0)"
  shows "show_rpm s = (if new \<and> 10000 \<le> unat (x_rpm2 s) then None
     else Some (s\<lparr>led := (led s = (\<not> new)), done_rpm := 0, tx := tx s @ (if new then shown True (unat (x_rpm2 s)) else [])\<rparr>))"
  using assms by (cases s) (auto simp: show_rpm_def process_digits_eq)

lemma show_mph_eq:
  assumes "tx_busy s = []" "done_mph s = (if new then 1 else 0)"
  shows "show_mph s = (if new \<and> 10000 \<le> unat (x_mph2 s) then None
     else Some (s\<lparr>done_mph := 0, tx := tx s @ (if new then shown False (unat (x_mph2 s)) else [])\<rparr>))"
  using assms by (cases s) (auto simp: show_mph_def process_digits_eq)

lemma send_bright_eq:
  assumes "tx_busy s = []" "done_cmd s = (if new then 1 else 0)"
  shows "send_bright s = s\<lparr>done_cmd := 0, tx := tx s @ (if new then
       [(True, LED_BRIGHT), (True, x_cmd s), (False, LED_BRIGHT), (False, x_cmd s)] else [])\<rparr>"
  using assms by (cases s) (auto simp: send_bright_def sendChar_idle)


definition xmega0 :: xmega where
  "xmega0 = xmega_start \<lparr>x_rpm = 0, x_mph = 0, x_rpm2 = 0, x_mph2 = 0, x_digit = 0, done_rpm = 0, done_mph = 0, done_cmd = 0,
     x_cmd = 0, x_cmd2 = 0, led = False, tx_busy = [], tx = []\<rparr>"


text \<open>The marker inside a frame: the numbers behind it are taken one byte too late.\<close>

lemma marker_in_data:
  assumes "0xFF \<notin> {h, l2, h2, c}"
  shows "x_rpm2 (fold rx_isr [0xFF, 0xFF, h, l2, h2, c] s) = ucast h OR push_bit 8 (ucast l2) \<and>
    x_mph2 (fold rx_isr [0xFF, 0xFF, h, l2, h2, c] s) = ucast h2 OR push_bit 8 (ucast c)"
proof -
  have n: "h \<noteq> 0xFF" "l2 \<noteq> 0xFF" "h2 \<noteq> 0xFF" "c \<noteq> 0xFF" using assms by auto
  let ?s = "rx_isr 0xFF (rx_isr 0xFF s)"
  have "x_digit ?s = 0" by (simp add: rx_isr_def)
  from rpm_received [OF n(1,2) this] obtain x where 1: "rx_isr l2 (rx_isr h ?s) = ?s\<lparr>x_digit := 2, x_rpm := x,
    x_rpm2 := ucast h OR push_bit 8 (ucast l2), done_rpm := (if ucast h OR push_bit 8 (ucast l2) \<noteq> x_rpm2 ?s then 1 else done_rpm ?s)\<rparr>" by blast
  have "x_digit (rx_isr l2 (rx_isr h ?s)) = 2" by (simp add: 1)
  from mph_received [OF n(3,4) this] 1 show ?thesis by auto
qed

end
