(* ===== verification/T6963.thy ===== *)
theory T6963
  imports Prelude
begin

text \<open>
  \<open>t6963.c\<close>: the driver of the T6963 text display, written to the port registers of the AVR. What
  the controller sees on its pins is recorded as a list of bus cycles: a byte of data or a command
  for every rising edge of chip enable with the write line low. The first part shows that every
  operation of the driver is exactly the sequence of bytes it stands for; the second reads the
  bytes as the controller's commands of the comments of \<open>t6963.c\<close> and shows what stands on the screen.
\<close>

section \<open>Port registers and the pins of the controller\<close>

datatype bus_cycle = Data u8 | Cmd u8 | Reset | Floating

record lcdio =
  portb :: u8
  portc :: u8
  portd :: u8
  ddrb :: u8
  ddrc :: u8
  ddrd :: u8
  bus :: "bus_cycle list"

text \<open>\<open>_SB(SFR,N)\<close> and \<open>_CB(SFR,N)\<close>\<close>

definition SB :: "nat \<Rightarrow> u8 \<Rightarrow> u8" where
  "SB n v = v OR push_bit n 1"

definition CB :: "nat \<Rightarrow> u8 \<Rightarrow> u8" where
  "CB n v = v AND NOT (push_bit n 1)"

abbreviation (input) LCD_WR :: nat where "LCD_WR \<equiv> 0"
abbreviation (input) LCD_CE :: nat where "LCD_CE \<equiv> 1"
abbreviation (input) LCD_RST :: nat where "LCD_RST \<equiv> 2"
abbreviation (input) LCD_CD :: nat where "LCD_CD \<equiv> 3"
abbreviation (input) LCD_RD :: nat where "LCD_RD \<equiv> 4"
abbreviation (input) FONT_SELECT :: nat where "FONT_SELECT \<equiv> 5"

text \<open>
  The data lines: bits 0 to 5 are pins 2 to 7 of port D, bits 6 and 7 are pins 0 and 1 of port B; they
  are driven if the pins are outputs.
\<close>

definition lines :: "lcdio \<Rightarrow> u8" where
  "lines s = drop_bit 2 (portd s) OR push_bit 6 (portb s)"

definition driven :: "lcdio \<Rightarrow> bool" where
  "driven s \<longleftrightarrow> ddrd s AND 0xFC = 0xFC \<and> ddrb s AND 3 = 3"

text \<open>
  A write to port C. The controller takes the byte on the data lines when chip enable rises while the write line is
  low, as a command or as data after the control line, unless it is held in reset.
\<close>

definition portc_write :: "u8 \<Rightarrow> lcdio \<Rightarrow> lcdio" where
  "portc_write v s =
     (if \<not> bit (portc s) LCD_RST \<and> bit v LCD_RST then s\<lparr>portc := v, bus := bus s @ [Reset]\<rparr>
      else if \<not> bit (portc s) LCD_CE \<and> bit v LCD_CE \<and> \<not> bit v LCD_WR \<and> bit v LCD_RST then
        s\<lparr>portc := v, bus := bus s @ [if \<not> driven s then Floating else if bit v LCD_CD then Cmd (lines s) else Data (lines s)]\<rparr>
      else s\<lparr>portc := v\<rparr>)"

definition setc :: "nat \<Rightarrow> lcdio \<Rightarrow> lcdio" where
  "setc n s = portc_write (SB n (portc s)) s"

definition clrc :: "nat \<Rightarrow> lcdio \<Rightarrow> lcdio" where
  "clrc n s = portc_write (CB n (portc s)) s"

definition SET_DATA_DIR_OUT :: "lcdio \<Rightarrow> lcdio" where
  "SET_DATA_DIR_OUT s = s\<lparr>ddrb := ddrb s OR 0x03, ddrd := ddrd s OR 0xFC\<rparr>"

definition SET_DATA_DIR_IN :: "lcdio \<Rightarrow> lcdio" where
  "SET_DATA_DIR_IN s = s\<lparr>ddrb := ddrb s AND 0xFC, ddrd := ddrd s AND 0x03\<rparr>"

definition GDispCmdWr :: "lcdio \<Rightarrow> lcdio" where
  "GDispCmdWr s = clrc LCD_WR (setc LCD_CD (setc LCD_RD (SET_DATA_DIR_OUT s)))"

definition GDispCmdRd :: "lcdio \<Rightarrow> lcdio" where
  "GDispCmdRd s = setc LCD_WR (setc LCD_CD (clrc LCD_RD (SET_DATA_DIR_IN s)))"

definition GDispDatWr :: "lcdio \<Rightarrow> lcdio" where
  "GDispDatWr s = clrc LCD_WR (clrc LCD_CD (setc LCD_RD (SET_DATA_DIR_OUT s)))"

definition Data_Out :: "u8 \<Rightarrow> lcdio \<Rightarrow> lcdio" where
  "Data_Out d s = s\<lparr>portd := 0xFC AND push_bit 2 d, portb := 0x03 AND drop_bit 6 d\<rparr>"

text \<open>\<open>Data_In\<close> reads the output registers, not the pins.\<close>

definition Data_In :: "lcdio \<Rightarrow> u8 \<times> lcdio" where
  "Data_In s =
     (let s = s\<lparr>ddrb := ddrb s AND 0xFC, ddrd := ddrd s AND 0x03\<rparr>;
          ret = push_bit 2 (portd s AND 0xFC);
          ret2 = drop_bit 6 (portb s AND 0xC0)
      in (ret OR ret2, s\<lparr>ddrb := ddrb s OR 0x03, ddrd := ddrd s OR 0xFC\<rparr>))"

text \<open>
  The three checks. Their loops \<open>while(!_BV(DATA0));\<close> test the constant 4, 8, 32 or 1 and not a pin, so
  they end at once.
\<close>

definition GDispBusyChk :: "lcdio \<Rightarrow> lcdio" where
  "GDispBusyChk s = setc LCD_CE (clrc LCD_CE (GDispCmdRd s))"

definition GDispAutoWrChk :: "lcdio \<Rightarrow> lcdio" where
  "GDispAutoWrChk s = setc LCD_CE (clrc LCD_CE (GDispCmdRd s))"

definition GDispPeekChk :: "lcdio \<Rightarrow> lcdio" where
  "GDispPeekChk s = setc LCD_CE (clrc LCD_CE (GDispCmdRd s))"

definition GDispDataWr :: "u8 \<Rightarrow> lcdio \<Rightarrow> lcdio" where
  "GDispDataWr d s = setc LCD_CE (clrc LCD_CE (GDispDatWr (Data_Out d (GDispBusyChk s))))"

definition GDispAutoDataWr :: "u8 \<Rightarrow> lcdio \<Rightarrow> lcdio" where
  "GDispAutoDataWr d s = setc LCD_CE (clrc LCD_CE (GDispDatWr (Data_Out d (GDispAutoWrChk s))))"

definition GDispCmdSend :: "u8 \<Rightarrow> lcdio \<Rightarrow> lcdio" where
  "GDispCmdSend c s = setc LCD_CE (clrc LCD_CE (GDispCmdWr (Data_Out c (GDispBusyChk s))))"

definition GDispInitPort :: "lcdio \<Rightarrow> lcdio" where
  "GDispInitPort s =
     (let s = s\<lparr>ddrc := ddrc s OR 0x0F\<rparr>;
          s = s\<lparr>ddrc := ddrc s OR 0x30\<rparr>;
          s = s\<lparr>ddrb := ddrb s OR 0x03\<rparr>;
          s = s\<lparr>ddrb := ddrb s AND 0xFB\<rparr>;
          s = s\<lparr>ddrd := ddrd s OR 0xFC\<rparr>;
          s = setc LCD_WR (setc LCD_RD (setc LCD_CE (setc LCD_CD (clrc LCD_RST s))));
          s = s\<lparr>portd := CB 7 (CB 6 (CB 5 (CB 4 (CB 3 (CB 2 (portd s))))))\<rparr>;
          s = s\<lparr>portb := CB 1 (CB 0 (portb s))\<rparr>
      in setc LCD_RST s)"

definition FONT_8X8 :: "lcdio \<Rightarrow> lcdio" where
  "FONT_8X8 s = setc FONT_SELECT s"

definition FONT_6X8 :: "lcdio \<Rightarrow> lcdio" where
  "FONT_6X8 s = clrc FONT_SELECT s"

section \<open>Commands of the controller\<close>

abbreviation (input) CURSOR_PTR_SET :: u8 where "CURSOR_PTR_SET \<equiv> 0x21"
abbreviation (input) OFFSET_REG_SET :: u8 where "OFFSET_REG_SET \<equiv> 0x22"
abbreviation (input) ADDR_PTR_SET :: u8 where "ADDR_PTR_SET \<equiv> 0x24"
abbreviation (input) TEXT_HOME_SET :: u8 where "TEXT_HOME_SET \<equiv> 0x40"
abbreviation (input) TEXT_AREA_SET :: u8 where "TEXT_AREA_SET \<equiv> 0x41"
abbreviation (input) GRAPH_HOME_SET :: u8 where "GRAPH_HOME_SET \<equiv> 0x42"
abbreviation (input) SCREEN_PEEK :: u8 where "SCREEN_PEEK \<equiv> 0xE0"
abbreviation (input) AUTO_WR_ON :: u8 where "AUTO_WR_ON \<equiv> 0xB0"
abbreviation (input) AUTO_WR_OFF :: u8 where "AUTO_WR_OFF \<equiv> 0xB2"
abbreviation (input) DATA_WR_INC :: u8 where "DATA_WR_INC \<equiv> 0xC0"
abbreviation (input) DATA_WR :: u8 where "DATA_WR \<equiv> 0xC4"
abbreviation (input) DATA_RD :: u8 where "DATA_RD \<equiv> 0xC5"

definition GDispCmdAddrSend :: "u16 \<Rightarrow> u8 \<Rightarrow> lcdio \<Rightarrow> lcdio" where
  "GDispCmdAddrSend Addr cmd s =
     GDispCmdSend cmd (GDispDataWr (ucast (drop_bit 8 Addr)) (GDispDataWr (ucast (Addr AND 0x00FF)) s))"

definition GDispInit :: "lcdio \<Rightarrow> lcdio" where
  "GDispInit s = GDispCmdAddrSend 0x0002 OFFSET_REG_SET (GDispCmdAddrSend 40 TEXT_AREA_SET
     (GDispCmdAddrSend 0x0200 GRAPH_HOME_SET (GDispCmdAddrSend 0 TEXT_HOME_SET (GDispInitPort s))))"

definition GDispReset :: "lcdio \<Rightarrow> lcdio" where
  "GDispReset s = GDispCmdAddrSend 0x0002 OFFSET_REG_SET (GDispCmdAddrSend 40 TEXT_AREA_SET
     (GDispCmdAddrSend 0x0200 GRAPH_HOME_SET (GDispCmdAddrSend 0 TEXT_HOME_SET (GDispInitPort s))))"

definition GDispSetMode :: "u8 \<Rightarrow> lcdio \<Rightarrow> lcdio" where
  "GDispSetMode mode s = GDispCmdSend mode s"

text \<open>\<open>addr = row * COLUMN + col + TEXT_HOME_ADDR\<close>, a 16-bit number on this processor\<close>

definition cell_addr :: "u16 \<Rightarrow> u16 \<Rightarrow> u16" where
  "cell_addr row col = row * 40 + col + 0"

definition GDispGoto :: "u16 \<Rightarrow> u16 \<Rightarrow> lcdio \<Rightarrow> lcdio" where
  "GDispGoto row col s = GDispCmdAddrSend (cell_addr row col) ADDR_PTR_SET s"

definition GDispChar :: "u8 \<Rightarrow> lcdio \<Rightarrow> lcdio" where
  "GDispChar c s = GDispCmdSend DATA_WR_INC (GDispDataWr (c - 0x20) s)"

definition GDispCharAt :: "u16 \<Rightarrow> u16 \<Rightarrow> u8 \<Rightarrow> lcdio \<Rightarrow> lcdio" where
  "GDispCharAt row col c s = GDispCmdSend DATA_WR (GDispDataWr (c - 0x20) (GDispGoto row col s))"

text \<open>
  The loop of \<open>GDispStringAt\<close> from the \<open>i\<close>th character on; the list is the rest of the array the string is in,
  and reading past it is undefined.
\<close>

fun string_from :: "u16 \<Rightarrow> u16 \<Rightarrow> int \<Rightarrow> u8 list \<Rightarrow> lcdio \<Rightarrow> (int \<times> lcdio) option" where
  "string_from row col i [] s = None"
| "string_from row col i (c # cs) s =
     (if c = 0 then Some (i, s)
      else let s = GDispCharAt row (col + word_of_int i) c s; i = i + 1
           in if i > 100 then Some (-1, s) else string_from row col i cs s)"

definition GDispStringAt :: "u16 \<Rightarrow> u16 \<Rightarrow> u8 list \<Rightarrow> lcdio \<Rightarrow> (int \<times> lcdio) option" where
  "GDispStringAt row col c s = string_from row col 0 c s"

fun repeat :: "nat \<Rightarrow> ('a \<Rightarrow> 'a) \<Rightarrow> 'a \<Rightarrow> 'a" where
  "repeat 0 f s = s"
| "repeat (Suc n) f s = repeat n f (f s)"

definition GDispClrTxt :: "lcdio \<Rightarrow> lcdio" where
  "GDispClrTxt s =
     (let s = GDispCmdSend AUTO_WR_ON (GDispCmdAddrSend 0 ADDR_PTR_SET s);
          s = repeat (128 div 8) (repeat 40 (GDispAutoDataWr 0x00)) s
      in GDispCmdSend AUTO_WR_OFF s)"

definition GDispClrSection :: "lcdio \<Rightarrow> lcdio" where
  "GDispClrSection s =
     fold (\<lambda>row. fold (\<lambda>col. GDispCharAt (word_of_nat row) (word_of_nat col) 0x20) [0..<39]) [0..<9] s"

definition GDispSetCursor :: "u8 \<Rightarrow> u16 \<Rightarrow> u16 \<Rightarrow> u8 \<Rightarrow> lcdio \<Rightarrow> lcdio" where
  "GDispSetCursor mode row col typ s =
     GDispCmdSend typ (GDispCmdSend mode (GDispCmdSend CURSOR_PTR_SET
       (GDispCmdAddrSend (push_bit 8 row OR (col AND 0x00FF)) ADDR_PTR_SET s)))"

definition GDispScreenPeek :: "u16 \<Rightarrow> u16 \<Rightarrow> lcdio \<Rightarrow> u8 \<times> lcdio" where
  "GDispScreenPeek row col s =
     (let s = GDispCmdSend SCREEN_PEEK (GDispCmdAddrSend (cell_addr row col) ADDR_PTR_SET s);
          s = GDispCmdSend DATA_RD (GDispPeekChk s)
      in Data_In s)"

section \<open>The bytes of an operation\<close>

text \<open>Between two operations the controller is out of reset and not selected.\<close>

definition ready :: "lcdio \<Rightarrow> bool" where
  "ready s \<longleftrightarrow> bit (portc s) LCD_CE \<and> bit (portc s) LCD_RST"

lemma bit_SB [simp]: "n < 8 \<Longrightarrow> bit (SB n v) m \<longleftrightarrow> m = n \<or> bit v m"
  by (auto simp: SB_def bit_simps)

lemma bit_CB [simp]: "n < 8 \<Longrightarrow> bit (CB n v) m \<longleftrightarrow> m \<noteq> n \<and> bit v m"
  by (auto simp: CB_def bit_simps dest: bit_imp_le_length)

lemma masks: "(0xFC :: u8) = NOT (mask 2)" "(3 :: u8) = mask 2"
  by (simp_all add: mask_eq_exp_minus_1)

lemma lines_Data_Out [simp]: "lines (Data_Out d s) = d"
  unfolding lines_def Data_Out_def masks by (rule bit_word_eqI) (auto simp: bit_simps dest: bit_imp_le_length)

lemma driven_out [simp]: "driven (SET_DATA_DIR_OUT s)"
  unfolding driven_def SET_DATA_DIR_OUT_def by (auto intro!: bit_word_eqI simp: bit_simps)

lemma setc_fields [simp]: "portc (setc n s) = SB n (portc s)" "lines (setc n s) = lines s" "driven (setc n s) = driven s"
  "ddrd (setc n s) = ddrd s" "ddrb (setc n s) = ddrb s"
  by (simp_all add: setc_def portc_write_def lines_def driven_def)

lemma clrc_fields [simp]: "portc (clrc n s) = CB n (portc s)" "lines (clrc n s) = lines s" "driven (clrc n s) = driven s"
  "ddrd (clrc n s) = ddrd s" "ddrb (clrc n s) = ddrb s"
  by (simp_all add: clrc_def portc_write_def lines_def driven_def)

lemma dir_fields [simp]: "portc (SET_DATA_DIR_OUT s) = portc s" "lines (SET_DATA_DIR_OUT s) = lines s" "bus (SET_DATA_DIR_OUT s) = bus s"
  "portc (SET_DATA_DIR_IN s) = portc s" "bus (SET_DATA_DIR_IN s) = bus s"
  "portc (Data_Out d s) = portc s" "bus (Data_Out d s) = bus s"
  by (simp_all add: SET_DATA_DIR_OUT_def SET_DATA_DIR_IN_def Data_Out_def lines_def)

text \<open>Only chip enable, and reset, make a cycle.\<close>

lemma bus_setc: "n < 8 \<Longrightarrow> n \<noteq> LCD_CE \<Longrightarrow> n \<noteq> LCD_RST \<Longrightarrow> bus (setc n s) = bus s"
  by (auto simp: setc_def portc_write_def)

lemma bus_clrc: "n < 8 \<Longrightarrow> bus (clrc n s) = bus s"
  by (auto simp: clrc_def portc_write_def)

lemma bus_strobe [unfolded One_nat_def]:
  "bit (portc s) LCD_RST \<Longrightarrow> bus (setc LCD_CE (clrc LCD_CE s)) =
     bus s @ (if bit (portc s) LCD_WR then [] else [if \<not> driven s then Floating
       else if bit (portc s) LCD_CD then Cmd (lines s) else Data (lines s)])"
  by (auto simp: setc_def clrc_def portc_write_def lines_def driven_def)

lemma chk_bus [simp]: "ready s \<Longrightarrow> bus (GDispBusyChk s) = bus s" "ready s \<Longrightarrow> ready (GDispBusyChk s)"
  by (simp_all add: GDispBusyChk_def GDispCmdRd_def ready_def bus_strobe bus_setc bus_clrc)

lemma auto_chk: "GDispAutoWrChk s = GDispBusyChk s" "GDispPeekChk s = GDispBusyChk s"
  by (simp_all add: GDispAutoWrChk_def GDispPeekChk_def GDispBusyChk_def)

lemma data_wr [simp]: "ready s \<Longrightarrow> bus (GDispDataWr d s) = bus s @ [Data d]" "ready s \<Longrightarrow> ready (GDispDataWr d s)"
proof -
  assume r: "ready s"
  have r1: "ready (Data_Out d (GDispBusyChk s))" using r chk_bus(2) [OF r] by (simp add: ready_def)
  then show "bus (GDispDataWr d s) = bus s @ [Data d]" using r
    by (simp add: GDispDataWr_def GDispDatWr_def bus_strobe bus_setc bus_clrc ready_def [of "Data_Out _ _"])
  show "ready (GDispDataWr d s)" using r1 by (simp add: GDispDataWr_def GDispDatWr_def ready_def)
qed

lemma auto_wr: "GDispAutoDataWr d s = GDispDataWr d s"
  by (simp add: GDispAutoDataWr_def GDispDataWr_def auto_chk)

lemma cmd_send [simp]: "ready s \<Longrightarrow> bus (GDispCmdSend c s) = bus s @ [Cmd c]" "ready s \<Longrightarrow> ready (GDispCmdSend c s)"
proof -
  assume r: "ready s"
  have r1: "ready (Data_Out c (GDispBusyChk s))" using r chk_bus(2) [OF r] by (simp add: ready_def)
  then show "bus (GDispCmdSend c s) = bus s @ [Cmd c]" using r
    by (simp add: GDispCmdSend_def GDispCmdWr_def bus_strobe bus_setc bus_clrc ready_def [of "Data_Out _ _"])
  show "ready (GDispCmdSend c s)" using r1 by (simp add: GDispCmdSend_def GDispCmdWr_def ready_def)
qed

text \<open>\<open>sends bs f\<close>: on a controller that is ready, \<open>f\<close> makes exactly the cycles \<open>bs\<close>.\<close>

definition sends :: "bus_cycle list \<Rightarrow> (lcdio \<Rightarrow> lcdio) \<Rightarrow> bool" where
  "sends bs f \<longleftrightarrow> (\<forall>s. ready s \<longrightarrow> ready (f s) \<and> bus (f s) = bus s @ bs)"

lemma sendsD: "sends bs f \<Longrightarrow> ready s \<Longrightarrow> ready (f s) \<and> bus (f s) = bus s @ bs"
  by (simp add: sends_def)

named_theorems sent \<open>what the operations of the driver send\<close>

lemma sends_comp: "sends as f \<Longrightarrow> sends bs g \<Longrightarrow> sends (as @ bs) (\<lambda>s. g (f s))"
  by (simp add: sends_def)

lemma sends_data [sent]: "sends [Data d] (GDispDataWr d)"
  by (simp add: sends_def)

lemma sends_cmd [sent]: "sends [Cmd c] (GDispCmdSend c)"
  by (simp add: sends_def)

lemma sends_id: "sends [] (\<lambda>s. s)"
  by (simp add: sends_def)

definition addr_bytes :: "u16 \<Rightarrow> u8 \<Rightarrow> bus_cycle list" where
  "addr_bytes a cmd = [Data (ucast a), Data (ucast (drop_bit 8 a)), Cmd cmd]"

lemma low_byte: "ucast (a AND 0x00FF) = (ucast a :: u8)" for a :: u16
proof -
  have m: "(0x00FF :: u16) = mask 8" by (simp add: mask_eq_exp_minus_1)
  show ?thesis unfolding m by (intro bit_word_eqI) (auto simp: bit_simps)
qed

lemma sends_addr [sent]: "sends (addr_bytes a cmd) (GDispCmdAddrSend a cmd)"
  using sends_comp [OF sends_comp [OF sends_data sends_data] sends_cmd]
  by (simp add: GDispCmdAddrSend_def [abs_def] addr_bytes_def low_byte)

definition goto_bytes :: "u16 \<Rightarrow> u16 \<Rightarrow> bus_cycle list" where
  "goto_bytes row col = addr_bytes (cell_addr row col) ADDR_PTR_SET"

lemma sends_goto [sent]: "sends (goto_bytes row col) (GDispGoto row col)"
  using sends_addr by (simp add: GDispGoto_def [abs_def] goto_bytes_def)

definition char_bytes :: "u8 \<Rightarrow> bus_cycle list" where
  "char_bytes c = [Data (c - 0x20), Cmd DATA_WR_INC]"

lemma sends_char [sent]: "sends (char_bytes c) (GDispChar c)"
  using sends_comp [OF sends_data sends_cmd] by (simp add: GDispChar_def [abs_def] char_bytes_def)

definition char_at_bytes :: "u16 \<Rightarrow> u16 \<Rightarrow> u8 \<Rightarrow> bus_cycle list" where
  "char_at_bytes row col c = goto_bytes row col @ [Data (c - 0x20), Cmd DATA_WR]"

lemma sends_char_at [sent]: "sends (char_at_bytes row col c) (GDispCharAt row col c)"
  using sends_comp [OF sends_comp [OF sends_goto sends_data] sends_cmd]
  by (simp add: GDispCharAt_def [abs_def] char_at_bytes_def)

fun string_bytes :: "u16 \<Rightarrow> u16 \<Rightarrow> int \<Rightarrow> u8 list \<Rightarrow> bus_cycle list" where
  "string_bytes row col i [] = []"
| "string_bytes row col i (c # cs) = char_at_bytes row (col + word_of_int i) c @ string_bytes row col (i + 1) cs"

text \<open>A string of at most 100 characters is sent whole.\<close>

lemma sends_string_from:
  assumes "0 \<notin> set xs" "i + int (length xs) \<le> 100" "ready s"
  shows "\<exists>s'. string_from row col i (xs @ 0 # rest) s = Some (i + int (length xs), s') \<and> ready s' \<and>
    bus s' = bus s @ string_bytes row col i xs"
  using assms
proof (induction xs arbitrary: i s)
  case (Cons c cs)
  let ?s = "GDispCharAt row (col + word_of_int i) c s"
  have s: "ready ?s" "bus ?s = bus s @ char_at_bytes row (col + word_of_int i) c"
    using sendsD [OF sends_char_at Cons.prems(3)] by blast+
  have le: "i + 1 + int (length cs) \<le> 100" "\<not> i + 1 > 100" using Cons.prems(2) by simp_all
  obtain s' where s': "string_from row col (i + 1) (cs @ 0 # rest) ?s = Some (i + 1 + int (length cs), s')" "ready s'"
    "bus s' = bus ?s @ string_bytes row col (i + 1) cs"
    using Cons.IH [OF _ le(1) s(1)] Cons.prems(1) by auto
  then show ?case using Cons.prems(1) le by (simp add: s(2) Let_def)
qed simp

lemma sends_string:
  assumes "0 \<notin> set xs" "length xs \<le> 100" "ready s"
  obtains s' where "GDispStringAt row col (xs @ 0 # rest) s = Some (int (length xs), s')" "ready s'"
    "bus s' = bus s @ string_bytes row col 0 xs"
  using sends_string_from [of xs 0 s row col rest] assms by (auto simp: GDispStringAt_def)

lemma sends_repeat:
  assumes "sends bs f"
  shows "sends (concat (replicate n bs)) (repeat n f)"
proof (induction n)
  case (Suc n)
  show ?case using sends_comp [OF assms Suc.IH] by simp
qed (simp add: sends_def)

definition clear_bytes :: "bus_cycle list" where
  "clear_bytes = addr_bytes 0 ADDR_PTR_SET @ [Cmd AUTO_WR_ON] @ replicate 640 (Data 0) @ [Cmd AUTO_WR_OFF]"

lemma concat_replicate_single: "concat (replicate n [x]) = replicate n x"
  by (induction n) simp_all

lemma concat_replicate_replicate: "concat (replicate m (replicate n x)) = replicate (m * n) x"
  by (induction m) (simp_all add: replicate_add)

lemma sends_clear [sent]: "sends clear_bytes GDispClrTxt"
proof -
  have z: "sends (replicate 640 (Data 0)) (repeat (128 div 8) (repeat 40 (GDispAutoDataWr 0)))"
    using sends_repeat [OF sends_repeat [OF sends_data [of 0], of 40], of 16]
    unfolding auto_wr [abs_def] concat_replicate_single concat_replicate_replicate by simp
  show ?thesis using sends_comp [OF sends_comp [OF sends_comp [OF sends_addr [of 0 ADDR_PTR_SET] sends_cmd [of AUTO_WR_ON]] z] sends_cmd [of AUTO_WR_OFF]]
    by (simp add: GDispClrTxt_def [abs_def] Let_def clear_bytes_def)
qed

definition cursor_bytes :: "u8 \<Rightarrow> u16 \<Rightarrow> u16 \<Rightarrow> u8 \<Rightarrow> bus_cycle list" where
  "cursor_bytes mode row col typ = addr_bytes (push_bit 8 row OR (col AND 0x00FF)) ADDR_PTR_SET @
     [Cmd CURSOR_PTR_SET, Cmd mode, Cmd typ]"

lemma sends_cursor [sent]: "sends (cursor_bytes mode row col typ) (GDispSetCursor mode row col typ)"
  using sends_comp [OF sends_comp [OF sends_comp [OF sends_addr sends_cmd] sends_cmd] sends_cmd]
  by (simp add: GDispSetCursor_def [abs_def] cursor_bytes_def)

definition init_bytes :: "bus_cycle list" where
  "init_bytes = addr_bytes 0 TEXT_HOME_SET @ addr_bytes 0x0200 GRAPH_HOME_SET @ addr_bytes 40 TEXT_AREA_SET @
     addr_bytes 2 OFFSET_REG_SET"

text \<open>The ports can be in any state before the initialisation.\<close>

lemma init_port: "ready (GDispInitPort s)" "bus (GDispInitPort s) = bus s @ [Reset]"
  by (simp_all add: GDispInitPort_def Let_def ready_def setc_def clrc_def portc_write_def)

lemma init_sent: "ready (GDispInit s)" "bus (GDispInit s) = bus s @ Reset # init_bytes"
  "GDispReset s = GDispInit s"
  using sendsD [OF sends_comp [OF sends_comp [OF sends_comp [OF sends_addr [of 0 TEXT_HOME_SET] sends_addr [of "0x0200" GRAPH_HOME_SET]]
    sends_addr [of 40 TEXT_AREA_SET]] sends_addr [of 2 OFFSET_REG_SET]] init_port(1) [of s]]
  by (simp_all add: GDispInit_def GDispReset_def init_bytes_def init_port(2))

lemma font_sent [sent]: "sends [] FONT_8X8" "sends [] FONT_6X8"
  by (simp_all add: sends_def FONT_8X8_def FONT_6X8_def ready_def bus_setc bus_clrc)

text \<open>\<open>Data_In\<close> after \<open>Data_Out\<close> has lost the upper half of the byte, and shifted the lower half.\<close>

lemma Data_In_Data_Out: "fst (Data_In (Data_Out d s)) = push_bit 4 d"
  unfolding Data_In_def Data_Out_def Let_def masks
  by (rule bit_word_eqI) (auto simp: bit_simps dest: bit_imp_le_length)

section \<open>What the controller makes of the bytes\<close>

text \<open>
  The controller as the comments of \<open>t6963.c\<close> describe its commands: the address pointer is set to the last two data
  bytes, the low one first; a character is written at the pointer, which moves on or stays; in automatic
  mode every data byte is a character. Commands for the cursor and the layout do not touch the characters. It is a
  specification the driver is measured against, not code of the repository.
\<close>

record t6963 =
  t_prev :: u8
  t_last :: u8
  t_ptr :: u16
  t_auto :: bool
  t_ram :: "u16 \<Rightarrow> u8"

definition t6963_cmd :: "u8 \<Rightarrow> t6963 \<Rightarrow> t6963" where
  "t6963_cmd c t =
     (if c = ADDR_PTR_SET then t\<lparr>t_ptr := mk16s (t_last t) (t_prev t)\<rparr>
      else if c = DATA_WR_INC then t\<lparr>t_ram := (t_ram t)(t_ptr t := t_last t), t_ptr := t_ptr t + 1\<rparr>
      else if c = DATA_WR then t\<lparr>t_ram := (t_ram t)(t_ptr t := t_last t)\<rparr>
      else if c = AUTO_WR_ON then t\<lparr>t_auto := True\<rparr>
      else if c = AUTO_WR_OFF then t\<lparr>t_auto := False\<rparr>
      else t)"

fun t6963_step :: "bus_cycle \<Rightarrow> t6963 \<Rightarrow> t6963" where
  "t6963_step (Data d) t = (if t_auto t then t\<lparr>t_ram := (t_ram t)(t_ptr t := d), t_ptr := t_ptr t + 1\<rparr>
     else t\<lparr>t_prev := t_last t, t_last := d\<rparr>)"
| "t6963_step (Cmd c) t = t6963_cmd c t"
| "t6963_step Reset t = t\<lparr>t_auto := False\<rparr>"
| "t6963_step Floating t = t"

definition screen :: "t6963 \<Rightarrow> lcdio \<Rightarrow> t6963" where
  "screen t s = fold t6963_step (bus s) t"

text \<open>Characters written one after another from an address on.\<close>

fun draw :: "u16 \<Rightarrow> u8 list \<Rightarrow> (u16 \<Rightarrow> u8) \<Rightarrow> u16 \<Rightarrow> u8" where
  "draw a [] m = m"
| "draw a (c # cs) m = draw (a + 1) cs (m(a := c - 0x20))"

lemma unat_pred: "b \<noteq> (a :: u16) \<Longrightarrow> unat (b - a) = Suc (unat (b - (a + 1)))"
proof -
  assume "b \<noteq> a"
  then have "b - a \<noteq> 0" by simp
  then show ?thesis using unat_minus_one [of "b - a"] unat_gt_0 [of "b - a"] by (simp add: diff_diff_eq)
qed

lemma draw_at:
  "length cs \<le> 65536 \<Longrightarrow> draw a cs m b = (if unat (b - a) < length cs then cs ! unat (b - a) - 0x20 else m b)"
proof (induction cs arbitrary: a m b)
  case (Cons c cs)
  have le: "length cs \<le> 65536" "length cs \<le> 65535" using Cons.prems by simp_all
  show ?case
  proof (cases "b = a")
    case True
    have "unat (a - (a + 1)) = 65535" by (simp add: unsigned_minus_1_eq_mask mask_eq_exp_minus_1)
    then show ?thesis using le(2) by (simp add: Cons.IH [OF le(1)] True)
  next
    case False
    then show ?thesis using unat_pred [OF False] by (simp add: Cons.IH [OF le(1)])
  qed
qed simp

definition run_bytes :: "bus_cycle list \<Rightarrow> t6963 \<Rightarrow> t6963" where
  "run_bytes bs t = fold t6963_step bs t"

lemma run_append [simp]: "run_bytes (as @ bs) t = run_bytes bs (run_bytes as t)"
  by (simp add: run_bytes_def)

lemma run_Nil [simp]: "run_bytes [] t = t"
  by (simp add: run_bytes_def)

lemma screen_sent: "bus s' = bus s @ bs \<Longrightarrow> screen t s' = run_bytes bs (screen t s)"
  by (simp add: screen_def run_bytes_def)

lemma split_addr: "mk16s (ucast (drop_bit 8 a)) (ucast a) = a"
  unfolding mk16s_def by (rule bit_word_eqI) (auto simp: bit_simps)

lemma run_goto:
  assumes "\<not> t_auto t"
  shows "t_ram (run_bytes (goto_bytes row col) t) = t_ram t" "t_ptr (run_bytes (goto_bytes row col) t) = cell_addr row col"
    "\<not> t_auto (run_bytes (goto_bytes row col) t)"
  using assms by (simp_all add: run_bytes_def goto_bytes_def addr_bytes_def t6963_cmd_def split_addr)

lemma run_char:
  assumes "\<not> t_auto t"
  shows "t_ram (run_bytes (char_bytes c) t) = (t_ram t)(t_ptr t := c - 0x20)" "t_ptr (run_bytes (char_bytes c) t) = t_ptr t + 1"
    "\<not> t_auto (run_bytes (char_bytes c) t)"
  using assms by (simp_all add: run_bytes_def char_bytes_def t6963_cmd_def)

lemma run_char_at:
  assumes "\<not> t_auto t"
  shows "t_ram (run_bytes (char_at_bytes row col c) t) = (t_ram t)(cell_addr row col := c - 0x20)"
    "\<not> t_auto (run_bytes (char_at_bytes row col c) t)"
  using assms by (simp_all add: run_bytes_def char_at_bytes_def goto_bytes_def addr_bytes_def t6963_cmd_def split_addr)

lemma run_chars:
  assumes "\<not> t_auto t"
  shows "t_ram (run_bytes (concat (map char_bytes cs)) t) = draw (t_ptr t) cs (t_ram t) \<and>
    \<not> t_auto (run_bytes (concat (map char_bytes cs)) t)"
  using assms
proof (induction cs arbitrary: t)
  case (Cons c cs)
  then show ?case using Cons.IH [OF run_char(3) [OF Cons.prems]] by (simp add: run_char [OF Cons.prems] fun_upd_def)
qed simp

lemma next_cell: "cell_addr row (col + word_of_int i) + 1 = cell_addr row (col + word_of_int (i + 1))"
  by (simp add: cell_addr_def)

lemma run_string:
  assumes "\<not> t_auto t"
  shows "t_ram (run_bytes (string_bytes row col i cs) t) = draw (cell_addr row (col + word_of_int i)) cs (t_ram t) \<and>
    \<not> t_auto (run_bytes (string_bytes row col i cs) t)"
  using assms
proof (induction cs arbitrary: t i)
  case (Cons c cs)
  then show ?case using Cons.IH [OF run_char_at(2) [OF Cons.prems]]
    by (simp add: run_char_at [OF Cons.prems] next_cell fun_upd_def)
qed simp

lemma run_zeros:
  "t_auto t \<Longrightarrow> t_ram (run_bytes (replicate n (Data 0)) t) = draw (t_ptr t) (replicate n 0x20) (t_ram t) \<and>
     t_auto (run_bytes (replicate n (Data 0)) t)"
proof (induction n arbitrary: t)
  case (Suc n)
  have "run_bytes (replicate (Suc n) (Data 0)) t =
      run_bytes (replicate n (Data 0)) (t\<lparr>t_ram := (t_ram t)(t_ptr t := 0), t_ptr := t_ptr t + 1\<rparr>)"
    using Suc.prems by (simp add: run_bytes_def)
  then show ?case using Suc.IH [of "t\<lparr>t_ram := (t_ram t)(t_ptr t := 0), t_ptr := t_ptr t + 1\<rparr>"] Suc.prems
    by (simp add: fun_upd_def)
qed (simp add: run_bytes_def)

lemma run_clear:
  assumes "\<not> t_auto t"
  shows "t_ram (run_bytes clear_bytes t) = draw 0 (replicate 640 0x20) (t_ram t)" "\<not> t_auto (run_bytes clear_bytes t)"
proof -
  define t1 where "t1 = run_bytes (addr_bytes 0 ADDR_PTR_SET @ [Cmd AUTO_WR_ON]) t"
  have t1: "t_ram t1 = t_ram t" "t_ptr t1 = 0" "t_auto t1"
    using assms by (simp_all add: t1_def run_bytes_def addr_bytes_def t6963_cmd_def mk16s_def)
  have b: "run_bytes clear_bytes t = run_bytes [Cmd AUTO_WR_OFF] (run_bytes (replicate 640 (Data 0)) t1)"
    unfolding t1_def clear_bytes_def run_append [symmetric] by simp
  show "t_ram (run_bytes clear_bytes t) = draw 0 (replicate 640 0x20) (t_ram t)" "\<not> t_auto (run_bytes clear_bytes t)"
    unfolding b using run_zeros [OF t1(3), of 640] by (simp_all add: run_bytes_def t6963_cmd_def t1)
qed

text \<open>
  C15: Text on the screen. On a ready driver whose controller takes single characters, \<open>GDispStringAt\<close> shows a string
  of at most 100 characters from the given cell on, one character after another, changes no other cell, and
  returns its length.
\<close>

theorem text_on_screen:
  assumes "ready s" "\<not> t_auto (screen t s)" "0 \<notin> set xs" "length xs \<le> 100"
  shows "\<exists>s'. GDispStringAt row col (xs @ 0 # rest) s = Some (int (length xs), s') \<and> ready s' \<and> \<not> t_auto (screen t s') \<and>
    (\<forall>b. t_ram (screen t s') b = (if unat (b - cell_addr row col) < length xs
       then xs ! unat (b - cell_addr row col) - 0x20 else t_ram (screen t s) b))"
proof -
  obtain s' where s': "GDispStringAt row col (xs @ 0 # rest) s = Some (int (length xs), s')" "ready s'"
    "bus s' = bus s @ string_bytes row col 0 xs"
    using sends_string [OF assms(3,4,1)] .
  then show ?thesis using run_string [OF assms(2), of row col 0 xs] assms(4)
    by (intro exI [of _ s']) (simp add: screen_sent [OF s'(3)] draw_at)
qed

definition io0 :: lcdio where
  "io0 = GDispInit \<lparr>portb = 0, portc = 0, portd = 0, ddrb = 0, ddrc = 0, ddrd = 0, bus = []\<rparr>"

definition t0 :: t6963 where
  "t0 = \<lparr>t_prev = 0, t_last = 0, t_ptr = 0, t_auto = False, t_ram = (\<lambda>_. 0)\<rparr>"

lemma run_init: "\<not> t_auto (run_bytes (Reset # init_bytes) t)"
  by (simp add: run_bytes_def init_bytes_def addr_bytes_def t6963_cmd_def)

lemma io0_ready: "ready io0" "\<not> t_auto (screen t0 io0)"
  using run_init [of t0] by (simp_all add: io0_def init_sent screen_def run_bytes_def)

text \<open>\<open>GDispStringAt(7,7,"LCD is on!")\<close>\<close>

lemma text_on_screen_witness:
  "\<exists>s'. GDispStringAt 7 7 (bytes_of ''LCD is on!'' @ [0]) io0 = Some (10, s') \<and>
     t_ram (screen t0 s') 287 = 0x2C \<and> t_ram (screen t0 s') 296 = 1"
proof -
  have "0 \<notin> set (bytes_of ''LCD is on!'')" "length (bytes_of ''LCD is on!'') \<le> 100" by (simp_all add: bytes_of_def)
  from text_on_screen [OF io0_ready this, of 7 7 "[]"] obtain s' where
    s': "GDispStringAt 7 7 (bytes_of ''LCD is on!'' @ [0]) io0 = Some (10, s')" and
    c: "\<And>b. t_ram (screen t0 s') b = (if unat (b - cell_addr 7 7) < 10
       then bytes_of ''LCD is on!'' ! unat (b - cell_addr 7 7) - 0x20 else t_ram (screen t0 io0) b)" by auto
  show ?thesis using s' by (intro exI [of _ s']) (simp add: c cell_addr_def bytes_of_def)
qed

end
