(* ===== verification/AvrLcd.thy ===== *)
theory AvrLcd
  imports T6963 HostTime SerialRecv
begin

text \<open>
  The AVR that drives the text display (\<open>AVR_t6963/main.c\<close>) and the program that burns the labels into
  its EEPROM (\<open>eeprom/main_burn.c\<close>). The main loop collects bytes until \<open>AVR_START_BYTE\<close> (which in fact
  ends a message), carries the command out and answers with \<open>AVR_END_BYTE\<close>. \<open>int\<close> and \<open>UINT\<close> have 16 bits
  here. Delays, and the timer interrupt that is never enabled, are left out.
\<close>

abbreviation (input) AVR_START_BYTE :: u8 where "AVR_START_BYTE \<equiv> 0xFE"
abbreviation (input) AVR_END_BYTE :: u8 where "AVR_END_BYTE \<equiv> 0xFD"
abbreviation (input) STATUS_VALUES_OFFSET :: nat where "STATUS_VALUES_OFFSET \<equiv> 14"
abbreviation (input) NUM_STATUS_LABELS :: nat where "NUM_STATUS_LABELS \<equiv> 7"
abbreviation (input) VARIOUS_MSG_OFFSET :: nat where "VARIOUS_MSG_OFFSET \<equiv> 21"
abbreviation (input) STATUS_ON :: nat where "STATUS_ON \<equiv> 25"
abbreviation (input) STATUS_OFF :: nat where "STATUS_OFF \<equiv> 26"

section \<open>The labels in the EEPROM\<close>

text \<open>
  \<open>menu_labels[NUM_STR]\<close>: the first 36 of the 39 strings the initialiser lists; the last three do not fit the array.
\<close>

definition menu_labels :: "string list" where
  "menu_labels = [''OIL PRES'', ''AIR T'', ''MAP'', ''OIL T'', ''O2'', ''ODOM'', ''TRIP'', ''RPM'', ''MPH'', ''RUN TIME'',
     ''ENG T'', ''FUEL'', ''OUTDOOR T'', ''INDOOR T'', ''LAT'', ''LONG'', ''GPS DIR'', ''GPS SPEED'', ''GPS ALT'', ''NEXT'',
     ''PREV'', ''ENGINE'', ''COOL FAN'', ''HEADLAMPS'', ''BRIGHTS'', ''BRAKES'', ''MARKERS'', ''enter password:'',
     ''bad password'', ''start engine'', ''retries left'', ''ON   '', ''OFF  '', ''re-enter password'', ''in    seconds'',
     ''engine on:'']"

text \<open>\<open>memcpy(temp+j,menu_labels[i],strlen(...)); j += strlen(...); j++; temp[j] = 0;\<close>\<close>

fun burn_loop :: "u8 list list \<Rightarrow> nat \<Rightarrow> u8 list \<Rightarrow> (nat \<times> u8 list) option" where
  "burn_loop [] j temp = Some (j, temp)"
| "burn_loop (l # ls) j temp = do {
     temp \<leftarrow> memcpy_at temp j l (length l);
     let j = j + length l + 1;
     temp \<leftarrow> aset temp (int j) 0;
     burn_loop ls j temp
   }"

text \<open>\<open>eeprom_write_block(temp,eepromString,j)\<close> over what the EEPROM held.\<close>

definition burn :: "u8 list list \<Rightarrow> u8 list \<Rightarrow> u8 list option" where
  "burn labels old = do {
     (j, temp) \<leftarrow> burn_loop labels 0 (replicate 512 0);
     Some (take j temp @ drop j old)
   }"

text \<open>
  \<open>eeprom_str_lookup\<close>: the first loop runs to the end of the string with the index, the second back to the end of the
  string before. Neither checks the bounds of \<open>eeprom\<close>.
\<close>

function eep_scan :: "u8 list \<Rightarrow> nat \<Rightarrow> nat \<Rightarrow> nat \<Rightarrow> nat \<Rightarrow> (nat \<times> nat) option" where
  "eep_scan e i j k index =
     (let j = j + 1
      in if j < length e then
           (let (i, k) = (if e ! j = 0 then (i + 1, j) else (i, k))
            in if i < index then eep_scan e i j k index else Some (j, k))
         else None)"
  by pat_completeness auto

termination
  by (relation "measure (\<lambda>(e, i, j, k, n). length e - j)") auto

declare eep_scan.simps [simp del]

fun eep_back :: "u8 list \<Rightarrow> nat \<Rightarrow> nat option" where
  "eep_back e 0 = None"
| "eep_back e (Suc k) = (if k < length e then (if e ! k \<noteq> 0 then eep_back e k else Some k) else None)"

definition eeprom_str_lookup :: "u8 list \<Rightarrow> nat \<Rightarrow> u8 list option" where
  "eeprom_str_lookup e index = do {
     (j, k) \<leftarrow> eep_scan e 0 0 0 index;
     k \<leftarrow> eep_back e k;
     memcpy_at (replicate 30 0) 0 (drop (k + 1) e) (j - k)
   }"

section \<open>The state of the display program\<close>

record avr =
  a_io :: lcdio
  a_buff :: "u8 list"
  chptr :: int
  a_row :: u16
  a_col :: u16
  a_str :: "u8 list"
  a_eeprom :: "u8 list"
  curr_num :: "u8 list"
  num_entry_mode :: u8
  a_sent :: "u8 list"

definition on_io :: "(lcdio \<Rightarrow> lcdio) \<Rightarrow> avr \<Rightarrow> avr" where
  "on_io f s = s\<lparr>a_io := f (a_io s)\<rparr>"

text \<open>\<open>strcpy(str,eeprom_str_lookup(index, str))\<close>: the lookup fills \<open>str\<close> and returns it, so the copy is onto itself.\<close>

definition label_str :: "nat \<Rightarrow> avr \<Rightarrow> avr option" where
  "label_str index s = do {
     str \<leftarrow> eeprom_str_lookup (a_eeprom s) index;
     Some (s\<lparr>a_str := str\<rparr>)
   }"

text \<open>\<open>sprintf(str, ...)\<close> or \<open>strcpy(str, "...")\<close>\<close>

definition print_str :: "string \<Rightarrow> avr \<Rightarrow> avr option" where
  "print_str text0 s = do {
     str \<leftarrow> cstr_into (a_str s) text0;
     Some (s\<lparr>a_str := str\<rparr>)
   }"

text \<open>\<open>GDispStringAt(row,col,str)\<close>\<close>

definition show_str :: "u16 \<Rightarrow> u16 \<Rightarrow> avr \<Rightarrow> avr option" where
  "show_str row col s = do {
     (n, io) \<leftarrow> GDispStringAt row col (a_str s) (a_io s);
     Some (s\<lparr>a_io := io\<rparr>)
   }"

definition blank :: "nat \<Rightarrow> avr \<Rightarrow> avr" where
  "blank n s = on_io (repeat n (GDispChar 0x20)) s"

text \<open>\<open>row = (UINT)buff[1]; col = (UINT)buff[2];\<close> as arguments\<close>

definition arg :: "int \<Rightarrow> avr \<Rightarrow> u16 option" where
  "arg i s = do { b \<leftarrow> aget (a_buff s) i; Some (ucast b) }"

definition int_arg :: "avr \<Rightarrow> u16 option" where
  "int_arg s = do {
     hi \<leftarrow> aget (a_buff s) 3;
     lo \<leftarrow> aget (a_buff s) 4;
     Some (push_bit 8 (ucast hi) OR ucast lo)
   }"

section \<open>The commands\<close>

definition clr :: "avr \<Rightarrow> avr" where
  "clr s = on_io (GDispGoto 0 0) (on_io GDispClrTxt s)"

definition avr_char :: "avr \<Rightarrow> avr option" where
  "avr_char s = do {
     ch \<leftarrow> aget (a_buff s) 1;
     if ch > 0x1F \<and> ch < 0x7F then do {
       let s = on_io (GDispCharAt (a_row s) (a_col s) ch) s;
       let s = s\<lparr>a_col := a_col s + 1\<rparr>;
       if a_col s > 39 then do {
         let s = s\<lparr>a_col := 0\<rparr>;
         let s = s\<lparr>a_row := a_row s + 1\<rparr>;
         if a_row s > 15 then Some (s\<lparr>a_row := 0\<rparr>) else Some s
       } else Some s
     } else Some s
   }"

definition avr_goto :: "avr \<Rightarrow> avr option" where
  "avr_goto s = do {
     row \<leftarrow> arg 1 s;
     col \<leftarrow> arg 2 s;
     Some (on_io (GDispGoto row col) (s\<lparr>a_row := row, a_col := col\<rparr>))
   }"

definition setMode :: "avr \<Rightarrow> avr option" where
  "setMode s = do {
     mode \<leftarrow> aget (a_buff s) 1;
     row \<leftarrow> arg 2 s;
     col \<leftarrow> arg 3 s;
     typ \<leftarrow> aget (a_buff s) 4;
     Some (on_io (GDispSetCursor mode row col typ) s)
   }"

definition avr_msg1 :: "avr \<Rightarrow> avr option" where
  "avr_msg1 s = Some (s\<lparr>a_sent := a_sent s @ curr_num s\<rparr>)"

definition avr_eeprom_str :: "avr \<Rightarrow> avr option" where
  "avr_eeprom_str s = do {
     row \<leftarrow> arg 1 s;
     col \<leftarrow> arg 2 s;
     index \<leftarrow> aget (a_buff s) 3;
     blanks \<leftarrow> aget (a_buff s) 4;
     let s = s\<lparr>a_row := row, a_col := col\<rparr>;
     if index > 0 \<and> index < 36 + 1 then do {
       s \<leftarrow> label_str (unat index) s;
       let s = on_io (GDispGoto row col) s;
       let s = blank (unat blanks + 1) s;
       show_str row col s
     } else Some s
   }"

text \<open>
  \<open>for(index = 1;index < num_labels;index++);\<close> is a loop without a body: the block behind it is carried out once, for
  the last index.
\<close>

definition avr_rtlabels :: "avr \<Rightarrow> avr option" where
  "avr_rtlabels s = do {
     row \<leftarrow> arg 1 s;
     let starting_row = row;
     col \<leftarrow> arg 2 s;
     ending_row \<leftarrow> arg 3 s;
     col_width \<leftarrow> arg 4 s;
     num_labels \<leftarrow> arg 5 s;
     let index = max 1 (unat num_labels);
     s \<leftarrow> label_str index s;
     let s = on_io (GDispGoto row col) s;
     let row = row + 1;
     let s = blank 6 s;
     let (row, col) = (if row > ending_row then (starting_row, col + col_width) else (row, col));
     show_str row col (s\<lparr>a_row := row, a_col := col\<rparr>)
   }"

text \<open>
  The row of a status. The codes of the blower are not in the header any more, so they are a parameter here.
\<close>

definition status_row :: "u8 list \<Rightarrow> u8 \<Rightarrow> u16 \<Rightarrow> u16" where
  "status_row blowers c row =
     (if c \<in> {START_SEQ, SHUTDOWN} then 0
      else if c \<in> {ON_FAN, OFF_FAN} then 1
      else if c \<in> {ON_LIGHTS, OFF_LIGHTS} then 2
      else if c \<in> {ON_BRIGHTS, OFF_BRIGHTS} then 3
      else if c \<in> set blowers then 6
      else if c \<in> {ON_RUNNING_LIGHTS, OFF_RUNNING_LIGHTS} then 5
      else if c \<in> {ON_BRAKES, OFF_BRAKES} then 4
      else if c \<in> {WIPER1, WIPER2, WIPER_OFF} then 7
      else row)"

definition avr_eeprom_str2 :: "u8 list \<Rightarrow> avr \<Rightarrow> avr option" where
  "avr_eeprom_str2 blowers s = do {
     let col = 15;
     c \<leftarrow> aget (a_buff s) 1;
     let row = status_row blowers c (a_row s);
     let s = s\<lparr>a_row := row, a_col := col\<rparr>;
     let s = blank 6 (on_io (GDispGoto row col) s);
     b \<leftarrow> aget (a_buff s) 2;
     s \<leftarrow> (if b = 2 then print_str ''ONE'' s
       else if b = 3 then print_str ''TWO'' s
       else if b = 4 then print_str ''THREE'' s
       else label_str (if b = 0 then STATUS_ON else STATUS_OFF) s);
     s \<leftarrow> show_str row col s;
     Some (on_io (GDispGoto 0 0) s)
   }"

text \<open>The loop of \<open>DISPLAY_STATUSLABELS\<close>, \<open>n\<close> labels from \<open>index\<close> on.\<close>

fun status_labels :: "nat \<Rightarrow> nat \<Rightarrow> avr \<Rightarrow> avr option" where
  "status_labels 0 index s = Some s"
| "status_labels (Suc n) index s = do {
     s \<leftarrow> label_str index s;
     let s = blank 10 (on_io (GDispGoto (a_row s) (a_col s)) s);
     s \<leftarrow> show_str (a_row s) (a_col s) s;
     status_labels n (index + 1) (s\<lparr>a_row := a_row s + 1\<rparr>)
   }"

definition avr_statuslabels :: "avr \<Rightarrow> avr option" where
  "avr_statuslabels s = status_labels NUM_STATUS_LABELS STATUS_VALUES_OFFSET (s\<lparr>a_col := 0, a_row := 0\<rparr>)"

definition avr_byte_value :: "avr \<Rightarrow> avr option" where
  "avr_byte_value s = do {
     byte_val \<leftarrow> aget (a_buff s) 3;
     s \<leftarrow> print_str (dec2 (unat byte_val) @ '' '') s;
     row \<leftarrow> arg 1 s;
     col \<leftarrow> arg 2 s;
     show_str row col s
   }"

definition avr_hex_value :: "avr \<Rightarrow> avr option" where
  "avr_hex_value s = do {
     byte_val \<leftarrow> aget (a_buff s) 3;
     s \<leftarrow> print_str (hex2 byte_val @ '' '') s;
     row \<leftarrow> arg 1 s;
     col \<leftarrow> arg 2 s;
     show_str row col s
   }"

text \<open>
  \<open>"%d "\<close>, \<open>"%02d "\<close>, \<open>"%03d "\<close>, \<open>"%04d "\<close> by size; an \<open>UINT\<close> from 32768 on is printed as the negative number with
  the same bits, padded to four places.
\<close>

definition pad4 :: "nat \<Rightarrow> string" where
  "pad4 n = replicate (3 - length (dec_nat n)) CHR ''0'' @ dec_nat n"

definition int_text :: "u16 \<Rightarrow> string" where
  "int_text v = (if sint v < 0 then CHR ''-'' # pad4 (nat (- sint v)) else dec_nat (unat v)) @ '' ''"

definition avr_int_value :: "avr \<Rightarrow> avr option" where
  "avr_int_value s = do {
     int_val \<leftarrow> int_arg s;
     s \<leftarrow> print_str (int_text int_val) s;
     row \<leftarrow> arg 1 s;
     col \<leftarrow> arg 2 s;
     show_str row col s
   }"

definition avr_password :: "avr \<Rightarrow> avr option" where
  "avr_password s = do {
     let s = on_io GDispClrTxt s;
     let row = 7;
     col \<leftarrow> arg 1 s;
     let s = on_io (GDispGoto row col) (s\<lparr>a_row := row, a_col := col\<rparr>);
     s \<leftarrow> label_str VARIOUS_MSG_OFFSET s;
     s \<leftarrow> show_str 6 0 s;
     Some (on_io (GDispSetCursor (0x94 OR 0x93) 7 0 0xA1) s)
   }"

definition avr_entry_mode :: "avr \<Rightarrow> avr option" where
  "avr_entry_mode s = do {
     b \<leftarrow> aget (a_buff s) 1;
     Some (s\<lparr>num_entry_mode := b\<rparr>)
   }"

text \<open>\<open>do{ str[i] = buff[i+3]; i++; }while(i < STR_LEN && buff[i] != 0);\<close>\<close>

function copy_str :: "nat \<Rightarrow> u8 list \<Rightarrow> u8 list \<Rightarrow> (nat \<times> u8 list) option" where
  "copy_str i b str =
     (case aget b (int i + 3) of None \<Rightarrow> None
      | Some c \<Rightarrow>
         (case aset str (int i) c of None \<Rightarrow> None
          | Some str \<Rightarrow>
             (let i = i + 1
              in if i < 30 then
                   (case aget b (int i) of None \<Rightarrow> None
                    | Some d \<Rightarrow> if d \<noteq> 0 then copy_str i b str else Some (i, str))
                 else Some (i, str))))"
  by pat_completeness auto

termination
  by (relation "measure (\<lambda>(i, b, str). 30 - i)") auto

declare copy_str.simps [simp del]

definition avr_display_str :: "avr \<Rightarrow> avr option" where
  "avr_display_str s = do {
     (i, str) \<leftarrow> copy_str 0 (a_buff s) (a_str s);
     let s = s\<lparr>a_str := str\<rparr>;
     row \<leftarrow> arg 1 s;
     col \<leftarrow> arg 2 s;
     let s = blank (i + 1) (on_io (GDispGoto row col) s);
     show_str row col s
   }"

text \<open>\<open>3600*hr\<close> is a product of \<open>int\<close>s and must fit 16 bits; the rest is unsigned.\<close>

definition avr_elapsed :: "avr \<Rightarrow> avr option" where
  "avr_elapsed s = do {
     int_val \<leftarrow> int_arg s;
     let hr = unat int_val div 3600;
     if 3600 * hr > 32767 then None
     else do {
       let mi = (unat int_val - 3600 * hr) div 60;
       let sec = unat int_val - 3600 * hr - mi * 60;
       s \<leftarrow> print_str (dec2 hr @ '':'' @ dec2 mi @ '':'' @ dec2 sec) s;
       row \<leftarrow> arg 1 s;
       col \<leftarrow> arg 2 s;
       show_str row col s
     }
   }"

text \<open>
  \<open>int_val = convertF(int_val)\<close>: a negative number of degrees does not fit \<open>UINT\<close>; \<open>"%2d "\<close> and \<open>"%3d "\<close>.
\<close>

definition pad_left :: "nat \<Rightarrow> string \<Rightarrow> string" where
  "pad_left w str = replicate (w - length str) CHR '' '' @ str"

definition avr_temp :: "avr \<Rightarrow> avr option" where
  "avr_temp s = do {
     int_val \<leftarrow> int_arg s;
     let f = convertF (sint int_val);
     if f < 0 then None
     else do {
       s \<leftarrow> print_str (pad_left (if f < 100 then 2 else 3) (dec_nat (nat f)) @ '' '') s;
       row \<leftarrow> arg 1 s;
       col \<leftarrow> arg 2 s;
       show_str row col s
     }
   }"

definition avr_cmd :: "u8 list \<Rightarrow> avr \<Rightarrow> avr option" where
  "avr_cmd blowers s = do {
     c \<leftarrow> aget (a_buff s) 0;
     if c = 2 then avr_char s
     else if c = 3 then avr_goto s
     else if c = 4 then setMode s
     else if c = 14 \<or> c = 5 then Some (clr s)
     else if c = 6 then avr_msg1 s
     else if c = 9 then avr_eeprom_str s
     else if c = 19 then avr_rtlabels s
     else if c = 10 then avr_eeprom_str2 blowers s
     else if c = 20 then avr_statuslabels s
     else if c = 11 then avr_byte_value s
     else if c = 12 then avr_hex_value s
     else if c = 13 then avr_int_value s
     else if c = 16 then avr_password s
     else if c = 17 then avr_entry_mode s
     else if c = 18 then avr_display_str s
     else if c = 21 then avr_elapsed s
     else if c = 22 then avr_temp s
     else if c = 23 then Some (on_io FONT_8X8 (on_io GDispReset s))
     else if c = 24 then Some (on_io FONT_8X8 s)
     else if c = 25 then Some (on_io FONT_6X8 s)
     else Some s
   }"

text \<open>One turn of the main loop: \<open>receiveByte\<close> returned \<open>key\<close>.\<close>

definition avr_step :: "u8 list \<Rightarrow> u8 \<Rightarrow> avr \<Rightarrow> avr option" where
  "avr_step blowers key s = do {
     b \<leftarrow> aset (a_buff s) (chptr s) key;
     let s = s\<lparr>a_buff := b, chptr := chptr s + 1\<rparr>;
     if key = AVR_START_BYTE then do {
       s \<leftarrow> avr_cmd blowers s;
       Some (s\<lparr>chptr := 0, a_sent := a_sent s @ [AVR_END_BYTE]\<rparr>)
     } else Some s
   }"

fun avr_run :: "u8 list \<Rightarrow> u8 list \<Rightarrow> avr \<Rightarrow> avr option" where
  "avr_run blowers [] s = Some s"
| "avr_run blowers (k # ks) s = do { s \<leftarrow> avr_step blowers k s; avr_run blowers ks s }"

text \<open>From the start of \<open>main\<close> to its loop.\<close>

definition avr_boot :: "u8 list \<Rightarrow> lcdio \<Rightarrow> avr option" where
  "avr_boot eepromString io = do {
     let io = GDispInit io;
     let io = GDispSetMode 0x94 (GDispSetMode 0x81 io);
     let io = GDispClrTxt (FONT_8X8 (GDispClrTxt io));
     (n, io) \<leftarrow> GDispStringAt 7 7 (bytes_of ''LCD is on!'' @ [0]) io;
     let s = clr \<lparr>a_io = io, a_buff = replicate 30 0, chptr = 0, a_row = 0, a_col = 0, a_str = replicate 30 0,
       a_eeprom = replicate 1024 0, curr_num = replicate 20 0, num_entry_mode = 0, a_sent = []\<rparr>;
     Some (s\<lparr>curr_num := bytes_of ''0123456'' @ replicate 13 0, a_eeprom := eepromString\<rparr>)
   }"

section \<open>Looking up what was burnt\<close>

definition table :: "u8 list list \<Rightarrow> u8 list" where
  "table ls = concat (map (\<lambda>l. l @ [0]) ls)"

lemma table_simps [simp]: "table [] = []" "table (l # ls) = l @ 0 # table ls" "table (ls @ ms) = table ls @ table ms"
  by (simp_all add: table_def)

lemma burn_loop_table:
  "length (table ls) < n \<Longrightarrow> burn_loop ls (length pre) (pre @ replicate n 0) =
     Some (length pre + length (table ls), pre @ table ls @ replicate (n - length (table ls)) 0)"
proof (induction ls arbitrary: pre n)
  case (Cons l ls)
  define m where "m = n - length l"
  have n: "n = length l + m" "1 < m" using Cons.prems by (simp_all add: m_def)
  have m: "memcpy_at (pre @ replicate (length l + m) 0) (length pre) l (length l) = Some (pre @ l @ replicate m 0)"
    by (simp add: memcpy_at_def replicate_add)
  have z: "(pre @ l @ replicate m 0)[length pre + length l + 1 := 0] = (pre @ l @ [0]) @ replicate (m - 1) 0"
    using n(2) by (cases m) (simp_all add: list_update_append nth_append list_update_same_conv split: nat.splits)
  show ?case
    using Cons.IH [of "m - 1" "pre @ l @ [0]"] Cons.prems n(2) unfolding n(1)
    by (simp add: m aset_def z [unfolded One_nat_def add_Suc_right add_0_right] nat_add_distrib)
qed simp

lemma burn_table:
  "length (table ls) < 512 \<Longrightarrow> burn ls old = Some (table ls @ drop (length (table ls)) old)"
  using burn_loop_table [of ls 512 "[]"] by (simp add: burn_def)

lemma scan_word:
  assumes "0 \<notin> set w" "j + 1 = length p" "i < index"
  shows "eep_scan (p @ w @ 0 # q) i j k index =
    (if i + 1 < index then eep_scan (p @ w @ 0 # q) (i + 1) (length p + length w) (length p + length w) index
     else Some (length p + length w, length p + length w))"
  using assms
proof (induction w arbitrary: p j)
  case Nil
  then show ?case by (subst eep_scan.simps) (simp add: nth_append Let_def)
next
  case (Cons c w)
  have "(p @ (c # w) @ 0 # q) ! length p = c" by simp
  then have "eep_scan (p @ (c # w) @ 0 # q) i j k index = eep_scan (p @ (c # w) @ 0 # q) i (length p) k index"
    using Cons.prems by (subst eep_scan.simps) simp
  then show ?case using Cons.IH [of "length p" "p @ [c]"] Cons.prems by simp
qed

lemma scan_table:
  assumes "\<forall>l \<in> set ls. 0 \<notin> set l" "j + 1 = length p" "i < index" "index \<le> i + length ls"
  shows "eep_scan (p @ table ls @ q) i j k index =
    Some (length p + length (table (take (index - i) ls)) - 1, length p + length (table (take (index - i) ls)) - 1)"
  using assms
proof (induction ls arbitrary: p i j k)
  case (Cons l ls)
  have w: "eep_scan (p @ table (l # ls) @ q) i j k index =
      (if i + 1 < index then eep_scan (p @ table (l # ls) @ q) (i + 1) (length p + length l) (length p + length l) index
       else Some (length p + length l, length p + length l))"
    using scan_word [of l j p i index "table ls @ q" k] Cons.prems by simp
  show ?case
  proof (cases "i + 1 < index")
    case True
    then have "index - i = Suc (index - (i + 1))" by simp
    then show ?thesis
      using w True Cons.IH [of "length p + length l" "p @ l @ [0]" "i + 1" "length p + length l"] Cons.prems by simp
  next
    case False
    then have "index - i = 1" using Cons.prems(3) by simp
    then show ?thesis using w False by simp
  qed
qed simp

text \<open>The scan starts behind the first byte, which has to be a character.\<close>

lemma scan_labels:
  assumes "\<forall>l \<in> set ls. l \<noteq> [] \<and> 0 \<notin> set l" "1 \<le> index" "index \<le> length ls"
  shows "eep_scan (table ls @ q) 0 0 0 index =
    Some (length (table (take index ls)) - 1, length (table (take index ls)) - 1)"
proof -
  obtain c l ls' where ls: "ls = (c # l) # ls'" using assms by (cases ls; cases "hd ls") auto
  obtain n where n: "index = Suc n" using assms(2) by (cases index) auto
  show ?thesis using scan_table [of "l # ls'" 0 "[c]" 0 index q 0] assms by (simp add: ls n)
qed

lemma back_word:
  assumes "0 \<notin> set w" "m \<le> length w"
  shows "eep_back (p @ 0 # w @ q) (length p + 1 + m) = Some (length p)"
  using assms(2)
proof (induction m)
  case (Suc m)
  then have "(p @ 0 # w @ q) ! (length p + 1 + m) = w ! m" by (simp add: nth_append)
  moreover have "w ! m \<noteq> 0" using assms(1) Suc.prems by (metis Suc_le_eq nth_mem)
  ultimately show ?case using Suc by simp
qed simp

lemma back_start: "0 \<notin> set w \<Longrightarrow> m \<le> length w \<Longrightarrow> eep_back (w @ q) m = None"
proof (induction m)
  case (Suc m)
  then have "(w @ q) ! m \<noteq> 0" by (simp add: nth_append) (metis Suc_le_eq nth_mem)
  then show ?case using Suc by simp
qed simp

definition padded :: "u8 list \<Rightarrow> u8 list" where
  "padded l = l @ replicate (30 - length l) 0"

lemma lookup_label:
  assumes "\<forall>l \<in> set ls. l \<noteq> [] \<and> 0 \<notin> set l \<and> length l < 30" "2 \<le> n" "n \<le> length ls"
  shows "eeprom_str_lookup (table ls @ q) n = Some (padded (ls ! (n - 1)))"
proof -
  define l where "l = ls ! (n - 1)"
  define p where "p = table (take (n - 2) ls) @ ls ! (n - 2)"
  have l: "0 \<notin> set l" "length l < 30" using assms by (simp_all add: l_def)
  have t1: "take (n - 1) ls = take (n - 2) ls @ [ls ! (n - 2)]"
    using assms take_Suc_conv_app_nth [of "n - 2" ls] by (simp add: Suc_diff_Suc numeral_2_eq_2)
  have t2: "take n ls = take (n - 1) ls @ [l]"
    using assms take_Suc_conv_app_nth [of "n - 1" ls] by (simp add: l_def)
  have t: "table (take n ls) = p @ 0 # l @ [0]" unfolding t2 t1 by (simp add: p_def)
  have e: "table ls @ q = p @ 0 # l @ 0 # table (drop n ls) @ q"
    using t table_simps(3) [of "take n ls" "drop n ls"] by simp
  have "eep_scan (table ls @ q) 0 0 0 n = Some (length p + 1 + length l, length p + 1 + length l)"
    using scan_labels [of ls n q] assms t by simp
  moreover have "eep_back (table ls @ q) (length p + 1 + length l) = Some (length p)"
    unfolding e using back_word [OF l(1) order_refl, of p "0 # table (drop n ls) @ q"] by simp
  moreover have "memcpy_at (replicate 30 0) 0 (drop (length p + 1) (table ls @ q)) (length l + 1) = Some (padded l)"
    using l(2) by (simp add: e memcpy_at_def padded_def) (simp flip: replicate_Suc add: Suc_diff_Suc)
  ultimately show ?thesis by (simp add: eeprom_str_lookup_def l_def)
qed

lemma lookup_first:
  assumes "\<forall>l \<in> set ls. l \<noteq> [] \<and> 0 \<notin> set l \<and> length l < 30" "ls \<noteq> []"
  shows "eeprom_str_lookup (table ls @ q) 1 = None"
proof -
  obtain l ls' where ls: "ls = l # ls'" using assms(2) by (cases ls) auto
  have "eep_scan (table ls @ q) 0 0 0 1 = Some (length l, length l)" using scan_labels [of ls 1 q] assms ls by simp
  then show ?thesis using back_start [of l "length l" "0 # table ls' @ q"] assms(1) ls by (simp add: eeprom_str_lookup_def)
qed

text \<open>
  Labels. Whatever labels are burnt (none empty, each shorter than 30 characters, together less than 512 bytes),
  the lookup finds every label from the second on in the EEPROM, padded with zeros to the whole of \<open>str\<close>; for the
  first one it reads in front of the array.
\<close>

theorem labels_round_trip:
  assumes "\<forall>l \<in> set ls. l \<noteq> [] \<and> 0 \<notin> set l \<and> length l < 30" "length (table ls) < 512" "length old = 1024"
    "1 \<le> n" "n \<le> length ls"
  shows "\<exists>e. burn ls old = Some e \<and> length e = 1024 \<and>
    eeprom_str_lookup e n = (if n = 1 then None else Some (ls ! (n - 1) @ replicate (30 - length (ls ! (n - 1))) 0))"
proof -
  have ne: "ls \<noteq> []" using assms(4,5) by auto
  show ?thesis using burn_table [OF assms(2), of old] assms(2-5) lookup_first [OF assms(1) ne] lookup_label [OF assms(1)]
    by (cases "n = 1") (auto simp: padded_def)
qed

lemma menu_labels_ok:
  "\<forall>l \<in> set (map bytes_of menu_labels). l \<noteq> [] \<and> 0 \<notin> set l \<and> length l < 30" "length (table (map bytes_of menu_labels)) < 512"
  "length menu_labels = 36"
  by (simp_all add: menu_labels_def bytes_of_def)

text \<open>The third label of the EEPROM.\<close>

lemma labels_round_trip_witness:
  "\<exists>e. burn (map bytes_of menu_labels) (replicate 1024 0xFF) = Some e \<and> eeprom_str_lookup e 3 = Some ([0x4D, 0x41, 0x50] @ replicate 27 0)"
proof -
  have a: "length (replicate 1024 (0xFF :: u8)) = 1024" "(1 :: nat) \<le> 3" "3 \<le> length (map bytes_of menu_labels)"
    by (simp_all add: menu_labels_ok(3))
  have l: "map bytes_of menu_labels ! (3 - 1) = [0x4D, 0x41, 0x50]" by (simp add: menu_labels_def bytes_of_def)
  show ?thesis using labels_round_trip [OF menu_labels_ok(1,2) a] unfolding l by auto
qed

section \<open>The display program keeps its state in shape\<close>

definition a_ok :: "avr \<Rightarrow> bool" where
  "a_ok s \<longleftrightarrow> length (a_buff s) = 30 \<and> length (a_str s) = 30 \<and> length (a_eeprom s) = 1024 \<and> length (curr_num s) = 20 \<and> ready (a_io s)"

lemma ready_on_io: "sends bs f \<Longrightarrow> a_ok s \<Longrightarrow> a_ok (on_io f s)"
  by (simp add: a_ok_def on_io_def sends_def)

lemma ready_blank: "a_ok s \<Longrightarrow> a_ok (blank n s)"
  unfolding blank_def by (rule ready_on_io [OF sends_repeat [OF sends_char]])

lemmas ok_ios = ready_blank ready_on_io [OF sends_char_at] ready_on_io [OF sends_goto] ready_on_io [OF sends_clear]
  ready_on_io [OF sends_cursor] ready_on_io [OF font_sent(1)] ready_on_io [OF font_sent(2)]

lemma ok_fields [simp]: "a_ok (s\<lparr>a_row := r\<rparr>) = a_ok s" "a_ok (s\<lparr>a_col := c\<rparr>) = a_ok s" "a_ok (s\<lparr>num_entry_mode := m\<rparr>) = a_ok s"
  "a_ok (s\<lparr>a_sent := x\<rparr>) = a_ok s" "a_ok (s\<lparr>chptr := p\<rparr>) = a_ok s"
  by (simp_all add: a_ok_def)

lemma memcpy_length: "memcpy_at b i src n = Some b' \<Longrightarrow> length b' = length b"
  by (auto simp: memcpy_at_def split: if_splits)

lemma label_ok: "label_str n s = Some s' \<Longrightarrow> a_ok s \<Longrightarrow> a_ok s'"
  by (auto simp: label_str_def eeprom_str_lookup_def bind_eq_Some_conv a_ok_def dest!: memcpy_length)

lemma print_ok: "print_str t s = Some s' \<Longrightarrow> a_ok s \<Longrightarrow> a_ok s'"
  by (auto simp: print_str_def bind_eq_Some_conv a_ok_def dest!: cstr_into_length)

lemma string_ready: "string_from row col i cs s = Some (n, s') \<Longrightarrow> ready s \<Longrightarrow> ready s'"
proof (induction cs arbitrary: i s)
  case (Cons c cs)
  then show ?case using sendsD [OF sends_char_at Cons.prems(2)] by (auto simp: Let_def split: if_splits)
qed simp

lemma show_ok: "show_str row col s = Some s' \<Longrightarrow> a_ok s \<Longrightarrow> a_ok s'"
  by (auto simp: show_str_def bind_eq_Some_conv a_ok_def GDispStringAt_def dest: string_ready)

lemma copy_str_length: "copy_str i b str = Some (j, str') \<Longrightarrow> length str' = length str \<and> i < j"
proof (induction "30 - i" arbitrary: i str rule: less_induct)
  case less
  obtain c str1 where c: "aget b (int i + 3) = Some c" "aset str (int i) c = Some str1"
    using less.prems by (subst (asm) copy_str.simps) (auto split: option.splits)
  have l: "length str1 = length str" using c(2) by (rule aset_length)
  show ?case
  proof (cases "i + 1 < 30 \<and> (\<exists>d. aget b (int (i + 1)) = Some d \<and> d \<noteq> 0)")
    case True
    then have cs: "copy_str (i + 1) b str1 = Some (j, str')"
      using less.prems c by (subst (asm) copy_str.simps) (auto simp: Let_def)
    have "30 - (i + 1) < 30 - i" using True by linarith
    from less.hyps [OF this cs] l show ?thesis by simp
  next
    case False
    then show ?thesis using less.prems c l by (subst (asm) copy_str.simps) (auto simp: Let_def split: option.splits if_splits)
  qed
qed

lemma status_labels_ok: "status_labels n i s = Some s' \<Longrightarrow> a_ok s \<Longrightarrow> a_ok s'"
proof (induction n arbitrary: i s)
  case (Suc n)
  then show ?case by (auto simp: bind_eq_Some_conv Let_def intro!: Suc.IH ok_ios dest!: label_ok show_ok)
qed simp

lemma avr_char_ok: "avr_char s = Some s' \<Longrightarrow> a_ok s \<Longrightarrow> a_ok s'"
  by (auto simp: avr_char_def bind_eq_Some_conv Let_def intro!: ok_ios split: if_splits dest!: label_ok print_ok show_ok)

lemma avr_goto_ok: "avr_goto s = Some s' \<Longrightarrow> a_ok s \<Longrightarrow> a_ok s'"
  by (auto simp: avr_goto_def bind_eq_Some_conv Let_def intro!: ok_ios split: if_splits dest!: label_ok print_ok show_ok)

lemma setMode_ok: "setMode s = Some s' \<Longrightarrow> a_ok s \<Longrightarrow> a_ok s'"
  by (auto simp: setMode_def bind_eq_Some_conv Let_def intro!: ok_ios split: if_splits dest!: label_ok print_ok show_ok)

lemma avr_msg1_ok: "avr_msg1 s = Some s' \<Longrightarrow> a_ok s \<Longrightarrow> a_ok s'"
  by (auto simp: avr_msg1_def bind_eq_Some_conv Let_def intro!: ok_ios split: if_splits dest!: label_ok print_ok show_ok)

lemma avr_eeprom_str_ok: "avr_eeprom_str s = Some s' \<Longrightarrow> a_ok s \<Longrightarrow> a_ok s'"
  by (auto simp: avr_eeprom_str_def bind_eq_Some_conv Let_def intro!: ok_ios split: if_splits dest!: label_ok print_ok show_ok)

lemma avr_rtlabels_ok: "avr_rtlabels s = Some s' \<Longrightarrow> a_ok s \<Longrightarrow> a_ok s'"
  by (auto simp: avr_rtlabels_def bind_eq_Some_conv Let_def intro!: ok_ios split: if_splits dest!: label_ok print_ok show_ok)

lemma avr_eeprom_str2_ok: "avr_eeprom_str2 bl s = Some s' \<Longrightarrow> a_ok s \<Longrightarrow> a_ok s'"
  by (auto simp: avr_eeprom_str2_def bind_eq_Some_conv Let_def intro!: ok_ios split: if_splits dest!: label_ok print_ok show_ok)

lemma avr_byte_value_ok: "avr_byte_value s = Some s' \<Longrightarrow> a_ok s \<Longrightarrow> a_ok s'"
  by (auto simp: avr_byte_value_def bind_eq_Some_conv Let_def intro!: ok_ios split: if_splits dest!: label_ok print_ok show_ok)

lemma avr_hex_value_ok: "avr_hex_value s = Some s' \<Longrightarrow> a_ok s \<Longrightarrow> a_ok s'"
  by (auto simp: avr_hex_value_def bind_eq_Some_conv Let_def intro!: ok_ios split: if_splits dest!: label_ok print_ok show_ok)

lemma avr_int_value_ok: "avr_int_value s = Some s' \<Longrightarrow> a_ok s \<Longrightarrow> a_ok s'"
  by (auto simp: avr_int_value_def bind_eq_Some_conv Let_def intro!: ok_ios split: if_splits dest!: label_ok print_ok show_ok)

lemma avr_password_ok: "avr_password s = Some s' \<Longrightarrow> a_ok s \<Longrightarrow> a_ok s'"
  by (auto simp: avr_password_def bind_eq_Some_conv Let_def intro!: ok_ios split: if_splits dest!: label_ok print_ok show_ok)

lemma avr_entry_mode_ok: "avr_entry_mode s = Some s' \<Longrightarrow> a_ok s \<Longrightarrow> a_ok s'"
  by (auto simp: avr_entry_mode_def bind_eq_Some_conv Let_def intro!: ok_ios split: if_splits dest!: label_ok print_ok show_ok)

lemma avr_elapsed_ok: "avr_elapsed s = Some s' \<Longrightarrow> a_ok s \<Longrightarrow> a_ok s'"
  by (auto simp: avr_elapsed_def bind_eq_Some_conv Let_def intro!: ok_ios split: if_splits dest!: label_ok print_ok show_ok)

lemma avr_temp_ok: "avr_temp s = Some s' \<Longrightarrow> a_ok s \<Longrightarrow> a_ok s'"
  by (auto simp: avr_temp_def bind_eq_Some_conv Let_def intro!: ok_ios split: if_splits dest!: label_ok print_ok show_ok)

lemma avr_display_str_ok: "avr_display_str s = Some s' \<Longrightarrow> a_ok s \<Longrightarrow> a_ok s'"
proof -
  assume d: "avr_display_str s = Some s'" and ok: "a_ok s"
  obtain i str row col where c: "copy_str 0 (a_buff s) (a_str s) = Some (i, str)"
    "show_str row col (blank (i + 1) (on_io (GDispGoto row col) (s\<lparr>a_str := str\<rparr>))) = Some s'"
    using d by (auto simp: avr_display_str_def bind_eq_Some_conv Let_def)
  have "a_ok (s\<lparr>a_str := str\<rparr>)" using ok copy_str_length [OF c(1)] by (simp add: a_ok_def)
  then show ?thesis by (rule show_ok [OF c(2) ok_ios(1) [OF ok_ios(3)]])
qed

lemma reset_ok: "a_ok s \<Longrightarrow> a_ok (on_io GDispReset s)"
  by (simp add: a_ok_def on_io_def init_sent)

lemma statuslabels_ok: "avr_statuslabels s = Some s' \<Longrightarrow> a_ok s \<Longrightarrow> a_ok s'"
  unfolding avr_statuslabels_def by (drule status_labels_ok) simp_all

lemma clr_ok: "a_ok s \<Longrightarrow> a_ok (clr s)"
  unfolding clr_def by (rule ok_ios(3) [OF ok_ios(4)])

lemmas cmd_oks = avr_char_ok avr_goto_ok setMode_ok avr_msg1_ok avr_eeprom_str_ok avr_rtlabels_ok avr_eeprom_str2_ok
  avr_byte_value_ok avr_hex_value_ok avr_int_value_ok avr_password_ok avr_entry_mode_ok avr_elapsed_ok avr_temp_ok
  avr_display_str_ok statuslabels_ok

lemma cmd_ok:
  assumes "avr_cmd blowers s = Some s'" "a_ok s"
  shows "a_ok s'"
proof -
  obtain c where c: "aget (a_buff s) 0 = Some c" using assms(1) by (auto simp: avr_cmd_def bind_eq_Some_conv)
  show ?thesis using assms(1) unfolding avr_cmd_def c bind.bind_lunit
    using assms(2) by (auto split: if_splits intro: cmd_oks [OF _ assms(2)] clr_ok [OF assms(2)] ok_ios(6,7) reset_ok)
qed


end
