(* ===== verification/AvrShow.thy ===== *)
theory AvrShow
  imports AvrLcd
begin

text \<open>
  What the messages to the display program do: how a message gets into its buffer, and what stands on the screen when it
  was carried out, for labels, times, strings, states and typed characters; and the state \<open>main\<close> starts with.
\<close>

section \<open>Messages\<close>

lemma avr_run_append: "avr_run bl (xs @ ys) s = do { s \<leftarrow> avr_run bl xs s; avr_run bl ys s }"
proof (induction xs arbitrary: s)
  case (Cons x xs)
  then show ?case by (cases "avr_step bl x s") simp_all
qed simp

lemma run_fill:
  assumes "length (a_buff s) = 30" "chptr s = int p" "p + length m \<le> 30" "AVR_START_BYTE \<notin> set m"
  shows "avr_run bl m s = Some (s\<lparr>a_buff := take p (a_buff s) @ m @ drop (p + length m) (a_buff s), chptr := int (p + length m)\<rparr>)"
  using assms
proof (induction m arbitrary: s p)
  case Nil
  then show ?case by (cases s) simp
next
  case (Cons k m)
  let ?b = "(a_buff s)[p := k]"
  have st: "avr_step bl k s = Some (s\<lparr>a_buff := ?b, chptr := int (p + 1)\<rparr>)"
    using Cons.prems by (auto simp: avr_step_def aset_def)
  have b: "take (p + 1) ?b = take p (a_buff s) @ [k]" "drop (p + 1 + length m) ?b = drop (p + length (k # m)) (a_buff s)"
    using Cons.prems by (simp_all add: take_Suc_conv_app_nth)
  show ?case
    using Cons.IH [of "s\<lparr>a_buff := ?b, chptr := int (p + 1)\<rparr>" "p + 1"] Cons.prems b by (simp add: st)
qed

lemma run_message:
  assumes "a_ok s" "chptr s = 0" "AVR_START_BYTE \<notin> set m" "length m < 30"
  shows "avr_run bl (m @ [AVR_START_BYTE]) s = do {
     s \<leftarrow> avr_cmd bl (s\<lparr>a_buff := m @ AVR_START_BYTE # drop (length m + 1) (a_buff s), chptr := int (length m) + 1\<rparr>);
     Some (s\<lparr>chptr := 0, a_sent := a_sent s @ [AVR_END_BYTE]\<rparr>)
   }"
proof -
  have l: "length (a_buff s) = 30" using assms(1) by (simp add: a_ok_def)
  have f: "avr_run bl m s = Some (s\<lparr>a_buff := m @ drop (length m) (a_buff s), chptr := int (length m)\<rparr>)"
    using run_fill [OF l, of 0 m bl] assms by simp
  have u: "(m @ drop (length m) (a_buff s))[length m := AVR_START_BYTE] = m @ AVR_START_BYTE # drop (length m + 1) (a_buff s)"
    using assms(4) l by (simp add: list_update_append) (metis Cons_nth_drop_Suc list_update_code(2))
  show ?thesis using assms(4) l by (simp add: avr_run_append f avr_step_def aset_def u bind_assoc)
qed

text \<open>
  The message buffer. A message of at least 30 bytes before its end byte is written past \<open>buff\<close>; one of at most 29
  is the argument of the command it names.
\<close>

theorem message_overflow:
  assumes "a_ok s" "chptr s = 0" "AVR_START_BYTE \<notin> set m" "30 \<le> length m"
  shows "avr_run bl (m @ [AVR_START_BYTE]) s = None"
proof -
  have l: "length (a_buff s) = 30" using assms(1) by (simp add: a_ok_def)
  obtain k q where k: "drop 30 m @ [AVR_START_BYTE] = k # q" by (cases "drop 30 m @ [AVR_START_BYTE]") auto
  have m: "m @ [AVR_START_BYTE] = take 30 m @ k # q" using k by (metis append_assoc append_take_drop_id)
  have n: "AVR_START_BYTE \<notin> set (take 30 m)" using assms(3) by (auto dest: in_set_takeD)
  have f: "avr_run bl (take 30 m) s = Some (s\<lparr>a_buff := take 30 m, chptr := 30\<rparr>)"
    using run_fill [OF l _ _ n, of 0 bl] assms l by simp
  show ?thesis unfolding m avr_run_append f using assms(4) by (simp add: avr_step_def aset_def)
qed

section \<open>What commands show\<close>

definition cells :: "t6963 \<Rightarrow> avr \<Rightarrow> u16 \<Rightarrow> u8" where
  "cells t s = t_ram (screen t (a_io s))"

text \<open>A display program in shape, whose controller takes single characters.\<close>

definition lcd_ok :: "t6963 \<Rightarrow> avr \<Rightarrow> bool" where
  "lcd_ok t s \<longleftrightarrow> a_ok s \<and> \<not> t_auto (screen t (a_io s))"

lemma screen_on_io:
  "sends bs f \<Longrightarrow> a_ok s \<Longrightarrow> screen t (a_io (on_io f s)) = run_bytes bs (screen t (a_io s))"
  by (simp add: on_io_def a_ok_def sends_def screen_def run_bytes_def)

lemma on_io_eq: "on_io f s = s\<lparr>a_io := a_io (on_io f s)\<rparr>"
  by (simp add: on_io_def)

lemma show_spec:
  assumes "lcd_ok t s" "a_str s = xs @ 0 # rest" "0 \<notin> set xs"
  obtains io where "show_str row col s = Some (s\<lparr>a_io := io\<rparr>)" "lcd_ok t (s\<lparr>a_io := io\<rparr>)"
    "cells t (s\<lparr>a_io := io\<rparr>) = draw (cell_addr row col) xs (cells t s)"
proof -
  have l: "length xs \<le> 100" and r: "ready (a_io s)" using assms(1,2) by (simp_all add: lcd_ok_def a_ok_def)
  obtain io where io: "GDispStringAt row col (xs @ 0 # rest) (a_io s) = Some (int (length xs), io)" "ready io"
    "bus io = bus (a_io s) @ string_bytes row col 0 xs"
    using sends_string [OF assms(3) l r] .
  have sc: "screen t io = run_bytes (string_bytes row col 0 xs) (screen t (a_io s))" by (rule screen_sent [OF io(3)])
  show ?thesis
    by (rule that [of io]) (use assms(1) io(1,2) run_string [of "screen t (a_io s)" row col 0 xs]
      in \<open>simp_all add: show_str_def assms(2) lcd_ok_def a_ok_def cells_def sc\<close>)
qed

lemma goto_blank:
  assumes "lcd_ok t s"
  shows "lcd_ok t (blank n (on_io (GDispGoto row col) s))"
    "cells t (blank n (on_io (GDispGoto row col) s)) = draw (cell_addr row col) (replicate n 0x20) (cells t s)"
    "blank n (on_io (GDispGoto row col) s) = s\<lparr>a_io := a_io (blank n (on_io (GDispGoto row col) s))\<rparr>"
proof -
  let ?s1 = "on_io (GDispGoto row col) s"
  have a: "a_ok s" "\<not> t_auto (screen t (a_io s))" using assms by (simp_all add: lcd_ok_def)
  have ok1: "a_ok ?s1" by (rule ok_ios(3) [OF a(1)])
  have s1: "screen t (a_io ?s1) = run_bytes (goto_bytes row col) (screen t (a_io s))" by (rule screen_on_io [OF sends_goto a(1)])
  have rep: "concat (replicate n (char_bytes 0x20)) = concat (map char_bytes (replicate n 0x20))" by simp
  have s2: "screen t (a_io (blank n ?s1)) = run_bytes (concat (map char_bytes (replicate n 0x20))) (screen t (a_io ?s1))"
    unfolding blank_def using screen_on_io [OF sends_repeat [OF sends_char] ok1] by simp
  note g = run_goto [OF a(2), of row col]
  show "lcd_ok t (blank n ?s1)" using ready_blank [OF ok1] run_chars [of "screen t (a_io ?s1)" "replicate n 0x20"] g(3)
    unfolding lcd_ok_def s2 unfolding s1 by blast
  show "cells t (blank n ?s1) = draw (cell_addr row col) (replicate n 0x20) (cells t s)"
    using run_chars [of "screen t (a_io ?s1)" "replicate n 0x20"] g unfolding cells_def s2 s1 by simp
  show "blank n ?s1 = s\<lparr>a_io := a_io (blank n ?s1)\<rparr>" by (simp add: blank_def on_io_def)
qed

text \<open>Text over a cleared field, cell by cell.\<close>

definition field :: "u16 \<Rightarrow> u8 list \<Rightarrow> nat \<Rightarrow> (u16 \<Rightarrow> u8) \<Rightarrow> u16 \<Rightarrow> u8" where
  "field a xs n m b = (let i = unat (b - a) in if i < length xs then xs ! i - 0x20 else if i < n then 0 else m b)"

lemma draw_field: "length xs \<le> 65536 \<Longrightarrow> n \<le> 65536 \<Longrightarrow> draw a xs (draw a (replicate n 0x20) m) = field a xs n m"
  by (rule ext) (simp add: draw_at field_def Let_def)

lemma draw_field0: "length xs \<le> 65536 \<Longrightarrow> draw a xs m = field a xs 0 m"
  by (rule ext) (simp add: draw_at field_def Let_def)

lemma lcd_fields [simp]: "lcd_ok t (s\<lparr>a_row := r\<rparr>) = lcd_ok t s" "lcd_ok t (s\<lparr>a_col := c\<rparr>) = lcd_ok t s"
  "lcd_ok t (s\<lparr>a_sent := x\<rparr>) = lcd_ok t s" "lcd_ok t (s\<lparr>chptr := p\<rparr>) = lcd_ok t s"
  "cells t (s\<lparr>a_row := r\<rparr>) = cells t s" "cells t (s\<lparr>a_col := c\<rparr>) = cells t s"
  "cells t (s\<lparr>a_sent := x\<rparr>) = cells t s" "cells t (s\<lparr>chptr := p\<rparr>) = cells t s"
  "cells t (s\<lparr>a_str := u\<rparr>) = cells t s" "cells t (s\<lparr>a_buff := v\<rparr>) = cells t s"
  by (simp_all add: lcd_ok_def cells_def)

lemma lcd_arrays [simp]: "length u = 30 \<Longrightarrow> lcd_ok t s \<Longrightarrow> lcd_ok t (s\<lparr>a_str := u\<rparr>)"
  "length v = 30 \<Longrightarrow> lcd_ok t s \<Longrightarrow> lcd_ok t (s\<lparr>a_buff := v\<rparr>)"
  by (simp_all add: lcd_ok_def a_ok_def)

text \<open>A message that was carried out: answered, the interpreter ready for the next, the cells as given.\<close>

definition answered :: "t6963 \<Rightarrow> avr \<Rightarrow> avr \<Rightarrow> (u16 \<Rightarrow> u8) \<Rightarrow> bool" where
  "answered t s s' m \<longleftrightarrow> lcd_ok t s' \<and> chptr s' = 0 \<and> a_sent s' = a_sent s @ [AVR_END_BYTE] \<and> a_eeprom s' = a_eeprom s \<and> cells t s' = m"

definition with_message :: "u8 list \<Rightarrow> avr \<Rightarrow> avr" where
  "with_message m s = s\<lparr>a_buff := m @ AVR_START_BYTE # drop (length m + 1) (a_buff s), chptr := int (length m) + 1\<rparr>"

lemma with_message:
  assumes "lcd_ok t s" "length m < 30"
  shows "lcd_ok t (with_message m s)" "cells t (with_message m s) = cells t s" "a_sent (with_message m s) = a_sent s"
    "a_eeprom (with_message m s) = a_eeprom s" "a_row (with_message m s) = a_row s" "a_col (with_message m s) = a_col s"
    "i < length m \<Longrightarrow> aget (a_buff (with_message m s)) (int i) = Some (m ! i)"
  using assms by (simp_all add: with_message_def lcd_ok_def a_ok_def cells_def aget_def nth_append)

lemma message_answered:
  assumes "lcd_ok t s" "chptr s = 0" "AVR_START_BYTE \<notin> set m" "length m < 30"
    and "\<exists>s1. avr_cmd bl (with_message m s) = Some s1 \<and> lcd_ok t s1 \<and> a_sent s1 = a_sent s \<and> a_eeprom s1 = a_eeprom s \<and> cells t s1 = x"
  shows "\<exists>s'. avr_run bl (m @ [AVR_START_BYTE]) s = Some s' \<and> answered t s s' x"
  using assms run_message [OF _ assms(2-4), of bl] by (auto simp: lcd_ok_def answered_def with_message_def a_ok_def cells_def)

lemma message_undefined:
  assumes "lcd_ok t s" "chptr s = 0" "AVR_START_BYTE \<notin> set m" "length m < 30" "avr_cmd bl (with_message m s) = None"
  shows "avr_run bl (m @ [AVR_START_BYTE]) s = None"
  using assms run_message [OF _ assms(2-4), of bl] by (simp add: lcd_ok_def with_message_def)

lemma arg_eq: "aget (a_buff s) i = Some b \<Longrightarrow> arg i s = Some (ucast b)"
  by (simp add: arg_def)

lemma value_shown:
  assumes "lcd_ok t s" "length str < 30" "0 \<notin> set (bytes_of str)" "aget (a_buff s) 1 = Some r" "aget (a_buff s) 2 = Some c"
  shows "\<exists>s1. do { s \<leftarrow> print_str str s; row \<leftarrow> arg 1 s; col \<leftarrow> arg 2 s; show_str row col s } = Some s1 \<and> lcd_ok t s1 \<and>
    a_sent s1 = a_sent s \<and> a_eeprom s1 = a_eeprom s \<and> cells t s1 = field (cell_addr (ucast r) (ucast c)) (bytes_of str) 0 (cells t s)"
proof -
  define u where "u = bytes_of str @ 0 # drop (Suc (length str)) (a_str s)"
  have l: "length (a_str s) = 30" using assms(1) by (simp add: lcd_ok_def a_ok_def)
  have p: "print_str str s = Some (s\<lparr>a_str := u\<rparr>)" using assms(2) by (simp add: print_str_def cstr_into_def l u_def)
  have ok: "lcd_ok t (s\<lparr>a_str := u\<rparr>)" using assms(1,2) l by (simp add: u_def)
  obtain io where io: "show_str (ucast r) (ucast c) (s\<lparr>a_str := u\<rparr>) = Some (s\<lparr>a_str := u, a_io := io\<rparr>)"
    "lcd_ok t (s\<lparr>a_str := u, a_io := io\<rparr>)"
    "cells t (s\<lparr>a_str := u, a_io := io\<rparr>) = draw (cell_addr (ucast r) (ucast c)) (bytes_of str) (cells t (s\<lparr>a_str := u\<rparr>))"
    by (rule show_spec [OF ok _ assms(3), of "drop (Suc (length str)) (a_str s)" "ucast r" "ucast c"]) (simp_all add: u_def)
  have a: "arg 1 (s\<lparr>a_str := u\<rparr>) = Some (ucast r)" "arg 2 (s\<lparr>a_str := u\<rparr>) = Some (ucast c)"
    using assms(4,5) by (simp_all add: arg_def)
  show ?thesis using io draw_field0 [of "bytes_of str"] assms(2) by (simp add: p a)
qed

lemma no_nul: "0 \<notin> set (bytes_of (dec_nat n))" "0 \<notin> set (bytes_of (dec2 n))"
  using dec_nat_digits [of n] by (auto simp: is_digit_def dec2_def bytes_of_def)

lemma unat_two_bytes: "unat (push_bit 8 (ucast hi) OR ucast lo :: u16) = unat hi * 256 + unat lo" for hi lo :: u8
proof -
  have h: "unat hi < 256" "unat lo < 256" using unsigned_less [of hi] unsigned_less [of lo] by simp_all
  have "push_bit 8 (ucast hi) OR ucast lo = (push_bit 8 (ucast hi) + ucast lo :: u16)"
    by (rule disjunctive_add [symmetric]) (auto simp: bit_simps dest: bit_imp_le_length)
  then show ?thesis using h
    by (simp add: push_bit_eq_mult unat_word_ariths unsigned_ucast_eq take_bit_eq_mod)
qed

definition hms :: "nat \<Rightarrow> string" where
  "hms v = dec2 (v div 3600) @ '':'' @ dec2 (v mod 3600 div 60) @ '':'' @ dec2 (v mod 60)"

lemma elapsed_eq:
  assumes "int_arg s = Some u"
  shows "avr_elapsed s = (if 36000 \<le> unat u then None
    else do { s \<leftarrow> print_str (hms (unat u)) s; row \<leftarrow> arg 1 s; col \<leftarrow> arg 2 s; show_str row col s })"
proof -
  define v where "v = unat u"
  have "10 \<le> v div 3600 \<longleftrightarrow> 36000 \<le> v" using less_eq_div_iff_mult_less_eq [of 3600 10 v] by simp
  then have hr: "3600 * (v div 3600) > 32767 \<longleftrightarrow> 36000 \<le> v" by linarith
  have mi: "v - 3600 * (v div 3600) = v mod 3600" by (simp add: minus_mult_div_eq_mod)
  have sec: "v mod 3600 - v mod 3600 div 60 * 60 = v mod 60"
    using mod_mod_cancel [of 60 3600 v] by (simp add: minus_div_mult_eq_mod)
  show ?thesis
    unfolding avr_elapsed_def assms bind.bind_lunit Let_def v_def [symmetric] hr mi sec hms_def ..
qed

lemma hms_short: "v < 36000 \<Longrightarrow> length (hms v) = 8"
  using dec2_digits [of "v div 3600"] dec2_digits [of "v mod 3600 div 60"] dec2_digits [of "v mod 60"]
  by (auto simp: hms_def)

lemma hms_text: "0 \<notin> set (bytes_of (hms v))"
  using no_nul unfolding hms_def bytes_of_append by (simp add: bytes_of_def)

lemma value_args:
  assumes "lcd_ok t s" "i < 5"
  shows "aget (a_buff (with_message [c, r, k, hi, lo] s)) (int i) = Some ([c, r, k, hi, lo] ! i)"
  by (rule with_message(7) [OF assms(1)]) (use assms(2) in simp_all)

lemma five_args:
  assumes "lcd_ok t s"
  shows "aget (a_buff (with_message [c, r, k, hi, lo] s)) 0 = Some c" "aget (a_buff (with_message [c, r, k, hi, lo] s)) 1 = Some r"
    "aget (a_buff (with_message [c, r, k, hi, lo] s)) 2 = Some k" "aget (a_buff (with_message [c, r, k, hi, lo] s)) 3 = Some hi"
    "aget (a_buff (with_message [c, r, k, hi, lo] s)) 4 = Some lo"
  using value_args [OF assms, of 0] value_args [OF assms, of 1] value_args [OF assms, of 2] value_args [OF assms, of 3]
    value_args [OF assms, of 4] by simp_all

text \<open>A command that prints into \<open>str\<close> and shows it at the place of the message.\<close>

lemma value_message:
  assumes "lcd_ok t s" "chptr s = 0" "AVR_START_BYTE \<notin> set [c, r, k, hi, lo]" "length str < 30" "0 \<notin> set (bytes_of str)"
    "avr_cmd bl (with_message [c, r, k, hi, lo] s) =
       do { s \<leftarrow> print_str str (with_message [c, r, k, hi, lo] s); row \<leftarrow> arg 1 s; col \<leftarrow> arg 2 s; show_str row col s }"
  shows "\<exists>s'. avr_run bl ([c, r, k, hi, lo] @ [AVR_START_BYTE]) s = Some s' \<and>
    answered t s s' (field (cell_addr (ucast r) (ucast k)) (bytes_of str) 0 (cells t s))"
proof -
  have l: "length [c, r, k, hi, lo] < 30" by simp
  note w = with_message [OF assms(1) l]
  show ?thesis
    by (rule message_answered [OF assms(1,2,3) l])
      (use value_shown [OF w(1) assms(4,5) five_args(2,3) [OF assms(1)]] assms(6) w(2-4) in simp)
qed

text \<open>
  Elapsed time. \<open>DISPLAY_ELAPSED_TIME\<close> shows a number of seconds below ten hours as hours, minutes and
  seconds at the row and column of the message and changes no other cell; from ten hours on the product \<open>3600*hr\<close>
  overflows the 16-bit \<open>int\<close>.
\<close>

theorem elapsed_time:
  assumes "lcd_ok t s" "chptr s = 0" "AVR_START_BYTE \<notin> {r, c, hi, lo}" "v = unat hi * 256 + unat lo"
  shows "if 36000 \<le> v then avr_run bl ([21, r, c, hi, lo] @ [AVR_START_BYTE]) s = None
    else \<exists>s'. avr_run bl ([21, r, c, hi, lo] @ [AVR_START_BYTE]) s = Some s' \<and>
      answered t s s' (field (cell_addr (ucast r) (ucast c))
        (bytes_of (dec2 (v div 3600) @ '':'' @ dec2 (v mod 3600 div 60) @ '':'' @ dec2 (v mod 60))) 0 (cells t s))"
proof -
  have m: "AVR_START_BYTE \<notin> set [21, r, c, hi, lo]" "length [21, r, c, hi, lo] < 30" using assms(3) by auto
  note g = five_args [OF assms(1), of 21 r c hi lo]
  have i: "int_arg (with_message [21, r, c, hi, lo] s) = Some (push_bit 8 (ucast hi) OR ucast lo)" by (simp add: int_arg_def g)
  have c: "avr_cmd bl (with_message [21, r, c, hi, lo] s) = avr_elapsed (with_message [21, r, c, hi, lo] s)"
    by (simp add: avr_cmd_def g)
  note e = c [unfolded elapsed_eq [OF i] unat_two_bytes assms(4) [symmetric]]
  show ?thesis
  proof (cases "36000 \<le> v")
    case True
    then show ?thesis using message_undefined [OF assms(1,2) m] e by simp
  next
    case False
    then have "\<exists>s'. avr_run bl ([21, r, c, hi, lo] @ [AVR_START_BYTE]) s = Some s' \<and>
      answered t s s' (field (cell_addr (ucast r) (ucast c)) (bytes_of (hms v)) 0 (cells t s))"
      by (intro value_message [OF assms(1,2) m(1) _ hms_text]) (use hms_short [of v] e in simp_all)
    then show ?thesis using False unfolding hms_def by simp
  qed
qed

lemma label_shown:
  assumes "lcd_ok t s" "a_eeprom s = table ls @ q" "\<forall>l \<in> set ls. l \<noteq> [] \<and> 0 \<notin> set l \<and> length l < 30" "2 \<le> n" "n \<le> length ls"
    "k \<le> 65536"
  shows "\<exists>s1. do { s \<leftarrow> label_str n s; let s = on_io (GDispGoto row col) s; let s = blank k s; show_str row col s } = Some s1 \<and>
    lcd_ok t s1 \<and> a_sent s1 = a_sent s \<and> a_eeprom s1 = a_eeprom s \<and>
    cells t s1 = field (cell_addr row col) (ls ! (n - 1)) k (cells t s)"
proof -
  define l where "l = ls ! (n - 1)"
  have l: "0 \<notin> set l" "length l < 30" using assms(3,4,5) by (simp_all add: l_def)
  define s0 where "s0 = s\<lparr>a_str := padded l\<rparr>"
  have lab: "label_str n s = Some s0" using lookup_label [OF assms(3-5)] by (simp add: label_str_def assms(2) s0_def l_def)
  have n30: "30 - length l = Suc (29 - length l)" using l(2) by linarith
  have p: "padded l = l @ 0 # replicate (29 - length l) 0" unfolding padded_def n30 by simp
  have ok0: "lcd_ok t s0" using assms(1) l(2) by (simp add: s0_def padded_def)
  define s1 where "s1 = blank k (on_io (GDispGoto row col) s0)"
  note gb = goto_blank [OF ok0, of k row col, folded s1_def]
  have st: "a_str s1 = padded l" "a_sent s1 = a_sent s" "a_eeprom s1 = a_eeprom s" 
    using arg_cong [OF gb(3), of a_str] arg_cong [OF gb(3), of a_sent] arg_cong [OF gb(3), of a_eeprom] by (simp_all add: s0_def)
  obtain io where io: "show_str row col s1 = Some (s1\<lparr>a_io := io\<rparr>)" "lcd_ok t (s1\<lparr>a_io := io\<rparr>)"
    "cells t (s1\<lparr>a_io := io\<rparr>) = draw (cell_addr row col) l (cells t s1)"
    by (rule show_spec [OF gb(1) st(1) [unfolded p] l(1), of row col])
  have c: "cells t s0 = cells t s" by (simp add: s0_def)
  show ?thesis unfolding lab bind.bind_lunit Let_def s1_def [symmetric]
    by (rule exI [of _ "s1\<lparr>a_io := io\<rparr>"]) (use io st l(2) assms(6) in \<open>simp add: gb(2) c draw_field l_def\<close>)
qed

lemma label_cmd:
  assumes "lcd_ok t s" and s1: "s1 = (with_message [9, r, c, n, k] s)\<lparr>a_row := ucast r, a_col := ucast c\<rparr>"
  shows "avr_cmd bl (with_message [9, r, c, n, k] s) = (if n = 0 \<or> 36 < n then Some s1 else do {
      s \<leftarrow> label_str (unat n) s1;
      let s = on_io (GDispGoto (ucast r) (ucast c)) s;
      let s = blank (unat k + 1) s;
      show_str (ucast r) (ucast c) s })"
proof -
  have n: "n > 0 \<and> n < 36 + 1 \<longleftrightarrow> \<not> (n = 0 \<or> 36 < n)" by (auto simp: word_less_nat_alt unat_eq_zero [symmetric] simp del: unat_eq_zero)
  have "avr_cmd bl (with_message [9, r, c, n, k] s) = (if n > 0 \<and> n < 36 + 1 then do {
      s \<leftarrow> label_str (unat n) s1;
      let s = on_io (GDispGoto (ucast r) (ucast c)) s;
      let s = blank (unat k + 1) s;
      show_str (ucast r) (ucast c) s } else Some s1)"
    by (simp add: avr_cmd_def five_args [OF assms(1)] avr_eeprom_str_def arg_def s1 Let_def)
  then show ?thesis unfolding n by simp
qed

lemma labels_burnt:
  assumes "burn (map bytes_of menu_labels) old = Some e"
  shows "e = table (map bytes_of menu_labels) @ drop (length (table (map bytes_of menu_labels))) old"
  using assms burn_table [OF menu_labels_ok(2), of old] by simp


section \<open>Typing\<close>

text \<open>The cursor of the program as a number of the 640 cells, and characters typed from a cell on, with wrap-around.\<close>

definition cursor :: "avr \<Rightarrow> nat" where
  "cursor s = unat (a_row s) * 40 + unat (a_col s)"

definition cursor_ok :: "avr \<Rightarrow> bool" where
  "cursor_ok s \<longleftrightarrow> a_row s < 16 \<and> a_col s < 40"

fun type_from :: "nat \<Rightarrow> u8 list \<Rightarrow> (u16 \<Rightarrow> u8) \<Rightarrow> u16 \<Rightarrow> u8" where
  "type_from p [] m = m"
| "type_from p (c # cs) m = type_from ((p + 1) mod 640) cs (m(word_of_nat p := c - 0x20))"

lemma cursor_cell: "cursor_ok s \<Longrightarrow> cell_addr (a_row s) (a_col s) = word_of_nat (cursor s)"
  by (simp add: cell_addr_def cursor_def)

lemma advance:
  assumes "cursor_ok s"
  defines "s1 \<equiv> s\<lparr>a_col := a_col s + 1\<rparr>"
  defines "s2 \<equiv> (if a_col s1 > 39 then (if a_row s1 + 1 > 15 then s1\<lparr>a_col := 0, a_row := 0\<rparr> else s1\<lparr>a_col := 0, a_row := a_row s1 + 1\<rparr>) else s1)"
  shows "cursor_ok s2 \<and> cursor s2 = (cursor s + 1) mod 640"
proof -
  have r: "unat (a_row s) < 16" "unat (a_col s) < 40" using assms(1) by (simp_all add: cursor_ok_def word_less_nat_alt)
  have u: "unat (a_row s + 1) = unat (a_row s) + 1" "unat (a_col s + 1) = unat (a_col s) + 1"
    using r by (simp_all add: unat_word_ariths)
  have e: "unat (a_row s) = 15 \<or> unat (a_row s) < 15" "unat (a_col s) = 39 \<or> unat (a_col s) < 39" using r by linarith+
  show ?thesis using e u unfolding s2_def s1_def cursor_ok_def cursor_def by (elim disjE) (simp_all add: word_less_nat_alt)
qed

lemma char_typed:
  assumes "lcd_ok t s" "chptr s = 0" "cursor_ok s" "0x20 \<le> c" "c < 0x7F"
  shows "\<exists>s'. avr_run bl [2, c, AVR_START_BYTE] s = Some s' \<and>
    answered t s s' ((cells t s)(word_of_nat (cursor s) := c - 0x20)) \<and> cursor_ok s' \<and> cursor s' = (cursor s + 1) mod 640"
proof -
  have c: "c > 0x1F" "c \<noteq> AVR_START_BYTE" using assms(4,5) by (auto simp: word_less_nat_alt word_le_nat_alt)
  have m: "AVR_START_BYTE \<notin> set [2, c]" "length [2, c] < 30" using c(2) by auto
  note w = with_message [OF assms(1) m(2)]
  have g: "aget (a_buff (with_message [2, c] s)) 0 = Some 2" "aget (a_buff (with_message [2, c] s)) 1 = Some c"
    using w(7) [of 0] w(7) [of 1] by simp_all
  define s1 where "s1 = on_io (GDispCharAt (a_row s) (a_col s) c) (with_message [2, c] s)"
  define s2 where "s2 = s1\<lparr>a_col := a_col s1 + 1\<rparr>"
  define s3 where "s3 = (if a_col s2 > 39 then (if a_row s2 + 1 > 15 then s2\<lparr>a_col := 0, a_row := 0\<rparr> else s2\<lparr>a_col := 0, a_row := a_row s2 + 1\<rparr>) else s2)"
  have run: "avr_cmd bl (with_message [2, c] s) = Some s3"
    using c(1) assms(5) w(5,6) by (simp add: avr_cmd_def g avr_char_def Let_def s3_def s2_def s1_def)
  have a: "a_ok (with_message [2, c] s)" "\<not> t_auto (screen t (a_io (with_message [2, c] s)))" using w(1) by (simp_all add: lcd_ok_def)
  have sc: "screen t (a_io s1) = run_bytes (char_at_bytes (a_row s) (a_col s) c) (screen t (a_io (with_message [2, c] s)))"
    unfolding s1_def by (rule screen_on_io [OF sends_char_at a(1)])
  have ok1: "lcd_ok t s1" using ready_on_io [OF sends_char_at a(1)] run_char_at(2) [OF a(2)] sc by (simp add: lcd_ok_def s1_def)
  have cell1: "cells t s1 = (cells t s)(word_of_nat (cursor s) := c - 0x20)"
    using run_char_at(1) [OF a(2)] sc w(2) cursor_cell [OF assms(3)] by (simp add: cells_def)
  have f1: "a_row s1 = a_row s" "a_col s1 = a_col s" "a_sent s1 = a_sent s" "a_eeprom s1 = a_eeprom s"
    using w(3-6) by (simp_all add: s1_def on_io_def)
  have cur: "cursor_ok s3 \<and> cursor s3 = (cursor s1 + 1) mod 640" unfolding s3_def s2_def
    by (rule advance) (use assms(3) f1 in \<open>simp add: cursor_ok_def\<close>)
  have f3: "lcd_ok t s3" "cells t s3 = cells t s1" "a_sent s3 = a_sent s1" "a_eeprom s3 = a_eeprom s1"
    using ok1 by (simp_all add: s3_def s2_def)
  show ?thesis using run_message [OF _ assms(2) m, of bl] run assms(1) f3 f1 cur cell1
    by (simp add: lcd_ok_def with_message_def answered_def a_ok_def cells_def cursor_def cursor_ok_def)
qed

lemma type_from_at:
  assumes "length cs \<le> 640" "p < 640" "q < 640"
  shows "type_from p cs m (word_of_nat q) = (if (q + 640 - p) mod 640 < length cs then cs ! ((q + 640 - p) mod 640) - 0x20 else m (word_of_nat q))"
  using assms
proof (induction cs arbitrary: p m)
  case (Cons c cs)
  define d where "d = (q + 640 - p) mod 640"
  have inj: "(word_of_nat q = (word_of_nat p :: u16)) \<longleftrightarrow> q = p"
    using Cons.prems by (simp add: word_of_nat_eq_iff take_bit_eq_mod)
  have IH: "type_from ((p + 1) mod 640) cs (m(word_of_nat p := c - 0x20)) (word_of_nat q) =
      (if (q + 640 - (p + 1) mod 640) mod 640 < length cs then cs ! ((q + 640 - (p + 1) mod 640) mod 640) - 0x20
       else (m(word_of_nat p := c - 0x20)) (word_of_nat q))"
    using Cons.prems by (intro Cons.IH) simp_all
  show ?case
  proof (cases "q = p")
    case True
    then have "(q + 640 - (p + 1) mod 640) mod 640 = 639" using Cons.prems(2) by (cases "p = 639") simp_all
    then show ?thesis using IH Cons.prems(1) True by simp
  next
    case False
    then have "d = Suc ((q + 640 - (p + 1) mod 640) mod 640)" unfolding d_def using Cons.prems(2,3)
      by (cases "p = 639"; cases "q < p") (auto simp: mod_if)
    then show ?thesis using IH False inj by (simp add: d_def [symmetric])
  qed
qed simp

lemma typed_run:
  assumes "lcd_ok t s" "chptr s = 0" "cursor_ok s" "\<forall>c \<in> set cs. 0x20 \<le> c \<and> c < 0x7F"
  shows "\<exists>s'. avr_run bl (concat (map (\<lambda>c. [2, c, AVR_START_BYTE]) cs)) s = Some s' \<and> lcd_ok t s' \<and> chptr s' = 0 \<and>
    cursor_ok s' \<and> cursor s' = (cursor s + length cs) mod 640 \<and> a_sent s' = a_sent s @ replicate (length cs) AVR_END_BYTE \<and>
    cells t s' = type_from (cursor s) cs (cells t s)"
  using assms
proof (induction cs arbitrary: s)
  case Nil
  have "cursor s < 640" using Nil(3) by (simp add: cursor_def cursor_ok_def word_less_nat_alt)
  then show ?case using Nil by simp
next
  case (Cons c cs)
  have c: "0x20 \<le> c" "c < 0x7F" using Cons.prems(4) by simp_all
  obtain s1 where s1: "avr_run bl [2, c, AVR_START_BYTE] s = Some s1"
    "answered t s s1 ((cells t s)(word_of_nat (cursor s) := c - 0x20))" "cursor_ok s1" "cursor s1 = (cursor s + 1) mod 640"
    using char_typed [OF Cons.prems(1-3) c, of bl] by blast
  have a: "lcd_ok t s1" "chptr s1 = 0" using s1(2) by (simp_all add: answered_def)
  obtain s' where s': "avr_run bl (concat (map (\<lambda>c. [2, c, AVR_START_BYTE]) cs)) s1 = Some s'" "lcd_ok t s'" "chptr s' = 0"
    "cursor_ok s'" "cursor s' = (cursor s1 + length cs) mod 640" "a_sent s' = a_sent s1 @ replicate (length cs) AVR_END_BYTE"
    "cells t s' = type_from (cursor s1) cs (cells t s1)"
    using Cons.IH [OF a s1(3)] Cons.prems(4) by auto
  have r: "avr_run bl (concat (map (\<lambda>c. [2, c, AVR_START_BYTE]) (c # cs))) s = Some s'"
    unfolding list.map concat.simps avr_run_append s1(1) bind.bind_lunit by (rule s'(1))
  have k: "(((cursor s + 1) mod 640) + length cs) mod 640 = (cursor s + length (c # cs)) mod 640" by (simp add: mod_simps)
  show ?case using r s' s1 k by (intro exI [of _ s']) (simp add: answered_def)
qed

text \<open>
  Typing. From a cursor on the screen, at most 640 messages \<open>CHAR_CMD\<close> with printable characters show them in reading
  order from the cursor on, wrapping from the end of a line to the next and from the last cell to the first, and change no
  other cell; the cursor stays on the screen and every message is answered.
\<close>

theorem typed_text:
  assumes "lcd_ok t s" "chptr s = 0" "cursor_ok s" "\<forall>c \<in> set cs. 0x20 \<le> c \<and> c < 0x7F" "length cs \<le> 640" "q < 640"
  shows "\<exists>s'. avr_run bl (concat (map (\<lambda>c. [2, c, AVR_START_BYTE]) cs)) s = Some s' \<and> chptr s' = 0 \<and> cursor_ok s' \<and>
    cursor s' = (cursor s + length cs) mod 640 \<and> a_sent s' = a_sent s @ replicate (length cs) AVR_END_BYTE \<and>
    cells t s' (word_of_nat q) = (let d = (q + 640 - cursor s) mod 640 in if d < length cs then cs ! d - 0x20 else cells t s (word_of_nat q))"
proof -
  have p: "cursor s < 640" using assms(3) by (simp add: cursor_def cursor_ok_def word_less_nat_alt)
  show ?thesis using typed_run [OF assms(1-4), of bl] type_from_at [OF assms(5) p assms(6)] by (auto simp: Let_def)
qed

section \<open>Strings and states of the truck\<close>

lemma copy_str_run:
  assumes "i < k" "k \<le> 26" "length b = 30" "length str = 30" "\<forall>j. i < j \<and> j < k \<longrightarrow> b ! j \<noteq> 0" "b ! k = 0"
  shows "copy_str i b str = Some (k, take i str @ take (k - i) (drop (i + 3) b) @ drop k str)"
  using assms
proof (induction "k - i" arbitrary: i str)
  case (Suc d)
  define str1 where "str1 = str[i := b ! (i + 3)]"
  have i: "i < 30" "i + 3 < 30" "i + 1 < 30" using Suc.prems by simp_all
  have a: "aget b (int i + 3) = Some (b ! (i + 3))" "aset str (int i) (b ! (i + 3)) = Some str1" "aget b (int (i + 1)) = Some (b ! (i + 1))"
    using i Suc.prems(3,4) by (simp_all add: aget_def aset_def str1_def nat_add_distrib)
  have step: "copy_str i b str = (if b ! (i + 1) \<noteq> 0 then copy_str (i + 1) b str1 else Some (i + 1, str1))"
    by (subst copy_str.simps) (use i a in \<open>simp add: Let_def\<close>)
  have t: "take (i + 1) str1 = take i str @ [b ! (i + 3)]" "drop k str1 = drop k str"
    using i Suc.prems by (simp_all add: str1_def take_Suc_conv_app_nth)
  have u: "take (k - i) (drop (i + 3) b) = b ! (i + 3) # take (k - (i + 1)) (drop (i + 1 + 3) b)"
    using Suc.prems i by (simp add: Cons_nth_drop_Suc [symmetric] take_Cons' Suc_diff_le)
  show ?case
  proof (cases "i + 1 = k")
    case True
    then show ?thesis using step Suc.prems t u append_take_drop_id [of k str1] by simp
  next
    case False
    then have "copy_str (i + 1) b str1 = Some (k, take (i + 1) str1 @ take (k - (i + 1)) (drop (i + 1 + 3) b) @ drop k str1)"
      using Suc.prems Suc.hyps(2) by (intro Suc.hyps(1)) (simp_all add: str1_def)
    moreover have "b ! (i + 1) \<noteq> 0" using Suc.prems(1,5) False by simp
    ultimately show ?thesis using step t u by simp
  qed
qed simp

lemma string_copied:
  assumes "lcd_ok t s" "length (xs @ zs) < 24" "r \<noteq> 0" "c \<noteq> 0" "0 \<notin> set xs"
  defines "s0 \<equiv> with_message ([18, r, c] @ xs @ 0 # zs) s"
  shows "\<exists>rest. copy_str 0 (a_buff s0) (a_str s0) = Some (length xs + 3, xs @ 0 # rest) \<and> length (xs @ 0 # rest) = 30"
proof -
  let ?m = "[18, r, c] @ xs @ 0 # zs"
  let ?k = "length xs + 3"
  have "length ?m < 30" using assms(2) by simp
  then have b: "a_buff s0 = ?m @ AVR_START_BYTE # drop (length ?m + 1) (a_buff s)" "length (a_buff s0) = 30" "length (a_str s0) = 30"
    using with_message(1) [OF assms(1), of ?m] by (simp_all add: with_message_def lcd_ok_def a_ok_def s0_def)
  have nz: "\<forall>j. 0 < j \<and> j < ?k \<longrightarrow> a_buff s0 ! j \<noteq> 0"
  proof (intro allI impI)
    fix j assume j: "0 < j \<and> j < ?k"
    have "a_buff s0 ! j \<in> {r, c} \<union> set xs" using j unfolding b(1)
      by (cases j; cases "j - 1"; cases "j - 2") (auto simp: nth_append)
    then show "a_buff s0 ! j \<noteq> 0" using assms(3-5) by auto
  qed
  have bk: "a_buff s0 ! ?k = 0" unfolding b(1) by (simp add: nth_append)
  define str where "str = take ?k (drop 3 (a_buff s0)) @ drop ?k (a_str s0)"
  have "copy_str 0 (a_buff s0) (a_str s0) = Some (?k, str)"
    using copy_str_run [OF _ _ b(2,3) nz bk] assms(2) by (simp add: str_def)
  moreover have st: "str = xs @ 0 # drop (length xs + 1) str" unfolding str_def b(1) by simp
  moreover have "length str = 30" using b(2,3) assms(2) by (simp add: str_def)
  ultimately show ?thesis by metis
qed

text \<open>
  Strings. \<open>DISPLAY_STR\<close> with a row and column other than 0 and a text of at most 23 characters with its terminator
  shows the text at its place and blanks four cells behind it. (With row or column 0 the copying loop,
  which tests \<open>buff[i]\<close> for \<open>buff[i+3]\<close>, stops at the row or column.)
\<close>

theorem display_str:
  assumes "lcd_ok t s" "chptr s = 0" "AVR_START_BYTE \<notin> set ([18, r, c] @ xs @ 0 # zs)" "length (xs @ zs) < 24"
    "r \<noteq> 0" "c \<noteq> 0" "0 \<notin> set xs"
  shows "\<exists>s'. avr_run bl (([18, r, c] @ xs @ 0 # zs) @ [AVR_START_BYTE]) s = Some s' \<and>
    answered t s s' (field (cell_addr (ucast r) (ucast c)) xs (length xs + 4) (cells t s))"
proof -
  let ?m = "[18, r, c] @ xs @ 0 # zs"
  let ?k = "length xs + 3"
  define s0 where "s0 = with_message ?m s"
  have l: "length ?m < 30" using assms(4) by simp
  note w = with_message [OF assms(1) l, folded s0_def]
  have g: "aget (a_buff s0) 0 = Some 18" "aget (a_buff s0) 1 = Some r" "aget (a_buff s0) 2 = Some c"
    using w(7) [of 0] w(7) [of 1] w(7) [of 2] by simp_all
  obtain rest where cp: "copy_str 0 (a_buff s0) (a_str s0) = Some (?k, xs @ 0 # rest)" "length (xs @ 0 # rest) = 30"
    using string_copied [OF assms(1,4-7)] unfolding s0_def by blast
  define s1 where "s1 = s0\<lparr>a_str := xs @ 0 # rest\<rparr>"
  have ok1: "lcd_ok t s1" unfolding s1_def by (rule lcd_arrays(1) [OF cp(2) w(1)])
  define s2 where "s2 = blank (?k + 1) (on_io (GDispGoto (ucast r) (ucast c)) s1)"
  note gb = goto_blank [OF ok1, of "?k + 1" "ucast r" "ucast c", folded s2_def]
  have s2: "a_str s2 = xs @ 0 # rest" "a_sent s2 = a_sent s" "a_eeprom s2 = a_eeprom s" "cells t s1 = cells t s"
    using arg_cong [OF gb(3), of a_str] arg_cong [OF gb(3), of a_sent] arg_cong [OF gb(3), of a_eeprom] w(2-4) by (simp_all add: s1_def)
  obtain io where io: "show_str (ucast r) (ucast c) s2 = Some (s2\<lparr>a_io := io\<rparr>)" "lcd_ok t (s2\<lparr>a_io := io\<rparr>)"
    "cells t (s2\<lparr>a_io := io\<rparr>) = draw (cell_addr (ucast r) (ucast c)) xs (cells t s2)"
    by (rule show_spec [OF gb(1) s2(1) assms(7), of "ucast r" "ucast c"])
  have a: "arg 1 s1 = Some (ucast r)" "arg 2 s1 = Some (ucast c)" using g(2,3) by (simp_all add: s1_def arg_def)
  have "avr_cmd bl s0 = avr_display_str s0" unfolding avr_cmd_def g(1) bind.bind_lunit by simp
  also have "\<dots> = Some (s2\<lparr>a_io := io\<rparr>)"
    unfolding avr_display_str_def cp bind.bind_lunit Let_def prod.case s1_def [symmetric] a s2_def [symmetric] by (rule io(1))
  finally have "avr_cmd bl (with_message ?m s) = Some (s2\<lparr>a_io := io\<rparr>)" unfolding s0_def .
  then show ?thesis
    by (intro message_answered [OF assms(1-3) l])
      (use io s2 gb(2) draw_field [of xs "?k + 1"] assms(4) in \<open>simp add: add.commute\<close>)
qed

text \<open>The text of a state: the labels 25 and 26 stand for on and off.\<close>

definition status_text :: "u8 \<Rightarrow> string" where
  "status_text b = (if b = 2 then ''ONE'' else if b = 3 then ''TWO'' else if b = 4 then ''THREE''
     else if b = 0 then menu_labels ! (STATUS_ON - 1) else menu_labels ! (STATUS_OFF - 1))"

lemma status_text_short: "length (status_text b) < 30" "0 \<notin> set (bytes_of (status_text b))"
  by (simp_all add: status_text_def menu_labels_def bytes_of_def)

lemma status_str:
  assumes "length (a_str s) = 30" "burn (map bytes_of menu_labels) old = Some (a_eeprom s)"
  shows "\<exists>rest. (if b = 2 then print_str ''ONE'' s else if b = 3 then print_str ''TWO'' s
       else if b = 4 then print_str ''THREE'' s else label_str (if b = 0 then STATUS_ON else STATUS_OFF) s) =
      Some (s\<lparr>a_str := bytes_of (status_text b) @ 0 # rest\<rparr>) \<and> length (bytes_of (status_text b) @ 0 # rest) = 30"
proof -
  let ?ls = "map bytes_of menu_labels"
  have e: "a_eeprom s = table ?ls @ drop (length (table ?ls)) old" using assms(2) burn_table [OF menu_labels_ok(2), of old] by simp
  have l: "label_str n s = Some (s\<lparr>a_str := padded (?ls ! (n - 1))\<rparr>)" if "n \<in> {STATUS_ON, STATUS_OFF}" for n
    using that lookup_label [OF menu_labels_ok(1), of n "drop (length (table ?ls)) old"] by (auto simp: label_str_def e menu_labels_ok(3))
  have p: "padded (?ls ! 24) = bytes_of (menu_labels ! 24) @ 0 # replicate 22 0" "padded (?ls ! 25) = bytes_of (menu_labels ! 25) @ 0 # replicate 23 0"
    by (simp_all add: padded_def menu_labels_def numeral_eq_Suc)
  show ?thesis
  proof (cases "b \<in> {2, 3, 4}")
    case True
    then show ?thesis using assms(1) by (auto simp: print_str_def cstr_into_def status_text_def)
  next
    case False
    then show ?thesis using l [of STATUS_ON] l [of STATUS_OFF] p by (auto simp: status_text_def menu_labels_def)
  qed
qed

lemma goto_only:
  assumes "lcd_ok t s"
  shows "lcd_ok t (on_io (GDispGoto row col) s)" "cells t (on_io (GDispGoto row col) s) = cells t s"
  using assms ok_ios(3) [of s row col] screen_on_io [OF sends_goto, of s t row col] run_goto [of "screen t (a_io s)" row col]
  by (auto simp: lcd_ok_def cells_def)

text \<open>
  States of the truck. \<open>EEPROM_STR2\<close> shows the number of a speed in its row, but for the states on and off it looks up the
  labels 25 and 26, which with the labels that are burnt read \<open>BRIGHTS\<close> and \<open>BRAKES\<close>.
\<close>

theorem status_shown:
  assumes "lcd_ok t s" "chptr s = 0" "AVR_START_BYTE \<notin> {code, b}" "burn (map bytes_of menu_labels) old = Some (a_eeprom s)"
  shows "\<exists>s'. avr_run bl ([10, code, b] @ [AVR_START_BYTE]) s = Some s' \<and>
    answered t s s' (field (cell_addr (status_row bl code (a_row s)) 15)
      (bytes_of (if b = 2 then ''ONE'' else if b = 3 then ''TWO'' else if b = 4 then ''THREE'' else if b = 0 then ''BRIGHTS'' else ''BRAKES''))
      6 (cells t s))"
proof -
  let ?row = "status_row bl code (a_row s)"
  define s0 where "s0 = with_message [10, code, b] s"
  have m: "AVR_START_BYTE \<notin> set [10, code, b]" "length [10, code, b] < 30" using assms(3) by auto
  note w = with_message [OF assms(1) m(2), folded s0_def]
  have g: "aget (a_buff s0) 0 = Some 10" "aget (a_buff s0) 1 = Some code" "aget (a_buff s0) 2 = Some b"
    using w(7) [of 0] w(7) [of 1] w(7) [of 2] by simp_all
  define s1 where "s1 = s0\<lparr>a_row := ?row, a_col := 15\<rparr>"
  have ok1: "lcd_ok t s1" using w(1) by (simp add: s1_def)
  define s2 where "s2 = blank 6 (on_io (GDispGoto ?row 15) s1)"
  note gb = goto_blank [OF ok1, of 6 ?row 15, folded s2_def]
  have f: "a_buff s2 = a_buff s0" "a_sent s2 = a_sent s" "a_eeprom s2 = a_eeprom s" "cells t s1 = cells t s"
    using arg_cong [OF gb(3), of a_buff] arg_cong [OF gb(3), of a_sent] arg_cong [OF gb(3), of a_eeprom] w(2-4) by (simp_all add: s1_def)
  have ls: "length (a_str s2) = 30" using gb(1) by (simp add: lcd_ok_def a_ok_def)
  obtain rest where st: "(if b = 2 then print_str ''ONE'' s2 else if b = 3 then print_str ''TWO'' s2
       else if b = 4 then print_str ''THREE'' s2 else label_str (if b = 0 then STATUS_ON else STATUS_OFF) s2) =
      Some (s2\<lparr>a_str := bytes_of (status_text b) @ 0 # rest\<rparr>)" "length (bytes_of (status_text b) @ 0 # rest) = 30"
    using status_str [OF ls, of old b] assms(4) f(3) by metis
  define s3 where "s3 = s2\<lparr>a_str := bytes_of (status_text b) @ 0 # rest\<rparr>"
  have ok3: "lcd_ok t s3" unfolding s3_def by (rule lcd_arrays(1) [OF st(2) gb(1)])
  obtain io where io: "show_str ?row 15 s3 = Some (s3\<lparr>a_io := io\<rparr>)" "lcd_ok t (s3\<lparr>a_io := io\<rparr>)"
    "cells t (s3\<lparr>a_io := io\<rparr>) = draw (cell_addr ?row 15) (bytes_of (status_text b)) (cells t s3)"
    by (rule show_spec [OF ok3 _ status_text_short(2), of b rest ?row 15]) (simp add: s3_def)
  have "avr_cmd bl s0 = avr_eeprom_str2 bl s0" unfolding avr_cmd_def g(1) bind.bind_lunit by simp
  also have "\<dots> = Some (on_io (GDispGoto 0 0) (s3\<lparr>a_io := io\<rparr>))"
    unfolding avr_eeprom_str2_def g(2) bind.bind_lunit Let_def w(5) s1_def [symmetric] s2_def [symmetric] f(1) g(3) st(1) s3_def [symmetric] io(1) ..
  finally have c: "avr_cmd bl (with_message [10, code, b] s) = Some (on_io (GDispGoto 0 0) (s3\<lparr>a_io := io\<rparr>))" unfolding s0_def .
  have t: "status_text b = (if b = 2 then ''ONE'' else if b = 3 then ''TWO'' else if b = 4 then ''THREE'' else if b = 0 then ''BRIGHTS'' else ''BRAKES'')"
    by (simp add: status_text_def menu_labels_def)
  have s3: "a_sent s3 = a_sent s" "a_eeprom s3 = a_eeprom s" "cells t s3 = cells t s2" using f by (simp_all add: s3_def)
  show ?thesis unfolding t [symmetric]
    by (rule message_answered [OF assms(1,2) m])
      (use c goto_only [OF io(2), of 0 0] io(3) s3 f(4) gb(2) draw_field [of "bytes_of (status_text b)" 6] status_text_short(1) [of b]
        in \<open>simp add: on_io_def\<close>)
qed

section \<open>Start\<close>

definition boot_bytes :: "bus_cycle list" where
  "boot_bytes = [Cmd 0x81, Cmd 0x94] @ clear_bytes @ [] @ clear_bytes"

lemma sends_boot: "sends boot_bytes (\<lambda>io. GDispClrTxt (FONT_8X8 (GDispClrTxt (GDispSetMode 0x94 (GDispSetMode 0x81 io)))))"
proof -
  have mode: "sends [Cmd c] (GDispSetMode c)" for c using sends_cmd by (simp add: GDispSetMode_def [abs_def])
  show ?thesis using sends_comp [OF sends_comp [OF sends_comp [OF sends_comp [OF mode [of "0x81"] mode [of "0x94"]] sends_clear] font_sent(1)] sends_clear]
    by (simp add: boot_bytes_def)
qed

lemma run_boot: "\<not> t_auto t \<Longrightarrow> \<not> t_auto (run_bytes boot_bytes t)"
proof -
  assume t: "\<not> t_auto t"
  have "\<not> t_auto (run_bytes [Cmd 0x81, Cmd 0x94] t)" using t by (simp add: run_bytes_def t6963_cmd_def)
  then show ?thesis unfolding boot_bytes_def run_append run_Nil by (intro run_clear(2))
qed

text \<open>\<open>main\<close> reaches its loop with an empty screen, whatever was in the ports, the controller and its memory.\<close>

lemma boot_ok:
  assumes "length e = 1024"
  shows "\<exists>s. avr_boot e io = Some s \<and> lcd_ok t s \<and> chptr s = 0 \<and> cursor_ok s \<and> cursor s = 0 \<and> a_eeprom s = e \<and> a_sent s = [] \<and>
    (\<forall>q < 640. cells t s (word_of_nat q) = 0)"
proof -
  define io1 where "io1 = GDispClrTxt (FONT_8X8 (GDispClrTxt (GDispSetMode 0x94 (GDispSetMode 0x81 (GDispInit io)))))"
  have i1: "ready io1" "bus io1 = bus (GDispInit io) @ boot_bytes"
    using sendsD [OF sends_boot init_sent(1) [of io]] by (simp_all add: io1_def)
  have t1: "\<not> t_auto (screen t io1)" unfolding screen_sent [OF i1(2)] screen_sent [OF init_sent(2)]
    by (rule run_boot [OF run_init])
  have z: "0 \<notin> set (bytes_of ''LCD is on!'')" "length (bytes_of ''LCD is on!'') \<le> 100" by (simp_all add: bytes_of_def)
  obtain io2 where i2: "GDispStringAt 7 7 (bytes_of ''LCD is on!'' @ [0]) io1 = Some (int (length (bytes_of ''LCD is on!'')), io2)" "ready io2"
    "bus io2 = bus io1 @ string_bytes 7 7 0 (bytes_of ''LCD is on!'')"
    by (rule sends_string [OF z i1(1), of 7 7 "[]"])
  have t2: "\<not> t_auto (screen t io2)" using run_string [OF t1] unfolding screen_sent [OF i2(3)] by blast
  define s0 where "s0 = \<lparr>a_io = io2, a_buff = replicate 30 0, chptr = 0, a_row = 0, a_col = 0, a_str = replicate 30 0,
       a_eeprom = replicate 1024 0, curr_num = replicate 20 0, num_entry_mode = 0, a_sent = []\<rparr>"
  have ok0: "a_ok s0" using i2(2) by (simp add: s0_def a_ok_def)
  define s1 where "s1 = on_io GDispClrTxt s0"
  have sc: "screen t (a_io s1) = run_bytes clear_bytes (screen t io2)"
    using screen_on_io [OF sends_clear ok0, of t] by (simp add: s1_def s0_def)
  have l1: "lcd_ok t s1" using ok_ios(4) [OF ok0] run_clear(2) [OF t2] by (simp add: lcd_ok_def sc s1_def [symmetric])
  have c1: "cells t s1 = draw 0 (replicate 640 0x20) (t_ram (screen t io2))" unfolding cells_def sc by (rule run_clear(1) [OF t2])
  have b: "cells t s1 (word_of_nat q) = 0" if "q < 640" for q
  proof -
    have "unat (word_of_nat q :: u16) = q" using that by (simp add: unsigned_of_nat take_bit_eq_mod)
    then show ?thesis using that by (simp add: c1 draw_at)
  qed
  define s2 where "s2 = clr s0"
  have s2: "lcd_ok t s2" "cells t s2 = cells t s1" unfolding s2_def clr_def s1_def [symmetric] by (rule goto_only [OF l1])+
  have f: "chptr s2 = 0" "a_row s2 = 0" "a_col s2 = 0" "a_sent s2 = []" by (simp_all add: s2_def clr_def on_io_def s0_def)
  define s where "s = s2\<lparr>curr_num := bytes_of ''0123456'' @ replicate 13 0, a_eeprom := e\<rparr>"
  have "avr_boot e io = Some s"
    unfolding avr_boot_def Let_def io1_def [symmetric] i2(1) bind.bind_lunit prod.case s0_def [symmetric] s2_def [symmetric] s_def ..
  moreover have "lcd_ok t s" "cells t s = cells t s1" using s2 assms by (simp_all add: s_def lcd_ok_def a_ok_def cells_def)
  moreover have "chptr s = 0" "cursor_ok s" "cursor s = 0" "a_eeprom s = e" "a_sent s = []" using f by (simp_all add: s_def cursor_ok_def cursor_def)
  ultimately show ?thesis using b by auto
qed

definition burnt :: "u8 list" where
  "burnt = the (burn (map bytes_of menu_labels) (replicate 1024 0xFF))"

lemma burnt: "burn (map bytes_of menu_labels) (replicate 1024 0xFF) = Some burnt" "length burnt = 1024"
  using burn_table [OF menu_labels_ok(2), of "replicate 1024 0xFF"] menu_labels_ok(2) by (simp_all add: burnt_def)

definition avr0 :: avr where
  "avr0 = the (avr_boot burnt io0)"

lemma avr0: "lcd_ok t0 avr0" "chptr avr0 = 0" "cursor_ok avr0" "cursor avr0 = 0" "a_eeprom avr0 = burnt" "a_ok avr0"
  using boot_ok [OF burnt(2), of io0 t0] by (auto simp: avr0_def lcd_ok_def)

section \<open>Instances\<close>


lemma message_overflow_witness: "avr_run [] (replicate 30 0x41 @ [0xFE]) avr0 = None"
  by (rule message_overflow [OF avr0(6,2)]) simp_all

text \<open>3661 seconds are 01:01:01.\<close>

lemma elapsed_time_witness:
  "\<exists>s'. avr_run [] [21, 1, 2, 0x0E, 0x4D, 0xFE] avr0 = Some s' \<and> answered t0 avr0 s' (field (cell_addr 1 2) (bytes_of ''01:01:01'') 0 (cells t0 avr0))"
proof -
  have c: "char_of (49 :: nat) = CHR ''1''" by code_simp
  have "AVR_START_BYTE \<notin> {1, 2, 0x0E, 0x4D}" by simp
  from elapsed_time [OF avr0(1,2) this refl, of "[]"] show ?thesis by (simp add: dec2_def dec_nat.simps c)
qed


lemma typed_text_witness:
  "\<exists>s'. avr_run [] (concat (map (\<lambda>c. [2, c, 0xFE]) [0x48, 0x69])) avr0 = Some s' \<and> cursor s' = 2 \<and> cells t0 s' 1 = 0x49"
proof -
  have "\<forall>c \<in> set [0x48, 0x69]. 0x20 \<le> c \<and> c < (0x7F :: u8)" "length [0x48, 0x69 :: u8] \<le> 640" "(1 :: nat) < 640" by simp_all
  from typed_text [OF avr0(1,2,3) this, of "[]"] show ?thesis by (auto simp: avr0(4) Let_def)
qed

lemma display_str_witness:
  "\<exists>s'. avr_run [] [18, 9, 9, 0x4E, 0x57, 0, 0xFE] avr0 = Some s' \<and> answered t0 avr0 s' (field (cell_addr 9 9) [0x4E, 0x57] 6 (cells t0 avr0))"
proof -
  have "AVR_START_BYTE \<notin> set ([18, 9, 9] @ [0x4E, 0x57] @ 0 # [])" "length ([0x4E, 0x57 :: u8] @ []) < 24" "(9 :: u8) \<noteq> 0"
    "0 \<notin> set [0x4E, 0x57 :: u8]" by simp_all
  from display_str [OF avr0(1,2) this(1,2,3,3,4), of "[]"] show ?thesis by simp
qed

lemma status_shown_witness:
  "\<exists>s'. avr_run [] [10, ON_FAN, 0, 0xFE] avr0 = Some s' \<and> answered t0 avr0 s' (field (cell_addr 1 15) (bytes_of ''BRIGHTS'') 6 (cells t0 avr0))"
proof -
  have "AVR_START_BYTE \<notin> {ON_FAN, 0}" by simp
  from status_shown [OF avr0(1,2) this burnt(1) [folded avr0(5)], of "[]"] show ?thesis by (simp add: status_row_def)
qed

end
