(* ===== verification/Start.thy ===== *)
theory Start
  imports Prelude
begin

text \<open>
  The start and the end of the scheduler: \<open>main\<close> of \<open>sched.c\<close>, which creates the nine threads, waits for them and
  unmaps the I/O memory, and \<open>work_routine\<close> of \<open>tasks.c\<close>, the barrier each thread passes before it calls its task.
  A step is a region of one thread between two points where it can be interrupted or has to wait, so the whole of
  the locked region of \<open>work_routine\<close> up to \<open>pthread_cond_wait\<close> is one. A sleeping thread may also wake up unsignalled.
\<close>

section \<open>Arguments, priorities and exit codes\<close>

abbreviation (input) NUM_TASKS :: nat where "NUM_TASKS \<equiv> 9"
abbreviation (input) GET_HOST_CMD :: nat where "GET_HOST_CMD \<equiv> 0"
abbreviation (input) BUTTONS :: nat where "BUTTONS \<equiv> 5"
abbreviation (input) TCP_MONITOR :: nat where "TCP_MONITOR \<equiv> 6"
abbreviation (input) SERIAL_RECV :: nat where "SERIAL_RECV \<equiv> 7"
abbreviation (input) BASIC_CONTROLS :: nat where "BASIC_CONTROLS \<equiv> 8"

datatype policy = TIME_SLICE | PTIME_SLICE | PFIFO

definition sched_of :: "nat \<Rightarrow> policy" where
  "sched_of i = (if i = 1 \<or> i = 2 then PFIFO else if i = 3 \<or> i = 4 then PTIME_SLICE else TIME_SLICE)"

text \<open>The priority of a thread, from the least and the greatest of its policy (\<open>SCHED_RR\<close> or \<open>SCHED_FIFO\<close>).\<close>

definition sched_priority :: "policy \<Rightarrow> int \<Rightarrow> int \<Rightarrow> int" where
  "sched_priority p prio_min prio_max =
     (case p of TIME_SLICE \<Rightarrow> prio_min
      | PFIFO \<Rightarrow> prio_max
      | PTIME_SLICE \<Rightarrow> prio_min + 4 * (prio_max - prio_min) div (int NUM_TASKS - 1))"

text \<open>\<open>main\<close> returns the code the control task left in \<open>reboot_on_exit\<close>, if it is from 1 to 6.\<close>

definition exit_code :: "u8 \<Rightarrow> int option" where
  "exit_code reboot_on_exit =
     (if reboot_on_exit = 1 then Some 1
      else if reboot_on_exit = 2 then Some 2
      else if reboot_on_exit = 3 then Some 3
      else if reboot_on_exit = 4 then Some 4
      else if reboot_on_exit = 5 then Some 5
      else if reboot_on_exit = 6 then Some 6
      else None)"

section \<open>Threads\<close>

text \<open>
  Where a thread is: not created; before \<open>shutdown_all = 0\<close>; before the lock of the barrier; in
  \<open>pthread_cond_wait\<close>, or woken there; past the barrier; in its task; finished.
\<close>

datatype tpc = Unborn | Born | Reset_done | Waiting | Woken | Past | Running | Done

datatype main_pc = Create nat | Join nat | Closed

record start =
  threads_ready_count :: int
  shutdown_all :: bool
  threads :: "tpc list"
  cancelled :: "nat set"
  main_at :: main_pc

definition start0 :: start where
  "start0 = \<lparr>threads_ready_count = 0, shutdown_all = False, threads = replicate NUM_TASKS Unborn, cancelled = {}, main_at = Create 0\<rparr>"

definition goes :: "nat \<Rightarrow> tpc \<Rightarrow> start \<Rightarrow> start" where
  "goes t p s = s\<lparr>threads := (threads s)[t := p]\<rparr>"

fun woken :: "tpc \<Rightarrow> tpc" where
  "woken Waiting = Woken"
| "woken p = p"

text \<open>The lock, \<open>threads_ready_count++\<close> and the first test: the last thread wakes the others, the rest wait.\<close>

definition arrive :: "nat \<Rightarrow> start \<Rightarrow> start" where
  "arrive t s =
     (let s = s\<lparr>threads_ready_count := threads_ready_count s + 1\<rparr>
      in if threads_ready_count s = int NUM_TASKS then goes t Past (s\<lparr>threads := map woken (threads s)\<rparr>)
         else goes t Waiting s)"

text \<open>\<open>while (threads_ready_count != NUM_TASKS)\<close> again after \<open>pthread_cond_wait\<close>\<close>

definition retest :: "nat \<Rightarrow> start \<Rightarrow> start" where
  "retest t s = (if threads_ready_count s \<noteq> int NUM_TASKS then goes t Waiting s else goes t Past s)"

text \<open>\<open>(*fptr[*my_id])(i)\<close>: \<open>get_host_cmd_task\<close> begins with another \<open>shutdown_all = 0\<close>.\<close>

definition call :: "nat \<Rightarrow> start \<Rightarrow> start" where
  "call t s = (let s = goes t Running s in if t = GET_HOST_CMD then s\<lparr>shutdown_all := False\<rparr> else s)"

text \<open>After the first \<open>pthread_join\<close> the two tasks that block in a read are cancelled.\<close>

definition joined :: "nat \<Rightarrow> start \<Rightarrow> start" where
  "joined i s = (if i = 0 then s\<lparr>main_at := Join (i + 1), cancelled := {SERIAL_RECV, TCP_MONITOR}\<rparr> else s\<lparr>main_at := Join (i + 1)\<rparr>)"

text \<open>
  Only the client's task and the control task ask for the shutdown. A task may return at any time here (what makes
  it return is in the models of the tasks); a cancelled one ends at its next blocking call.
\<close>

inductive st_step :: "start \<Rightarrow> start \<Rightarrow> bool" where
  create: "main_at s = Create i \<Longrightarrow> i < NUM_TASKS \<Longrightarrow> st_step s ((goes i Born s)\<lparr>main_at := Create (i + 1)\<rparr>)"
| created: "main_at s = Create NUM_TASKS \<Longrightarrow> st_step s (s\<lparr>main_at := Join 0\<rparr>)"
| reset: "t < NUM_TASKS \<Longrightarrow> threads s ! t = Born \<Longrightarrow> st_step s ((goes t Reset_done s)\<lparr>shutdown_all := False\<rparr>)"
| arrive: "t < NUM_TASKS \<Longrightarrow> threads s ! t = Reset_done \<Longrightarrow> st_step s (arrive t s)"
| spurious: "t < NUM_TASKS \<Longrightarrow> threads s ! t = Waiting \<Longrightarrow> st_step s (goes t Woken s)"
| retest: "t < NUM_TASKS \<Longrightarrow> threads s ! t = Woken \<Longrightarrow> st_step s (retest t s)"
| call: "t < NUM_TASKS \<Longrightarrow> threads s ! t = Past \<Longrightarrow> st_step s (call t s)"
| ask: "t = GET_HOST_CMD \<or> t = BASIC_CONTROLS \<Longrightarrow> threads s ! t = Running \<Longrightarrow> st_step s (s\<lparr>shutdown_all := True\<rparr>)"
| return: "t < NUM_TASKS \<Longrightarrow> threads s ! t = Running \<Longrightarrow> st_step s (goes t Done s)"
| cancel: "t \<in> cancelled s \<Longrightarrow> threads s ! t = Running \<Longrightarrow> st_step s (goes t Done s)"
| join: "main_at s = Join i \<Longrightarrow> i < NUM_TASKS \<Longrightarrow> threads s ! i = Done \<Longrightarrow> st_step s (joined i s)"
| close: "main_at s = Join NUM_TASKS \<Longrightarrow> st_step s (s\<lparr>main_at := Closed\<rparr>)"

inductive st_reach :: "start \<Rightarrow> bool" where
  start: "st_reach start0"
| step: "st_reach s \<Longrightarrow> st_step s s' \<Longrightarrow> st_reach s'"

section \<open>The invariant\<close>

definition arrived :: "tpc \<Rightarrow> bool" where
  "arrived p \<longleftrightarrow> p \<in> {Waiting, Woken, Past, Running, Done}"

definition passed :: "tpc \<Rightarrow> bool" where
  "passed p \<longleftrightarrow> p \<in> {Past, Running, Done}"

fun main_inv :: "tpc list \<Rightarrow> main_pc \<Rightarrow> bool" where
  "main_inv ts (Create n) = (n \<le> NUM_TASKS \<and> (\<forall>t < NUM_TASKS. ts ! t = Unborn \<longleftrightarrow> n \<le> t))"
| "main_inv ts (Join n) = (n \<le> NUM_TASKS \<and> (\<forall>t < NUM_TASKS. ts ! t \<noteq> Unborn) \<and> (\<forall>t < n. ts ! t = Done))"
| "main_inv ts Closed = (\<forall>t < NUM_TASKS. ts ! t = Done)"

definition st_inv :: "start \<Rightarrow> bool" where
  "st_inv s \<longleftrightarrow> length (threads s) = NUM_TASKS \<and> threads_ready_count s = cnt arrived (threads s) \<and>
     (\<forall>t < NUM_TASKS. passed (threads s ! t) \<longrightarrow> threads_ready_count s = int NUM_TASKS) \<and>
     (threads_ready_count s = int NUM_TASKS \<longrightarrow> (\<forall>t < NUM_TASKS. threads s ! t \<noteq> Waiting)) \<and>
     cancelled s \<subseteq> {SERIAL_RECV, TCP_MONITOR} \<and> main_inv (threads s) (main_at s)"

lemma classes [simp]:
  "\<not> arrived Unborn" "\<not> arrived Born" "\<not> arrived Reset_done" "arrived Waiting" "arrived Woken" "arrived Past" "arrived Running" "arrived Done"
  "\<not> passed Unborn" "\<not> passed Born" "\<not> passed Reset_done" "\<not> passed Waiting" "\<not> passed Woken" "passed Past" "passed Running" "passed Done"
  by (simp_all add: arrived_def passed_def)

lemma woken_classes [simp]: "arrived (woken p) = arrived p" "passed (woken p) = passed p" "woken p \<noteq> Waiting"
  "woken p = Unborn \<longleftrightarrow> p = Unborn" "woken p = Done \<longleftrightarrow> p = Done"
  by (cases p; simp)+

lemma passed_arrived: "passed p \<Longrightarrow> arrived p"
  by (auto simp: passed_def)

lemma goes_fields [simp]: "threads (goes t p s) = (threads s)[t := p]" "threads_ready_count (goes t p s) = threads_ready_count s"
  "shutdown_all (goes t p s) = shutdown_all s" "cancelled (goes t p s) = cancelled s" "main_at (goes t p s) = main_at s"
  by (simp_all add: goes_def)

text \<open>A thread that is created and not finished may move on without disturbing \<open>main\<close>.\<close>

lemma main_inv_move:
  assumes "main_inv ts m" "length ts = NUM_TASKS" "t < NUM_TASKS" "ts ! t \<noteq> Unborn" "ts ! t \<noteq> Done" "p \<noteq> Unborn"
  shows "main_inv (ts[t := p]) m"
proof (cases m)
  case (Create n)
  then show ?thesis using assms by (auto simp: nth_list_update)
next
  case (Join n)
  then have "t \<noteq> k" if "k < n" for k using assms that by auto
  then show ?thesis using assms Join by (auto simp: nth_list_update)
next
  case Closed
  then show ?thesis using assms by auto
qed

lemma main_inv_woken: "main_inv ts m \<Longrightarrow> length ts = NUM_TASKS \<Longrightarrow> main_inv (map woken ts) m"
  by (cases m) auto

text \<open>A step of a thread that stays on its side of the barrier.\<close>

lemma st_inv_move:
  assumes "st_inv s" "t < NUM_TASKS" "threads s ! t \<noteq> Unborn" "threads s ! t \<noteq> Done" "p \<noteq> Unborn" "p \<noteq> Waiting \<or> threads s ! t = Woken \<and> threads_ready_count s \<noteq> 9"
    "arrived p = arrived (threads s ! t)" "passed p \<longrightarrow> passed (threads s ! t) \<or> threads_ready_count s = int NUM_TASKS"
  shows "st_inv (goes t p s)"
proof -
  have i: "length (threads s) = NUM_TASKS" "main_inv (threads s) (main_at s)" using assms(1) by (simp_all add: st_inv_def)
  have m: "main_inv ((threads s)[t := p]) (main_at s)" by (rule main_inv_move [OF i(2,1) assms(2-5)])
  have c: "cnt arrived ((threads s)[t := p]) = cnt arrived (threads s)" using assms(2,7) i(1) by (simp add: cnt_update)
  show ?thesis using assms m c unfolding st_inv_def by (auto simp: nth_list_update)
qed

lemma st_inv_shutdown [simp]: "st_inv (s\<lparr>shutdown_all := b\<rparr>) = st_inv s"
  by (simp add: st_inv_def)

lemma st_inv_arrive:
  assumes "st_inv s" "t < NUM_TASKS" "threads s ! t = Reset_done"
  shows "st_inv (arrive t s)"
proof -
  have i: "length (threads s) = NUM_TASKS" "threads_ready_count s = cnt arrived (threads s)" "main_inv (threads s) (main_at s)"
    using assms(1) by (simp_all add: st_inv_def)
  have "\<not> (\<forall>p \<in> set (threads s). arrived p)" using assms(2,3) i(1) by (metis classes(3) nth_mem)
  then have ne: "threads_ready_count s \<noteq> int NUM_TASKS" using i cnt_all [of arrived "threads s"] by simp
  then have np: "\<forall>u < NUM_TASKS. \<not> passed (threads s ! u)" using assms(1) unfolding st_inv_def by blast
  show ?thesis
  proof (cases "threads_ready_count s + 1 = int NUM_TASKS")
    case True
    have m: "main_inv ((map woken (threads s))[t := Past]) (main_at s)"
      using assms(2,3) i by (intro main_inv_move main_inv_woken) simp_all
    have "arrived \<circ> woken = arrived" by auto
    then have c: "cnt arrived ((map woken (threads s))[t := Past]) = threads_ready_count s + 1"
      using assms(2,3) i by (simp add: cnt_update cnt_map)
    show ?thesis using assms m c True i(1) unfolding st_inv_def arrive_def by (auto simp: Let_def nth_list_update)
  next
    case False
    have m: "main_inv ((threads s)[t := Waiting]) (main_at s)" using assms(2,3) i by (intro main_inv_move) simp_all
    have c: "cnt arrived ((threads s)[t := Waiting]) = threads_ready_count s + 1" using assms(2,3) i by (simp add: cnt_update)
    show ?thesis using assms m c False np i(1) unfolding st_inv_def arrive_def by (auto simp: Let_def nth_list_update)
  qed
qed

lemma st_inv_step:
  assumes "st_step s s'" "st_inv s"
  shows "st_inv s'"
  using assms
proof (induction rule: st_step.induct)
  case (create s i)
  then have u: "threads s ! i = Unborn" "length (threads s) = NUM_TASKS" by (simp_all add: st_inv_def)
  then have "cnt arrived ((threads s)[i := Born]) = cnt arrived (threads s)" using create(2) by (simp add: cnt_update)
  then show ?case using create u unfolding st_inv_def by (auto simp: nth_list_update)
next
  case (created s)
  then show ?case by (auto simp: st_inv_def)
next
  case (reset t s)
  then have "st_inv (goes t Reset_done s)" by (intro st_inv_move) simp_all
  then show ?case by simp
next
  case (arrive t s)
  then show ?case by (simp add: st_inv_arrive)
next
  case (spurious t s)
  then show ?case by (intro st_inv_move) simp_all
next
  case (retest t s)
  then show ?case unfolding retest_def by (auto intro!: st_inv_move)
next
  case (call t s)
  then have "st_inv (goes t Running s)" by (intro st_inv_move) simp_all
  then show ?case by (cases "t = 0") (simp_all add: call_def Let_def)
next
  case (ask t s)
  then show ?case by simp
next
  case (return t s)
  then show ?case by (intro st_inv_move) simp_all
next
  case (cancel t s)
  then have "t < NUM_TASKS" by (auto simp: st_inv_def)
  then show ?case using cancel by (intro st_inv_move) simp_all
next
  case (join s i)
  then show ?case by (auto simp: st_inv_def joined_def less_Suc_eq)
next
  case (close s)
  then show ?case by (auto simp: st_inv_def)
qed

lemma st_reach_inv: "st_reach s \<Longrightarrow> st_inv s"
proof (induction rule: st_reach.induct)
  case start
  have "cnt arrived (replicate NUM_TASKS Unborn) = 0" unfolding cnt_zero by simp
  then show ?case by (simp add: st_inv_def start0_def)
next
  case (step s s')
  then show ?case by (simp add: st_inv_step)
qed

section \<open>What the barrier gives\<close>

lemma st_inv_passed: "st_inv s \<Longrightarrow> t < NUM_TASKS \<Longrightarrow> passed (threads s ! t) \<Longrightarrow> threads_ready_count s = int NUM_TASKS"
  unfolding st_inv_def by blast

lemma all_arrived:
  assumes "st_inv s" "threads_ready_count s = int NUM_TASKS" "u < NUM_TASKS"
  shows "arrived (threads s ! u)"
  using assms cnt_all [of arrived "threads s"] by (auto simp: st_inv_def)

text \<open>
  The barrier. As soon as one thread has passed it, every thread has been created and has made its \<open>shutdown_all = 0\<close>; and
  when \<open>main\<close> has left its last \<open>pthread_join\<close> and unmaps the I/O memory, all tasks have ended.
\<close>

theorem barrier:
  assumes "st_reach s" "t < NUM_TASKS" "u < NUM_TASKS"
  shows "(passed (threads s ! t) \<longrightarrow> threads s ! u \<notin> {Unborn, Born, Reset_done}) \<and> (main_at s = Closed \<longrightarrow> threads s ! u = Done)"
proof -
  have i: "st_inv s" using assms(1) by (rule st_reach_inv)
  have "arrived (threads s ! u)" if "passed (threads s ! t)"
    by (rule all_arrived [OF i st_inv_passed [OF i assms(2) that] assms(3)])
  then show ?thesis using i assms(3) by (auto simp: arrived_def st_inv_def)
qed

text \<open>
  Shutdown requests. Once \<open>get_host_cmd_task\<close> has begun, a request for the shutdown is never taken back, by whatever
  step of whatever thread.
\<close>

theorem shutdown_kept:
  assumes "st_reach s" "threads s ! GET_HOST_CMD \<in> {Running, Done}" "shutdown_all s" "st_step s s'"
  shows "shutdown_all s' \<and> threads s' ! GET_HOST_CMD \<in> {Running, Done}"
proof -
  have i: "st_inv s" using assms(1) by (rule st_reach_inv)
  then have l: "length (threads s) = NUM_TASKS" by (simp add: st_inv_def)
  have "passed (threads s ! GET_HOST_CMD)" using assms(2) by auto
  then have "threads_ready_count s = int NUM_TASKS" by (intro st_inv_passed [OF i]) simp_all
  then have a: "\<forall>u < NUM_TASKS. arrived (threads s ! u)" using all_arrived [OF i] by blast
  then have n: "threads s ! u \<noteq> Born" "threads s ! u \<noteq> Reset_done" "threads s ! u \<noteq> Unborn" if "u < NUM_TASKS" for u
    using that by fastforce+
  have m: "main_inv (threads s) (main_at s)" "cancelled s \<subseteq> {SERIAL_RECV, TCP_MONITOR}" using i by (simp_all add: st_inv_def)
  have z: "threads s ! t = Waiting \<Longrightarrow> 0 < t" "threads s ! t = Woken \<Longrightarrow> 0 < t" "threads s ! t = Past \<Longrightarrow> 0 < t"
    "t \<in> cancelled s \<Longrightarrow> 0 < t" for t
    using assms(2) m(2) by (auto intro!: gr0I)
  show ?thesis using assms(4)
  proof cases
    case (create k)
    then show ?thesis using m(1) n(3) [of k] by auto
  qed (use assms(2,3) l n in \<open>auto simp: call_def retest_def joined_def Let_def nth_list_update dest: z\<close>)
qed

section \<open>Nobody is left waiting\<close>

text \<open>How far the threads and \<open>main\<close> have come; waking up is no progress.\<close>

fun stage :: "tpc \<Rightarrow> nat" where
  "stage Unborn = 0"
| "stage Born = 1"
| "stage Reset_done = 2"
| "stage Waiting = 3"
| "stage Woken = 3"
| "stage Past = 4"
| "stage Running = 5"
| "stage Done = 6"

fun main_stage :: "main_pc \<Rightarrow> nat" where
  "main_stage (Create n) = n"
| "main_stage (Join n) = NUM_TASKS + 1 + n"
| "main_stage Closed = 2 * NUM_TASKS + 2"

definition progress :: "start \<Rightarrow> nat" where
  "progress s = sum_list (map stage (threads s)) + main_stage (main_at s)"

lemma stage_woken [simp]: "stage (woken p) = stage p"
  by (cases p) simp_all

lemma stages_update: "t < length ts \<Longrightarrow> sum_list (map stage (ts[t := p])) + stage (ts ! t) = sum_list (map stage ts) + stage p"
proof (induction ts arbitrary: t)
  case (Cons q ts)
  then show ?case by (cases t) (auto simp: algebra_simps)
qed simp

lemma goes_progress:
  "t < length (threads s) \<Longrightarrow> progress (goes t p s) + stage (threads s ! t) = progress s + stage p"
  using stages_update [of t "threads s" p] by (simp add: progress_def)

lemma arrive_progress:
  assumes "t < length (threads s)" "threads s ! t = Reset_done"
  shows "progress s < progress (arrive t s)"
  using assms goes_progress [of t "s\<lparr>threads_ready_count := threads_ready_count s + 1\<rparr>" Waiting]
    goes_progress [of t "s\<lparr>threads_ready_count := threads_ready_count s + 1, threads := map woken (threads s)\<rparr>" Past]
  by (auto simp: arrive_def Let_def progress_def comp_def)

lemma stages_bound: "sum_list (map stage ts) \<le> 6 * length ts"
proof (induction ts)
  case (Cons p ts)
  then show ?case by (cases p) simp_all
qed simp

lemma progress_bound: "st_inv s \<Longrightarrow> progress s \<le> 74"
  using stages_bound [of "threads s"] by (cases "main_at s") (auto simp: st_inv_def progress_def)

text \<open>If some thread has not yet reached its task, one of them can move on, provided all have been created.\<close>

lemma thread_moves:
  assumes "st_inv s" "\<forall>t < NUM_TASKS. threads s ! t \<noteq> Unborn \<and> threads s ! t \<noteq> Running" "\<exists>t < NUM_TASKS. threads s ! t \<noteq> Done"
  shows "\<exists>s'. st_step s s' \<and> progress s < progress s'"
proof -
  have l: "length (threads s) = NUM_TASKS" using assms(1) by (simp add: st_inv_def)
  consider (born) t where "t < NUM_TASKS" "threads s ! t = Born"
    | (reset) t where "t < NUM_TASKS" "threads s ! t = Reset_done"
    | (past) t where "t < NUM_TASKS" "threads s ! t = Past"
    | (arrived) "\<forall>t < NUM_TASKS. threads s ! t \<in> {Waiting, Woken, Done}"
    using assms(2) by (metis insertCI tpc.exhaust)
  then show ?thesis
  proof cases
    case born
    have "progress ((goes t Reset_done s)\<lparr>shutdown_all := False\<rparr>) = progress (goes t Reset_done s)" by (simp add: progress_def)
    then show ?thesis using st_step.reset [OF born] goes_progress [of t s Reset_done] born l by (intro exI conjI) auto
  next
    case reset
    then show ?thesis using st_step.arrive [OF reset] arrive_progress [of t s] l by auto
  next
    case past
    have "progress (call t s) = progress (goes t Running s)" by (simp add: call_def Let_def progress_def)
    then show ?thesis using st_step.call [OF past] goes_progress [of t s Running] past l by auto
  next
    case arrived
    then have "\<forall>p \<in> set (threads s). arrived p" using l by (auto simp: in_set_conv_nth arrived_def)
    then have "cnt arrived (threads s) = int NUM_TASKS" using cnt_all [of arrived "threads s"] l by simp
    then have c: "threads_ready_count s = int NUM_TASKS" using assms(1) by (simp add: st_inv_def)
    then have "\<forall>t < NUM_TASKS. threads s ! t \<noteq> Waiting" using assms(1) by (simp add: st_inv_def)
    then obtain t where t: "t < NUM_TASKS" "threads s ! t = Woken" using arrived assms(3) by auto
    have "retest t s = goes t Past s" using c by (simp add: retest_def)
    then show ?thesis using st_step.retest [OF t] goes_progress [of t s Past] t l by auto
  qed
qed

text \<open>
  C25: Start-up does not get stuck. In every reachable state before the end in which no task is running, some thread, or
  \<open>main\<close>, can make a step that brings it further (waking up and falling asleep again is none). The
  progress is at most 74, so nobody is left waiting at the barrier, whatever the order of the threads.
\<close>

theorem startup_progress:
  assumes "st_reach s" "main_at s \<noteq> Closed" "\<forall>t < NUM_TASKS. threads s ! t \<noteq> Running"
  shows "progress s \<le> 74 \<and> (\<exists>s'. st_step s s' \<and> progress s < progress s')"
proof -
  have i: "st_inv s" using assms(1) by (rule st_reach_inv)
  then have l: "length (threads s) = NUM_TASKS" and m: "main_inv (threads s) (main_at s)" by (simp_all add: st_inv_def)
  have "\<exists>s'. st_step s s' \<and> progress s < progress s'"
  proof (cases "main_at s")
    case (Create n)
    show ?thesis
    proof (cases "n < NUM_TASKS")
      case True
      then have "threads s ! n = Unborn" using m Create by simp
      then have "progress ((goes n Born s)\<lparr>main_at := Create (n + 1)\<rparr>) = progress s + 2"
        using goes_progress [of n s Born] True l Create by (simp add: progress_def)
      then show ?thesis using st_step.create [OF Create True] by (intro exI conjI) auto
    next
      case False
      then have "main_at s = Create NUM_TASKS" using m Create by simp
      then show ?thesis using st_step.created [of s] by (intro exI conjI) (auto simp: progress_def)
    qed
  next
    case (Join n)
    show ?thesis
    proof (cases "n < NUM_TASKS \<and> threads s ! n \<noteq> Done")
      case True
      then show ?thesis using thread_moves [OF i] assms(3) m Join by auto
    next
      case False
      then show ?thesis
        using st_step.join [OF Join] st_step.close [of s] m Join
        by (cases "n < NUM_TASKS") (auto intro!: exI conjI simp: progress_def joined_def split: if_splits)
    qed
  next
    case Closed
    then show ?thesis using assms(2) by simp
  qed
  then show ?thesis using progress_bound [OF i] by simp
qed

section \<open>A run\<close>

text \<open>The threads are created, reset the flag and arrive in order; the control task is the last.\<close>

definition at_run :: "int \<Rightarrow> bool \<Rightarrow> tpc list \<Rightarrow> main_pc \<Rightarrow> start" where
  "at_run c b ts m = \<lparr>threads_ready_count = c, shutdown_all = b, threads = ts, cancelled = {}, main_at = m\<rparr>"

lemma at_run_fields [simp]: "threads_ready_count (at_run c b ts m) = c" "shutdown_all (at_run c b ts m) = b"
  "threads (at_run c b ts m) = ts" "main_at (at_run c b ts m) = m" "goes t p (at_run c b ts m) = at_run c b (ts[t := p]) m"
  "at_run c b ts m \<lparr>main_at := m'\<rparr> = at_run c b ts m'" "at_run c b ts m \<lparr>shutdown_all := b'\<rparr> = at_run c b' ts m"
  "at_run c b ts m \<lparr>threads_ready_count := c'\<rparr> = at_run c' b ts m" "at_run c b ts m \<lparr>threads := ts'\<rparr> = at_run c b ts' m"
  by (simp_all add: at_run_def goes_def)

definition front :: "nat \<Rightarrow> tpc \<Rightarrow> tpc \<Rightarrow> tpc list" where
  "front n p q = replicate n p @ replicate (9 - n) q"

lemma front_step: "n < 9 \<Longrightarrow> (front n p q)[n := p] = front (Suc n) p q" "n < 9 \<Longrightarrow> front n p q ! n = q"
proof -
  assume n: "n < 9"
  then obtain m where "9 - n = Suc m" by (cases "9 - n") auto
  then have m: "9 - n = Suc m" "9 - Suc n = m" by simp_all
  show "(front n p q)[n := p] = front (Suc n) p q" "front n p q ! n = q"
    unfolding front_def m by (simp_all add: list_update_append nth_append replicate_append_same)
qed

lemma run_created: "n \<le> 9 \<Longrightarrow> st_reach (at_run 0 False (front n Born Unborn) (Create n))"
proof (induction n)
  case 0
  then show ?case using st_reach.start by (simp add: start0_def at_run_def front_def)
next
  case (Suc n)
  then have n: "n < 9" "st_reach (at_run 0 False (front n Born Unborn) (Create n))" by simp_all
  show ?case using st_reach.step [OF n(2) st_step.create [of _ n]] n(1) by (simp add: front_step)
qed

lemma run_reset: "n \<le> 9 \<Longrightarrow> st_reach (at_run 0 False (front n Reset_done Born) (Join 0))"
proof (induction n)
  case 0
  have "front 9 Born Unborn = front 0 Reset_done Born" by (simp add: front_def)
  then show ?case using st_reach.step [OF run_created [OF order_refl] st_step.created] by simp
next
  case (Suc n)
  then have n: "n < 9" "st_reach (at_run 0 False (front n Reset_done Born) (Join 0))" by simp_all
  show ?case using st_reach.step [OF n(2) st_step.reset [of n]] n(1) by (simp add: front_step)
qed

lemma run_waiting: "n \<le> 8 \<Longrightarrow> st_reach (at_run (int n) False (front n Waiting Reset_done) (Join 0))"
proof (induction n)
  case 0
  have "front 9 Reset_done Born = front 0 Waiting Reset_done" by (simp add: front_def)
  then show ?case using run_reset [OF order_refl] by simp
next
  case (Suc n)
  then have n: "n < 9" "n \<noteq> 8" "st_reach (at_run (int n) False (front n Waiting Reset_done) (Join 0))" by simp_all
  show ?case using st_reach.step [OF n(3) st_step.arrive [of n]] n(1,2) by (simp add: front_step arrive_def add.commute)
qed

lemma run_past: "st_reach (at_run 9 False (replicate 8 Woken @ [Past]) (Join 0))"
proof -
  have "front 8 Waiting Reset_done ! 8 = Reset_done" by (rule front_step) simp
  moreover have "(map woken (front 8 Waiting Reset_done))[8 := Past] = replicate 8 Woken @ [Past]" by (simp add: front_def numeral_eq_Suc)
  ultimately show ?thesis using st_reach.step [OF run_waiting [OF order_refl] st_step.arrive [of 8]] by (simp add: arrive_def)
qed

text \<open>The control task can be called, and ask for the shutdown, before the client's task has begun; then the request is lost.\<close>

lemma run_asked: "st_reach (at_run 9 True (replicate 8 Woken @ [Running]) (Join 0))"
proof -
  have "st_reach (at_run 9 False (replicate 8 Woken @ [Running]) (Join 0))"
    using st_reach.step [OF run_past st_step.call [of 8]] by (simp add: call_def nth_append list_update_append)
  then show ?thesis using st_reach.step [OF _ st_step.ask [of 8]] by (fastforce simp: nth_append)
qed

lemma request_lost: "st_reach (at_run 9 False (Running # replicate 7 Woken @ [Running]) (Join 0))"
proof -
  have e: "replicate 8 Woken @ [Running] = Woken # replicate 7 Woken @ [Running]" by (simp add: numeral_eq_Suc)
  have "st_reach (at_run 9 True (Past # replicate 7 Woken @ [Running]) (Join 0))"
    using st_reach.step [OF run_asked [unfolded e] st_step.retest [of 0]] by (simp add: retest_def)
  then show ?thesis using st_reach.step [OF _ st_step.call [of 0]] by (fastforce simp: call_def)
qed

lemma barrier_witness: "(replicate 8 Woken @ [Past]) ! 3 \<notin> {Unborn, Born, Reset_done}"
  using barrier [OF run_past, of 8 3] by (simp add: nth_append)

lemma shutdown_kept_witness:
  "shutdown_all (at_run 9 True (Done # replicate 7 Woken @ [Running]) (Join 0))"
proof -
  have r: "st_reach (at_run 9 True (Running # replicate 7 Woken @ [Running]) (Join 0))"
    using st_reach.step [OF request_lost st_step.ask [of 8]] by (simp add: nth_append)
  have s: "st_step (at_run 9 True (Running # replicate 7 Woken @ [Running]) (Join 0)) (at_run 9 True (Done # replicate 7 Woken @ [Running]) (Join 0))"
    using st_step.return [of 0 "at_run 9 True (Running # replicate 7 Woken @ [Running]) (Join 0)"] by simp
  show ?thesis using shutdown_kept [OF r _ _ s] by simp
qed

lemma startup_progress_witness: "\<exists>s'. st_step (at_run 9 False (replicate 8 Woken @ [Past]) (Join 0)) s'"
proof -
  have "\<forall>t < 9. (replicate 8 Woken @ [Past]) ! t \<noteq> Running" by (simp add: nth_append less_Suc_eq)
  then show ?thesis using startup_progress [OF run_past] by auto
qed

lemma priority_range:
  "prio_min \<le> prio_max \<Longrightarrow> prio_min \<le> sched_priority p prio_min prio_max \<and> sched_priority p prio_min prio_max \<le> prio_max"
  by (cases p) (auto simp: sched_priority_def)

end
