(* ===== verification/InitDb.thy ===== *)
theory InitDb
  imports Inputs HostTime
begin

text \<open>
  The tool that makes the database of the outputs (\<open>cs_client/init_db.c\<close>) with the functions of
  \<open>config_file.c\<close> it calls, the table the repository ships for it (\<open>odata.csv\<close>), and the start of
  \<open>get_host_cmd_task\<close>, which loads the file. The tool runs on the developer's machine: \<open>char\<close> is signed and \<open>int\<close>
  has 32 bits. Messages and the checks of file names are left out.
\<close>

section \<open>Reading the table\<close>

definition is_alpha :: "u8 \<Rightarrow> bool" where
  "is_alpha c \<longleftrightarrow> (0x41 \<le> c \<and> c \<le> 0x5A) \<or> (0x61 \<le> c \<and> c \<le> 0x7A)"

abbreviation (input) comma :: u8 where "comma \<equiv> 0x2C"
abbreviation (input) newline :: u8 where "newline \<equiv> 0x0A"

text \<open>
  \<open>while(!isalpha(*pch))\<close>: the last list is the buffer from \<open>pch\<close> on, \<open>fld\<close> what was read since the last comma, \<open>row\<close> the
  numbers so far. \<open>tempx\<close> has room for 100 characters, \<open>tempy\<close> and a row of \<open>int_array\<close> for 10.
\<close>

fun csv_numbers :: "nat \<Rightarrow> nat \<Rightarrow> u8 list \<Rightarrow> u8 list \<Rightarrow> u8 list \<Rightarrow> (nat \<times> nat \<times> u8 list \<times> u8 list) option" where
  "csv_numbers m k fld row [] = None"
| "csv_numbers m k fld row (c # cs) =
     (if is_alpha c then Some (m, k, row, c # cs)
      else case cs of [] \<Rightarrow> None
        | d # ds \<Rightarrow>
            if m \<ge> 100 then None
            else if d = comma then
              (if length fld > 10 \<or> length row \<ge> 10 then None
               else case atoi (fld @ replicate (10 - length fld) 0) of None \<Rightarrow> None
                 | Some v \<Rightarrow> csv_numbers (m + 1) (k + 1) [] (row @ [word_of_int v]) cs)
            else csv_numbers (m + 1) (k + 1) (fld @ [d]) row cs)"

text \<open>\<open>while(*pch2 != '\n' && k < fsize)\<close>: the label, \<open>k\<close> and the rest.\<close>

fun csv_label :: "nat \<Rightarrow> nat \<Rightarrow> u8 list \<Rightarrow> (u8 list \<times> nat \<times> u8 list) option" where
  "csv_label fsize k [] = None"
| "csv_label fsize k (c # cs) =
     (if c \<noteq> newline \<and> k < fsize then
        (case csv_label fsize (k + 1) cs of None \<Rightarrow> None | Some (l, k, r) \<Rightarrow> Some (c # l, k, r))
      else Some ([], k, c # cs))"

text \<open>
  One turn of the loop over the 40 lines: the numbers, \<open>tempx[m-1] = 0\<close>, and \<open>strncpy\<close> into a row of \<open>label_array\<close>.
\<close>

definition csv_line :: "nat \<Rightarrow> nat \<Rightarrow> u8 list \<Rightarrow> ((u8 list \<times> u8 list) \<times> nat \<times> u8 list) option" where
  "csv_line fsize k pch = do {
     (m, k, row, pch) \<leftarrow> csv_numbers 0 k [] [] pch;
     if m = 0 then None
     else do {
       (l, k, pch) \<leftarrow> csv_label fsize k pch;
       if length l > 30 then None
       else Some ((row @ replicate (10 - length row) 0, takeWhile (\<lambda>c. c \<noteq> 0) l @ replicate (30 - length (takeWhile (\<lambda>c. c \<noteq> 0) l)) 0), k, pch)
     }
   }"

fun csv_lines :: "nat \<Rightarrow> nat \<Rightarrow> nat \<Rightarrow> u8 list \<Rightarrow> (u8 list \<times> u8 list) list option" where
  "csv_lines 0 fsize k pch = Some []"
| "csv_lines (Suc n) fsize k pch = do {
     (row, k, pch) \<leftarrow> csv_line fsize k pch;
     rows \<leftarrow> csv_lines n fsize k pch;
     Some (row # rows)
   }"

text \<open>\<open>copy_labels\<close>: \<open>buf\<close> has 3000 bytes; the labels are copied to the records at the end.\<close>

definition copy_labels :: "u8 list \<Rightarrow> (u8 list \<times> u8 list) list option" where
  "copy_labels csv = do {
     let fsize = length csv;
     if fsize > 3000 then None
     else do {
       let pch = dropWhile (\<lambda>c. c \<noteq> newline) (csv @ replicate (3000 - fsize) 0);
       rows \<leftarrow> csv_lines 40 fsize 0 pch;
       if list_all (\<lambda>(row, l). 0 \<in> set l) rows then Some rows else None
     }
   }"

text \<open>The record of a line; a \<open>char\<close> is extended to the \<open>UINT\<close> of the times.\<close>

definition csv_record :: "nat \<Rightarrow> u8 list \<times> u8 list \<Rightarrow> o_data" where
  "csv_record i = (\<lambda>(row, l). \<lparr>o_label = l, o_port = word_of_nat i, o_onoff = row ! 1, o_input_port = row ! 2, o_polarity = row ! 3,
     o_type = row ! 4, o_time_delay = scast (row ! 5), o_time_left = scast (row ! 6), o_pulse_time = row ! 7, o_reset = row ! 8\<rparr>)"

text \<open>\<open>oWriteConfig\<close> and \<open>oLoadConfig\<close>, on an array; \<open>mem\<close> is the memory of the array and \<open>id0\<close> the uninitialised byte.\<close>

definition oWriteConfig :: "(int \<Rightarrow> u8 list) \<Rightarrow> o_data list \<Rightarrow> cfile" where
  "oWriteConfig pads arr = 0xAA # concat (map (\<lambda>i. o_data_bytes (pads (int i)) (arr ! i)) [0..<length arr])"

definition oLoadConfig :: "u8 \<Rightarrow> cfile option \<Rightarrow> u8 list \<Rightarrow> int \<times> u8 list" where
  "oLoadConfig id0 fo mem =
     (case fo of None \<Rightarrow> (-2, mem)
      | Some f \<Rightarrow>
          (let (id, f) = read_id id0 f in
           if id \<noteq> 0xAA then (-1, mem) else (0, fst (file_read (length mem) mem f))))"

text \<open>
  \<open>oWriteConfigXML\<close>: a label with a percent sign would be a format, and a number of more than four characters does not fit
  \<open>temp\<close>: \<open>None\<close>. \<open>%d\<close> prints a \<open>UINT\<close> as an \<open>int\<close>.
\<close>

definition xml_tag :: "u8 list \<Rightarrow> string \<Rightarrow> u8 list" where
  "xml_tag open_br name = open_br @ bytes_of name @ [0x3E]"

definition xml_label :: "u8 list \<Rightarrow> u8 list option" where
  "xml_label l = (if 0 \<in> set l \<and> 0x25 \<notin> set (takeWhile (\<lambda>c. c \<noteq> 0) l) then Some (takeWhile (\<lambda>c. c \<noteq> 0) l) else None)"

definition xml_number :: "int \<Rightarrow> u8 list option" where
  "xml_number n = (if length (dec_int n) < 5 then Some (bytes_of (dec_int n)) else None)"

definition xml_fields :: "o_data \<Rightarrow> (string \<times> u8 list option) list" where
  "xml_fields d =
     [(''label'', xml_label (o_label d)), (''port'', xml_number (uint (o_port d))), (''onoff'', xml_number (uint (o_onoff d))),
      (''input_port'', xml_number (uint (o_input_port d))), (''polarity'', xml_number (uint (o_polarity d))),
      (''type'', xml_number (uint (o_type d))), (''time_delay'', xml_number (sint (o_time_delay d))),
      (''time_left'', xml_number (sint (o_time_left d))), (''pulse_time'', xml_number (uint (o_pulse_time d))),
      (''reset'', xml_number (uint (o_reset d)))]"

fun xml_field_lines :: "(string \<times> u8 list option) list \<Rightarrow> u8 list option" where
  "xml_field_lines [] = Some []"
| "xml_field_lines ((name, v) # fs) = do {
     v \<leftarrow> v;
     r \<leftarrow> xml_field_lines fs;
     Some ([9, 9] @ xml_tag [0x3C] name @ v @ xml_tag [0x3C, 0x2F] name @ [newline] @ r)
   }"

fun xml_records :: "o_data list \<Rightarrow> u8 list option" where
  "xml_records [] = Some []"
| "xml_records (d # ds) = do {
     fs \<leftarrow> xml_field_lines (xml_fields d);
     r \<leftarrow> xml_records ds;
     Some ([9] @ xml_tag [0x3C] ''O_DATA'' @ [newline] @ fs @ [9] @ xml_tag [0x3C, 0x2F] ''O_DATA'' @ [newline] @ r)
   }"

definition first_line :: string where
  "first_line = ''<?xml version='' @ [CHR 0x22] @ ''1.0'' @ [CHR 0x22] @ '' encoding='' @ [CHR 0x22] @ ''utf-8'' @ [CHR 0x22] @
     '' standalone='' @ [CHR 0x22] @ ''yes'' @ [CHR 0x22] @ ''?>''"

definition oWriteConfigXML :: "o_data list \<Rightarrow> cfile option" where
  "oWriteConfigXML arr = do {
     rs \<leftarrow> xml_records arr;
     Some (bytes_of first_line @ [newline] @ xml_tag [0x3C] ''Table'' @ [newline] @ rs @ xml_tag [0x3C, 0x2F] ''Table'' @ [newline])
   }"

text \<open>\<open>main\<close>; \<open>do_xml\<close> is whether there is a second argument: 1 if the first column does not count from 0, else the file.\<close>

definition init_db :: "bool \<Rightarrow> (int \<Rightarrow> u8 list) \<Rightarrow> u8 list \<Rightarrow> (int \<times> cfile option) option" where
  "init_db do_xml pads csv = do {
     rows \<leftarrow> copy_labels csv;
     if list_all (\<lambda>i. sint (fst (rows ! i) ! 0) = int i) [0..<40]
     then do {
       let arr = map (\<lambda>i. csv_record i (rows ! i)) [0..<40];
       f \<leftarrow> (if do_xml then oWriteConfigXML arr else Some (oWriteConfig pads arr));
       Some (0, Some f)
     }
     else Some (1, None)
   }"

section \<open>The shipped table\<close>

text \<open>The 40 lines of \<open>odata.csv\<close>: nine numbers and the label.\<close>

definition odata_rows :: "(nat list \<times> string) list" where
  "odata_rows = [
     ([0, 0, 5, 0, 2, 10, 0, 0, 0], ''STARTER''),
     ([1, 0, 7, 0, 4, 0, 0, 0, 0], ''ACCON''),
     ([2, 0, 7, 0, 4, 0, 0, 0, 0], ''FUELPUMP''),
     ([3, 0, 6, 0, 0, 0, 0, 0, 0], ''COOLINGFAN''),
     ([4, 0, 0, 0, 0, 0, 0, 0, 0], ''LHEADLAMP''),
     ([5, 0, 0, 0, 0, 0, 0, 0, 0], ''RHEADLAMP''),
     ([6, 0, 1, 0, 0, 0, 0, 0, 0], ''RUNNINGLIGHTS''),
     ([7, 0, 41, 0, 0, 0, 0, 0, 0], ''LIGHTBAR''),
     ([8, 0, 2, 0, 3, 15, 0, 0, 0], ''LEFTRBLINKER''),
     ([9, 0, 3, 0, 3, 15, 0, 0, 0], ''RIGHTRBLINKER''),
     ([10, 0, 2, 0, 3, 15, 0, 0, 0], ''LEFTFBLINKER''),
     ([11, 0, 3, 0, 3, 15, 0, 0, 0], ''RIGHTFBLINKER''),
     ([12, 0, 8, 0, 0, 0, 0, 0, 0], ''LBRAKELIGHT''),
     ([13, 0, 8, 0, 0, 0, 0, 0, 0], ''RBRAKELIGHT''),
     ([14, 0, 2, 0, 2, 15, 0, 0, 0], ''XLBLINKER''),
     ([15, 0, 3, 0, 2, 15, 0, 0, 0], ''XRBLINKER''),
     ([16, 0, 4, 0, 0, 0, 0, 0, 0], ''LBRIGHTS''),
     ([17, 0, 4, 0, 0, 0, 0, 0, 0], ''RBRIGHTS''),
     ([18, 0, 41, 0, 0, 0, 0, 0, 0], ''HTRBLOWERLOW''),
     ([19, 0, 41, 0, 0, 0, 0, 0, 0], ''HTRBLOWERMED''),
     ([20, 0, 41, 0, 0, 0, 0, 0, 0], ''HTRBLOWERHIGH''),
     ([21, 0, 41, 0, 0, 0, 0, 0, 0], ''WWIPER1''),
     ([22, 0, 41, 0, 0, 0, 0, 0, 0], ''WWIPER2''),
     ([23, 0, 41, 0, 0, 0, 0, 0, 0], ''TRLEFTBLINKER''),
     ([24, 0, 41, 0, 0, 0, 0, 0, 0], ''TRRIGHTBLINKER''),
     ([25, 0, 41, 0, 0, 0, 0, 0, 0], ''INTRUDERALARM''),
     ([26, 0, 41, 0, 0, 0, 0, 0, 0], ''BLINKINDICATE''),
     ([27, 0, 41, 0, 0, 0, 0, 0, 0], ''BATTERYCOMPHEATER''),
     ([28, 0, 41, 0, 0, 0, 0, 0, 0], ''ALARMSPEAKER''),
     ([29, 0, 41, 0, 0, 0, 0, 0, 0], ''BACKUPLIGHTS''),
     ([30, 0, 41, 0, 0, 0, 0, 0, 0], ''TESTOUTPUT27''),
     ([31, 0, 41, 0, 0, 0, 0, 0, 0], ''TESTOUTPUT28''),
     ([32, 0, 41, 0, 0, 0, 0, 0, 0], ''TESTOUTPUT29''),
     ([33, 0, 41, 0, 0, 0, 0, 0, 0], ''TESTOUTPUT30''),
     ([34, 0, 41, 0, 0, 0, 0, 0, 0], ''TESTOUTPUT31''),
     ([35, 0, 41, 0, 0, 0, 0, 0, 0], ''TESTOUTPUT32''),
     ([36, 0, 41, 0, 0, 0, 0, 0, 0], ''TESTOUTPUT33''),
     ([37, 0, 41, 0, 0, 0, 0, 0, 0], ''TESTOUTPUT34''),
     ([38, 0, 41, 0, 0, 0, 0, 0, 0], ''TESTOUTPUT35''),
     ([39, 0, 41, 0, 0, 0, 0, 0, 0], ''NULL2'')]"

definition csv_text :: "(nat list \<times> string) list \<Rightarrow> u8 list" where
  "csv_text rows = newline # concat (map (\<lambda>(ns, l). concat (map (\<lambda>n. bytes_of (dec_nat n) @ [comma]) ns) @ bytes_of l @ [newline]) rows)"

text \<open>The file: an empty line, the lines, and an empty line.\<close>

definition odata_csv :: "u8 list" where
  "odata_csv = csv_text odata_rows @ [newline]"

section \<open>Loading it\<close>

text \<open>From \<open>ollist_init\<close> to \<open>init_ips\<close> at the start of \<open>get_host_cmd_task\<close>; \<open>None\<close> is a file that is not there.\<close>

definition host_init :: "u8 \<Rightarrow> u8 list \<Rightarrow> u8 \<Rightarrow> cfile option \<Rightarrow> 'a sched_scheme \<Rightarrow> 'a sched_scheme option" where
  "host_init id0 mem id1 fo s =
     (let s = s\<lparr>db := []\<rparr>;
          s = (if fo \<noteq> None then s\<lparr>db := snd (olLoadConfig id0 mem fo (db s))\<rparr> else s)
      in init_ips id1 s)"

section \<open>What the table becomes\<close>

definition number_text :: "nat list \<Rightarrow> u8 list" where
  "number_text ns = concat (map (\<lambda>n. bytes_of (dec_nat n) @ [comma]) ns)"

definition line_text :: "nat list \<times> string \<Rightarrow> u8 list" where
  "line_text = (\<lambda>(ns, l). number_text ns @ bytes_of l @ [newline])"

lemma csv_text_eq: "csv_text rows = newline # concat (map line_text rows)"
  by (simp add: csv_text_def line_text_def number_text_def)

text \<open>A line the tool can read: nine numbers below 128 and a label of at most 29 characters that begins with a letter.\<close>

definition row_ok :: "nat list \<times> string \<Rightarrow> bool" where
  "row_ok = (\<lambda>(ns, l). length ns = 9 \<and> (\<forall>n \<in> set ns. n < 128) \<and> l \<noteq> [] \<and> length l < 30 \<and> is_alpha (hd (bytes_of l)) \<and>
     0 \<notin> set (bytes_of l) \<and> newline \<notin> set (bytes_of l))"

definition padded_label :: "string \<Rightarrow> u8 list" where
  "padded_label l = bytes_of l @ replicate (30 - length l) 0"

definition line_row :: "nat list \<times> string \<Rightarrow> u8 list \<times> u8 list" where
  "line_row = (\<lambda>(ns, l). (map word_of_nat ns @ [0], padded_label l))"

lemma digit_no: "is_digit b \<Longrightarrow> \<not> is_alpha b \<and> b \<noteq> comma"
  by (auto simp: is_digit_def is_alpha_def word_le_nat_alt)

lemma numbers_field:
  assumes "\<not> is_alpha c" "\<forall>b \<in> set ds. is_digit b" "length (fld @ ds) \<le> 10" "length row < 10" "m + length ds < 100"
    "atoi ((fld @ ds) @ replicate (10 - length (fld @ ds)) 0) = Some v"
  shows "csv_numbers m k fld row (c # ds @ comma # r) =
    csv_numbers (m + length ds + 1) (k + length ds + 1) [] (row @ [word_of_int v]) (comma # r)"
  using assms
proof (induction ds arbitrary: c fld m k)
  case (Cons d ds)
  have d: "\<not> is_alpha d" "d \<noteq> comma" using Cons.prems(2) digit_no by auto
  have "csv_numbers m k fld row (c # (d # ds) @ comma # r) = csv_numbers (m + 1) (k + 1) (fld @ [d]) row (d # ds @ comma # r)"
    using Cons.prems(1,5) d(2) by simp
  also have "\<dots> = csv_numbers (m + 1 + length ds + 1) (k + 1 + length ds + 1) [] (row @ [word_of_int v]) (comma # r)"
    by (rule Cons.IH) (use Cons.prems d in simp_all)
  finally show ?case by simp
qed simp

lemma number_field:
  assumes "\<not> is_alpha c" "n < 128" "length row < 10" "m + 4 \<le> 100"
  shows "csv_numbers m k [] row (c # bytes_of (dec_nat n) @ comma # r) =
    csv_numbers (m + length (dec_nat n) + 1) (k + length (dec_nat n) + 1) [] (row @ [word_of_nat n]) (comma # r)"
proof -
  let ?ds = "bytes_of (dec_nat n)"
  note d = dec_nat_digits [of n]
  have l: "length ?ds \<le> 3" using length_dec_nat [of n 2] assms(2) by simp
  have "?ds \<noteq> []" using d by (simp add: bytes_of_def)
  then have "atoi (([] @ ?ds) @ replicate (10 - length ([] @ ?ds)) 0) = Some (int n)"
    using atoi_digits [of ?ds "10 - length ?ds"] d l by simp
  from numbers_field [OF assms(1) _ _ assms(3) _ this] show ?thesis using d l assms(4) by simp
qed

lemma number_fields:
  assumes "\<not> is_alpha c" "\<forall>n \<in> set ns. n < 128" "length row + length ns \<le> 10" "m + 4 * length ns \<le> 100"
  shows "csv_numbers m k [] row (c # number_text ns @ r) =
    csv_numbers (m + length (number_text ns)) (k + length (number_text ns)) [] (row @ map word_of_nat ns) ((if ns = [] then c else comma) # r)"
  using assms
proof (induction ns arbitrary: c row m k)
  case (Cons n ns)
  have l: "length (dec_nat n) \<le> 3" using length_dec_nat [of n 2] Cons.prems(2) by simp
  have "\<not> is_alpha comma" by (simp add: is_alpha_def)
  then show ?case
    using number_field [OF Cons.prems(1), of n row m k "number_text ns @ r"]
      Cons.IH [of comma "row @ [word_of_nat n]" "m + length (dec_nat n) + 1" "k + length (dec_nat n) + 1"] Cons.prems l
    by (simp add: number_text_def ac_simps)
qed (simp add: number_text_def)

lemma number_text_length: "\<forall>n \<in> set ns. n < 128 \<Longrightarrow> length (number_text ns) \<le> 4 * length ns"
proof (induction ns)
  case (Cons n ns)
  then show ?case using length_dec_nat [of n 2] by (simp add: number_text_def)
qed (simp add: number_text_def)

lemma label_read:
  "newline \<notin> set l \<Longrightarrow> k + length l \<le> fsize \<Longrightarrow> csv_label fsize k (l @ newline # r) = Some (l, k + length l, newline # r)"
  by (induction l arbitrary: k) auto

lemma line_read:
  assumes "row_ok x" "k + length (line_text x) \<le> fsize"
  shows "csv_line fsize k (newline # line_text x @ r) = Some (line_row x, k + length (line_text x), newline # r)"
proof -
  obtain ns l where x: "x = (ns, l)" by (cases x)
  note ok = assms(1) [unfolded x row_ok_def prod.case]
  obtain a bs where l: "bytes_of l = a # bs" using ok by (cases "bytes_of l") (auto simp: bytes_of_def)
  have len: "length (number_text ns) \<le> 36" using number_text_length [of ns] ok by simp
  have a: "is_alpha a" "a \<noteq> comma" using ok l by (auto simp: is_alpha_def)
  have "\<not> is_alpha newline" "\<not> is_alpha comma" by (simp_all add: is_alpha_def)
  then have n: "csv_numbers 0 k [] [] (newline # number_text ns @ bytes_of l @ newline # r) =
      Some (Suc (length (number_text ns)), Suc (k + length (number_text ns)), map word_of_nat ns, bytes_of l @ newline # r)"
    using number_fields [of newline ns "[]" 0 k "bytes_of l @ newline # r"] ok len a by (auto simp: l)
  have lab: "csv_label fsize (Suc (k + length (number_text ns))) (bytes_of l @ newline # r) =
      Some (bytes_of l, Suc (k + (length (number_text ns) + length l)), newline # r)"
    using label_read [of "bytes_of l" "Suc (k + length (number_text ns))" fsize r] ok assms(2) by (simp add: x line_text_def)
  have t: "takeWhile (\<lambda>c. c \<noteq> 0) (bytes_of l) = bytes_of l" using ok by (auto simp: takeWhile_eq_all_conv)
  have "length (takeWhile (\<lambda>c. c \<noteq> 0) (bytes_of l)) = length l" unfolding t by simp
  moreover have "newline # line_text x @ r = newline # number_text ns @ bytes_of l @ newline # r"
    by (simp add: x line_text_def)
  ultimately show ?thesis
    unfolding csv_line_def using ok
    by (simp add: n lab t x line_row_def padded_label_def del: csv_numbers.simps csv_label.simps)
qed

lemma lines_read:
  "\<forall>x \<in> set rows. row_ok x \<Longrightarrow> k + length (concat (map line_text rows)) \<le> fsize \<Longrightarrow>
   csv_lines (length rows) fsize k (newline # concat (map line_text rows) @ r) = Some (map line_row rows)"
proof (induction rows arbitrary: k)
  case (Cons x rows)
  then show ?case using line_read [of x k fsize "concat (map line_text rows) @ r"] by simp
qed simp

lemma labels_read:
  assumes "\<forall>x \<in> set rows. row_ok x" "length rows = 40" "length (csv_text rows @ rest) \<le> 3000"
  shows "copy_labels (csv_text rows @ rest) = Some (map line_row rows)"
proof -
  have "list_all (\<lambda>(row, l). 0 \<in> set l) (map line_row rows)"
    using assms(1) by (auto simp: list_all_iff line_row_def padded_label_def row_ok_def)
  then show ?thesis
    using lines_read [OF assms(1), of 0 "length (csv_text rows @ rest)" "rest @ replicate (3000 - length (csv_text rows @ rest)) 0"] assms(2,3)
    by (simp add: copy_labels_def csv_text_eq)
qed

text \<open>The record of a line.\<close>

definition row_record :: "nat list \<times> string \<Rightarrow> o_data" where
  "row_record = (\<lambda>(ns, l). \<lparr>o_label = padded_label l, o_port = word_of_nat (ns ! 0), o_onoff = word_of_nat (ns ! 1), o_input_port = word_of_nat (ns ! 2),
     o_polarity = word_of_nat (ns ! 3), o_type = word_of_nat (ns ! 4), o_time_delay = word_of_nat (ns ! 5), o_time_left = word_of_nat (ns ! 6),
     o_pulse_time = word_of_nat (ns ! 7), o_reset = word_of_nat (ns ! 8)\<rparr>)"

lemma scast_small: "n < 128 \<Longrightarrow> (scast (word_of_nat n :: u8) :: u32) = word_of_nat n"
proof -
  have "list_all (\<lambda>n. (scast (word_of_nat n :: u8) :: u32) = word_of_nat n) [0..<128]" by code_simp
  then show "n < 128 \<Longrightarrow> ?thesis" by (simp add: list_all_iff)
qed

lemma record_row:
  assumes "row_ok x" "fst x ! 0 = i"
  shows "csv_record i (line_row x) = row_record x"
proof -
  obtain ns l where x: "x = (ns, l)" by (cases x)
  have l: "length ns = 9" "\<forall>k < 9. ns ! k < 128" using assms(1) by (auto simp: x row_ok_def)
  have "(map word_of_nat ns @ [0]) ! k = (word_of_nat (ns ! k) :: u8)" if "k < 9" for k
    using that l(1) by (simp add: nth_append)
  then show ?thesis using l scast_small assms(2) by (simp add: csv_record_def line_row_def row_record_def x)
qed

text \<open>A table the tool accepts: 40 lines, counted from 0 in the first column.\<close>

definition table_ok :: "(nat list \<times> string) list \<Rightarrow> bool" where
  "table_ok rows \<longleftrightarrow> length rows = 40 \<and> (\<forall>i < 40. row_ok (rows ! i) \<and> fst (rows ! i) ! 0 = i)"

definition table_db :: "(nat list \<times> string) list \<Rightarrow> oalist" where
  "table_db rows = map (\<lambda>i. (int i, row_record (rows ! i))) [0..<40]"

lemma upt_int: "map int [0..<40] = [0..39]"
  by (simp add: upt_rec upto.simps)

lemma table_db_get: "0 \<le> k \<Longrightarrow> k < 40 \<Longrightarrow> map_of (table_db rows) k = Some (row_record (rows ! nat k))"
  by (intro map_of_is_SomeI) (auto simp: table_db_def comp_def upt_int image_iff distinct_map inj_on_def intro!: bexI [of _ "nat k"])

lemma padded_label_ok: "length l \<le> 30 \<Longrightarrow> length (padded_label l) = 30"
  by (simp add: padded_label_def)

lemma table_db_ok: "table_ok rows \<Longrightarrow> db_ok (table_db rows) \<and> (\<forall>(i, d) \<in> set (table_db rows). has_nul d)"
proof -
  assume t: "table_ok rows"
  have "uint (o_port (row_record (rows ! i))) = int i \<and> label_ok (row_record (rows ! i)) \<and> has_nul (row_record (rows ! i))"
    if "i < 40" for i
  proof -
    obtain ns l where x: "rows ! i = (ns, l)" by (cases "rows ! i")
    have "ns ! 0 = i" "length l < 30" using t that x by (auto simp: table_ok_def row_ok_def)
    then show ?thesis using that
      by (simp add: x row_record_def label_ok_def has_nul_def padded_label_def unsigned_of_nat take_bit_nat_eq_self)
  qed
  moreover have "map fst (table_db rows) = [0..39]" by (simp add: table_db_def comp_def upt_int)
  ultimately show ?thesis by (auto simp: db_ok_def table_db_def)
qed

lemma write_array:
  "oWriteConfig pads (map (\<lambda>i. row_record (rows ! i)) [0..<40]) = olWriteConfig pads (48 * 40) (table_db rows)"
  unfolding oWriteConfig_def olWriteConfig_def
  by (intro arg_cong2 [where f = "(#)"] refl arg_cong [where f = concat])
     (auto simp: table_db_get simp del: upt_rec_numeral)

lemma init_db_writes:
  assumes "table_ok rows" "length (csv_text rows @ rest) \<le> 3000"
  shows "init_db False pads (csv_text rows @ rest) = Some (0, Some (olWriteConfig pads (48 * 40) (table_db rows)))"
proof -
  have rows: "\<forall>x \<in> set rows. row_ok x" "length rows = 40" using assms(1) by (force simp only: table_ok_def in_set_conv_nth)+
  have col: "sint (fst (line_row (rows ! i)) ! 0) = int i" if "i < 40" for i
  proof -
    obtain ns l where x: "rows ! i = (ns, l)" by (cases "rows ! i")
    have "ns ! 0 = i" "length ns = 9" using assms(1) that x by (auto simp: table_ok_def row_ok_def)
    then show ?thesis using that by (simp add: x line_row_def nth_append signed_of_nat signed_take_bit_int_eq_self)
  qed
  have "map (\<lambda>i. csv_record i (map line_row rows ! i)) [0..<40] = map (\<lambda>i. row_record (rows ! i)) [0..<40]"
    using record_row assms(1) rows by (auto simp: table_ok_def)
  then have written: "oWriteConfig pads (map (\<lambda>i. csv_record i (map line_row rows ! i)) [0..<40]) = olWriteConfig pads (48 * 40) (table_db rows)"
    by (simp only: write_array)
  have "list_all (\<lambda>i. sint (fst (map line_row rows ! i) ! 0) = int i) [0..<40]"
    using col rows(2) by (auto simp: list_all_iff)
  then show ?thesis
    unfolding init_db_def labels_read [OF rows assms(2)] bind.bind_lunit Let_def by (simp only: if_True if_False written bind.bind_lunit)
qed

lemma table_round_trip_aux:
  assumes "table_ok rows" "length (csv_text rows @ rest) \<le> 3000" "length mem = 48"
  shows "\<exists>f. init_db False pads (csv_text rows @ rest) = Some (0, Some f) \<and> olLoadConfig id0 mem (Some f) [] = (0, table_db rows)"
  using init_db_writes [OF assms(1,2)] config_loads [of "table_db rows"] table_db_ok [OF assms(1)] assms(3) by auto


section \<open>The shipped database\<close>

lemma odata_ok: "table_ok odata_rows" "length odata_csv \<le> 3000"
proof -
  have "list_all (\<lambda>i. row_ok (odata_rows ! i) \<and> fst (odata_rows ! i) ! 0 = i) [0..<40] \<and> length odata_rows = 40" by code_simp
  then show "table_ok odata_rows" by (simp add: table_ok_def list_all_iff)
  show "length odata_csv \<le> 3000" by code_simp
qed

text \<open>The outputs the third column gives to input \<open>n\<close>.\<close>

definition input_outputs :: "int \<Rightarrow> int list" where
  "input_outputs n = map int (filter (\<lambda>k. int (fst (odata_rows ! k) ! 2) = n) [0..<40])"

lemma odata_inputs: "input_outputs 5 = [0]" "input_outputs 7 = [1, 2]" "input_outputs 8 = [12, 13]"
proof -
  let ?c = "[5, 7, 7, 6, 0, 0, 1, 41, 2, 3, 2, 3, 8, 8, 2, 3, 4, 4] @ replicate 22 41"
  have c: "map (\<lambda>x. fst x ! 2) odata_rows = ?c" by code_simp
  have "fst (odata_rows ! k) ! 2 = ?c ! k" if "k < 40" for k
    using arg_cong [OF c, of "\<lambda>xs. xs ! k"] that odata_ok(1) by (simp only: table_ok_def nth_map)
  then have "input_outputs n = map int (filter (\<lambda>k. int (?c ! k) = n) [0..<40])" for n
    unfolding input_outputs_def by (intro arg_cong [where f = "map int"] filter_cong) simp_all
  moreover have "map int (filter (\<lambda>k. int (?c ! k) = 5) [0..<40]) = [0]"
    "map int (filter (\<lambda>k. int (?c ! k) = 7) [0..<40]) = [1, 2]"
    "map int (filter (\<lambda>k. int (?c ! k) = 8) [0..<40]) = [12, 13]" by code_simp+
  ultimately show "input_outputs 5 = [0]" "input_outputs 7 = [1, 2]" "input_outputs 8 = [12, 13]" by simp_all
qed

lemma in_input_outputs: "k \<in> set (input_outputs n) \<longleftrightarrow> 0 \<le> k \<and> k < 40 \<and> int (fst (odata_rows ! nat k) ! 2) = n"
proof
  assume "0 \<le> k \<and> k < 40 \<and> int (fst (odata_rows ! nat k) ! 2) = n"
  then show "k \<in> set (input_outputs n)"
    unfolding input_outputs_def set_map set_filter set_upt by (intro image_eqI [of _ int "nat k"]) auto
qed (auto simp: input_outputs_def simp del: upt_rec_numeral)

lemma row_input: "table_ok rows \<Longrightarrow> k < 40 \<Longrightarrow> uint (o_input_port (row_record (rows ! k))) = int (fst (rows ! k) ! 2)"
proof -
  assume t: "table_ok rows" "k < 40"
  obtain ns l where x: "rows ! k = (ns, l)" by (cases "rows ! k")
  have "ns ! 2 < 128" using t x by (auto simp: table_ok_def row_ok_def)
  then show ?thesis by (simp add: x row_record_def unsigned_of_nat take_bit_nat_eq_self)
qed

lemma routed_inputs:
  "table_ok rows \<Longrightarrow> db s = table_db rows \<Longrightarrow>
   (\<exists>d. otp_get k s = Some d \<and> uint (o_input_port d) = n) \<longleftrightarrow>
   (0 \<le> k \<and> k < 40 \<and> int (fst (rows ! nat k) ! 2) = n)"
proof -
  assume t: "table_ok rows" and db: "db s = table_db rows"
  have "map_of (table_db rows) k = None" if "\<not> (0 \<le> k \<and> k < 40)"
    using that by (auto simp: map_of_eq_None_iff table_db_def)
  then show ?thesis using table_db_get [of k rows] row_input [OF t, of "nat k"] by (cases "0 \<le> k \<and> k < 40") (auto simp: otp_get_def db)
qed

lemma database_boots:
  fixes s :: "'a sched_scheme"
  assumes "sched_ok (s\<lparr>db := table_db odata_rows\<rparr>)" "length mem = 48"
    and "LoadParams id1 (param_file s) (ps s) (password s) = (rc, p, pw)" "length pw = 6"
    and "0 \<le> p_lights_on_delay p" "p_lights_on_delay p < 13"
  shows "\<exists>f s'. init_db False pads odata_csv = Some (0, Some f) \<and> host_init id0 mem id1 (Some f) s = Some s' \<and>
    sched_ok s' \<and> db s' = table_db odata_rows \<and>
    (\<forall>n k. 0 \<le> n \<and> n < 40 \<longrightarrow>
       (k \<in> set (routed n s') \<longleftrightarrow> 0 \<le> k \<and> k < 40 \<and> int (fst (odata_rows ! nat k) ! 2) = n)) \<and>
    set (routed 5 s') = {0} \<and> set (routed 7 s') = {1, 2} \<and> set (routed 8 s') = {12, 13}"
proof -
  let ?s = "s\<lparr>db := table_db odata_rows\<rparr>"
  obtain f where f: "init_db False pads odata_csv = Some (0, Some f)" "olLoadConfig id0 mem (Some f) [] = (0, table_db odata_rows)"
    using table_round_trip_aux [OF odata_ok(1) odata_ok(2) [unfolded odata_csv_def] assms(2)] unfolding odata_csv_def by blast
  obtain s' where s': "init_ips id1 ?s = Some s'" "sched_ok s'" "db s' = db ?s"
    "\<forall>n k. 0 \<le> n \<and> n < 40 \<longrightarrow> (k \<in> set (routed n s') \<longleftrightarrow> (\<exists>d. otp_get k ?s = Some d \<and> uint (o_input_port d) = n))"
    using init_ips_routes [OF assms(1) _ _ assms(4-6), of id1 rc] table_db_ok [OF odata_ok(1)] assms(3) by force
  have r: "k \<in> set (routed n s') \<longleftrightarrow> 0 \<le> k \<and> k < 40 \<and> int (fst (odata_rows ! nat k) ! 2) = n"
    if "0 \<le> n" "n < 40" for n k
    using s'(4) that routed_inputs [OF odata_ok(1), of ?s k n] by simp
  have "set (routed n s') = set (input_outputs n)" if "0 \<le> n" "n < 40" for n
    by (rule set_eqI) (simp only: r [OF that] in_input_outputs)
  note this [of 5, unfolded odata_inputs] this [of 7, unfolded odata_inputs] this [of 8, unfolded odata_inputs]
  then have "set (routed 5 s') = {0}" "set (routed 7 s') = {1, 2}" "set (routed 8 s') = {12, 13}" by simp_all
  moreover have "host_init id0 mem id1 (Some f) s = Some s'" using s'(1) by (simp add: host_init_def f(2))
  moreover have "db s' = table_db odata_rows" unfolding s'(3) by simp
  ultimately show ?thesis using f(1) s'(2) r by blast
qed

text \<open>
  C12: From the table in the repository to the running program: the tool turns the shipped \<open>odata.csv\<close> into a file, and
  the command task, started with that file in any state whose other parts are well formed, ends its start with a well-formed
  state, the 40 records of the table, and every input routed to exactly the outputs whose third column names it. In
  particular input 5 (the starter switch) drives output 0 and nothing else, input 7 (the stop switch) the ignition and the
  fuel pump, and input 8 the two brake lights.
\<close>

theorem shipped_database:
  fixes s :: "'a sched_scheme"
  assumes "sched_ok (s\<lparr>db := table_db odata_rows\<rparr>)" "length mem = 48"
    and "LoadParams id1 (param_file s) (ps s) (password s) = (rc, p, pw)" "length pw = 6"
    and "0 \<le> p_lights_on_delay p" "p_lights_on_delay p < 13"
  shows "\<exists>f s'. init_db False pads odata_csv = Some (0, Some f) \<and> host_init id0 mem id1 (Some f) s = Some s' \<and>
    sched_ok s' \<and> db s' = table_db odata_rows \<and>
    (\<forall>n k. 0 \<le> n \<and> n < 40 \<longrightarrow>
       (k \<in> set (routed n s') \<longleftrightarrow> 0 \<le> k \<and> k < 40 \<and> int (fst (odata_rows ! nat k) ! 2) = n)) \<and>
    set (routed 5 s') = {0} \<and> set (routed 7 s') = {1, 2} \<and> set (routed 8 s') = {12, 13}"
  by (rule database_boots [OF assms])


lemma shipped_database_witness:
  "\<exists>f s'. init_db False (\<lambda>_. [1, 2, 3]) odata_csv = Some (0, Some f) \<and> host_init 0 (replicate 48 0) 0 (Some f) sched0 = Some s' \<and>
    sched_ok s' \<and> db s' = table_db odata_rows \<and>
    (\<forall>n k. 0 \<le> n \<and> n < 40 \<longrightarrow>
       (k \<in> set (routed n s') \<longleftrightarrow> 0 \<le> k \<and> k < 40 \<and> int (fst (odata_rows ! nat k) ! 2) = n)) \<and>
    set (routed 5 s') = {0} \<and> set (routed 7 s') = {1, 2} \<and> set (routed 8 s') = {12, 13}"
proof (rule shipped_database)
  show "sched_ok (sched0\<lparr>db := table_db odata_rows\<rparr>)"
    using sched0_ok table_db_ok [OF odata_ok(1)] by (simp add: sched_ok_def shadow_ok_def msgq_ok_def ips_ok_def)
  show "LoadParams 0 (param_file sched0) (ps sched0) (password sched0) = (-2, params0, replicate 6 0)"
    by (simp add: LoadParams_def sched0_def)
qed (simp_all add: params0_def params_of_def)

text \<open>A value computed by the kernel: the first record of the XML file.\<close>

lemma xml_starter:
  "xml_field_lines (take 2 (xml_fields (row_record ([0, 0, 5, 0, 2, 10, 0, 0, 0], ''STARTER'')))) =
   Some ([9, 9] @ bytes_of ''<label>STARTER</label>'' @ [10, 9, 9] @ bytes_of ''<port>0</port>'' @ [10])"
  by code_simp

text \<open>A first column that does not count from 0 is reported with exit code 1, and no file is written.\<close>

lemma bad_index:
  assumes "\<forall>x \<in> set rows. row_ok x" "length rows = 40" "length (csv_text rows @ rest) \<le> 3000" "i < 40" "fst (rows ! i) ! 0 \<noteq> i"
  shows "init_db do_xml pads (csv_text rows @ rest) = Some (1, None)"
proof -
  obtain ns l where x: "rows ! i = (ns, l)" by (cases "rows ! i")
  have "row_ok (ns, l)" using assms(1,2,4) x by (metis nth_mem)
  then have "length ns = 9" "ns ! 0 < 128" by (auto simp: row_ok_def)
  then have "sint (fst (map line_row rows ! i) ! 0) = int (ns ! 0)"
    using assms(2,4) by (simp add: x line_row_def nth_append signed_of_nat signed_take_bit_int_eq_self)
  then have "\<not> list_all (\<lambda>i. sint (fst (map line_row rows ! i) ! 0) = int i) [0..<40]"
    unfolding list_all_iff set_upt using assms(4,5) x by (intro notI) (drule bspec [of _ _ i]; simp)
  then show ?thesis
    unfolding init_db_def labels_read [OF assms(1-3)] bind.bind_lunit by (simp only: if_False)
qed

end
