(* ===== verification/Switches.thy ===== *)
theory Switches
  imports InitDb Timer
begin

text \<open>
  The shipped database at work: the parts of the program put together, from the table in \<open>odata.csv\<close> over the start of
  the command task (\<open>InitDb\<close>), the scan of the inputs (\<open>Inputs\<close>) and \<open>set_output\<close> (\<open>Outputs\<close>) to the ticks of the timer
  (\<open>Timer\<close>). Nothing of the program is defined here.
\<close>

section \<open>A truck that was started\<close>

text \<open>A later state in which the database and the table of the inputs are still those of the start.\<close>

definition as_shipped :: "'a sched_scheme \<Rightarrow> bool" where
  "as_shipped t \<longleftrightarrow> sched_ok t \<and> db t = table_db odata_rows \<and> set (routed 5 t) = {0} \<and> set (routed 7 t) = {1, 2} \<and> set (routed 8 t) = {12, 13}"

lemma booted_as_shipped:
  fixes s t :: "'a sched_scheme"
  assumes "sched_ok (s\<lparr>db := table_db odata_rows\<rparr>)" "length mem = 48"
    and "LoadParams id1 (param_file s) (ps s) (password s) = (rc, p, pw)" "length pw = 6"
    and "0 \<le> p_lights_on_delay p" "p_lights_on_delay p < 13"
    and "init_db False pads odata_csv = Some (0, Some f)" "host_init id0 mem id1 (Some f) s = Some s1"
    and "sched_ok t" "db t = db s1" "ip t = ip s1" "max_ips t = max_ips s1"
  shows "as_shipped t"
proof -
  have "routed n t = routed n s1" for n using assms(11,12) by (simp add: routed_def)
  then show ?thesis using database_boots [OF assms(1-6), of pads id0] assms(7-10) by (auto simp: as_shipped_def)
qed

lemma shipped_record:
  assumes "as_shipped t" "0 \<le> k" "k < 40"
  shows "otp_get k t = Some (row_record (odata_rows ! nat k))"
  using assms by (simp add: as_shipped_def otp_get_def table_db_get)

lemma switch_scanned:
  assumes "as_shipped t" "msg_queue_ptr t \<le> 9" "0 \<le> n" "n < 40"
    and "NOT (InPortByte (int (port_of n)) t) = r" "r XOR inportstatus t ! port_of n = push_bit (bit_of n) 1"
  shows "\<exists>t'. monitor_bank (int (port_of n)) t = Some t' \<and> sched_ok t' \<and>
    changed_exactly (if bit r (bit_of n) then 1 else 0) (routed n t) t t'"
proof -
  have ok: "sched_ok t" using assms(1) by (simp add: as_shipped_def)
  have "max_ips t \<le> 40" using sched_okD(4) [OF ok] by (simp add: ips_ok_def)
  then have "msg_queue_ptr t + max_ips t \<le> 49" using assms(2) by simp
  from one_switch [OF ok this assms(3-6)] show ?thesis by blast
qed

lemma switch_places: "port_of 5 = 0" "bit_of 5 = 5" "port_of 7 = 0" "bit_of 7 = 7"
  by code_simp+

lemma stop_records:
  "o_type (row_record (odata_rows ! nat 1)) = 4" "o_reset (row_record (odata_rows ! nat 1)) = 0"
  "o_type (row_record (odata_rows ! nat 2)) = 4" "o_reset (row_record (odata_rows ! nat 2)) = 0"
  by (simp_all add: odata_rows_def row_record_def)

section \<open>The starter\<close>


section \<open>The stop switch\<close>


section \<open>A concrete truck\<close>

text \<open>The state \<open>sched0\<close> with what the start loads, and the input byte \<open>x\<close> as the last one that was seen in bank 0.\<close>

definition truck :: "sched \<Rightarrow> u8 \<Rightarrow> sched" where
  "truck s1 x = sched0\<lparr>db := db s1, ip := ip s1, max_ips := max_ips s1, inportstatus := [x, 0, 0, 0, 0, 0]\<rparr>"

lemma truck_ok: "sched_ok s1 \<Longrightarrow> sched_ok (truck s1 x)"
  using sched0_ok by (simp add: sched_ok_def shadow_ok_def msgq_ok_def ips_ok_def truck_def)

lemma truck_fields: "db (truck s1 x) = db s1" "ip (truck s1 x) = ip s1" "max_ips (truck s1 x) = max_ips s1" "msg_queue_ptr (truck s1 x) = 0"
  "inportstatus (truck s1 x) ! 0 = x" "NOT (InPortByte 0 (truck s1 x)) = 0xFF"
  by (simp_all add: truck_def sched0_def InPortByte_def)

lemma truck_boots:
  "sched_ok (sched0\<lparr>db := table_db odata_rows\<rparr>)" "length (replicate 48 (0::u8)) = 48"
  "LoadParams 0 (param_file sched0) (ps sched0) (password sched0) = (-2, params0, replicate 6 0)" "length (replicate 6 (0::u8)) = 6"
  "0 \<le> p_lights_on_delay params0" "p_lights_on_delay params0 < 13"
  using sched0_ok table_db_ok [OF odata_ok(1)]
  by (simp_all add: sched_ok_def shadow_ok_def msgq_ok_def ips_ok_def LoadParams_def sched0_def params0_def params_of_def)



end
