(* ===== verification/StmPass.thy ===== *)
theory StmPass
  imports Stm
begin

text \<open>
  The password of the STM32 board (\<open>check_password\<close> of \<open>STM32/Src/freertos.c\<close>). The function is static and this version
  never calls it; it is modelled for the state it shares with the other tasks. \<open>ucbuff\<close> and \<open>cmd\<close> are locals
  that are not initialised: they are arguments.
\<close>

section \<open>The function\<close>

text \<open>\<open>itoa(num, &password[ptr], 10)\<close>\<close>

definition itoa_at :: "u8 list \<Rightarrow> int \<Rightarrow> int \<Rightarrow> u8 list option" where
  "itoa_at buf ptr num =
     (let t = bytes_of (dec_int num) @ [0]
      in if 0 \<le> ptr \<and> nat ptr + length t \<le> length buf
         then Some (take (nat ptr) buf @ t @ drop (nat ptr + length t) buf) else None)"

text \<open>\<open>strcmp(p, q) == 0\<close>; a string without terminator is read past its end.\<close>

fun strcmp_eq :: "u8 list \<Rightarrow> u8 list \<Rightarrow> bool option" where
  "strcmp_eq [] q = None"
| "strcmp_eq (a # p) [] = None"
| "strcmp_eq (a # p) (b # q) = (if a \<noteq> b then Some False else if a = 0 then Some True else strcmp_eq p q)"

text \<open>The last retry is used up. The second message to the FPGA is packed from \<open>ucbuff\<close> again.\<close>

definition locked_out :: "u8 list \<Rightarrow> 'a stm_scheme \<Rightarrow> 'a stm_scheme option" where
  "locked_out ucbuff s = do {
     let s = s\<lparr>password_countdown := 0, password_retries := init_password_retries s\<rparr>;
     ucbuff \<leftarrow> aset ucbuff 0 SPECIAL_TONE_ON;
     s \<leftarrow> to_FPGA ucbuff s;
     g \<leftarrow> aset (global_ucbuff s) 0 DTMF_TONE_OFF;
     s \<leftarrow> to_FPGA ucbuff (s\<lparr>global_ucbuff := g\<rparr>);
     ucbuff \<leftarrow> aset ucbuff 0 SHUTDOWN;
     to_7200 ucbuff s
   }"

text \<open>\<open>for(i = 0;i < 5;i++)\<close> with \<open>n\<close> rounds to go.\<close>

fun tones :: "nat \<Rightarrow> nat \<Rightarrow> 'a stm_scheme \<Rightarrow> 'a stm_scheme option" where
  "tones 0 i s = Some s"
| "tones (Suc n) i s = do {
     g \<leftarrow> aset (global_ucbuff s) 0 DTMF_TONE_ON;
     g \<leftarrow> aset g 1 (word_of_nat i);
     s \<leftarrow> to_FPGA g (s\<lparr>global_ucbuff := g\<rparr>);
     g \<leftarrow> aset (global_ucbuff s) 0 DTMF_TONE_OFF;
     s \<leftarrow> to_FPGA g (s\<lparr>global_ucbuff := g\<rparr>);
     tones n (i + 1) s
   }"

definition unlocked :: "u8 \<Rightarrow> u8 list \<Rightarrow> 'a stm_scheme \<Rightarrow> 'a stm_scheme option" where
  "unlocked cmd ucbuff s = do {
     let s = s\<lparr>password_countdown := 0, password_ptr := 0, password_retries := init_password_retries s, key_mode := NORMAL\<rparr>;
     ucbuff \<leftarrow> aset ucbuff 0 cmd;
     s \<leftarrow> to_7200 ucbuff s;
     s \<leftarrow> tones 5 0 s;
     Some (s\<lparr>password_countdown := 0, key_mode := NORMAL\<rparr>)
   }"

definition check_password :: "u8 \<Rightarrow> u8 list \<Rightarrow> int \<Rightarrow> 'a stm_scheme \<Rightarrow> 'a stm_scheme option" where
  "check_password cmd ucbuff num s = do {
     pw \<leftarrow> itoa_at (s_password s) (password_ptr s) num;
     let s = s\<lparr>s_password := pw\<rparr>;
     a \<leftarrow> aget pw (password_ptr s);
     b \<leftarrow> aget (correct_password s) (password_ptr s);
     if a \<noteq> b then do {
       let s = s\<lparr>password_ptr := 0, password_retries := password_retries s - 1,
         password_countdown := init_password_countdown s, s_password := replicate 6 0\<rparr>;
       if password_retries s < 1 then locked_out ucbuff s else Some s
     }
     else do {
       same \<leftarrow> (if password_ptr s \<ge> 3 then strcmp_eq pw (correct_password s) else Some False);
       if same then unlocked cmd ucbuff s else Some (s\<lparr>password_ptr := password_ptr s + 1\<rparr>)
     }
   }"

section \<open>The specification\<close>

text \<open>
  Seen from outside there are the number of digits that were right so far and the number of attempts left; a digit goes
  on, opens, refuses, or refuses for the last time.
\<close>

datatype pw_event = Typing | Opened | Refused | Last_refused

definition pw_spec :: "nat list \<Rightarrow> nat \<Rightarrow> nat \<times> int \<Rightarrow> pw_event" where
  "pw_spec code d = (\<lambda>(k, r). if d = code ! k then (if k = 3 then Opened else Typing)
     else if r \<le> 1 then Last_refused else Refused)"

fun pw_next :: "int \<Rightarrow> pw_event \<Rightarrow> nat \<times> int \<Rightarrow> nat \<times> int" where
  "pw_next init Typing (k, r) = (k + 1, r)"
| "pw_next init Opened (k, r) = (0, init)"
| "pw_next init Refused (k, r) = (0, r - 1)"
| "pw_next init Last_refused (k, r) = (0, init)"

definition pw_abs :: "'a stm_scheme \<Rightarrow> nat \<times> int" where
  "pw_abs s = (nat (password_ptr s), password_retries s)"

definition digit :: "nat \<Rightarrow> u8" where
  "digit d = word_of_nat (48 + d)"

text \<open>A state in which the first digits of a code of four are typed.\<close>

definition pw_ok :: "nat list \<Rightarrow> 'a stm_scheme \<Rightarrow> bool" where
  "pw_ok code s \<longleftrightarrow> correct_password s = map digit code @ [0, 0] \<and> length (s_password s) = 6 \<and> length (global_ucbuff s) = 8 \<and>
     0 \<le> password_ptr s \<and> password_ptr s < 4 \<and>
     take (nat (password_ptr s)) (s_password s) = take (nat (password_ptr s)) (map digit code)"

text \<open>What goes to the TS-7200: nothing, the byte \<open>cmd\<close> (which the code never sets), or \<open>SHUTDOWN\<close>.\<close>

definition pw_told :: "u8 \<Rightarrow> pw_event \<Rightarrow> u64 list \<Rightarrow> u64 list \<Rightarrow> bool" where
  "pw_told cmd e q q' \<longleftrightarrow>
     (if e = Typing \<or> e = Refused then q' = q
      else \<exists>v. q' = xQueueSend 10 v q \<and> hd (unpack_bytes 8 v) = (if e = Opened then cmd else SHUTDOWN))"

section \<open>Lemmas\<close>

lemma dec_digit: "d < 10 \<Longrightarrow> bytes_of (dec_int (int d)) = [digit d]"
  by (simp add: dec_int_def dec_nat.simps bytes_of_def digit_def)

lemma digit_inj: "d < 10 \<Longrightarrow> e < 10 \<Longrightarrow> digit d = digit e \<longleftrightarrow> d = e"
proof -
  have "list_all (\<lambda>d. unat (digit d) = 48 + d) [0..<10]" by code_simp
  then have "d < 10 \<Longrightarrow> unat (digit d) = 48 + d" for d by (simp add: list_all_iff)
  then show "d < 10 \<Longrightarrow> e < 10 \<Longrightarrow> digit d = digit e \<longleftrightarrow> d = e" by (metis add_left_cancel)
qed

lemma tones_run:
  "length (global_ucbuff s) = 8 \<Longrightarrow> \<exists>q g. tones n i s = Some (s\<lparr>global_ucbuff := g, SendFPGA := q\<rparr>) \<and> length g = 8"
proof (induction n arbitrary: i s)
  case 0
  then show ?case by (intro exI [of _ "SendFPGA s"] exI [of _ "global_ucbuff s"]) simp
next
  case (Suc n)
  let ?g = "(global_ucbuff s)[0 := DTMF_TONE_ON, 1 := word_of_nat i]"
  obtain v where v: "to_FPGA ?g (s\<lparr>global_ucbuff := ?g\<rparr>) = Some (s\<lparr>global_ucbuff := ?g, SendFPGA := xQueueSend 10 v (SendFPGA s)\<rparr>)"
    using to_FPGA_eq [of ?g "s\<lparr>global_ucbuff := ?g\<rparr>"] Suc.prems by auto
  let ?s = "s\<lparr>global_ucbuff := ?g, SendFPGA := xQueueSend 10 v (SendFPGA s)\<rparr>" and ?h = "?g[0 := DTMF_TONE_OFF]"
  obtain w where w: "to_FPGA ?h (?s\<lparr>global_ucbuff := ?h\<rparr>) =
      Some (?s\<lparr>global_ucbuff := ?h, SendFPGA := xQueueSend 10 w (SendFPGA ?s)\<rparr>)"
    using to_FPGA_eq [of ?h "?s\<lparr>global_ucbuff := ?h\<rparr>"] Suc.prems by auto
  have t: "tones (Suc n) i s = tones n (i + 1) (?s\<lparr>global_ucbuff := ?h, SendFPGA := xQueueSend 10 w (SendFPGA ?s)\<rparr>)"
    using v w Suc.prems by (cases "global_ucbuff s = []") (simp_all add: aset_def)
  show ?case unfolding t using Suc.IH [of "?s\<lparr>global_ucbuff := ?h, SendFPGA := xQueueSend 10 w (SendFPGA ?s)\<rparr>" "i + 1"] Suc.prems
    by auto
qed

lemma first_byte: "unpack_bytes 8 v = take 8 b \<Longrightarrow> b \<noteq> [] \<Longrightarrow> hd (unpack_bytes 8 v) = b ! 0"
  by (cases b) simp_all

lemma locked_out_run:
  assumes "length ucbuff = 8" "length (global_ucbuff s) = 8"
  shows "\<exists>q g v. locked_out ucbuff s = Some (s\<lparr>password_countdown := 0, password_retries := init_password_retries s,
      global_ucbuff := g, SendFPGA := q, Send7200 := xQueueSend 10 v (Send7200 s)\<rparr>) \<and>
    length g = 8 \<and> hd (unpack_bytes 8 v) = SHUTDOWN"
proof -
  let ?u = "ucbuff[0 := SPECIAL_TONE_ON]" and ?g = "(global_ucbuff s)[0 := DTMF_TONE_OFF]"
  let ?w = "ucbuff[0 := SHUTDOWN]"
  obtain x where x: "pack64 ?u = Some x" using pack64_unpack [of ?u] assms(1) by auto
  obtain v where v: "pack64 ?w = Some v" "unpack_bytes 8 v = take 8 ?w" using pack64_unpack [of ?w] assms(1) by auto
  have "hd (unpack_bytes 8 v) = SHUTDOWN" using first_byte [OF v(2)] assms(1) by (cases ucbuff) auto
  moreover have "ucbuff \<noteq> []" "global_ucbuff s \<noteq> []" using assms by auto
  ultimately show ?thesis using x v(1) assms
    by (intro exI [of _ "xQueueSend 10 x (xQueueSend 10 x (SendFPGA s))"] exI [of _ ?g] exI [of _ v])
       (simp add: locked_out_def aset_def to_FPGA_def to_7200_def Let_def)
qed

lemma unlocked_run:
  assumes "length ucbuff = 8" "length (global_ucbuff s) = 8"
  shows "\<exists>q g v. unlocked cmd ucbuff s = Some (s\<lparr>password_countdown := 0, password_ptr := 0, password_retries := init_password_retries s,
      key_mode := NORMAL, Send7200 := xQueueSend 10 v (Send7200 s), global_ucbuff := g, SendFPGA := q\<rparr>) \<and>
    length g = 8 \<and> hd (unpack_bytes 8 v) = cmd"
proof -
  let ?w = "ucbuff[0 := cmd]"
  let ?s = "s\<lparr>password_countdown := 0, password_ptr := 0, password_retries := init_password_retries s, key_mode := NORMAL\<rparr>"
  have n: "ucbuff \<noteq> []" using assms by auto
  obtain v where v: "to_7200 ?w ?s = Some (?s\<lparr>Send7200 := xQueueSend 10 v (Send7200 s)\<rparr>)" "unpack_bytes 8 v = take 8 ?w"
    using to_7200_eq [of ?w ?s] assms(1) by auto
  have h: "hd (unpack_bytes 8 v) = cmd" using first_byte [OF v(2)] n by (cases ucbuff) auto
  obtain q g where t: "tones 5 0 (?s\<lparr>Send7200 := xQueueSend 10 v (Send7200 s)\<rparr>) =
      Some (?s\<lparr>Send7200 := xQueueSend 10 v (Send7200 s), global_ucbuff := g, SendFPGA := q\<rparr>)" "length g = 8"
    using tones_run [of "?s\<lparr>Send7200 := xQueueSend 10 v (Send7200 s)\<rparr>" 5 0] assms(2) by auto
  have "unlocked cmd ucbuff s = Some (?s\<lparr>Send7200 := xQueueSend 10 v (Send7200 s), global_ucbuff := g, SendFPGA := q\<rparr>)"
    using v(1) t(1) n by (simp add: unlocked_def aset_def Let_def del: tones.simps)
  then show ?thesis using h t(2) by auto
qed

text \<open>The buffer after a digit, and the test of the first digits.\<close>

lemma digit_typed:
  assumes "length buf = 6" "0 \<le> p" "p < 4" "d < 10"
  shows "\<exists>pw. itoa_at buf p (int d) = Some pw \<and> length pw = 6 \<and> pw ! nat p = digit d \<and> pw ! (nat p + 1) = 0 \<and>
    take (nat p) pw = take (nat p) buf"
proof -
  have l: "nat p < 4" using assms(2,3) by simp
  let ?pw = "take (nat p) buf @ [digit d, 0] @ drop (nat p + 2) buf"
  have "itoa_at buf p (int d) = Some ?pw" using assms l by (simp add: itoa_at_def dec_digit)
  then show ?thesis using l assms(1) by (intro exI [of _ ?pw]) (simp add: nth_append)
qed

lemma strcmp_code:
  assumes "length pw = 6" "take 4 pw = map digit code" "pw ! 4 = 0" "\<forall>d \<in> set code. d < 10"
  shows "strcmp_eq pw (map digit code @ [0, 0]) = Some True"
proof -
  have z: "digit d \<noteq> 0" if "d < 10" for d
  proof -
    have "list_all (\<lambda>d. digit d \<noteq> 0) [0..<10]" by code_simp
    then show ?thesis using that by (simp add: list_all_iff)
  qed
  have eq: "strcmp_eq (xs @ 0 # r) (xs @ 0 # q) = Some True" if "0 \<notin> set xs" for xs r q
    using that by (induction xs) auto
  have "pw = map digit code @ 0 # drop 5 pw"
    using assms(1-3) Cons_nth_drop_Suc [of 4 pw] append_take_drop_id [of 4 pw] by simp
  moreover have "0 \<notin> set (map digit code)" using assms(4) by (auto dest: z simp: image_iff)
  ultimately show ?thesis using eq [of "map digit code" "drop 5 pw" "[0]"] by simp
qed

section \<open>Refinement\<close>

text \<open>
  The password. On a code of four digits, \<open>check_password\<close> does with every digit what the automaton \<open>pw_spec\<close> says: it counts the
  digits that were right so far, opens after the fourth, begins again after a wrong one with one attempt less, and
  after the last attempt sends \<open>SHUTDOWN\<close> and gives all attempts again; nothing else is sent to the
  TS-7200, except after opening a byte that the code never sets.
\<close>

theorem password_refines:
  assumes "pw_ok code s" "length code = 4" "\<forall>d \<in> set code. d < 10" "d < 10" "length ucbuff = 8"
  defines "e \<equiv> pw_spec code d (pw_abs s)"
  shows "\<exists>s'. check_password cmd ucbuff (int d) s = Some s' \<and> pw_ok code s' \<and>
    pw_abs s' = pw_next (init_password_retries s) e (pw_abs s) \<and> pw_told cmd e (Send7200 s) (Send7200 s') \<and>
    key_mode s' = (if e = Opened then NORMAL else key_mode s)"
proof -
  define k where "k = nat (password_ptr s)"
  note ok = assms(1) [unfolded pw_ok_def]
  have k: "password_ptr s = int k" "k < 4" using ok by (auto simp: k_def)
  obtain pw where pw: "itoa_at (s_password s) (password_ptr s) (int d) = Some pw" "length pw = 6" "pw ! k = digit d" "pw ! (k + 1) = 0"
    "take k pw = take k (s_password s)"
    using digit_typed [of "s_password s" "password_ptr s" d] ok assms(4) by (auto simp: k_def)
  have a: "aget pw (password_ptr s) = Some (digit d)" using k pw(2,3) by (simp add: aget_def)
  have b: "aget (correct_password s) (password_ptr s) = Some (digit (code ! k))"
    using k ok assms(2) by (simp add: aget_def nth_append)
  have dk: "digit d \<noteq> digit (code ! k) \<longleftrightarrow> d \<noteq> code ! k" using digit_inj [of d "code ! k"] assms(2-4) k(2) by simp
  have pre: "take k pw = take k (map digit code)" using pw(5) ok by (simp add: k_def)
  let ?s = "s\<lparr>s_password := pw\<rparr>"
  show ?thesis
  proof (cases "d = code ! k")
    case False
    let ?r = "?s\<lparr>password_ptr := 0, password_retries := password_retries s - 1, password_countdown := init_password_countdown s,
      s_password := replicate 6 0\<rparr>"
    have c: "check_password cmd ucbuff (int d) s = (if password_retries s - 1 < 1 then locked_out ucbuff ?r else Some ?r)"
      using False dk by (simp add: check_password_def pw(1) a b)
    have e: "e = (if password_retries s \<le> 1 then Last_refused else Refused)"
      using False by (simp add: e_def pw_spec_def pw_abs_def k_def)
    obtain q g v where lo: "locked_out ucbuff ?r = Some (?r\<lparr>password_countdown := 0, password_retries := init_password_retries s,
        global_ucbuff := g, SendFPGA := q, Send7200 := xQueueSend 10 v (Send7200 s)\<rparr>)" "length g = 8" "hd (unpack_bytes 8 v) = SHUTDOWN"
      using locked_out_run [OF assms(5), of ?r] ok by auto
    show ?thesis using ok c e lo by (cases "password_retries s \<le> 1") (auto simp: pw_ok_def pw_abs_def pw_told_def)
  next
    case True
    then have dd: "digit d = digit (code ! k)" by simp
    show ?thesis
    proof (cases "k = 3")
      case three: True
      have "take 4 pw = map digit code"
        using pre three True pw(2,3) assms(2) take_Suc_conv_app_nth [of 3 pw] take_Suc_conv_app_nth [of 3 "map digit code"] by simp
      then have same: "strcmp_eq pw (correct_password s) = Some True" using strcmp_code [OF pw(2) _ _ assms(3)] pw(4) three ok by simp
      have p: "3 \<le> password_ptr s" using three k by simp
      from same have c: "check_password cmd ucbuff (int d) s = unlocked cmd ucbuff ?s"
        using dd p by (simp add: check_password_def pw(1) a b)
      have e: "e = Opened" using True three by (simp add: e_def pw_spec_def pw_abs_def k_def)
      obtain q g v where un: "unlocked cmd ucbuff ?s = Some (?s\<lparr>password_countdown := 0, password_ptr := 0,
          password_retries := init_password_retries s, key_mode := NORMAL, Send7200 := xQueueSend 10 v (Send7200 s),
          global_ucbuff := g, SendFPGA := q\<rparr>)" "length g = 8" "hd (unpack_bytes 8 v) = cmd"
        using unlocked_run [OF assms(5), of ?s cmd] ok by auto
      show ?thesis using ok c e un pw(2) by (auto simp: pw_ok_def pw_abs_def pw_told_def)
    next
      case less: False
      then have p: "\<not> 3 \<le> password_ptr s" using k by simp
      have c: "check_password cmd ucbuff (int d) s = Some (?s\<lparr>password_ptr := password_ptr s + 1\<rparr>)"
        using dd p by (simp add: check_password_def pw(1) a b)
      have e: "e = Typing" using True less by (simp add: e_def pw_spec_def pw_abs_def k_def)
      have "take (Suc k) pw = take (Suc k) (map digit code)"
        using pre True pw(2,3) k(2) assms(2) take_Suc_conv_app_nth [of k pw] take_Suc_conv_app_nth [of k "map digit code"] by simp
      moreover have "nat (int k + 1) = Suc k" by simp
      ultimately show ?thesis using ok c e pw(2) k less by (auto simp: pw_ok_def pw_abs_def pw_told_def)
    qed
  qed
qed

lemma password_refines_witness:
  "\<exists>s'. check_password 0 (replicate 8 0) (int 5) (stm0\<lparr>password_retries := 1\<rparr>) = Some s' \<and> pw_ok [4, 5, 6, 7] s' \<and> pw_abs s' = (0, 3) \<and>
    (\<exists>v. Send7200 s' = xQueueSend 10 v [] \<and> hd (unpack_bytes 8 v) = SHUTDOWN)"
proof -
  let ?s = "stm0\<lparr>password_retries := 1\<rparr>"
  have "pw_ok [4, 5, 6, 7] ?s" by (simp add: pw_ok_def stm0_def default_start_def digit_def)
  from password_refines [OF this, of 5 "replicate 8 0" 0] show ?thesis
    by (simp add: pw_abs_def stm0_def default_start_def pw_spec_def pw_told_def) blast
qed

end
