(* ===== verification/RtosQueue.thy ===== *)
theory RtosQueue
  imports Stm
begin

text \<open>
  The queues the STM32 tasks use, as FreeRTOS keeps them
  (\<open>STM32/Middlewares/Third_Party/FreeRTOS/Source/queue.c\<close>): a ring buffer of bytes into which an item is
  copied and out of which it is copied again. Pointers are offsets from \<open>pcHead\<close>; \<open>None\<close> is an access
  outside the storage area, or the endless loop of a failed \<open>configASSERT\<close>. The calls are those with no
  waiting time; \<open>RtosWake\<close> has the ones that wait. A queue here is not a mutex. At the end: the bounded
  lists with which \<open>Stm\<close> models the four queues are what these ring buffers implement.
\<close>

section \<open>Data\<close>

text \<open>\<open>storage\<close> is what \<open>pvPortMalloc\<close> gave behind the structure.\<close>

record xqueue =
  storage :: "u8 list"
  pcTail :: int
  pcWriteTo :: int
  pcReadFrom :: int
  uxMessagesWaiting :: u32
  uxLength :: u32
  uxItemSize :: u32

datatype copy_position = queueSEND_TO_BACK | queueSEND_TO_FRONT | queueOVERWRITE

text \<open>\<open>memcpy\<close> into the storage area, and out of it.\<close>

definition memcpy_to :: "u8 list \<Rightarrow> int \<Rightarrow> u8 list \<Rightarrow> nat \<Rightarrow> u8 list option" where
  "memcpy_to m p bs n = (if 0 \<le> p \<and> nat p + n \<le> length m \<and> n \<le> length bs
     then Some (take (nat p) m @ take n bs @ drop (nat p + n) m) else None)"

definition memcpy_from :: "u8 list \<Rightarrow> int \<Rightarrow> nat \<Rightarrow> u8 list option" where
  "memcpy_from m p n = (if 0 \<le> p \<and> nat p + n \<le> length m then Some (take n (drop (nat p) m)) else None)"

section \<open>Operations\<close>

definition xQueueGenericReset :: "xqueue \<Rightarrow> xqueue" where
  "xQueueGenericReset q = q\<lparr>
     pcTail := uint (uxLength q * uxItemSize q),
     uxMessagesWaiting := 0,
     pcWriteTo := 0,
     pcReadFrom := uint ((uxLength q - 1) * uxItemSize q)\<rparr>"

definition prvInitialiseNewQueue :: "u32 \<Rightarrow> u32 \<Rightarrow> u8 list \<Rightarrow> xqueue" where
  "prvInitialiseNewQueue len ksize pucQueueStorage = xQueueGenericReset
     \<lparr>storage = pucQueueStorage, pcTail = 0, pcWriteTo = 0, pcReadFrom = 0, uxMessagesWaiting = 0,
      uxLength = len, uxItemSize = ksize\<rparr>"

text \<open>
  \<open>malloc n\<close>: \<open>n\<close> bytes behind the structure, or \<open>NULL\<close>. The outer \<open>None\<close> is the failed assertion.
\<close>

definition xQueueGenericCreate :: "(u32 \<Rightarrow> u8 list option) \<Rightarrow> u32 \<Rightarrow> u32 \<Rightarrow> xqueue option option" where
  "xQueueGenericCreate malloc len ksize = (if len = 0 then None
     else Some (map_option (prvInitialiseNewQueue len ksize)
       (malloc (if ksize = 0 then 0 else len * ksize))))"

definition prvCopyDataToQueue :: "u8 list \<Rightarrow> copy_position \<Rightarrow> xqueue \<Rightarrow> xqueue option" where
  "prvCopyDataToQueue item pos q = (let n = uxMessagesWaiting q; k = uxItemSize q in
     if k = 0 then Some (q\<lparr>uxMessagesWaiting := n + 1\<rparr>)
     else if pos = queueSEND_TO_BACK then do {
       m \<leftarrow> memcpy_to (storage q) (pcWriteTo q) item (unat k);
       let w = pcWriteTo q + uint k;
       let w = (if pcTail q \<le> w then 0 else w);
       Some (q\<lparr>storage := m, pcWriteTo := w, uxMessagesWaiting := n + 1\<rparr>)
     } else do {
       m \<leftarrow> memcpy_to (storage q) (pcReadFrom q) item (unat k);
       let r = pcReadFrom q - uint k;
       let r = (if r < 0 then pcTail q - uint k else r);
       let n = (if pos = queueOVERWRITE \<and> 0 < n then n - 1 else n);
       Some (q\<lparr>storage := m, pcReadFrom := r, uxMessagesWaiting := n + 1\<rparr>)
     })"

definition prvCopyDataFromQueue :: "xqueue \<Rightarrow> (u8 list \<times> xqueue) option" where
  "prvCopyDataFromQueue q = (let k = uxItemSize q in
     if k = 0 then Some ([], q)
     else do {
       let r = pcReadFrom q + uint k;
       let r = (if pcTail q \<le> r then 0 else r);
       bs \<leftarrow> memcpy_from (storage q) r (unat k);
       Some (bs, q\<lparr>pcReadFrom := r\<rparr>)
     })"

text \<open>With no waiting time: \<open>True\<close> is \<open>pdPASS\<close>, \<open>False\<close> is \<open>errQUEUE_FULL\<close>.\<close>

definition xQueueGenericSend :: "u8 list \<Rightarrow> copy_position \<Rightarrow> xqueue \<Rightarrow> (bool \<times> xqueue) option" where
  "xQueueGenericSend item pos q = (if pos = queueOVERWRITE \<and> uxLength q \<noteq> 1 then None
     else if uxMessagesWaiting q < uxLength q \<or> pos = queueOVERWRITE
       then map_option (Pair True) (prvCopyDataToQueue item pos q)
     else Some (False, q))"

text \<open>The item received, or \<open>errQUEUE_EMPTY\<close> as an inner \<open>None\<close>; \<open>peek\<close> is \<open>xJustPeeking\<close>.\<close>

definition xQueueGenericReceive :: "bool \<Rightarrow> xqueue \<Rightarrow> (u8 list option \<times> xqueue) option" where
  "xQueueGenericReceive peek q = (if 0 < uxMessagesWaiting q then do {
       (bs, q') \<leftarrow> prvCopyDataFromQueue q;
       Some (Some bs, if peek then q'\<lparr>pcReadFrom := pcReadFrom q\<rparr>
                      else q'\<lparr>uxMessagesWaiting := uxMessagesWaiting q - 1\<rparr>)
     } else Some (None, q))"

definition uxQueueMessagesWaiting :: "xqueue \<Rightarrow> u32" where
  "uxQueueMessagesWaiting q = uxMessagesWaiting q"

definition uxQueueSpacesAvailable :: "xqueue \<Rightarrow> u32" where
  "uxQueueSpacesAvailable q = uxLength q - uxMessagesWaiting q"

definition prvIsQueueEmpty :: "xqueue \<Rightarrow> bool" where
  "prvIsQueueEmpty q \<longleftrightarrow> uxMessagesWaiting q = 0"

definition prvIsQueueFull :: "xqueue \<Rightarrow> bool" where
  "prvIsQueueFull q \<longleftrightarrow> uxMessagesWaiting q = uxLength q"

section \<open>Slots\<close>

text \<open>Slot \<open>i\<close> of \<open>k\<close> bytes, and what writing one does to it and to the others.\<close>

definition slot :: "nat \<Rightarrow> u8 list \<Rightarrow> nat \<Rightarrow> u8 list" where
  "slot k m i = take k (drop (i * k) m)"

lemma slot_room: "i < n \<Longrightarrow> i * k + k \<le> n * (k::nat)"
  using mult_le_mono1 [of "Suc i" n k] by simp

lemma memcpy_to_slot:
  assumes "length m = n * k" "i < n" "length bs = k"
  shows "\<exists>m'. memcpy_to m (int (i * k)) bs k = Some m' \<and> length m' = n * k \<and>
    slot k m' i = bs \<and> (\<forall>j. j \<noteq> i \<longrightarrow> slot k m' j = slot k m j)"
proof -
  let ?m = "take (i * k) m @ bs @ drop (i * k + k) m"
  have room: "i * k + k \<le> length m" using slot_room [OF assms(2), of k] assms(1) by simp
  have "slot k ?m j = slot k m j" if "j \<noteq> i" for j
  proof (cases "j < i")
    case True
    then have "j * k + k \<le> i * k" by (rule slot_room)
    then show ?thesis using room by (simp add: slot_def take_drop)
  next
    case False
    with that have "i * k + k \<le> j * k" using slot_room [of i j k] by simp
    moreover from False have "i \<le> j" by simp
    ultimately show ?thesis using room assms(3) by (simp add: slot_def)
  qed
  moreover have "slot k ?m i = bs" using room assms(3) by (simp add: slot_def)
  moreover have "memcpy_to m (int (i * k)) bs k = Some ?m"
    using room assms(3) by (simp add: memcpy_to_def nat_int_add del: of_nat_mult)
  moreover have "length ?m = n * k" using room assms by simp
  ultimately show ?thesis by blast
qed

lemma memcpy_from_slot:
  assumes "length m = n * k" "i < n"
  shows "memcpy_from m (int (i * k)) k = Some (slot k m i)"
  using slot_room [OF assms(2), of k] assms(1) by (simp add: memcpy_from_def slot_def del: of_nat_mult)

lemma length_slot: "length m = n * k \<Longrightarrow> i < n \<Longrightarrow> length (slot k m i) = k"
  using slot_room [of i n k] by (simp add: slot_def)

text \<open>The pointers step round the ring.\<close>

lemma mod_step: "(a mod n + 1) mod n = (a + 1) mod (n::nat)"
  by presburger

lemma step_up: "i < n \<Longrightarrow> 0 < k \<Longrightarrow>
  (if int (n * k) \<le> int (i * k) + int k then 0 else int (i * k) + int k) = int ((i + 1) mod n * k)"
proof -
  assume a: "i < n" "0 < k"
  have e: "int (i * k) + int k = int ((i + 1) * k)" by (simp add: algebra_simps)
  show ?thesis
  proof (cases "i + 1 = n")
    case True
    then show ?thesis unfolding e by simp
  next
    case False
    with a have "i + 1 < n" by simp
    moreover from this a have "(i + 1) * k < n * k" by (intro mult_less_mono1)
    ultimately show ?thesis unfolding e of_nat_le_iff by simp
  qed
qed

lemma step_down: "i < n \<Longrightarrow> 0 < k \<Longrightarrow>
  (if int (i * k) - int k < 0 then int (n * k) - int k else int (i * k) - int k) = int ((i + n - 1) mod n * k)"
proof -
  assume a: "i < n" "0 < k"
  show ?thesis
  proof (cases i)
    case 0
    have "int (n * k) - int k = int ((n - 1) * k)" using a by (simp add: of_nat_diff algebra_simps)
    then show ?thesis using 0 a by (simp del: of_nat_mult)
  next
    case (Suc j)
    have "(i + n - 1) mod n = j" using Suc a by (simp add: mod_add_right_eq)
    moreover have "int (i * k) - int k = int (j * k)" using Suc by (simp add: algebra_simps)
    ultimately show ?thesis by (simp del: of_nat_mult)
  qed
qed

lemma ring_distinct: "i < j \<Longrightarrow> j - i < n \<Longrightarrow> (a + i) mod n \<noteq> (a + j) mod (n::nat)"
proof
  assume a: "i < j" "j - i < n" "(a + i) mod n = (a + j) mod n"
  then have "n dvd j - i" using mod_eq_dvd_iff_nat [of "a + i" "a + j" n] by simp
  with a show False by (simp add: dvd_imp_le not_less [symmetric] nat_dvd_not_less)
qed

section \<open>What a queue holds\<close>

definition read_slot :: "xqueue \<Rightarrow> nat" where
  "read_slot q = nat (pcReadFrom q) div unat (uxItemSize q)"

text \<open>The oldest item is in the slot after the one last read.\<close>

definition contents :: "xqueue \<Rightarrow> u8 list list" where
  "contents q = map (\<lambda>i. slot (unat (uxItemSize q)) (storage q) ((read_slot q + 1 + i) mod unat (uxLength q)))
     [0..<unat (uxMessagesWaiting q)]"

text \<open>The invariant, with the slot last read.\<close>

definition ring_at :: "nat \<Rightarrow> nat \<Rightarrow> nat \<Rightarrow> xqueue \<Rightarrow> bool" where
  "ring_at n k r q \<longleftrightarrow> unat (uxLength q) = n \<and> unat (uxItemSize q) = k \<and> 0 < k \<and> r < n \<and> n * k < 2 ^ 32 \<and>
     length (storage q) = n * k \<and> pcTail q = int (n * k) \<and> pcReadFrom q = int (r * k) \<and>
     unat (uxMessagesWaiting q) \<le> n \<and> pcWriteTo q = int ((r + 1 + unat (uxMessagesWaiting q)) mod n * k)"

definition ring_ok :: "nat \<Rightarrow> nat \<Rightarrow> xqueue \<Rightarrow> bool" where
  "ring_ok n k q \<longleftrightarrow> ring_at n k (read_slot q) q"

lemma ring_at_slot: "ring_at n k r q \<Longrightarrow> read_slot q = r"
  by (auto simp: ring_at_def read_slot_def simp del: of_nat_mult)

lemma ring_at_ok: "ring_at n k r q \<Longrightarrow> ring_ok n k q"
  using ring_at_slot by (simp add: ring_ok_def)

lemma contents_at: "ring_at n k r q \<Longrightarrow>
  contents q = map (\<lambda>i. slot k (storage q) ((r + 1 + i) mod n)) [0..<unat (uxMessagesWaiting q)]"
  using ring_at_slot [of n k r q] by (simp add: contents_def ring_at_def)

lemma length_contents [simp]: "length (contents q) = unat (uxMessagesWaiting q)"
  by (simp add: contents_def)

lemma contents_width: "ring_ok n k q \<Longrightarrow> bs \<in> set (contents q) \<Longrightarrow> length bs = k"
  unfolding ring_ok_def by (frule contents_at) (auto simp: ring_at_def intro!: length_slot)

lemma contents_le: "ring_ok n k q \<Longrightarrow> length (contents q) \<le> n"
  by (simp add: ring_ok_def ring_at_def)

lemma upt_Suc_map: "map f [0..<Suc n] = f 0 # map (\<lambda>i. f (Suc i)) [0..<n]"
  using upt_conv_Cons [of 0 "Suc n"] map_Suc_upt [of 0 n] by (metis comp_apply list.map_comp list.simps(9) map_cong zero_less_Suc)

lemma unat_inc: "unat (m :: u32) < n \<Longrightarrow> n < 2 ^ 32 \<Longrightarrow> unat (m + 1) = unat m + 1"
  by (subst unat_word_ariths) simp

section \<open>The ring buffer is a bounded queue\<close>

lemma create_ok:
  assumes "0 < n" "0 < k" "n * k < 2 ^ 32" "length m = n * k"
  shows "ring_ok n k (prvInitialiseNewQueue (word_of_nat n) (word_of_nat k) m) \<and>
    contents (prvInitialiseNewQueue (word_of_nat n) (word_of_nat k) m) = []"
proof -
  have "n \<le> n * k" "k \<le> n * k" using assms by simp_all
  with assms(3) have nk: "n < 2 ^ 32" "k < 2 ^ 32" by linarith+
  have "(n - 1) * k \<le> n * k" by simp
  with assms(3) have "(n - 1) * k < 2 ^ 32" by linarith
  moreover have "(word_of_nat n - 1 :: u32) = word_of_nat (n - 1)" using assms(1) by (simp add: of_nat_diff)
  moreover have "unat (word_of_nat x :: u32) = x" if "x < 2 ^ 32" for x using that by (simp add: unat_of_nat)
  moreover have "uint (word_of_nat x * word_of_nat y :: u32) = int (x * y)" if "x * y < 2 ^ 32" for x y
    using that by (simp add: uint_nat unat_of_nat of_nat_mult [symmetric] del: of_nat_mult)
  moreover have "uint (word_of_nat (n - 1) * word_of_nat k :: u32) = int ((n - 1) * k)" if "(n - 1) * k < 2 ^ 32"
    using that by (simp add: uint_nat unat_of_nat of_nat_mult [symmetric] del: of_nat_mult of_nat_diff)
  ultimately have "ring_at n k (n - 1) (prvInitialiseNewQueue (word_of_nat n) (word_of_nat k) m)"
    using assms nk by (simp add: ring_at_def prvInitialiseNewQueue_def xQueueGenericReset_def del: of_nat_mult)
  then show ?thesis by (simp add: ring_at_ok contents_at prvInitialiseNewQueue_def xQueueGenericReset_def)
qed

lemma to_back:
  assumes "ring_ok n k q" "length bs = k" "length (contents q) < n"
  shows "\<exists>q'. prvCopyDataToQueue bs queueSEND_TO_BACK q = Some q' \<and> ring_ok n k q' \<and> contents q' = contents q @ [bs]"
proof -
  let ?r = "read_slot q" and ?m = "unat (uxMessagesWaiting q)"
  let ?w = "(?r + 1 + ?m) mod n"
  from assms have at: "ring_at n k ?r q" and lt: "?m < n" by (simp_all add: ring_ok_def)
  then have k: "0 < k" and n: "0 < n" "n < 2 ^ 32" and w: "?w < n" and kq: "uxItemSize q \<noteq> 0" "unat (uxItemSize q) = k"
    by (auto simp: ring_at_def intro: le_less_trans [of _ "n * k"])
  from at have mem: "length (storage q) = n * k" by (simp add: ring_at_def)
  from memcpy_to_slot [OF mem w assms(2)] obtain m' where
    m: "memcpy_to (storage q) (int (?w * k)) bs k = Some m'" "length m' = n * k" "slot k m' ?w = bs"
       "\<And>j. j \<noteq> ?w \<Longrightarrow> slot k m' j = slot k (storage q) j" by blast
  let ?q = "q\<lparr>storage := m', pcWriteTo := int ((?w + 1) mod n * k), uxMessagesWaiting := uxMessagesWaiting q + 1\<rparr>"
  from at have e: "pcTail q = int (n * k)" "pcWriteTo q = int (?w * k)" "uint (uxItemSize q) = int k"
    by (auto simp: ring_at_def uint_nat simp del: of_nat_mult)
  have "(if pcTail q \<le> pcWriteTo q + uint (uxItemSize q) then 0 else pcWriteTo q + uint (uxItemSize q)) =
      int ((?w + 1) mod n * k)"
    unfolding e by (rule step_up [OF w k])
  then have "prvCopyDataToQueue bs queueSEND_TO_BACK q = Some ?q"
    using kq m(1) [folded e(2)] by (simp add: prvCopyDataToQueue_def ring_at_def Let_def del: of_nat_mult split del: if_split)
  moreover have at': "ring_at n k ?r ?q"
    using at m(2) unat_inc [OF lt n(2)] lt mod_step [of "?r + 1 + ?m" n] by (simp add: ring_at_def add.assoc del: of_nat_mult)
  moreover have "slot k m' ((?r + 1 + i) mod n) = slot k (storage q) ((?r + 1 + i) mod n)" if "i < ?m" for i
    using ring_distinct [of i ?m n "?r + 1"] that lt by (intro m(4)) simp
  then have "contents ?q = contents q @ [bs]"
    unfolding contents_at [OF at'] contents_at [OF at] using m(3) unat_inc [OF lt n(2)] by simp
  ultimately show ?thesis using ring_at_ok by blast
qed

text \<open>Sent to the front, an item is the next to be received.\<close>

lemma to_front:
  assumes "ring_ok n k q" "length bs = k" "length (contents q) < n"
  shows "\<exists>q'. prvCopyDataToQueue bs queueSEND_TO_FRONT q = Some q' \<and> ring_ok n k q' \<and> contents q' = bs # contents q"
proof -
  let ?r = "read_slot q" and ?m = "unat (uxMessagesWaiting q)"
  let ?p = "(?r + n - 1) mod n"
  from assms have at: "ring_at n k ?r q" and lt: "?m < n" by (simp_all add: ring_ok_def)
  then have k: "0 < k" and n: "0 < n" "n < 2 ^ 32" and r: "?r < n" and kq: "uxItemSize q \<noteq> 0" "unat (uxItemSize q) = k"
    by (auto simp: ring_at_def intro: le_less_trans [of _ "n * k"])
  from at have mem: "length (storage q) = n * k" by (simp add: ring_at_def)
  from memcpy_to_slot [OF mem r assms(2)] obtain m' where
    m: "memcpy_to (storage q) (int (?r * k)) bs k = Some m'" "length m' = n * k" "slot k m' ?r = bs"
       "\<And>j. j \<noteq> ?r \<Longrightarrow> slot k m' j = slot k (storage q) j" by blast
  let ?q = "q\<lparr>storage := m', pcReadFrom := int (?p * k), uxMessagesWaiting := uxMessagesWaiting q + 1\<rparr>"
  from at have e: "pcTail q = int (n * k)" "pcReadFrom q = int (?r * k)" "uint (uxItemSize q) = int k"
    by (auto simp: ring_at_def uint_nat simp del: of_nat_mult)
  have "(if pcReadFrom q - uint (uxItemSize q) < 0 then pcTail q - uint (uxItemSize q)
      else pcReadFrom q - uint (uxItemSize q)) = int (?p * k)"
    unfolding e by (rule step_down [OF r k])
  then have "prvCopyDataToQueue bs queueSEND_TO_FRONT q = Some ?q"
    using kq m(1) [folded e(2)] by (simp add: prvCopyDataToQueue_def Let_def del: of_nat_mult split del: if_split)
  have ring: "(?p + 1 + i) mod n = (?r + i) mod n" for i
  proof -
    have "?r + n - 1 + (1 + i) = ?r + i + n" using n(1) by simp
    moreover have "(?p + 1 + i) mod n = (?r + n - 1 + (1 + i)) mod n"
      using mod_add_left_eq [of "?r + n - 1" n "1 + i"] by (simp only: add.assoc)
    ultimately show ?thesis by (simp only: mod_add_self2)
  qed
  have at': "ring_at n k ?p ?q"
    using at m(2) unat_inc [OF lt n(2)] lt n(1) ring [of "?m + 1"] by (simp add: ring_at_def del: of_nat_mult)
  moreover have "slot k m' ((?p + 1 + Suc i) mod n) = slot k (storage q) ((?r + 1 + i) mod n)" if "i < ?m" for i
    using ring_distinct [of 0 "Suc i" n ?r] that lt r ring [of "Suc i"] m(4) by (simp del: of_nat_mult)
  moreover have "slot k m' ((?p + 1 + 0) mod n) = bs" using ring [of 0] m(3) r by simp
  ultimately have "contents ?q = bs # contents q"
    unfolding contents_at [OF at'] contents_at [OF at] by (simp add: unat_inc [OF lt n(2), simplified] upt_Suc_map del: upt_Suc)
  with \<open>prvCopyDataToQueue bs queueSEND_TO_FRONT q = Some ?q\<close> at' show ?thesis using ring_at_ok by blast
qed

lemma send_back:
  assumes "ring_ok n k q" "length bs = k"
  shows "\<exists>q'. xQueueGenericSend bs queueSEND_TO_BACK q = Some (length (contents q) < n, q') \<and> ring_ok n k q' \<and>
    contents q' = (if length (contents q) < n then contents q @ [bs] else contents q)"
proof -
  have "uxMessagesWaiting q < uxLength q \<longleftrightarrow> length (contents q) < n"
    using assms(1) by (simp add: ring_ok_def ring_at_def word_less_nat_alt)
  then show ?thesis using to_back [OF assms] assms(1) by (auto simp: xQueueGenericSend_def)
qed

lemma receive_at:
  assumes "ring_ok n k q" "contents q = bs # rest"
  shows "\<exists>q'. xQueueGenericReceive False q = Some (Some bs, q') \<and> ring_ok n k q' \<and> contents q' = rest"
    and "xQueueGenericReceive True q = Some (Some bs, q)"
proof -
  let ?r = "read_slot q" and ?m = "unat (uxMessagesWaiting q)"
  let ?p = "(?r + 1) mod n"
  from assms(1) have at: "ring_at n k ?r q" by (simp add: ring_ok_def)
  from assms(2) have "length (contents q) = Suc (length rest)" by simp
  then have pos: "?m = Suc (length rest)" "uxMessagesWaiting q \<noteq> 0" by auto
  from at have k: "0 < k" and n: "0 < n" and r: "?r < n" "?p < n" and kq: "uxItemSize q \<noteq> 0" "unat (uxItemSize q) = k"
    by (auto simp: ring_at_def)
  from at have mem: "length (storage q) = n * k" by (simp add: ring_at_def)
  from at have e: "pcTail q = int (n * k)" "pcReadFrom q = int (?r * k)" "uint (uxItemSize q) = int k"
    by (auto simp: ring_at_def uint_nat simp del: of_nat_mult)
  have "(if pcTail q \<le> pcReadFrom q + uint (uxItemSize q) then 0 else pcReadFrom q + uint (uxItemSize q)) = int (?p * k)"
    unfolding e by (rule step_up [OF r(1) k])
  then have copy: "prvCopyDataFromQueue q = Some (slot k (storage q) ?p, q\<lparr>pcReadFrom := int (?p * k)\<rparr>)"
    using kq memcpy_from_slot [OF mem r(2)]
    by (simp add: prvCopyDataFromQueue_def Let_def del: of_nat_mult split del: if_split)
  have first: "slot k (storage q) ?p = bs"
    and rest: "rest = map (\<lambda>i. slot k (storage q) ((?r + 1 + Suc i) mod n)) [0..<length rest]"
    using assms(2) contents_at [OF at] unfolding pos(1) by (simp_all add: upt_Suc_map del: upt_Suc)
  let ?q = "q\<lparr>pcReadFrom := int (?p * k), uxMessagesWaiting := uxMessagesWaiting q - 1\<rparr>"
  have dec: "unat (uxMessagesWaiting q - 1) = length rest"
    using pos by (simp add: unat_minus_one)
  have ring: "(?p + 1 + i) mod n = (?r + 1 + Suc i) mod n" for i
    using mod_add_left_eq [of "?r + 1" n "1 + i"] by (simp add: ac_simps)
  have at': "ring_at n k ?p ?q"
    using at r(2) dec pos(1) ring [of "length rest"] by (simp add: ring_at_def del: of_nat_mult)
  have "contents ?q = rest"
    unfolding contents_at [OF at'] using dec ring by (subst rest) simp
  moreover have "xQueueGenericReceive False q = Some (Some bs, ?q)"
    using copy first pos(2) by (simp add: xQueueGenericReceive_def word_gt_0)
  ultimately show "\<exists>q'. xQueueGenericReceive False q = Some (Some bs, q') \<and> ring_ok n k q' \<and> contents q' = rest"
    using ring_at_ok [OF at'] by blast
  show "xQueueGenericReceive True q = Some (Some bs, q)"
    using copy first pos(2) by (simp add: xQueueGenericReceive_def word_gt_0)
qed

lemma receive_none: "contents q = [] \<Longrightarrow> xQueueGenericReceive peek q = Some (None, q)"
  by (auto simp: contents_def xQueueGenericReceive_def unat_eq_0)

text \<open>Sent to the front of a queue with room; \<open>xQueueOverwrite\<close> on a queue of one.\<close>

lemma send_front:
  assumes "ring_ok n k q" "length bs = k"
  shows "\<exists>q'. xQueueGenericSend bs queueSEND_TO_FRONT q = Some (length (contents q) < n, q') \<and> ring_ok n k q' \<and>
    contents q' = (if length (contents q) < n then bs # contents q else contents q)"
proof -
  have "uxMessagesWaiting q < uxLength q \<longleftrightarrow> length (contents q) < n"
    using assms(1) by (simp add: ring_ok_def ring_at_def word_less_nat_alt)
  then show ?thesis using to_front [OF assms] assms(1) by (auto simp: xQueueGenericSend_def)
qed

section \<open>All calls\<close>

datatype ring_op = Back "u8 list" | Front "u8 list" | Take | Peek | Messages | Spaces

datatype ring_res = Done bool | Item "u8 list option" | Count u32

fun ring_call :: "ring_op \<Rightarrow> xqueue \<Rightarrow> (ring_res \<times> xqueue) option" where
  "ring_call (Back bs) q = map_option (map_prod Done id) (xQueueGenericSend bs queueSEND_TO_BACK q)"
| "ring_call (Front bs) q = map_option (map_prod Done id) (xQueueGenericSend bs queueSEND_TO_FRONT q)"
| "ring_call Take q = map_option (map_prod Item id) (xQueueGenericReceive False q)"
| "ring_call Peek q = map_option (map_prod Item id) (xQueueGenericReceive True q)"
| "ring_call Messages q = Some (Count (uxQueueMessagesWaiting q), q)"
| "ring_call Spaces q = Some (Count (uxQueueSpacesAvailable q), q)"

fun ring_calls :: "ring_op list \<Rightarrow> xqueue \<Rightarrow> (ring_res list \<times> xqueue) option" where
  "ring_calls [] q = Some ([], q)"
| "ring_calls (c # cs) q = do {
     (r, q) \<leftarrow> ring_call c q;
     (rs, q) \<leftarrow> ring_calls cs q;
     Some (r # rs, q)
   }"

text \<open>What they promise: a list of at most \<open>n\<close> items.\<close>

fun list_call :: "nat \<Rightarrow> ring_op \<Rightarrow> u8 list list \<Rightarrow> ring_res \<times> u8 list list" where
  "list_call n (Back bs) xs = (Done (length xs < n), if length xs < n then xs @ [bs] else xs)"
| "list_call n (Front bs) xs = (Done (length xs < n), if length xs < n then bs # xs else xs)"
| "list_call n Take xs = (case xs of [] \<Rightarrow> (Item None, []) | x # xs' \<Rightarrow> (Item (Some x), xs'))"
| "list_call n Peek xs = (case xs of [] \<Rightarrow> (Item None, []) | x # xs' \<Rightarrow> (Item (Some x), xs))"
| "list_call n Messages xs = (Count (word_of_nat (length xs)), xs)"
| "list_call n Spaces xs = (Count (word_of_nat (n - length xs)), xs)"

fun list_calls :: "nat \<Rightarrow> ring_op list \<Rightarrow> u8 list list \<Rightarrow> ring_res list \<times> u8 list list" where
  "list_calls n [] xs = ([], xs)"
| "list_calls n (c # cs) xs = (let (r, xs) = list_call n c xs; (rs, xs) = list_calls n cs xs in (r # rs, xs))"

fun item_of :: "ring_op \<Rightarrow> u8 list option" where
  "item_of (Back bs) = Some bs"
| "item_of (Front bs) = Some bs"
| "item_of _ = None"

definition fits :: "nat \<Rightarrow> ring_op \<Rightarrow> bool" where
  "fits k c \<longleftrightarrow> (case item_of c of None \<Rightarrow> True | Some bs \<Rightarrow> length bs = k)"

lemma ring_call_list:
  assumes "ring_ok n k q" "fits k c"
  shows "\<exists>q'. ring_call c q = Some (fst (list_call n c (contents q)), q') \<and> ring_ok n k q' \<and>
    contents q' = snd (list_call n c (contents q))"
proof (cases c)
  case (Back bs)
  with assms send_back [of n k q bs] show ?thesis by (auto simp: fits_def)
next
  case (Front bs)
  with assms send_front [of n k q bs] show ?thesis by (auto simp: fits_def)
next
  case Take
  with assms(1) receive_at(1) [of n k q] receive_none [of q False] show ?thesis by (cases "contents q") fastforce+
next
  case Peek
  with assms(1) receive_at(2) [of n k q] receive_none [of q True] show ?thesis by (cases "contents q") auto
next
  case Messages
  with assms(1) show ?thesis by (simp add: uxQueueMessagesWaiting_def)
next
  case Spaces
  have "uxLength q - uxMessagesWaiting q = word_of_nat (n - unat (uxMessagesWaiting q))"
    using assms(1) by (auto simp: ring_ok_def ring_at_def of_nat_diff)
  with Spaces assms(1) show ?thesis by (simp add: uxQueueSpacesAvailable_def)
qed

lemma ring_calls_list:
  assumes "ring_ok n k q" "list_all (fits k) cs"
  shows "\<exists>q'. ring_calls cs q = Some (fst (list_calls n cs (contents q)), q') \<and> ring_ok n k q' \<and>
    contents q' = snd (list_calls n cs (contents q))"
  using assms
proof (induction cs arbitrary: q)
  case (Cons c cs)
  then obtain q1 where q1: "ring_call c q = Some (fst (list_call n c (contents q)), q1)" "ring_ok n k q1"
      "contents q1 = snd (list_call n c (contents q))"
    using ring_call_list [of n k q c] by auto
  with Cons.IH [of q1] Cons.prems show ?case by (auto simp: split_beta)
qed simp

text \<open>
  C20: A queue that \<open>xQueueGenericCreate\<close> made, of \<open>n\<close> items of \<open>k\<close> bytes, is a bounded list of items: whatever
  is sent to its back or its front, received, peeked at and asked of its length, in any order, each call
  returns what the list gives, no byte outside the storage area is touched, and what the queue holds
  afterwards is the list.
\<close>

theorem ring_is_bounded_list:
  assumes "0 < n" "0 < k" "n * k < 2 ^ 32" "malloc (word_of_nat (n * k)) = Some m" "length m = n * k"
    and "list_all (fits k) cs"
  shows "\<exists>q q'. xQueueGenericCreate malloc (word_of_nat n) (word_of_nat k) = Some (Some q) \<and>
    ring_calls cs q = Some (fst (list_calls n cs []), q') \<and> contents q' = snd (list_calls n cs [])"
proof -
  let ?q = "prvInitialiseNewQueue (word_of_nat n) (word_of_nat k) m"
  have "n \<le> n * k" "k \<le> n * k" using assms(1,2) by simp_all
  with assms(3) have "n < 2 ^ 32" "k < 2 ^ 32" by linarith+
  with assms(1,2) have "(word_of_nat n :: u32) \<noteq> 0" "(word_of_nat k :: u32) \<noteq> 0"
    by (simp_all add: unat_of_nat unat_eq_0 [symmetric])
  then have "xQueueGenericCreate malloc (word_of_nat n) (word_of_nat k) = Some (Some ?q)"
    using assms(4) by (simp add: xQueueGenericCreate_def)
  then show ?thesis using create_ok [OF assms(1-3,5)] ring_calls_list [OF _ assms(6), of n ?q] by auto
qed

theorem ring_is_bounded_list_witness:
  "\<exists>q q'. xQueueGenericCreate (\<lambda>n. Some (replicate (unat n) 7)) (word_of_nat 2) (word_of_nat 2) = Some (Some q) \<and>
    ring_calls [Back [1, 2], Back [3, 4], Back [5, 6], Take, Front [7, 8], Peek, Spaces] q =
      Some (fst (list_calls 2 [Back [1, 2], Back [3, 4], Back [5, 6], Take, Front [7, 8], Peek, Spaces] []), q') \<and>
    contents q' = snd (list_calls 2 [Back [1, 2], Back [3, 4], Back [5, 6], Take, Front [7, 8], Peek, Spaces] [])"
  by (rule ring_is_bounded_list [where m = "replicate 4 7"]) (simp_all add: fits_def)

section \<open>The queues of the STM32\<close>

text \<open>What a client relies on: an invariant, and calls that keep it and behave like a bounded list.\<close>

locale stored_queue =
  fixes send :: "'m \<Rightarrow> 'q \<Rightarrow> (bool \<times> 'q) option" and receive :: "'q \<Rightarrow> ('m option \<times> 'q) option"
    and waiting :: "'q \<Rightarrow> 'm list" and capacity :: nat and ok :: "'q \<Rightarrow> bool"
  assumes send_ok: "ok q \<Longrightarrow> \<exists>q'. send x q = Some (length (waiting q) < capacity, q') \<and> ok q' \<and>
      waiting q' = (if length (waiting q) < capacity then waiting q @ [x] else waiting q)"
    and receive_nothing: "ok q \<Longrightarrow> waiting q = [] \<Longrightarrow> receive q = Some (None, q)"
    and receive_oldest: "ok q \<Longrightarrow> waiting q = x # xs \<Longrightarrow>
      \<exists>q'. receive q = Some (Some x, q') \<and> ok q' \<and> waiting q' = xs"

datatype 'm qop = Send 'm | Receive

datatype 'm qres = Sent bool | Received "'m option"

fun run_queue :: "('m \<Rightarrow> 'q \<Rightarrow> (bool \<times> 'q) option) \<Rightarrow> ('q \<Rightarrow> ('m option \<times> 'q) option) \<Rightarrow>
    'm qop list \<Rightarrow> 'q \<Rightarrow> ('m qres list \<times> 'q) option" where
  "run_queue send receive [] q = Some ([], q)"
| "run_queue send receive (Send x # ops) q = do {
     (r, q) \<leftarrow> send x q;
     (rs, q) \<leftarrow> run_queue send receive ops q;
     Some (Sent r # rs, q)
   }"
| "run_queue send receive (Receive # ops) q = do {
     (r, q) \<leftarrow> receive q;
     (rs, q) \<leftarrow> run_queue send receive ops q;
     Some (Received r # rs, q)
   }"

text \<open>The model of \<open>Stm\<close>, with the results of the calls.\<close>

definition bounded_send :: "nat \<Rightarrow> 'm \<Rightarrow> 'm list \<Rightarrow> (bool \<times> 'm list) option" where
  "bounded_send n x xs = Some (length xs < n, xQueueSend n x xs)"

definition bounded_receive :: "'m list \<Rightarrow> ('m option \<times> 'm list) option" where
  "bounded_receive xs = Some (case xQueueReceive xs of None \<Rightarrow> (None, xs) | Some (x, xs') \<Rightarrow> (Some x, xs'))"

interpretation bq: stored_queue "bounded_send n" bounded_receive "\<lambda>q. q" n "\<lambda>_. True" for n
  by unfold_locales (auto simp: bounded_send_def bounded_receive_def xQueueSend_def xQueueReceive_def)

context stored_queue
begin

text \<open>Any two queues with the same contents and capacity give the same answers.\<close>

lemma run_bounded: "ok q \<Longrightarrow> \<exists>rs q'. run_queue send receive ops q = Some (rs, q') \<and> ok q' \<and>
  run_queue (bounded_send capacity) bounded_receive ops (waiting q) = Some (rs, waiting q')"
proof (induction ops arbitrary: q)
  case (Cons op ops)
  show ?case
  proof (cases op)
    case (Send x)
    from send_ok [OF Cons.prems] obtain q1 where
      q1: "send x q = Some (length (waiting q) < capacity, q1)" "ok q1"
        "waiting q1 = (if length (waiting q) < capacity then waiting q @ [x] else waiting q)" by blast
    then have "bounded_send capacity x (waiting q) = Some (length (waiting q) < capacity, waiting q1)"
      by (simp add: bounded_send_def xQueueSend_def)
    with Send q1(1) Cons.IH [OF q1(2)] show ?thesis by auto
  next
    case Receive
    show ?thesis
    proof (cases "waiting q")
      case Nil
      with Receive receive_nothing [OF Cons.prems Nil] Cons.IH [OF Cons.prems] show ?thesis
        by (auto simp: bounded_receive_def xQueueReceive_def)
    next
      case w: (Cons x xs)
      from receive_oldest [OF Cons.prems w] obtain q1 where "receive q = Some (Some x, q1)" "ok q1" "waiting q1 = xs" by blast
      with Receive w Cons.IH [of q1] show ?thesis by (auto simp: bounded_receive_def xQueueReceive_def)
    qed
  qed
qed simp

end

text \<open>
  A message is a \<open>uint64_t\<close> of the caller, a key a \<open>uint16_t\<close>, copied byte by byte, the lowest first.
\<close>

definition send_as :: "('m \<Rightarrow> u8 list) \<Rightarrow> 'm \<Rightarrow> xqueue \<Rightarrow> (bool \<times> xqueue) option" where
  "send_as enc x q = xQueueGenericSend (enc x) queueSEND_TO_BACK q"

definition receive_as :: "(u8 list \<Rightarrow> 'm) \<Rightarrow> xqueue \<Rightarrow> ('m option \<times> xqueue) option" where
  "receive_as dec q = map_option (map_prod (map_option dec) id) (xQueueGenericReceive False q)"

definition word64 :: "u8 list \<Rightarrow> u64" where
  "word64 bs = foldr pack_step bs 0"

definition bytes16 :: "u16 \<Rightarrow> u8 list" where
  "bytes16 v = [ucast v, ucast (drop_bit 8 v)]"

definition word16 :: "u8 list \<Rightarrow> u16" where
  "word16 bs = mk16s (bs ! 1) (bs ! 0)"

lemma word16_bytes16: "word16 (bytes16 v) = v"
  unfolding word16_def bytes16_def mk16s_def by (rule bit_word_eqI) (auto simp: bit_simps)

lemma length_unpack [simp]: "length (unpack_bytes n v) = n"
  by (induction n arbitrary: v) simp_all

lemma pack_unpack: "foldr pack_step (unpack_bytes n v) 0 = take_bit (8 * n) v"
proof (induction n arbitrary: v)
  case (Suc n)
  show ?case
    unfolding unpack_bytes.simps foldr.simps comp_apply Suc
    by (rule bit_word_eqI) (auto simp: pack_step_def bit_simps)
qed simp

lemma word64_bytes: "word64 (unpack_bytes 8 v) = v"
  using take_bit_length_eq [of v] by (simp add: word64_def pack_unpack)

text \<open>A ring buffer of encoded items, whose bytes are all encodings.\<close>

definition typed_ok :: "('m \<Rightarrow> u8 list) \<Rightarrow> (u8 list \<Rightarrow> 'm) \<Rightarrow> nat \<Rightarrow> nat \<Rightarrow> xqueue \<Rightarrow> bool" where
  "typed_ok enc dec n k q \<longleftrightarrow> ring_ok n k q \<and> list_all (\<lambda>bs. enc (dec bs) = bs) (contents q)"

lemma typed_queue:
  assumes "\<And>x. length (enc x) = k" "\<And>x. dec (enc x) = x"
  shows "stored_queue (send_as enc) (receive_as dec) (\<lambda>q. map dec (contents q)) n (typed_ok enc dec n k)"
proof
  fix q x assume "typed_ok enc dec n k q"
  then show "\<exists>q'. send_as enc x q = Some (length (map dec (contents q)) < n, q') \<and> typed_ok enc dec n k q' \<and>
    map dec (contents q') = (if length (map dec (contents q)) < n then map dec (contents q) @ [x] else map dec (contents q))"
    using send_back [of n k q "enc x"] assms by (fastforce simp: send_as_def typed_ok_def)
next
  fix q assume "typed_ok enc dec n k q" "map dec (contents q) = []"
  then show "receive_as dec q = Some (None, q)" using receive_none [of q False] by (simp add: receive_as_def)
next
  fix q x xs assume a: "typed_ok enc dec n k q" "map dec (contents q) = x # xs"
  then obtain bs rest where "contents q = bs # rest" "x = dec bs" "xs = map dec rest" by auto
  then show "\<exists>q'. receive_as dec q = Some (Some x, q') \<and> typed_ok enc dec n k q' \<and> map dec (contents q') = xs"
    using receive_at(1) [of n k q bs rest] a by (fastforce simp: receive_as_def typed_ok_def)
qed

interpretation messages: stored_queue "send_as (unpack_bytes 8)" "receive_as word64" "\<lambda>q. map word64 (contents q)" n
    "typed_ok (unpack_bytes 8) word64 n 8" for n
  by (rule typed_queue) (simp_all add: word64_bytes)

interpretation keys: stored_queue "send_as bytes16" "receive_as word16" "\<lambda>q. map word16 (contents q)" n
    "typed_ok bytes16 word16 n 2" for n
  by (rule typed_queue, simp add: bytes16_def, rule word16_bytes16)

text \<open>
  \<open>osMessageQDef\<close> and \<open>osMessageCreate\<close> of \<open>freertos.c\<close>, for the storage each \<open>malloc\<close> gives.
\<close>

definition create_keypressed :: "(u32 \<Rightarrow> u8 list option) \<Rightarrow> xqueue option option" where
  "create_keypressed malloc = xQueueGenericCreate malloc 16 2"

definition create_messages :: "(u32 \<Rightarrow> u8 list option) \<Rightarrow> xqueue option option" where
  "create_messages malloc = xQueueGenericCreate malloc 10 8"

lemma created:
  assumes "length m = n * k" "0 < n" "0 < k" "n * k < 2 ^ 32" "malloc (word_of_nat n * word_of_nat k) = Some m"
    "(word_of_nat n :: u32) \<noteq> 0" "(word_of_nat k :: u32) \<noteq> 0"
  shows "\<exists>q. xQueueGenericCreate malloc (word_of_nat n) (word_of_nat k) = Some (Some q) \<and> ring_ok n k q \<and> contents q = []"
  using create_ok [OF assms(2-4,1)] assms(5-7) by (simp add: xQueueGenericCreate_def)

text \<open>
  C17: The message queues with which the STM32 is modelled are what FreeRTOS does: from their creation on, any
  sequence of \<open>xQueueSend\<close> and \<open>xQueueReceive\<close> with no waiting time gives, on the ring buffer of bytes for
  ten messages of 64 bits and on that for 16 keys of 16 bits, the results it gives on the bounded list.
\<close>

theorem queue_refines:
  assumes "malloc 80 = Some m" "length m = 80" "malloc' 32 = Some m'" "length m' = 32"
  shows "\<exists>q k. create_messages malloc = Some (Some q) \<and> create_keypressed malloc' = Some (Some k) \<and>
    (\<forall>ops. \<exists>rs q'. run_queue (send_as (unpack_bytes 8)) (receive_as word64) ops q = Some (rs, q') \<and>
      run_queue (bounded_send 10) bounded_receive ops [] = Some (rs, map word64 (contents q'))) \<and>
    (\<forall>ops. \<exists>rs k'. run_queue (send_as bytes16) (receive_as word16) ops k = Some (rs, k') \<and>
      run_queue (bounded_send 16) bounded_receive ops [] = Some (rs, map word16 (contents k')))"
proof -
  obtain q where q: "create_messages malloc = Some (Some q)" "ring_ok 10 8 q" "contents q = []"
    using created [of m 10 8 malloc] assms(1,2) by (auto simp: create_messages_def)
  obtain k where k: "create_keypressed malloc' = Some (Some k)" "ring_ok 16 2 k" "contents k = []"
    using created [of m' 16 2 malloc'] assms(3,4) by (auto simp: create_keypressed_def)
  from q(2,3) have "typed_ok (unpack_bytes 8) word64 10 8 q" by (simp add: typed_ok_def)
  moreover from k(2,3) have "typed_ok bytes16 word16 16 2 k" by (simp add: typed_ok_def)
  ultimately show ?thesis
    using q(1,3) k(1,3) messages.run_bounded [of 10 q] keys.run_bounded [of 16 k]
    by (intro exI [of _ q] exI [of _ k] conjI allI) fastforce+
qed

theorem queue_refines_witness:
  "\<exists>q k. create_messages (\<lambda>n. Some (replicate (unat n) 0)) = Some (Some q) \<and>
    create_keypressed (\<lambda>n. Some (replicate (unat n) 0)) = Some (Some k) \<and>
    (\<forall>ops. \<exists>rs q'. run_queue (send_as (unpack_bytes 8)) (receive_as word64) ops q = Some (rs, q') \<and>
      run_queue (bounded_send 10) bounded_receive ops [] = Some (rs, map word64 (contents q'))) \<and>
    (\<forall>ops. \<exists>rs k'. run_queue (send_as bytes16) (receive_as word16) ops k = Some (rs, k') \<and>
      run_queue (bounded_send 16) bounded_receive ops [] = Some (rs, map word16 (contents k')))"
  by (rule queue_refines [of _ "replicate 80 0" _ "replicate 32 0"]) simp_all

end
