(* ===== verification/RtosWake.thy ===== *)
theory RtosWake
  imports RtosQueue
begin

text \<open>
  Waiting on a FreeRTOS queue (\<open>queue.c\<close>, \<open>tasks.c\<close>): \<open>xQueueReceive\<close> with \<open>portMAX_DELAY\<close>, as every task of
  the STM32 calls it that has a queue, beside tasks and interrupt routines that send. The receiver leaves its
  critical section before it suspends the scheduler and locks the queue, so messages may come in between, and
  interrupts may send while it puts itself on the event list; the queue's lock count and the second look at
  the queue are there so that no message is left waiting while its receiver sleeps. Each step here is what
  happens without interruption. No task waits to send, and none receives from an interrupt.
\<close>

type_synonym task = nat

text \<open>Where a task is: between two calls, or in the loop of \<open>xQueueGenericReceive\<close>.\<close>

datatype rx_pc =
  Working            \<comment> \<open>has its item and is busy with it\<close>
| Calling            \<comment> \<open>at the top of the loop; asleep there while on the event list\<close>
| MustWait           \<comment> \<open>found the queue empty and left the critical section\<close>
| SchedulerOff       \<comment> \<open>after \<open>vTaskSuspendAll\<close>\<close>
| QueueLocked        \<comment> \<open>after \<open>prvLockQueue\<close>\<close>
| SawEmpty           \<comment> \<open>\<open>prvIsQueueEmpty\<close> said so\<close>
| SawItem            \<comment> \<open>or not: it tries again\<close>
| OnList             \<comment> \<open>after \<open>vTaskPlaceOnEventList\<close>\<close>
| QueueUnlocked      \<comment> \<open>after \<open>prvUnlockQueue\<close>\<close>

record ksys =
  ring :: xqueue
  cTxLock :: int
  xTasksWaitingToReceive :: "task list"
  suspended_by :: "task option"
  pc :: "task \<Rightarrow> rx_pc"
  got :: "task \<Rightarrow> u8 list list"

section \<open>The kernel's operations\<close>

text \<open>\<open>(int8_t)\<close>, and \<open>queueUNLOCKED\<close>.\<close>

definition int8 :: "int \<Rightarrow> int" where
  "int8 x = (x + 128) mod 256 - 128"

definition queueUNLOCKED :: int where
  "queueUNLOCKED = - 1"

text \<open>\<open>vListInsert\<close> on the event list: by priority, behind those of the same.\<close>

definition event_insert :: "(task \<Rightarrow> nat) \<Rightarrow> task \<Rightarrow> task list \<Rightarrow> task list" where
  "event_insert prio t ws = takeWhile (\<lambda>u. prio t \<le> prio u) ws @ t # dropWhile (\<lambda>u. prio t \<le> prio u) ws"

text \<open>\<open>xTaskRemoveFromEventList\<close> when the list is not empty: its first task may run again.\<close>

definition wake_first :: "task list \<Rightarrow> task list" where
  "wake_first ws = (case ws of [] \<Rightarrow> [] | w # ws' \<Rightarrow> ws')"

definition prvLockQueue :: "int \<Rightarrow> int" where
  "prvLockQueue l = (if l = queueUNLOCKED then 0 else l)"

text \<open>\<open>prvUnlockQueue\<close>: a task is woken for every message sent while the queue was locked.\<close>

fun wake_waiting :: "nat \<Rightarrow> task list \<Rightarrow> task list" where
  "wake_waiting 0 ws = ws"
| "wake_waiting (Suc n) ws = (if ws = [] then [] else wake_waiting n (wake_first ws))"

definition prvUnlockQueue :: "ksys \<Rightarrow> ksys" where
  "prvUnlockQueue s = s\<lparr>
     xTasksWaitingToReceive := wake_waiting (nat (cTxLock s)) (xTasksWaitingToReceive s),
     cTxLock := queueUNLOCKED\<rparr>"

text \<open>\<open>xQueueSend\<close> of a task, with no waiting time; it runs only while the scheduler does.\<close>

definition task_send :: "u8 list \<Rightarrow> ksys \<Rightarrow> ksys option" where
  "task_send bs s = (if suspended_by s = None
     then (case xQueueGenericSend bs queueSEND_TO_BACK (ring s) of
         Some (True, q) \<Rightarrow> Some (s\<lparr>ring := q, xTasksWaitingToReceive := wake_first (xTasksWaitingToReceive s)\<rparr>)
       | Some (False, q) \<Rightarrow> Some s
       | None \<Rightarrow> None)
     else None)"

text \<open>\<open>xQueueSendFromISR\<close>: the event list of a locked queue is left alone.\<close>

definition xQueueGenericSendFromISR :: "u8 list \<Rightarrow> ksys \<Rightarrow> ksys option" where
  "xQueueGenericSendFromISR bs s = (if uxMessagesWaiting (ring s) < uxLength (ring s)
     then do {
       q \<leftarrow> prvCopyDataToQueue bs queueSEND_TO_BACK (ring s);
       Some (if cTxLock s = queueUNLOCKED
         then s\<lparr>ring := q, xTasksWaitingToReceive := wake_first (xTasksWaitingToReceive s)\<rparr>
         else s\<lparr>ring := q, cTxLock := int8 (cTxLock s + 1)\<rparr>)
     } else Some s)"

text \<open>
  A step of the receiver \<open>t\<close> through \<open>xQueueGenericReceive(\<dots>, portMAX_DELAY, pdFALSE)\<close>; \<open>None\<close> when it cannot
  run: another task has suspended the scheduler, or it sleeps on the event list.
\<close>

definition runnable :: "task \<Rightarrow> ksys \<Rightarrow> bool" where
  "runnable t s \<longleftrightarrow> (case suspended_by s of None \<Rightarrow> t \<notin> set (xTasksWaitingToReceive s) | Some u \<Rightarrow> u = t)"

definition goto :: "task \<Rightarrow> rx_pc \<Rightarrow> ksys \<Rightarrow> ksys" where
  "goto t p s = s\<lparr>pc := (pc s)(t := p)\<rparr>"

definition receiver_step :: "(task \<Rightarrow> nat) \<Rightarrow> task \<Rightarrow> ksys \<Rightarrow> ksys option" where
  "receiver_step prio t s = (if \<not> runnable t s then None else
     case pc s t of
       Working \<Rightarrow> Some (goto t Calling s)
     | Calling \<Rightarrow> (case xQueueGenericReceive False (ring s) of
           Some (Some bs, q) \<Rightarrow> Some (goto t Working (s\<lparr>ring := q, got := (got s)(t := got s t @ [bs])\<rparr>))
         | Some (None, q) \<Rightarrow> Some (goto t MustWait s)
         | None \<Rightarrow> None)
     | MustWait \<Rightarrow> Some (goto t SchedulerOff (s\<lparr>suspended_by := Some t\<rparr>))
     | SchedulerOff \<Rightarrow> Some (goto t QueueLocked (s\<lparr>cTxLock := prvLockQueue (cTxLock s)\<rparr>))
     | QueueLocked \<Rightarrow> Some (goto t (if prvIsQueueEmpty (ring s) then SawEmpty else SawItem) s)
     | SawEmpty \<Rightarrow> Some (goto t OnList
         (s\<lparr>xTasksWaitingToReceive := event_insert prio t (xTasksWaitingToReceive s)\<rparr>))
     | SawItem \<Rightarrow> Some (goto t QueueUnlocked (prvUnlockQueue s))
     | OnList \<Rightarrow> Some (goto t QueueUnlocked (prvUnlockQueue s))
     | QueueUnlocked \<Rightarrow> Some (goto t Calling (s\<lparr>suspended_by := None\<rparr>)))"

section \<open>All interleavings\<close>

text \<open>The receivers \<open>T\<close>, tasks that send, and interrupts, in any order; items have \<open>k\<close> bytes.\<close>

inductive kstep :: "(task \<Rightarrow> nat) \<Rightarrow> task set \<Rightarrow> nat \<Rightarrow> ksys \<Rightarrow> ksys \<Rightarrow> bool" for prio T k where
  receiver: "t \<in> T \<Longrightarrow> receiver_step prio t s = Some s' \<Longrightarrow> kstep prio T k s s'"
| sender: "length bs = k \<Longrightarrow> task_send bs s = Some s' \<Longrightarrow> kstep prio T k s s'"
| interrupt: "length bs = k \<Longrightarrow> xQueueGenericSendFromISR bs s = Some s' \<Longrightarrow> kstep prio T k s s'"

definition kinit :: "xqueue \<Rightarrow> ksys" where
  "kinit q = \<lparr>ring = q, cTxLock = queueUNLOCKED, xTasksWaitingToReceive = [], suspended_by = None,
     pc = (\<lambda>_. Working), got = (\<lambda>_. [])\<rparr>"

inductive kreach :: "(task \<Rightarrow> nat) \<Rightarrow> task set \<Rightarrow> nat \<Rightarrow> xqueue \<Rightarrow> ksys \<Rightarrow> bool" for prio T k q where
  init: "kreach prio T k q (kinit q)"
| step: "kreach prio T k q s \<Longrightarrow> kstep prio T k s s' \<Longrightarrow> kreach prio T k q s'"

inductive_cases kstepE: "kstep prio T k s s'"

section \<open>The invariant\<close>

definition messages :: "ksys \<Rightarrow> nat" where
  "messages s = length (contents (ring s))"

text \<open>The receivers that will look at the queue before they sleep.\<close>

definition awake :: "task set \<Rightarrow> ksys \<Rightarrow> task set" where
  "awake T s = {t \<in> T. pc s t \<noteq> Working \<and> t \<notin> set (xTasksWaitingToReceive s)}"

definition off :: "rx_pc set" where
  "off = {SchedulerOff, QueueLocked, SawEmpty, SawItem, OnList, QueueUnlocked}"

definition locked :: "rx_pc set" where
  "locked = {QueueLocked, SawEmpty, SawItem, OnList}"

text \<open>For every message in the queue a task is awake, or will be woken when the queue is unlocked.\<close>

definition kinv :: "task set \<Rightarrow> nat \<Rightarrow> nat \<Rightarrow> ksys \<Rightarrow> bool" where
  "kinv T n k s \<longleftrightarrow> ring_ok n k (ring s) \<and>
     distinct (xTasksWaitingToReceive s) \<and>
     (\<forall>t\<in>set (xTasksWaitingToReceive s). t \<in> T \<and> pc s t \<in> {Calling, OnList, QueueUnlocked}) \<and>
     (\<forall>t. suspended_by s = Some t \<longleftrightarrow> pc s t \<in> off) \<and>
     (\<forall>t. pc s t \<noteq> Working \<longrightarrow> t \<in> T) \<and>
     (\<forall>t. pc s t \<in> locked \<longrightarrow> 0 \<le> cTxLock s \<and> cTxLock s \<le> int (messages s)) \<and>
     (\<forall>t. pc s t \<notin> locked \<longrightarrow> suspended_by s \<in> {None, Some t} \<longrightarrow> cTxLock s = queueUNLOCKED) \<and>
     (\<forall>t. pc s t = SawEmpty \<longrightarrow> int (messages s) \<le> cTxLock s) \<and>
     (xTasksWaitingToReceive s \<noteq> [] \<longrightarrow> messages s \<le> card (awake T s) + nat (cTxLock s))"

lemma kinvD:
  assumes "kinv T n k s"
  shows "ring_ok n k (ring s)" "distinct (xTasksWaitingToReceive s)"
    "\<And>t. t \<in> set (xTasksWaitingToReceive s) \<Longrightarrow> t \<in> T"
    "\<And>t. t \<in> set (xTasksWaitingToReceive s) \<Longrightarrow> pc s t \<in> {Calling, OnList, QueueUnlocked}"
    "\<And>t. suspended_by s = Some t \<longleftrightarrow> pc s t \<in> off"
    "\<And>t. pc s t \<noteq> Working \<Longrightarrow> t \<in> T"
    "\<And>t. pc s t \<in> locked \<Longrightarrow> 0 \<le> cTxLock s \<and> cTxLock s \<le> int (messages s)"
    "\<And>t. pc s t \<notin> locked \<Longrightarrow> suspended_by s \<in> {None, Some t} \<Longrightarrow> cTxLock s = queueUNLOCKED"
    "\<And>t. pc s t = SawEmpty \<Longrightarrow> int (messages s) \<le> cTxLock s"
    "xTasksWaitingToReceive s \<noteq> [] \<Longrightarrow> messages s \<le> card (awake T s) + nat (cTxLock s)"
  using assms unfolding kinv_def by blast+

lemma kinvI:
  assumes "ring_ok n k (ring s)" "distinct (xTasksWaitingToReceive s)"
    "\<And>t. t \<in> set (xTasksWaitingToReceive s) \<Longrightarrow> t \<in> T"
    "\<And>t. t \<in> set (xTasksWaitingToReceive s) \<Longrightarrow> pc s t \<in> {Calling, OnList, QueueUnlocked}"
    "\<And>t. suspended_by s = Some t \<longleftrightarrow> pc s t \<in> off"
    "\<And>t. pc s t \<noteq> Working \<Longrightarrow> t \<in> T"
    "\<And>t. pc s t \<in> locked \<Longrightarrow> 0 \<le> cTxLock s \<and> cTxLock s \<le> int (messages s)"
    "\<And>t. pc s t \<notin> locked \<Longrightarrow> suspended_by s \<in> {None, Some t} \<Longrightarrow> cTxLock s = queueUNLOCKED"
    "\<And>t. pc s t = SawEmpty \<Longrightarrow> int (messages s) \<le> cTxLock s"
    "xTasksWaitingToReceive s \<noteq> [] \<Longrightarrow> messages s \<le> card (awake T s) + nat (cTxLock s)"
  shows "kinv T n k s"
  using assms unfolding kinv_def by blast

lemma locked_off: "p \<in> locked \<Longrightarrow> p \<in> off"
  by (auto simp: locked_def off_def)

lemma only_one_locked: "kinv T n k s \<Longrightarrow> pc s t \<in> off \<Longrightarrow> pc s u \<in> off \<Longrightarrow> u = t"
  using kinvD(5) by (metis option.inject)

text \<open>The event list.\<close>

lemma event_insert_set [simp]: "set (event_insert prio t ws) = insert t (set ws)"
  by (metis event_insert_def insert_is_Un set_append list.simps(15) sup_left_commute takeWhile_dropWhile_id)

lemma event_insert_distinct: "distinct ws \<Longrightarrow> t \<notin> set ws \<Longrightarrow> distinct (event_insert prio t ws)"
  by (auto simp: event_insert_def distinct_takeWhile distinct_dropWhile
      dest: set_takeWhileD set_dropWhileD)
    (metis disjoint_iff distinct_append takeWhile_dropWhile_id)

lemma wake_waiting_drop: "wake_waiting n ws = drop n ws"
  by (induction n arbitrary: ws) (auto simp: wake_first_def split: list.split)

lemma card_awake_mono: "finite T \<Longrightarrow> awake T s \<subseteq> awake T s' \<Longrightarrow> card (awake T s) \<le> card (awake T s')"
  by (rule card_mono) (simp_all add: awake_def)

text \<open>Who is taken off the list is awake.\<close>

lemma awake_drop:
  assumes "kinv T n k s" "finite T"
  shows "card (awake T (s\<lparr>xTasksWaitingToReceive := drop m (xTasksWaitingToReceive s)\<rparr>)) =
    card (awake T s) + min m (length (xTasksWaitingToReceive s))"
proof -
  let ?ws = "xTasksWaitingToReceive s" and ?A = "awake T s"
  have d: "distinct (take m ?ws @ drop m ?ws)" using kinvD(2) [OF assms(1)] by simp
  have "awake T (s\<lparr>xTasksWaitingToReceive := drop m ?ws\<rparr>) = ?A \<union> set (take m ?ws)"
  proof (rule set_eqI)
    fix t
    have "t \<in> set ?ws \<longleftrightarrow> t \<in> set (take m ?ws) \<or> t \<in> set (drop m ?ws)" by (metis Un_iff append_take_drop_id set_append)
    moreover have "t \<in> set (take m ?ws) \<Longrightarrow> t \<notin> set (drop m ?ws)" using d by (metis disjoint_iff distinct_append)
    moreover have "t \<in> set ?ws \<Longrightarrow> t \<in> T \<and> pc s t \<noteq> Working" using kinvD(3,4) [OF assms(1)] by fastforce
    ultimately show "t \<in> awake T (s\<lparr>xTasksWaitingToReceive := drop m ?ws\<rparr>) \<longleftrightarrow> t \<in> ?A \<union> set (take m ?ws)"
      by (auto simp: awake_def)
  qed
  moreover have "?A \<inter> set (take m ?ws) = {}" by (auto simp: awake_def dest: in_set_takeD)
  moreover have "card (set (take m ?ws)) = min m (length ?ws)"
    using distinct_card [of "take m ?ws"] d by (simp add: min.commute)
  ultimately show ?thesis using assms(2) by (simp add: card_Un_disjoint awake_def)
qed

lemma wake_first_drop: "wake_first ws = drop 1 ws"
  by (cases ws) (simp_all add: wake_first_def)

text \<open>A message arrives.\<close>

lemma send_kinv:
  assumes inv: "kinv T n k s" and fin: "finite T" and "n \<le> 127" and q: "ring_ok n k q" "length (contents q) = messages s + 1"
    "messages s < n"
  shows "cTxLock s = queueUNLOCKED \<Longrightarrow>
      kinv T n k (s\<lparr>ring := q, xTasksWaitingToReceive := wake_first (xTasksWaitingToReceive s)\<rparr>)" (is "_ \<Longrightarrow> kinv T n k ?a")
    and "cTxLock s \<noteq> queueUNLOCKED \<Longrightarrow> kinv T n k (s\<lparr>ring := q, cTxLock := int8 (cTxLock s + 1)\<rparr>)" (is "_ \<Longrightarrow> kinv T n k ?b")
proof -
  note d = kinvD [OF inv]
  let ?ws = "xTasksWaitingToReceive s"
  {
    assume u: "cTxLock s = queueUNLOCKED"
    then have nl: "pc s t \<notin> locked" "pc s t \<noteq> SawEmpty" for t
      using d(7) [of t] by (auto simp: queueUNLOCKED_def locked_def)
    have "messages ?a \<le> card (awake T ?a) + nat (cTxLock ?a)" if "drop 1 ?ws \<noteq> []"
    proof -
      from that have "?ws \<noteq> []" by auto
      then have "messages s \<le> card (awake T s)" "min 1 (length ?ws) = 1" using d(10) u by (auto simp: queueUNLOCKED_def min_def Suc_le_eq)
      moreover have "awake T ?a = awake T (s\<lparr>xTasksWaitingToReceive := drop 1 ?ws\<rparr>)"
        by (simp add: awake_def wake_first_drop)
      ultimately show ?thesis using awake_drop [OF inv fin, of 1] q(2) by (simp add: messages_def)
    qed
    then show "kinv T n k ?a"
      using d(2-6,9) q(1) u nl unfolding kinv_def by (auto simp: wake_first_drop dest!: in_set_dropD)
  next
    assume u: "cTxLock s \<noteq> queueUNLOCKED"
    then obtain t where t: "pc s t \<in> locked" using d(8) by (metis insertI1 insertI2 singletonI not_None_eq)
    from d(7) [OF t] assms(3,6) have c: "int8 (cTxLock s + 1) = cTxLock s + 1" "0 \<le> cTxLock s" "cTxLock s \<le> int (messages s)"
      by (auto simp: int8_def)
    moreover have "awake T ?b = awake T s" by (simp add: awake_def)
    moreover have "messages ?b = messages s + 1" using q(2) by (simp add: messages_def)
    moreover have "suspended_by s = Some t" using d(5) locked_off [OF t] by simp
    moreover have "pc s u \<in> off \<longleftrightarrow> u = t" for u using only_one_locked [OF inv locked_off [OF t]] locked_off [OF t] by blast
    ultimately show "kinv T n k ?b"
      using d(2-4,6,9,10) q(1) t by (intro kinvI) (auto simp: nat_add_distrib)
  }
qed

text \<open>A receiver moves on, and which tasks are awake stays the same.\<close>

lemma awake_goto [simp]:
  "p \<noteq> Working \<Longrightarrow> pc s t \<noteq> Working \<Longrightarrow> awake T (goto t p s) = awake T s"
  "awake T (s\<lparr>suspended_by := u\<rparr>) = awake T s"
  "awake T (s\<lparr>cTxLock := l\<rparr>) = awake T s"
  by (auto simp: awake_def goto_def)

lemma messages_simps [simp]:
  "messages (goto t p s) = messages s"
  "messages (s\<lparr>suspended_by := u\<rparr>) = messages s"
  "messages (s\<lparr>cTxLock := l\<rparr>) = messages s"
  "messages (s\<lparr>xTasksWaitingToReceive := ws\<rparr>) = messages s"
  by (simp_all add: messages_def goto_def)

lemma goto_simps [simp]:
  "ring (goto t p s) = ring s" "cTxLock (goto t p s) = cTxLock s"
  "xTasksWaitingToReceive (goto t p s) = xTasksWaitingToReceive s" "suspended_by (goto t p s) = suspended_by s"
  "pc (goto t p s) = (pc s)(t := p)" "got (goto t p s) = got s"
  by (simp_all add: goto_def)

lemma no_one_off: "kinv T n k s \<Longrightarrow> suspended_by s = None \<Longrightarrow> pc s t \<notin> off \<and> pc s t \<notin> locked \<and> cTxLock s = queueUNLOCKED"
  using kinvD(5) [of T n k s t] kinvD(8) [of T n k s t] locked_off by auto

lemma kinv_begin:
  assumes "kinv T n k s" "finite T" "t \<in> T" "pc s t = Working"
  shows "kinv T n k (goto t Calling s)"
proof -
  note d = kinvD [OF assms(1)]
  have "awake T s \<subseteq> awake T (goto t Calling s)" by (auto simp: awake_def)
  then have "card (awake T s) \<le> card (awake T (goto t Calling s))" by (rule card_awake_mono [OF assms(2)])
  moreover have "t \<notin> set (xTasksWaitingToReceive s)" using d(4) [of t] assms(4) by auto
  moreover have "pc s t \<notin> off" "Calling \<notin> off" "pc s t \<notin> locked" "Calling \<notin> locked" using assms(4) by (simp_all add: off_def locked_def)
  moreover from this have "cTxLock s = queueUNLOCKED"
    if "((pc s)(t := Calling)) u \<notin> locked" "suspended_by s \<in> {None, Some u}" for u
    using that d(8) [of u] d(8) [of t] d(5) [of t] by (auto split: if_splits)
  ultimately show ?thesis using d(1-7,9,10) assms(3,4) by (intro kinvI) (auto split: if_splits dest: le_trans)
qed

lemma kinv_take:
  assumes "kinv T n k s" "finite T" "pc s t = Calling" "suspended_by s = None" "t \<notin> set (xTasksWaitingToReceive s)"
    and q: "ring_ok n k q" "length (contents q) + 1 = messages s"
  shows "kinv T n k (goto t Working (s\<lparr>ring := q, got := g\<rparr>))" (is "kinv T n k ?s")
proof -
  note d = kinvD [OF assms(1)]
  note o = no_one_off [OF assms(1,4)]
  have t: "t \<in> awake T s" using d(6) [of t] assms(3,5) by (simp add: awake_def)
  have "awake T ?s = awake T s - {t}" by (auto simp: awake_def)
  moreover have "finite (awake T s)" using assms(2) by (simp add: awake_def)
  ultimately have "card (awake T s) = card (awake T ?s) + 1" using card_Suc_Diff1 [of "awake T s" t] t by simp
  moreover have "messages ?s + 1 = messages s" using q(2) by (simp add: messages_def)
  moreover have "pc s u \<noteq> SawEmpty" for u using o [of u] by (auto simp: locked_def)
  moreover have "Working \<notin> off" "Working \<notin> locked" by (simp_all add: off_def locked_def)
  ultimately show ?thesis using d(2-6,10) q(1) o assms(5) by (intro kinvI) (auto split: if_splits)
qed

lemma kinv_off:
  assumes "kinv T n k s" "pc s t = MustWait" "suspended_by s = None"
  shows "kinv T n k (goto t SchedulerOff (s\<lparr>suspended_by := Some t\<rparr>))"
proof -
  note d = kinvD [OF assms(1)]
  note o = no_one_off [OF assms(1,3)]
  have "pc s u \<noteq> SawEmpty" for u using o [of u] by (auto simp: locked_def)
  moreover have "SchedulerOff \<in> off" "SchedulerOff \<notin> locked" by (simp_all add: off_def locked_def)
  moreover have "t \<notin> set (xTasksWaitingToReceive s)" using d(4) [of t] assms(2) by auto
  ultimately show ?thesis using d(1-6,10) o assms(2) by (intro kinvI) (auto split: if_splits)
qed

text \<open>The steps with the scheduler suspended.\<close>

lemma alone:
  assumes "kinv T n k s" "pc s t \<in> off"
  shows "suspended_by s = Some t \<and> (\<forall>u. u \<noteq> t \<longrightarrow> pc s u \<notin> off \<and> pc s u \<notin> locked \<and> pc s u \<noteq> SawEmpty)"
proof -
  have "pc s u \<notin> off" if "u \<noteq> t" for u using only_one_locked [OF assms] that by blast
  moreover have "SawEmpty \<in> off" by (simp add: off_def)
  ultimately show ?thesis using kinvD(5) [OF assms(1)] assms(2) locked_off by metis
qed

lemma kinv_lock:
  assumes "kinv T n k s" "pc s t = SchedulerOff"
  shows "kinv T n k (goto t QueueLocked (s\<lparr>cTxLock := prvLockQueue (cTxLock s)\<rparr>))"
proof -
  note d = kinvD [OF assms(1)]
  have p: "pc s t \<in> off" "pc s t \<notin> locked" "QueueLocked \<in> off" "QueueLocked \<in> locked" using assms(2) by (simp_all add: off_def locked_def)
  note a = alone [OF assms(1) p(1)]
  have "cTxLock s = queueUNLOCKED" using d(8) [of t] a p(2) by simp
  moreover have "t \<notin> set (xTasksWaitingToReceive s)" using d(4) [of t] assms(2) by auto
  ultimately show ?thesis using d(1-4,6,10) a p assms(2)
    by (intro kinvI) (auto simp: prvLockQueue_def queueUNLOCKED_def split: if_splits)
qed

lemma kinv_look:
  assumes "kinv T n k s" "pc s t = QueueLocked"
  shows "kinv T n k (goto t (if prvIsQueueEmpty (ring s) then SawEmpty else SawItem) s)" (is "kinv T n k (goto t ?p s)")
proof -
  note d = kinvD [OF assms(1)]
  have p: "pc s t \<in> off" "pc s t \<in> locked" "?p \<in> off" "?p \<in> locked" "?p \<noteq> Working" using assms(2) by (simp_all add: off_def locked_def)
  note a = alone [OF assms(1) p(1)]
  have "?p = SawEmpty \<Longrightarrow> messages s = 0" by (simp add: prvIsQueueEmpty_def messages_def split: if_splits)
  moreover have "t \<notin> set (xTasksWaitingToReceive s)" using d(4) [of t] assms(2) by auto
  moreover define p where "p = ?p"
  ultimately show ?thesis using d(1-4,6,10) d(7) [OF p(2)] a p assms(2) unfolding p_def [symmetric]
    by (intro kinvI) (auto split: if_splits)
qed

lemma kinv_place:
  assumes "kinv T n k s" "finite T" "pc s t = SawEmpty"
  shows "kinv T n k (goto t OnList (s\<lparr>xTasksWaitingToReceive := event_insert prio t (xTasksWaitingToReceive s)\<rparr>))"
proof -
  note d = kinvD [OF assms(1)]
  have p: "pc s t \<in> off" "pc s t \<in> locked" "OnList \<in> off" "OnList \<in> locked" using assms(3) by (simp_all add: off_def locked_def)
  note a = alone [OF assms(1) p(1)]
  have "t \<notin> set (xTasksWaitingToReceive s)" using d(4) [of t] assms(3) by auto
  moreover from this have "distinct (event_insert prio t (xTasksWaitingToReceive s))" using d(2) by (intro event_insert_distinct)
  moreover have "messages s \<le> nat (cTxLock s)" using d(9) [OF assms(3)] by simp
  moreover have "t \<in> T" using d(6) [of t] assms(3) by simp
  ultimately show ?thesis using d(1,3,4,6) d(7) [OF p(2)] a p assms(3)
    by (intro kinvI) (auto split: if_splits)
qed

lemma kinv_unlock:
  assumes "kinv T n k s" "finite T" "pc s t \<in> {SawItem, OnList}"
  shows "kinv T n k (goto t QueueUnlocked (prvUnlockQueue s))" (is "kinv T n k ?s")
proof -
  note d = kinvD [OF assms(1)]
  let ?ws = "xTasksWaitingToReceive s"
  have p: "pc s t \<in> off" "pc s t \<in> locked" "QueueUnlocked \<in> off" "QueueUnlocked \<notin> locked" "pc s t \<noteq> Working"
    using assms(3) by (auto simp: off_def locked_def)
  note a = alone [OF assms(1) p(1)]
  have "messages ?s \<le> card (awake T ?s)" if "drop (nat (cTxLock s)) ?ws \<noteq> []"
  proof -
    have "awake T ?s = awake T (s\<lparr>xTasksWaitingToReceive := drop (nat (cTxLock s)) ?ws\<rparr>)"
      using p(5) by (auto simp: awake_def prvUnlockQueue_def wake_waiting_drop)
    moreover have "min (nat (cTxLock s)) (length ?ws) = nat (cTxLock s)" "?ws \<noteq> []" using that by auto
    ultimately show ?thesis using awake_drop [OF assms(1,2), of "nat (cTxLock s)"] d(10)
      by (simp add: prvUnlockQueue_def)
  qed
  then show ?thesis using d(1-4,6) a p
    by (intro kinvI) (auto simp: prvUnlockQueue_def wake_waiting_drop split: if_splits dest!: in_set_dropD)
qed

lemma kinv_resume:
  assumes "kinv T n k s" "pc s t = QueueUnlocked"
  shows "kinv T n k (goto t Calling (s\<lparr>suspended_by := None\<rparr>))"
proof -
  note d = kinvD [OF assms(1)]
  have p: "pc s t \<in> off" "pc s t \<notin> locked" "Calling \<notin> off" "Calling \<notin> locked" using assms(2) by (simp_all add: off_def locked_def)
  note a = alone [OF assms(1) p(1)]
  have "cTxLock s = queueUNLOCKED" using d(8) [of t] a p(2) by simp
  then show ?thesis using d(1-4,6,10) a p assms(2) by (intro kinvI) (auto split: if_splits)
qed

section \<open>Every step keeps it\<close>

lemma receive_cases:
  assumes "ring_ok n k q"
  obtains "contents q = []" "xQueueGenericReceive False q = Some (None, q)"
  | bs rest q' where "contents q = bs # rest" "xQueueGenericReceive False q = Some (Some bs, q')" "ring_ok n k q'"
      "contents q' = rest"
  using receive_none [of q False] receive_at(1) [OF assms] by (cases "contents q") blast+

lemma kinv_receiver:
  assumes "kinv T n k s" "finite T" "t \<in> T" "receiver_step prio t s = Some s'"
  shows "kinv T n k s'"
proof -
  note d = kinvD [OF assms(1)]
  from assms(4) have r: "runnable t s" by (auto simp: receiver_step_def split: if_splits)
  have on: "pc s t \<notin> off \<Longrightarrow> suspended_by s = None \<and> t \<notin> set (xTasksWaitingToReceive s)"
    using r d(5) [of t] by (auto simp: runnable_def split: option.splits)
  show ?thesis
  proof (cases "pc s t")
    case Working
    with assms(4) r kinv_begin [OF assms(1-3)] show ?thesis by (simp add: receiver_step_def)
  next
    case Calling
    then have o: "suspended_by s = None" "t \<notin> set (xTasksWaitingToReceive s)" using on by (simp_all add: off_def)
    from d(1) show ?thesis
    proof (cases rule: receive_cases)
      case 1
      then have s': "s' = goto t MustWait s" using assms(4) r Calling by (simp add: receiver_step_def)
      have "pc s u \<noteq> SawEmpty" for u using no_one_off [OF assms(1) o(1), of u] by (auto simp: off_def)
      with d(1-7,10) no_one_off [OF assms(1) o(1)] Calling o(2) show ?thesis unfolding s'
        by (intro kinvI) (auto simp: off_def locked_def split: if_splits)
    next
      case (2 bs rest q')
      then have "s' = goto t Working (s\<lparr>ring := q', got := (got s)(t := got s t @ [bs])\<rparr>)"
        using assms(4) r Calling by (simp add: receiver_step_def)
      moreover have "length (contents q') + 1 = messages s" using 2 by (simp add: messages_def del: length_contents)
      ultimately show ?thesis using kinv_take [OF assms(1,2) Calling o] 2(3) by simp
    qed
  next
    case MustWait
    with assms(4) r kinv_off [OF assms(1) MustWait] on show ?thesis by (simp add: receiver_step_def off_def)
  next
    case SchedulerOff
    with assms(4) r kinv_lock [OF assms(1) SchedulerOff] show ?thesis by (simp add: receiver_step_def)
  next
    case QueueLocked
    with assms(4) r kinv_look [OF assms(1) QueueLocked] show ?thesis by (simp add: receiver_step_def split del: if_split)
  next
    case SawEmpty
    with assms(4) r kinv_place [OF assms(1,2)] show ?thesis by (auto simp: receiver_step_def)
  next
    case SawItem
    with assms(4) r kinv_unlock [OF assms(1,2), of t] show ?thesis by (auto simp: receiver_step_def)
  next
    case OnList
    with assms(4) r kinv_unlock [OF assms(1,2), of t] show ?thesis by (auto simp: receiver_step_def)
  next
    case QueueUnlocked
    with assms(4) r kinv_resume [OF assms(1) QueueUnlocked] show ?thesis by (auto simp: receiver_step_def)
  qed
qed

lemma kinv_task_send:
  assumes "kinv T n k s" "finite T" "n \<le> 127" "length bs = k" "task_send bs s = Some s'"
  shows "kinv T n k s'"
proof -
  note d = kinvD [OF assms(1)]
  from send_back [OF d(1) assms(4)] obtain q where
    q: "xQueueGenericSend bs queueSEND_TO_BACK (ring s) = Some (messages s < n, q)" "ring_ok n k q"
      "contents q = (if messages s < n then contents (ring s) @ [bs] else contents (ring s))"
    unfolding messages_def by blast
  from assms(5) have "suspended_by s = None" by (auto simp: task_send_def split: if_splits)
  with assms(1) have "cTxLock s = queueUNLOCKED" by (simp add: no_one_off)
  moreover have "length (contents q) = messages s + 1" if "messages s < n"
    using q(3) that by (simp add: messages_def del: length_contents)
  ultimately show ?thesis using send_kinv(1) [OF assms(1-3) q(2)] q(1) assms(1,5)
    by (cases "messages s < n") (auto simp: task_send_def split: if_splits)
qed

lemma kinv_isr_send:
  assumes "kinv T n k s" "finite T" "n \<le> 127" "length bs = k" "xQueueGenericSendFromISR bs s = Some s'"
  shows "kinv T n k s'"
proof (cases "messages s < n")
  case True
  note d = kinvD [OF assms(1)]
  from to_back [OF d(1) assms(4)] True obtain q where
    q: "prvCopyDataToQueue bs queueSEND_TO_BACK (ring s) = Some q" "ring_ok n k q" "contents q = contents (ring s) @ [bs]"
    by (auto simp: messages_def)
  have l: "length (contents q) = messages s + 1" unfolding q(3) messages_def by simp
  have "uxMessagesWaiting (ring s) < uxLength (ring s)"
    using d(1) True by (simp add: ring_ok_def ring_at_def messages_def word_less_nat_alt)
  with assms(5) q(1) send_kinv [OF assms(1-3) q(2) l True] show ?thesis
    by (auto simp: xQueueGenericSendFromISR_def split: if_splits)
next
  case False
  then have "\<not> uxMessagesWaiting (ring s) < uxLength (ring s)"
    using kinvD(1) [OF assms(1)] by (simp add: ring_ok_def ring_at_def messages_def word_less_nat_alt)
  with assms(1,5) show ?thesis by (simp add: xQueueGenericSendFromISR_def)
qed

lemma kinv_init: "ring_ok n k q \<Longrightarrow> contents q = [] \<Longrightarrow> kinv T n k (kinit q)"
  by (rule kinvI) (simp_all add: kinit_def off_def locked_def queueUNLOCKED_def)

lemma reach_kinv:
  assumes "ring_ok n k q" "contents q = []" "finite T" "n \<le> 127" "kreach prio T k q s"
  shows "kinv T n k s"
  using assms(5)
proof induction
  case init
  with assms show ?case by (intro kinv_init)
next
  case (step s s')
  from step(2) step.IH show ?case
    by (elim kstepE) (auto intro: kinv_receiver kinv_task_send kinv_isr_send assms(3,4))
qed

text \<open>
  C18: No wake-up is lost. Several tasks may wait on a queue of at most 127 items while others, and interrupts,
  send to it, in any order and at any moment of \<open>xQueueGenericReceive\<close> outside its critical sections: whenever
  the scheduler runs and a receiver sleeps, there are at least as many receivers about to look at the queue as
  it has messages.
\<close>

theorem no_lost_wakeup:
  assumes "0 < n" "n \<le> 127" "0 < k" "n * k < 2 ^ 32" "length m = n * k" "finite T"
    and "kreach prio T k (prvInitialiseNewQueue (word_of_nat n) (word_of_nat k) m) s"
    and "suspended_by s = None" "xTasksWaitingToReceive s \<noteq> []"
  shows "length (contents (ring s)) \<le> card {t \<in> T. pc s t \<noteq> Working \<and> t \<notin> set (xTasksWaitingToReceive s)}"
proof -
  from create_ok [OF assms(1,3-5)] reach_kinv [OF _ _ assms(6,2,7)] have inv: "kinv T n k s" by blast
  from no_one_off [OF this assms(8)] kinvD(10) [OF this assms(9)] show ?thesis
    by (simp add: queueUNLOCKED_def awake_def messages_def)
qed

section \<open>A message is received\<close>

text \<open>One receiver \<open>t\<close>; what cannot happen now is skipped.\<close>

datatype event = Rx | FromTask "u8 list" | FromISR "u8 list"

fun happen :: "(task \<Rightarrow> nat) \<Rightarrow> task \<Rightarrow> event \<Rightarrow> ksys \<Rightarrow> ksys option" where
  "happen prio t Rx s = receiver_step prio t s"
| "happen prio t (FromTask bs) s = task_send bs s"
| "happen prio t (FromISR bs) s = xQueueGenericSendFromISR bs s"

fun schedule :: "(task \<Rightarrow> nat) \<Rightarrow> task \<Rightarrow> event list \<Rightarrow> ksys \<Rightarrow> ksys" where
  "schedule prio t [] s = s"
| "schedule prio t (e # es) s = schedule prio t es (case happen prio t e s of None \<Rightarrow> s | Some s' \<Rightarrow> s')"

fun event_ok :: "nat \<Rightarrow> event \<Rightarrow> bool" where
  "event_ok k Rx \<longleftrightarrow> True"
| "event_ok k (FromTask bs) \<longleftrightarrow> length bs = k"
| "event_ok k (FromISR bs) \<longleftrightarrow> length bs = k"

text \<open>The steps a receiver needs to get to the top of the loop when there is a message.\<close>

fun steps_left :: "rx_pc \<Rightarrow> nat" where
  "steps_left Calling = 0"
| "steps_left Working = 1"
| "steps_left QueueUnlocked = 1"
| "steps_left SawItem = 2"
| "steps_left OnList = 2"
| "steps_left SawEmpty = 3"
| "steps_left QueueLocked = 4"
| "steps_left SchedulerOff = 5"
| "steps_left MustWait = 6"

lemma happen_kinv:
  assumes "kinv {t} n k s" "n \<le> 127" "event_ok k e" "happen prio t e s = Some s'"
  shows "kinv {t} n k s'"
  using assms by (cases e) (auto intro: kinv_receiver kinv_task_send kinv_isr_send)

text \<open>Sending keeps what is in the queue and where the receiver is.\<close>

lemma send_happens:
  assumes "kinv {t} n k s" "event_ok k e" "e \<noteq> Rx" "happen prio t e s = Some s'"
  shows "\<exists>ys. contents (ring s') = contents (ring s) @ ys" "pc s' = pc s" "got s' = got s"
proof -
  note r = kinvD(1) [OF assms(1)]
  have "(\<exists>ys. contents (ring s') = contents (ring s) @ ys) \<and> pc s' = pc s \<and> got s' = got s"
  proof (cases e)
    case (FromTask bs)
    then obtain q b where "xQueueGenericSend bs queueSEND_TO_BACK (ring s) = Some (b, q)"
        "\<exists>ys. contents q = contents (ring s) @ ys"
      using send_back [OF r, of bs] assms(2) by (auto split: if_splits)
    with FromTask assms(4) show ?thesis by (cases b) (auto simp: task_send_def split: if_splits)
  next
    case (FromISR bs)
    show ?thesis
    proof (cases "uxMessagesWaiting (ring s) < uxLength (ring s)")
      case True
      then have "length (contents (ring s)) < n" using r by (simp add: ring_ok_def ring_at_def word_less_nat_alt)
      from to_back [OF r _ this, of bs] True FromISR assms(2,4) show ?thesis
        by (auto simp: xQueueGenericSendFromISR_def split: if_splits)
    qed (use FromISR assms(4) in \<open>simp add: xQueueGenericSendFromISR_def\<close>)
  qed (use assms(3) in simp)
  then show "\<exists>ys. contents (ring s') = contents (ring s) @ ys" "pc s' = pc s" "got s' = got s" by auto
qed

text \<open>With a message in the queue its receiver is never stopped.\<close>

lemma receiver_advances:
  assumes "kinv {t} n k s" "contents (ring s) = x # xs"
  shows "\<exists>s'. receiver_step prio t s = Some s' \<and>
    (if pc s t = Calling then got s' t = got s t @ [x]
     else got s' t = got s t \<and> contents (ring s') = x # xs \<and> steps_left (pc s' t) < steps_left (pc s t))"
proof -
  note d = kinvD [OF assms(1)]
  have m: "0 < messages s" using assms(2) by (simp add: messages_def del: length_contents)
  have r: "runnable t s"
  proof (cases "suspended_by s")
    case None
    with no_one_off [OF assms(1)] d(10) m have "xTasksWaitingToReceive s \<noteq> [] \<longrightarrow> awake {t} s \<noteq> {}"
      by (auto simp: queueUNLOCKED_def)
    then have "t \<notin> set (xTasksWaitingToReceive s)" by (auto simp: awake_def)
    with None show ?thesis by (simp add: runnable_def)
  next
    case (Some u)
    with d(5) [of u] d(6) [of u] have "u = t" by (auto simp: off_def)
    with Some show ?thesis by (simp add: runnable_def)
  qed
  have "\<not> prvIsQueueEmpty (ring s)" using m by (auto simp: prvIsQueueEmpty_def messages_def)
  moreover from receive_at(1) [OF d(1) assms(2)] obtain q where "xQueueGenericReceive False (ring s) = Some (Some x, q)" by blast
  ultimately show ?thesis using r assms(2)
    by (cases "pc s t") (auto simp: receiver_step_def prvUnlockQueue_def)
qed

lemma got_grows: "happen prio t e s = Some s' \<Longrightarrow> \<exists>ys. got s' t = got s t @ ys"
  by (cases e) (auto simp: receiver_step_def task_send_def xQueueGenericSendFromISR_def prvUnlockQueue_def
      split: if_splits rx_pc.splits option.splits prod.splits bool.splits bind_splits)

lemma schedule_grows: "\<exists>ys. got (schedule prio t es s) t = got s t @ ys"
proof (induction es arbitrary: s)
  case (Cons e es)
  let ?s = "case happen prio t e s of None \<Rightarrow> s | Some s' \<Rightarrow> s'"
  have "\<exists>ys. got ?s t = got s t @ ys" using got_grows [of prio t e s] by (auto split: option.split)
  with Cons [of ?s] show ?case by auto
qed simp

lemma received:
  assumes "kinv {t} n k s" "n \<le> 127" "list_all (event_ok k) es" "contents (ring s) = x # xs"
    and "steps_left (pc s t) < count_list es Rx"
  shows "\<exists>ys. got (schedule prio t es s) t = got s t @ x # ys"
  using assms
proof (induction es arbitrary: s xs)
  case (Cons e es)
  show ?case
  proof (cases "e = Rx")
    case True
    from receiver_advances [OF Cons.prems(1,4)] obtain s' where s': "receiver_step prio t s = Some s'"
      "if pc s t = Calling then got s' t = got s t @ [x]
       else got s' t = got s t \<and> contents (ring s') = x # xs \<and> steps_left (pc s' t) < steps_left (pc s t)" by blast
    show ?thesis
    proof (cases "pc s t = Calling")
      case True
      with s' \<open>e = Rx\<close> schedule_grows [of prio t es s'] show ?thesis by auto
    next
      case False
      have "kinv {t} n k s'" using happen_kinv [OF Cons.prems(1,2), of Rx prio s'] s'(1) by simp
      with False s' \<open>e = Rx\<close> Cons.IH [of s' xs] Cons.prems show ?thesis by simp
    qed
  next
    case False
    show ?thesis
    proof (cases "happen prio t e s")
      case None
      with False Cons show ?thesis by auto
    next
      case (Some s')
      have e: "event_ok k e" using Cons.prems(3) by simp
      from send_happens [OF Cons.prems(1) e False Some] Cons.prems(4) obtain ys where
        "contents (ring s') = x # xs @ ys" "pc s' = pc s" "got s' = got s" by auto
      with Some False happen_kinv [OF Cons.prems(1,2) e Some] Cons.IH [of s' "xs @ ys"] Cons.prems show ?thesis by simp
    qed
  qed
qed simp

text \<open>
  C19: A message does not stay in a queue: whatever state a queue with its one receiver has come to, and however
  sends of tasks and interrupts fall between its steps, after at most seven steps of the receiver it has got the
  oldest message, and the scheduler never keeps it from taking them.
\<close>

theorem message_is_received:
  assumes "0 < n" "n \<le> 127" "0 < k" "n * k < 2 ^ 32" "length m = n * k"
    and "kreach prio {t} k (prvInitialiseNewQueue (word_of_nat n) (word_of_nat k) m) s"
    and "contents (ring s) = x # xs" "list_all (event_ok k) es" "7 \<le> count_list es Rx"
  shows "\<exists>ys. got (schedule prio t es s) t = got s t @ x # ys"
proof -
  from create_ok [OF assms(1,3-5)] reach_kinv [OF _ _ _ assms(2,6)] have "kinv {t} n k s" by blast
  moreover have "steps_left p < 7" for p by (cases p) simp_all
  then have "steps_left (pc s t) < count_list es Rx" using assms(9) less_le_trans by blast
  ultimately show ?thesis by (rule received [OF _ assms(2,8,7)])
qed

text \<open>What is scheduled is reached.\<close>

lemma schedule_reach:
  "kreach prio T k q s \<Longrightarrow> t \<in> T \<Longrightarrow> list_all (event_ok k) es \<Longrightarrow> kreach prio T k q (schedule prio t es s)"
proof (induction es arbitrary: s)
  case (Cons e es)
  have "kreach prio T k q (case happen prio t e s of None \<Rightarrow> s | Some s' \<Rightarrow> s')"
    using Cons.prems by (cases e) (auto split: option.split intro: kreach.step kstep.intros)
  with Cons show ?case by simp
qed simp

definition two_asleep :: ksys where
  "two_asleep = schedule (\<lambda>_. 0) 0 [Rx, Rx, Rx, Rx, Rx, Rx, Rx, Rx] (schedule (\<lambda>_. 0) 1 [Rx, Rx, Rx, Rx, Rx, Rx, Rx, Rx]
     (kinit (prvInitialiseNewQueue (word_of_nat 2) (word_of_nat 1) [7, 7])))"

lemma two_asleep_reach:
  "kreach (\<lambda>_. 0) {0, 1} 1 (prvInitialiseNewQueue (word_of_nat 2) (word_of_nat 1) [7, 7]) (schedule (\<lambda>_. 0) 0 [FromISR [5]] two_asleep)"
  unfolding two_asleep_def by (intro schedule_reach kreach.init) simp_all

theorem no_lost_wakeup_witness:
  "\<exists>s :: ksys. xTasksWaitingToReceive s = [0] \<and> length (contents (ring s)) = 1 \<and>
    length (contents (ring s)) \<le> card {t \<in> {0, 1}. pc s t \<noteq> Working \<and> t \<notin> set (xTasksWaitingToReceive s)}"
proof (intro exI [of _ "schedule (\<lambda>_. 0) 0 [FromISR [5]] two_asleep"] conjI)
  let ?s = "schedule (\<lambda>_. 0) 0 [FromISR [5]] two_asleep"
  show l: "xTasksWaitingToReceive ?s = [0]" by code_simp
  show "length (contents (ring ?s)) = 1" by code_simp
  have "suspended_by ?s = None" by code_simp
  then show "length (contents (ring ?s)) \<le> card {t \<in> {0, 1}. pc ?s t \<noteq> Working \<and> t \<notin> set (xTasksWaitingToReceive ?s)}"
    using l by (intro no_lost_wakeup [OF _ _ _ _ _ _ two_asleep_reach]) simp_all
qed

theorem message_is_received_witness:
  "\<exists>ys. got (schedule (\<lambda>_. 0) 3 [Rx, Rx, FromTask [6], Rx, Rx, Rx, Rx, Rx]
      (schedule (\<lambda>_. 0) 3 [Rx, Rx, Rx, Rx, Rx, FromISR [5]] (kinit (prvInitialiseNewQueue (word_of_nat 2) (word_of_nat 1) [7, 7])))) 3 =
    got (schedule (\<lambda>_. 0) 3 [Rx, Rx, Rx, Rx, Rx, FromISR [5]] (kinit (prvInitialiseNewQueue (word_of_nat 2) (word_of_nat 1) [7, 7]))) 3 @ [[5]] @ ys"
proof -
  let ?s = "schedule (\<lambda>_. 0) 3 [Rx, Rx, Rx, Rx, Rx, FromISR [5]] (kinit (prvInitialiseNewQueue (word_of_nat 2) (word_of_nat 1) [7, 7]))"
  have "kreach (\<lambda>_. 0) {3} 1 (prvInitialiseNewQueue (word_of_nat 2) (word_of_nat 1) [7, 7]) ?s"
    by (intro schedule_reach kreach.init) simp_all
  moreover have "contents (ring ?s) = [[5]]" by code_simp
  ultimately show ?thesis
    using message_is_received [of 2 1 "[7, 7]" "\<lambda>_. 0" 3 ?s "[5]" "[]" "[Rx, Rx, FromTask [6], Rx, Rx, Rx, Rx, Rx]"] by simp
qed

end
