(* ===== verification/RtosList.thy ===== *)
theory RtosList
  imports RtosWake
begin

text \<open>
  The lists of FreeRTOS (\<open>STM32/Middlewares/Third_Party/FreeRTOS/Source/list.c\<close>, \<open>include/list.h\<close>): circular,
  linked both ways through the items' own pointers, with an end marker that is part of the list. The event
  lists of \<open>RtosWake\<close> and the scheduler's ready lists are such lists. The memory is a store of items; a list
  is shown to hold a sequence of items, and each operation to change that sequence as it should.
\<close>

section \<open>Data\<close>

text \<open>An item, or the end marker of a list. Whose item it is, is up to the lists' user.\<close>

datatype item = Item nat | End nat

record lists =
  xItemValue :: "item \<Rightarrow> u32"
  pxNext :: "item \<Rightarrow> item"
  pxPrevious :: "item \<Rightarrow> item"
  pvContainer :: "item \<Rightarrow> nat option"
  uxNumberOfItems :: "nat \<Rightarrow> u32"
  pxIndex :: "nat \<Rightarrow> item"

definition portMAX_DELAY :: u32 where
  "portMAX_DELAY = 0xffffffff"

section \<open>Operations\<close>

definition vListInitialise :: "nat \<Rightarrow> lists \<Rightarrow> lists" where
  "vListInitialise l h = h\<lparr>
     pxIndex := (pxIndex h)(l := End l),
     xItemValue := (xItemValue h)(End l := portMAX_DELAY),
     pxNext := (pxNext h)(End l := End l),
     pxPrevious := (pxPrevious h)(End l := End l),
     uxNumberOfItems := (uxNumberOfItems h)(l := 0)\<rparr>"

definition vListInitialiseItem :: "item \<Rightarrow> lists \<Rightarrow> lists" where
  "vListInitialiseItem x h = h\<lparr>pvContainer := (pvContainer h)(x := None)\<rparr>"

definition vListInsertEnd :: "nat \<Rightarrow> item \<Rightarrow> lists \<Rightarrow> lists" where
  "vListInsertEnd l x h = (let i = pxIndex h l;
     h = h\<lparr>pxNext := (pxNext h)(x := i)\<rparr>;
     h = h\<lparr>pxPrevious := (pxPrevious h)(x := pxPrevious h i)\<rparr>;
     h = h\<lparr>pxNext := (pxNext h)(pxPrevious h i := x)\<rparr>;
     h = h\<lparr>pxPrevious := (pxPrevious h)(i := x)\<rparr>;
     h = h\<lparr>pvContainer := (pvContainer h)(x := Some l)\<rparr>
     in h\<lparr>uxNumberOfItems := (uxNumberOfItems h)(l := uxNumberOfItems h l + 1)\<rparr>)"

text \<open>
  \<open>for(pxIterator = &xListEnd; pxIterator->pxNext->xItemValue <= v; pxIterator = pxIterator->pxNext);\<close>
\<close>

partial_function (option) insert_after :: "lists \<Rightarrow> u32 \<Rightarrow> item \<Rightarrow> item option" where
  "insert_after h v it = (if xItemValue h (pxNext h it) \<le> v then insert_after h v (pxNext h it) else Some it)"

definition vListInsert :: "nat \<Rightarrow> item \<Rightarrow> lists \<Rightarrow> lists option" where
  "vListInsert l x h = do {
     let v = xItemValue h x;
     it \<leftarrow> if v = portMAX_DELAY then Some (pxPrevious h (End l)) else insert_after h v (End l);
     let h = h\<lparr>pxNext := (pxNext h)(x := pxNext h it)\<rparr>;
     let h = h\<lparr>pxPrevious := (pxPrevious h)(pxNext h x := x)\<rparr>;
     let h = h\<lparr>pxPrevious := (pxPrevious h)(x := it)\<rparr>;
     let h = h\<lparr>pxNext := (pxNext h)(it := x)\<rparr>;
     let h = h\<lparr>pvContainer := (pvContainer h)(x := Some l)\<rparr>;
     Some (h\<lparr>uxNumberOfItems := (uxNumberOfItems h)(l := uxNumberOfItems h l + 1)\<rparr>)
   }"

text \<open>\<open>None\<close>: the item is in no list (\<open>pvContainer\<close> is \<open>NULL\<close>).\<close>

definition uxListRemove :: "item \<Rightarrow> lists \<Rightarrow> (u32 \<times> lists) option" where
  "uxListRemove x h = do {
     l \<leftarrow> pvContainer h x;
     let h = h\<lparr>pxPrevious := (pxPrevious h)(pxNext h x := pxPrevious h x)\<rparr>;
     let h = h\<lparr>pxNext := (pxNext h)(pxPrevious h x := pxNext h x)\<rparr>;
     let h = (if pxIndex h l = x then h\<lparr>pxIndex := (pxIndex h)(l := pxPrevious h x)\<rparr> else h);
     let h = h\<lparr>pvContainer := (pvContainer h)(x := None)\<rparr>;
     let h = h\<lparr>uxNumberOfItems := (uxNumberOfItems h)(l := uxNumberOfItems h l - 1)\<rparr>;
     Some (uxNumberOfItems h l, h)
   }"

definition listLIST_IS_EMPTY :: "nat \<Rightarrow> lists \<Rightarrow> bool" where
  "listLIST_IS_EMPTY l h \<longleftrightarrow> uxNumberOfItems h l = 0"

definition listGET_HEAD_ENTRY :: "nat \<Rightarrow> lists \<Rightarrow> item" where
  "listGET_HEAD_ENTRY l h = pxNext h (End l)"

text \<open>\<open>listGET_OWNER_OF_NEXT_ENTRY\<close>: the item whose owner it gives.\<close>

definition next_entry :: "nat \<Rightarrow> lists \<Rightarrow> item \<times> lists" where
  "next_entry l h = (let h = h\<lparr>pxIndex := (pxIndex h)(l := pxNext h (pxIndex h l))\<rparr>;
     h = (if pxIndex h l = End l then h\<lparr>pxIndex := (pxIndex h)(l := pxNext h (pxIndex h l))\<rparr> else h)
     in (pxIndex h l, h))"

section \<open>A list holds a sequence\<close>

fun path :: "lists \<Rightarrow> item \<Rightarrow> item list \<Rightarrow> bool" where
  "path h a [] \<longleftrightarrow> True"
| "path h a (b # bs) \<longleftrightarrow> pxNext h a = b \<and> pxPrevious h b = a \<and> path h b bs"

definition linked :: "nat \<Rightarrow> item list \<Rightarrow> lists \<Rightarrow> bool" where
  "linked l xs h \<longleftrightarrow> path h (End l) (xs @ [End l]) \<and> distinct xs \<and>
     (\<forall>x\<in>set xs. (\<exists>i. x = Item i) \<and> pvContainer h x = Some l) \<and>
     xItemValue h (End l) = portMAX_DELAY \<and> uxNumberOfItems h l = word_of_nat (length xs) \<and>
     pxIndex h l \<in> insert (End l) (set xs)"

lemma path_append: "path h a (xs @ ys) \<longleftrightarrow> path h a xs \<and> path h (last (a # xs)) ys"
  by (induction xs arbitrary: a) auto

lemma path_cong:
  "(\<And>y. y \<in> set (butlast (a # xs)) \<Longrightarrow> pxNext h' y = pxNext h y) \<Longrightarrow>
   (\<And>y. y \<in> set xs \<Longrightarrow> pxPrevious h' y = pxPrevious h y) \<Longrightarrow> path h' a xs = path h a xs"
  by (induction xs arbitrary: a) (auto split: if_splits)

lemma linked_end: "linked l xs h \<Longrightarrow> End l' \<notin> set xs"
  by (auto simp: linked_def)

text \<open>What lies between two lists of items: everything else in the store may change.\<close>

lemma last_not_butlast: "distinct (a # xs) \<Longrightarrow> last (a # xs) \<notin> set (butlast (a # xs))"
  by (metis append_butlast_last_id distinct_butlast list.distinct(1) not_distinct_conv_prefix)

lemma last_mem: "last (a # xs) \<in> insert a (set xs)"
  using last_in_set [of "a # xs"] by simp

lemma last_disjoint: "a \<notin> set (as @ bs) \<Longrightarrow> distinct (as @ bs) \<Longrightarrow> last (a # as) \<notin> set bs"
  using last_mem [of a as] by auto

lemma link_ends:
  assumes "linked l (as @ bs) h" "x = Item i" "x \<notin> set (as @ bs)"
  shows "last (End l # as) \<noteq> x" "hd (bs @ [End l]) \<noteq> x"
proof -
  show "last (End l # as) \<noteq> x" using last_mem [of "End l" as] assms(2,3) by auto
  show "hd (bs @ [End l]) \<noteq> x" using assms(2,3) by (cases bs) auto
qed

text \<open>Linking \<open>x\<close> in between \<open>as\<close> and \<open>bs\<close>; the two pointers out of \<open>x\<close> and the two to it.\<close>

definition link_in :: "nat \<Rightarrow> item \<Rightarrow> item \<Rightarrow> item \<Rightarrow> lists \<Rightarrow> lists" where
  "link_in l p x n h = h\<lparr>
     pxNext := (pxNext h)(x := n, p := x),
     pxPrevious := (pxPrevious h)(x := p, n := x),
     pvContainer := (pvContainer h)(x := Some l),
     uxNumberOfItems := (uxNumberOfItems h)(l := uxNumberOfItems h l + 1)\<rparr>"

lemma link_in_at:
  assumes "linked l (as @ bs) h" "x = Item i" "x \<notin> set (as @ bs)"
    and p: "last (End l # as) = p" and n: "bs @ [End l] = n # rest"
  shows "linked l (as @ x # bs) (link_in l p x n h)" (is "linked l _ ?h")
proof -
  from assms(1) have "path h (End l) (as @ (bs @ [End l]))" and d: "distinct (as @ bs)" by (simp_all add: linked_def)
  then have path: "path h (End l) as" "path h p (n # rest)" unfolding path_append [of h "End l"] n p by blast+
  have e: "End l \<notin> set (as @ bs)" using linked_end [OF assms(1)] .
  have pm: "p \<in> insert (End l) (set as)" using last_mem [of "End l" as] unfolding p .
  have sr: "set (n # rest) = insert (End l) (set bs)" by (simp flip: n)
  have dr: "distinct (n # rest)" using d e by (simp flip: n)
  have pb: "p \<notin> set bs" using last_disjoint [OF e d] unfolding p .
  have x: "x \<noteq> p" "x \<notin> set (n # rest)" "x \<noteq> End l" using pm sr assms(2,3) by auto
  have "n \<notin> set as" using sr d e by (cases bs) (use n in auto)
  moreover have "p \<notin> set (butlast (End l # as))" unfolding p [symmetric] using e d by (intro last_not_butlast) simp
  moreover have "x \<notin> set (butlast (End l # as))" using x(3) assms(3) by (auto dest: in_set_butlastD split: if_splits)
  ultimately have 1: "path ?h (End l) as"
    using path(1) assms(3) by (subst path_cong [of _ _ _ h]) (auto simp: link_in_def)
  have "p \<notin> set (butlast (n # rest))" using pb by (simp flip: n)
  moreover have "x \<notin> set (butlast (n # rest))" using x(2) by (blast dest: in_set_butlastD)
  ultimately have 2: "path ?h n rest"
    using path(2) dr x(2) by (subst path_cong [of _ _ _ h]) (auto simp: link_in_def)
  have "pxNext ?h p = x" "pxPrevious ?h x = p" "pxNext ?h x = n" "pxPrevious ?h n = x"
    using x by (auto simp: link_in_def)
  with 1 2 have "path ?h (End l) (as @ x # n # rest)" by (simp add: path_append p del: last.simps)
  then have "path ?h (End l) ((as @ x # bs) @ [End l])" by (simp add: n)
  then show ?thesis using assms(1-3) x(3) by (auto simp: linked_def link_in_def add.commute)
qed

lemma link_in_linked:
  assumes "linked l (as @ bs) h" "x = Item i" "x \<notin> set (as @ bs)"
  shows "linked l (as @ x # bs) (link_in l (last (End l # as)) x (hd (bs @ [End l])) h)"
  using link_in_at [OF assms refl, of "hd (bs @ [End l])" "tl (bs @ [End l])"] by simp

text \<open>The operations link in and out.\<close>

lemma path_mid: "path h a (as @ b # bs) \<Longrightarrow> pxPrevious h b = last (a # as) \<and> pxNext h (last (a # as)) = b"
  by (simp add: path_append)

lemma last_prev: "linked l xs h \<Longrightarrow> pxPrevious h (End l) = last (End l # xs)"
  using path_mid [of h "End l" xs "End l" "[]"] by (simp add: linked_def)

lemma first_next: "linked l xs h \<Longrightarrow> pxNext h (End l) = hd (xs @ [End l])"
  by (cases xs) (auto simp: linked_def)

lemma insert_after_linked:
  assumes "path h a (as @ bs @ [End l])" "\<forall>y\<in>set as. xItemValue h y \<le> v"
    and "\<not> xItemValue h (hd (bs @ [End l])) \<le> v"
  shows "insert_after h v a = Some (last (a # as))"
  using assms
proof (induction as arbitrary: a)
  case Nil
  then have "pxNext h a = hd (bs @ [End l])" by (cases bs) auto
  with Nil show ?case by (subst insert_after.simps) simp
next
  case (Cons y as)
  then show ?case by (subst insert_after.simps) simp
qed

text \<open>\<open>vListInsert\<close>: behind the items whose value is not larger.\<close>

definition sorted_in :: "('i \<Rightarrow> u32) \<Rightarrow> 'i \<Rightarrow> 'i list \<Rightarrow> 'i list" where
  "sorted_in f x xs = takeWhile (\<lambda>y. f y \<le> f x) xs @ x # dropWhile (\<lambda>y. f y \<le> f x) xs"

lemma le_portMAX [simp]: "v \<le> portMAX_DELAY"
proof -
  have "portMAX_DELAY = - 1" by (simp add: portMAX_DELAY_def)
  then show ?thesis using word_n1_ge [of v] by (simp only:)
qed

lemma vListInsert_link_in:
  assumes "linked l xs h" "x = Item i" "x \<notin> set xs"
  shows "\<exists>as bs. xs = as @ bs \<and> sorted_in (xItemValue h) x xs = as @ x # bs \<and>
    vListInsert l x h = Some (link_in l (last (End l # as)) x (hd (bs @ [End l])) h)"
proof -
  let ?v = "xItemValue h x" and ?P = "\<lambda>y. xItemValue h y \<le> xItemValue h x"
  define as bs where "as = takeWhile ?P xs" and "bs = dropWhile ?P xs"
  then have xs: "as @ bs = xs" by simp
  have path: "path h (End l) (as @ bs @ [End l])" using assms(1) by (simp add: linked_def xs [symmetric])
  have "(if ?v = portMAX_DELAY then Some (pxPrevious h (End l)) else insert_after h ?v (End l)) = Some (last (End l # as))"
  proof (cases "?v = portMAX_DELAY")
    case True
    then have "as = xs" by (simp add: as_def)
    with True last_prev [OF assms(1)] show ?thesis by simp
  next
    case False
    have "\<not> xItemValue h (hd (bs @ [End l])) \<le> ?v"
    proof (cases bs)
      case Nil
      with False assms(1) le_portMAX [of ?v] show ?thesis by (auto simp: linked_def intro: order.antisym)
    next
      case (Cons b bs')
      then show ?thesis using hd_dropWhile [of ?P xs] by (simp add: bs_def)
    qed
    moreover have "\<forall>y\<in>set as. xItemValue h y \<le> ?v" by (auto simp: as_def dest: set_takeWhileD)
    ultimately show ?thesis using False insert_after_linked [OF path] by simp
  qed
  moreover have "pxNext h (last (End l # as)) = hd (bs @ [End l])"
    using path_mid [of h "End l" as "hd (bs @ [End l])" "tl (bs @ [End l])"] path by simp
  moreover have "last (End l # as) \<noteq> x" "hd (bs @ [End l]) \<noteq> x"
    using link_ends [of l as bs h x i] assms xs by simp_all
  ultimately have "vListInsert l x h = Some (link_in l (last (End l # as)) x (hd (bs @ [End l])) h)"
    by (simp add: vListInsert_def Let_def link_in_def fun_upd_twist)
  moreover have "sorted_in (xItemValue h) x xs = as @ x # bs" by (simp add: sorted_in_def as_def bs_def)
  ultimately show ?thesis using xs by metis
qed

lemma vListInsert_linked:
  assumes "linked l xs h" "x = Item i" "x \<notin> set xs"
  shows "\<exists>h'. vListInsert l x h = Some h' \<and> linked l (sorted_in (xItemValue h) x xs) h' \<and> xItemValue h' = xItemValue h"
proof -
  from vListInsert_link_in [OF assms] obtain as bs where *: "xs = as @ bs" "sorted_in (xItemValue h) x xs = as @ x # bs"
    "vListInsert l x h = Some (link_in l (last (End l # as)) x (hd (bs @ [End l])) h)" by blast
  have "linked l (as @ x # bs) (link_in l (last (End l # as)) x (hd (bs @ [End l])) h)"
    using link_in_linked [of l as bs h x i] assms *(1) by simp
  with * show ?thesis by (simp add: link_in_def)
qed

text \<open>\<open>vListInsertEnd\<close> puts an item before the one the index is at, or at the end.\<close>

lemma vListInsertEnd_link_in:
  assumes "linked l (as @ bs) h" "pxIndex h l = hd (bs @ [End l])" "x = Item i" "x \<notin> set (as @ bs)"
  shows "vListInsertEnd l x h = link_in l (last (End l # as)) x (hd (bs @ [End l])) h"
proof -
  have "path h (End l) (as @ hd (bs @ [End l]) # tl (bs @ [End l]))"
    using assms(1) by (simp add: linked_def)
  from path_mid [OF this] have "pxPrevious h (hd (bs @ [End l])) = last (End l # as)" by simp
  moreover note link_ends [OF assms(1,3,4)]
  ultimately show ?thesis
    using assms(2) by (simp add: vListInsertEnd_def Let_def link_in_def fun_upd_twist)
qed

lemma vListInsertEnd_linked:
  assumes "linked l (as @ bs) h" "pxIndex h l = hd (bs @ [End l])" "x = Item i" "x \<notin> set (as @ bs)"
  shows "linked l (as @ x # bs) (vListInsertEnd l x h)"
  using link_in_linked [OF assms(1,3,4)] vListInsertEnd_link_in [OF assms] by simp

lemma index_at: "linked l xs h \<Longrightarrow> \<exists>as bs. xs = as @ bs \<and> pxIndex h l = hd (bs @ [End l])"
proof -
  assume "linked l xs h"
  then consider "pxIndex h l = End l" | "pxIndex h l \<in> set xs" by (auto simp: linked_def)
  then show ?thesis
  proof cases
    case 1
    then show ?thesis by (intro exI [of _ xs] exI [of _ "[]"]) simp
  next
    case 2
    then obtain as bs where "xs = as @ pxIndex h l # bs" by (meson split_list)
    then show ?thesis by (intro exI [of _ as] exI [of _ "pxIndex h l # bs"]) simp
  qed
qed

text \<open>\<open>uxListRemove\<close> takes an item out of the list it is in.\<close>

definition link_out :: "nat \<Rightarrow> item \<Rightarrow> item \<Rightarrow> item \<Rightarrow> lists \<Rightarrow> lists" where
  "link_out l p x n h = (let h = (if pxIndex h l = x then h\<lparr>pxIndex := (pxIndex h)(l := p)\<rparr> else h)
     in h\<lparr>pxNext := (pxNext h)(p := n), pxPrevious := (pxPrevious h)(n := p),
       pvContainer := (pvContainer h)(x := None),
       uxNumberOfItems := (uxNumberOfItems h)(l := uxNumberOfItems h l - 1)\<rparr>)"

lemma link_out_at:
  assumes "linked l (as @ x # bs) h" and p: "last (End l # as) = p" and n: "bs @ [End l] = n # rest"
  shows "linked l (as @ bs) (link_out l p x n h)" (is "linked l _ ?h")
    and "uxListRemove x h = Some (word_of_nat (length (as @ bs)), link_out l p x n h)"
proof -
  from assms(1) obtain i where x: "x = Item i" "pvContainer h x = Some l" by (auto simp: linked_def)
  from assms(1) have "path h (End l) (as @ x # (bs @ [End l]))" and d: "distinct (as @ x # bs)" by (simp_all add: linked_def)
  then have "path h (End l) as" "path h p (x # n # rest)" unfolding path_append [of h "End l"] n p by blast+
  then have path: "path h (End l) as" "pxNext h p = x" "pxPrevious h x = p" "pxNext h x = n" "path h n rest" by simp_all
  have e: "End l \<notin> set (as @ x # bs)" using linked_end [OF assms(1)] .
  have sr: "set (n # rest) = insert (End l) (set bs)" by (simp flip: n)
  have dr: "distinct (n # rest)" using d e by (simp flip: n)
  have pb: "p \<notin> set (x # bs)" using last_disjoint [OF e d] unfolding p .
  have len: "uxNumberOfItems h l - 1 = word_of_nat (length (as @ bs))" using assms(1) by (simp add: linked_def)
  have "n \<noteq> x" using d x(1) n by (cases bs) auto
  with pb path x(2) len show "uxListRemove x h = Some (word_of_nat (length (as @ bs)), link_out l p x n h)"
    by (simp add: uxListRemove_def Let_def link_out_def)
  have "p \<notin> set (butlast (End l # as))" unfolding p [symmetric] using e d by (intro last_not_butlast) simp
  moreover have "n \<notin> set as" using sr d e by (cases bs) (use n in auto)
  ultimately have 1: "path ?h (End l) as"
    using path(1) by (subst path_cong [of _ _ _ h]) (auto simp: link_out_def Let_def)
  have "p \<notin> set (butlast (n # rest))" using pb by (simp flip: n)
  with dr have 2: "path ?h n rest"
    using path(5) by (subst path_cong [of _ _ _ h]) (auto simp: link_out_def Let_def)
  have "pxNext ?h p = n" "pxPrevious ?h n = p" by (simp_all add: link_out_def Let_def)
  with 1 2 have "path ?h (End l) (as @ n # rest)" by (simp add: path_append p del: last.simps)
  then have "path ?h (End l) ((as @ bs) @ [End l])" by (simp add: n)
  moreover have "pxIndex ?h l \<in> insert (End l) (set (as @ bs))"
    using assms(1) last_mem [of "End l" as] unfolding p by (auto simp: linked_def link_out_def Let_def)
  ultimately show "linked l (as @ bs) ?h"
    using assms(1) len by (auto simp: linked_def link_out_def Let_def)
qed

lemma uxListRemove_linked:
  assumes "linked l (as @ x # bs) h"
  shows "\<exists>h'. uxListRemove x h = Some (word_of_nat (length (as @ bs)), h') \<and> linked l (as @ bs) h' \<and>
    xItemValue h' = xItemValue h \<and> pvContainer h' x = None"
proof -
  obtain n rest where n: "bs @ [End l] = n # rest" by (cases bs) auto
  let ?h = "link_out l (last (End l # as)) x n h"
  have "xItemValue ?h = xItemValue h" "pvContainer ?h x = None" by (simp_all add: link_out_def Let_def)
  with link_out_at [OF assms refl n] show ?thesis by blast
qed

text \<open>A list is not touched by what is done to items outside it.\<close>

lemma linked_frame:
  assumes "linked l xs h" "\<And>y. y \<in> insert (End l) (set xs) \<Longrightarrow> pxNext h' y = pxNext h y \<and> pxPrevious h' y = pxPrevious h y"
    and "\<And>y. y \<in> set xs \<Longrightarrow> pvContainer h' y = pvContainer h y" "xItemValue h' (End l) = xItemValue h (End l)"
    "uxNumberOfItems h' l = uxNumberOfItems h l" "pxIndex h' l = pxIndex h l"
  shows "linked l xs h'"
proof -
  have "path h' (End l) (xs @ [End l]) = path h (End l) (xs @ [End l])"
    using assms(2) by (intro path_cong) (auto dest: in_set_butlastD split: if_splits)
  then show ?thesis using assms unfolding linked_def by simp
qed

section \<open>Taking turns\<close>

lemma vListInitialise_linked: "linked l [] (vListInitialise l h)"
  by (simp add: linked_def vListInitialise_def)

lemma index_only: "linked l xs h \<Longrightarrow> i \<in> insert (End l) (set xs) \<Longrightarrow> linked l xs (h\<lparr>pxIndex := (pxIndex h)(l := i)\<rparr>)"
proof -
  assume a: "linked l xs h" "i \<in> insert (End l) (set xs)"
  have "path (h\<lparr>pxIndex := (pxIndex h)(l := i)\<rparr>) (End l) (xs @ [End l]) = path h (End l) (xs @ [End l])"
    by (rule path_cong) simp_all
  with a show ?thesis by (simp add: linked_def)
qed

lemma next_of:
  assumes "linked l xs h" "i < length xs"
  shows "pxNext h (xs ! i) = (if i + 1 < length xs then xs ! (i + 1) else End l)"
proof -
  have "xs @ [End l] = (take i xs @ [xs ! i]) @ (drop (Suc i) xs @ [End l])"
    using id_take_nth_drop [OF assms(2)] by simp
  with assms(1) have "path h (End l) ((take i xs @ [xs ! i]) @ (drop (Suc i) xs @ [End l]))"
    by (simp only: linked_def)
  then have p: "path h (xs ! i) (drop (Suc i) xs @ [End l])" unfolding path_append [of _ _ "take i xs @ [xs ! i]"] by simp
  show ?thesis
  proof (cases "i + 1 < length xs")
    case True
    then have "drop (Suc i) xs = xs ! (i + 1) # drop (Suc (i + 1)) xs" by (simp add: Cons_nth_drop_Suc)
    with p True show ?thesis by simp
  qed (use p in simp)
qed

text \<open>The index is before the item whose turn is next.\<close>

definition turn :: "nat \<Rightarrow> item list \<Rightarrow> nat \<Rightarrow> lists \<Rightarrow> bool" where
  "turn l xs j h \<longleftrightarrow> linked l xs h \<and> xs \<noteq> [] \<and> j < length xs \<and>
     (pxIndex h l = (if j = 0 then End l else xs ! (j - 1)) \<or> j = 0 \<and> pxIndex h l = last xs)"

lemma turn_exists: "linked l xs h \<Longrightarrow> xs \<noteq> [] \<Longrightarrow> \<exists>j. turn l xs j h"
proof -
  assume a: "linked l xs h" "xs \<noteq> []"
  then consider "pxIndex h l = End l" | i where "i < length xs" "pxIndex h l = xs ! i" by (auto simp: linked_def in_set_conv_nth)
  then show ?thesis
  proof cases
    case 1
    with a show ?thesis by (intro exI [of _ 0]) (simp add: turn_def)
  next
    case (2 i)
    show ?thesis
    proof (cases "i + 1 < length xs")
      case True
      with a 2 show ?thesis by (intro exI [of _ "i + 1"]) (simp add: turn_def)
    next
      case False
      with 2 have "i = length xs - 1" by simp
      with a 2 show ?thesis by (intro exI [of _ 0]) (simp add: turn_def last_conv_nth)
    qed
  qed
qed

lemma next_entry_turn:
  assumes "turn l xs j h"
  shows "fst (next_entry l h) = xs ! j" "turn l xs ((j + 1) mod length xs) (snd (next_entry l h))"
proof -
  from assms have l: "linked l xs h" and j: "j < length xs" and ne: "xs \<noteq> []" by (simp_all add: turn_def)
  have x: "xs ! j \<noteq> End l" using linked_end [OF l, of l] nth_mem [OF j] by metis
  have first: "pxNext h (End l) = xs ! 0" using first_next [OF l] ne by (cases xs) simp_all
  let ?h = "h\<lparr>pxIndex := (pxIndex h)(l := xs ! j)\<rparr>"
  have "next_entry l h = (xs ! j, ?h)"
  proof (cases "j = 0")
    case True
    with assms consider "pxIndex h l = End l" | "pxIndex h l = last xs" by (auto simp: turn_def)
    then show ?thesis
    proof cases
      case 1
      with True first x show ?thesis by (simp add: next_entry_def Let_def)
    next
      case 2
      moreover have "pxNext h (last xs) = End l" using next_of [OF l, of "length xs - 1"] ne by (simp add: last_conv_nth)
      ultimately show ?thesis using True first by (simp add: next_entry_def Let_def)
    qed
  next
    case False
    with assms have "pxIndex h l = xs ! (j - 1)" by (simp add: turn_def)
    with next_of [OF l, of "j - 1"] False j x show ?thesis by (simp add: next_entry_def Let_def)
  qed
  moreover have "turn l xs ((j + 1) mod length xs) ?h"
  proof -
    have "linked l xs ?h" using index_only [OF l] j by simp
    moreover have "(j + 1) mod length xs = 0 \<and> xs ! j = last xs \<or> (j + 1) mod length xs = j + 1 \<and> j + 1 < length xs"
    proof (cases "j + 1 < length xs")
      case False
      with j have "j + 1 = length xs" by simp
      with ne show ?thesis by (simp add: last_conv_nth flip: \<open>j + 1 = length xs\<close>)
    qed simp
    ultimately show ?thesis using ne unfolding turn_def by fastforce
  qed
  ultimately show "fst (next_entry l h) = xs ! j" "turn l xs ((j + 1) mod length xs) (snd (next_entry l h))" by simp_all
qed

fun next_entries :: "nat \<Rightarrow> nat \<Rightarrow> lists \<Rightarrow> item list \<times> lists" where
  "next_entries l 0 h = ([], h)"
| "next_entries l (Suc n) h = (let (x, h) = next_entry l h; (xs, h) = next_entries l n h in (x # xs, h))"

lemma next_entries_turn:
  assumes "turn l xs j h"
  shows "fst (next_entries l n h) = map (\<lambda>i. xs ! ((j + i) mod length xs)) [0..<n] \<and> linked l xs (snd (next_entries l n h))"
  using assms
proof (induction n arbitrary: j h)
  case 0
  then show ?case by (simp add: turn_def)
next
  case (Suc n)
  have "((j + 1) mod length xs + i) mod length xs = (j + Suc i) mod length xs" for i
    by (simp add: mod_add_left_eq)
  moreover have "(j + 0) mod length xs = j" using Suc.prems by (simp add: turn_def)
  ultimately show ?case
    using next_entry_turn [OF Suc.prems] Suc.IH [OF next_entry_turn(2) [OF Suc.prems]]
    by (simp add: split_beta upt_Suc_map del: upt_Suc)
qed

text \<open>
  Tasks of the same priority take turns: wherever a ready list's index stands, as many selections of the
  next task as the list has give each of its tasks exactly once, in the order of the list, starting where the
  last selection stopped; and the list is as it was.
\<close>

theorem round_robin:
  assumes "linked l xs h"
  shows "\<exists>r. fst (next_entries l (length xs) h) = rotate r xs \<and> linked l xs (snd (next_entries l (length xs) h))"
proof (cases "xs = []")
  case True
  with assms show ?thesis by simp
next
  case False
  then obtain j where j: "turn l xs j h" using turn_exists [OF assms] by blast
  have "map (\<lambda>i. xs ! ((j + i) mod length xs)) [0..<length xs] = rotate j xs"
    by (rule nth_equalityI) (simp_all add: nth_rotate)
  with next_entries_turn [OF j, of "length xs"] show ?thesis by (intro exI [of _ j]) simp
qed

section \<open>Event lists\<close>

text \<open>\<open>prvInitialiseNewTask\<close>: the value by which a task's item is sorted.\<close>

definition configMAX_PRIORITIES :: nat where
  "configMAX_PRIORITIES = 7"

definition event_value :: "nat \<Rightarrow> u32" where
  "event_value uxPriority = word_of_nat configMAX_PRIORITIES - word_of_nat uxPriority"

text \<open>\<open>xTaskRemoveFromEventList\<close>, after the check that the list is not empty.\<close>

definition remove_head :: "nat \<Rightarrow> lists \<Rightarrow> lists option" where
  "remove_head l h = (if listLIST_IS_EMPTY l h then Some h
     else map_option snd (uxListRemove (listGET_HEAD_ENTRY l h) h))"

datatype event_op = Place task | WakeFirst

fun event_call :: "nat \<Rightarrow> event_op \<Rightarrow> lists \<Rightarrow> lists option" where
  "event_call l (Place t) h = vListInsert l (Item t) h"
| "event_call l WakeFirst h = remove_head l h"

fun event_calls :: "nat \<Rightarrow> event_op list \<Rightarrow> lists \<Rightarrow> lists option" where
  "event_calls l [] h = Some h"
| "event_calls l (e # es) h = do { h \<leftarrow> event_call l e h; event_calls l es h }"

fun task_list :: "(task \<Rightarrow> nat) \<Rightarrow> event_op list \<Rightarrow> task list \<Rightarrow> task list" where
  "task_list prio [] ws = ws"
| "task_list prio (Place t # es) ws = task_list prio es (event_insert prio t ws)"
| "task_list prio (WakeFirst # es) ws = task_list prio es (wake_first ws)"

text \<open>No task is placed that is on the list.\<close>

fun places_ok :: "(task \<Rightarrow> nat) \<Rightarrow> event_op list \<Rightarrow> task list \<Rightarrow> bool" where
  "places_ok prio [] ws \<longleftrightarrow> True"
| "places_ok prio (Place t # es) ws \<longleftrightarrow> t \<notin> set ws \<and> length ws + 1 < 2 ^ 32 \<and> places_ok prio es (event_insert prio t ws)"
| "places_ok prio (WakeFirst # es) ws \<longleftrightarrow> places_ok prio es (wake_first ws)"

lemma event_value_le:
  assumes "p < configMAX_PRIORITIES" "q < configMAX_PRIORITIES"
  shows "event_value p \<le> event_value q \<longleftrightarrow> q \<le> p"
proof -
  have v: "unat (event_value p) = configMAX_PRIORITIES - p" if "p < configMAX_PRIORITIES" for p
  proof -
    have "event_value p = word_of_nat (configMAX_PRIORITIES - p)" using that by (simp add: event_value_def of_nat_diff)
    moreover have "configMAX_PRIORITIES - p < 2 ^ 32" by (simp add: configMAX_PRIORITIES_def)
    moreover have "unat (word_of_nat c :: u32) = c" if "c < 2 ^ 32" for c using that by (simp add: unat_of_nat)
    ultimately show ?thesis by simp
  qed
  show ?thesis using assms by (auto simp: word_le_nat_alt v)
qed

lemma sorted_in_event:
  assumes "\<And>u. f (Item u) = event_value (prio u)" "\<And>u. prio u < configMAX_PRIORITIES"
  shows "sorted_in f (Item t) (map Item ws) = map Item (event_insert prio t ws)"
  by (simp add: sorted_in_def event_insert_def takeWhile_map dropWhile_map comp_def assms event_value_le)

lemma empty_linked: "linked l xs h \<Longrightarrow> length xs < 2 ^ 32 \<Longrightarrow> listLIST_IS_EMPTY l h \<longleftrightarrow> xs = []"
  by (auto simp: linked_def listLIST_IS_EMPTY_def unat_of_nat simp flip: unat_eq_0)

lemma length_event_insert: "length (event_insert prio t ws) = length ws + 1"
proof -
  have "length (takeWhile P ws) + length (dropWhile P ws) = length ws" for P
    by (metis length_append takeWhile_dropWhile_id)
  then show ?thesis by (simp add: event_insert_def)
qed

lemma event_calls_list:
  assumes "linked l (map Item ws) h" "\<And>u. xItemValue h (Item u) = event_value (prio u)"
    and "\<And>u. prio u < configMAX_PRIORITIES" "places_ok prio es ws" "length ws < 2 ^ 32"
  shows "\<exists>h'. event_calls l es h = Some h' \<and> linked l (map Item (task_list prio es ws)) h'"
  using assms
proof (induction es arbitrary: ws h)
  case (Cons e es)
  show ?case
  proof (cases e)
    case (Place t)
    then have "Item t \<notin> set (map Item ws)" and ok: "places_ok prio es (event_insert prio t ws)" "length ws + 1 < 2 ^ 32"
      using Cons.prems(4) by auto
    from vListInsert_linked [OF Cons.prems(1) refl this(1)] obtain h' where
      h': "vListInsert l (Item t) h = Some h'" "linked l (sorted_in (xItemValue h) (Item t) (map Item ws)) h'"
        "xItemValue h' = xItemValue h" by blast
    have "linked l (map Item (event_insert prio t ws)) h'"
      using h'(2) sorted_in_event [of "xItemValue h" prio, OF Cons.prems(2,3)] by simp
    moreover have "length (event_insert prio t ws) < 2 ^ 32" using ok(2) by (simp add: length_event_insert)
    moreover have "xItemValue h' (Item u) = event_value (prio u)" for u using Cons.prems(2) h'(3) by simp
    ultimately show ?thesis using Place h'(1) Cons.IH [OF _ _ Cons.prems(3) ok(1), of h'] by simp
  next
    case WakeFirst
    show ?thesis
    proof (cases ws)
      case Nil
      with empty_linked [OF Cons.prems(1)] have "remove_head l h = Some h" by (simp add: remove_head_def)
      with WakeFirst Nil Cons.IH [OF Cons.prems(1-3)] Cons.prems(4,5) show ?thesis by (simp add: wake_first_def)
    next
      case w: (Cons w ws')
      then have l: "linked l ([] @ Item w # map Item ws') h" using Cons.prems(1) by simp
      have "\<not> listLIST_IS_EMPTY l h" using empty_linked [OF l] Cons.prems(5) w by simp
      moreover have "listGET_HEAD_ENTRY l h = Item w" using first_next [OF l] by (simp add: listGET_HEAD_ENTRY_def)
      moreover from uxListRemove_linked [OF l] obtain n h' where
        h': "uxListRemove (Item w) h = Some (n, h')" "linked l (map Item ws') h'" "xItemValue h' = xItemValue h" by auto
      ultimately have "remove_head l h = Some h'" by (simp add: remove_head_def)
      moreover have "places_ok prio es ws'" "length ws' < 2 ^ 32"
        using Cons.prems(4,5) WakeFirst w by (simp_all add: wake_first_def)
      moreover have "xItemValue h' (Item u) = event_value (prio u)" for u using Cons.prems(2) h'(3) by simp
      ultimately show ?thesis using WakeFirst w Cons.IH [OF h'(2) _ Cons.prems(3)] by (simp add: wake_first_def)
    qed
  qed
qed simp

text \<open>
  C21: The event list of a queue, kept with pointers through the task's own items, is the list of waiting tasks
  of the model, by priority and within a priority by time: from an initialised list on, any sequence of
  \<open>vTaskPlaceOnEventList\<close> and \<open>xTaskRemoveFromEventList\<close> runs without a broken pointer and without running
  round the ring for ever, and leaves the items of just those tasks in just that order linked both ways.
\<close>

theorem event_list_refines:
  assumes "\<And>u. xItemValue h (Item u) = event_value (prio u)" "\<And>u. prio u < configMAX_PRIORITIES"
    and "places_ok prio es []"
  shows "\<exists>h'. event_calls l es (vListInitialise l h) = Some h' \<and> linked l (map Item (task_list prio es [])) h'"
  using event_calls_list [of l "[]" "vListInitialise l h" prio es] vListInitialise_linked [of l h] assms
  by (simp add: vListInitialise_def)

definition no_lists :: "(nat \<Rightarrow> nat) \<Rightarrow> lists" where
  "no_lists prio = \<lparr>xItemValue = (\<lambda>x. case x of Item t \<Rightarrow> event_value (prio t) | End _ \<Rightarrow> 0), pxNext = (\<lambda>x. x),
     pxPrevious = (\<lambda>x. x), pvContainer = (\<lambda>_. None), uxNumberOfItems = (\<lambda>_. 9), pxIndex = (\<lambda>l. End l)\<rparr>"

theorem event_list_refines_witness:
  "\<exists>h'. event_calls 0 [Place 1, Place 2, Place 5, WakeFirst, Place 3] (vListInitialise 0 (no_lists (\<lambda>t. min t 3))) = Some h' \<and>
    linked 0 (map Item [3, 2, 1]) h'"
proof -
  have "task_list (\<lambda>t. min t 3) [Place 1, Place 2, Place 5, WakeFirst, Place 3] [] = [3, 2, 1]" by code_simp
  moreover have "places_ok (\<lambda>t. min t 3) [Place 1, Place 2, Place 5, WakeFirst, Place 3] []"
    by (simp add: event_insert_def wake_first_def)
  moreover have "xItemValue (no_lists prio) (Item u) = event_value (prio u)" for prio u by (simp add: no_lists_def)
  moreover have "min u 3 < configMAX_PRIORITIES" for u by (simp add: configMAX_PRIORITIES_def)
  ultimately show ?thesis
    using event_list_refines [of "no_lists (\<lambda>t. min t 3)" "\<lambda>t. min t 3" "[Place 1, Place 2, Place 5, WakeFirst, Place 3]" 0]
    by (simp only: simp_thms)
qed

theorem round_robin_witness:
  "\<exists>r. fst (next_entries 0 (length [Item 1, Item 2]) (vListInsertEnd 0 (Item 2) (vListInsertEnd 0 (Item 1) (vListInitialise 0 (no_lists id))))) = rotate r [Item 1, Item 2] \<and>
    linked 0 [Item 1, Item 2] (snd (next_entries 0 (length [Item 1, Item 2]) (vListInsertEnd 0 (Item 2) (vListInsertEnd 0 (Item 1) (vListInitialise 0 (no_lists id))))))"
proof (rule round_robin)
  let ?h = "vListInitialise 0 (no_lists id)"
  have i: "pxIndex (vListInsertEnd l x h) = pxIndex h" for l x h by (simp add: vListInsertEnd_def Let_def)
  have i0: "pxIndex ?h 0 = End 0" by (simp add: vListInitialise_def)
  have "linked 0 [Item 1] (vListInsertEnd 0 (Item 1) ?h)"
    using vListInsertEnd_linked [of 0 "[]" "[]" ?h "Item 1" 1] vListInitialise_linked [of 0 "no_lists id"] i0 by simp
  then show "linked 0 [Item 1, Item 2] (vListInsertEnd 0 (Item 2) (vListInsertEnd 0 (Item 1) ?h))"
    using vListInsertEnd_linked [of 0 "[Item 1]" "[]" "vListInsertEnd 0 (Item 1) ?h" "Item 2" 2] i0 i by simp
qed

end
