(* ===== verification/HalUart.thy ===== *)
theory HalUart
  imports StmRecv
begin

text \<open>
  The serial line of the STM32 as ST's library drives it
  (\<open>STM32/Drivers/STM32F1xx_HAL_Driver/Src/stm32f1xx_hal_uart.c\<close>): reception by interrupt, transmission by
  waiting, on one handle that two tasks share. \<open>StmRecv\<close> takes reception as bytes put one behind the other
  into the task's buffer; here is when that is so, and what happens to a message that comes too soon. 8 data
  bits without parity and no DMA, as \<open>usart.c\<close> sets it up. An interrupt is served before the next event.
\<close>

section \<open>Data\<close>

datatype hal_status = HAL_OK | HAL_ERROR | HAL_BUSY | HAL_TIMEOUT

datatype hal_state = STATE_RESET | STATE_READY | STATE_BUSY | STATE_BUSY_TX | STATE_BUSY_RX

text \<open>
  \<open>UART_HandleTypeDef\<close> with the interrupt enable bits of the registers \<open>CR1\<close> and \<open>CR3\<close>, the receive data
  register and the flags of \<open>SR\<close>; \<open>rx_mem\<close> is the buffer that is given to \<open>HAL_UART_Receive_IT\<close> and
  \<open>pRxBuffPtr\<close> the place in it.
\<close>

record huart =
  Lock :: bool
  gState :: hal_state
  RxState :: hal_state
  pRxBuffPtr :: nat
  RxXferSize :: u16
  RxXferCount :: u16
  TxXferSize :: u16
  TxXferCount :: u16
  ErrorCode :: u32
  RXNEIE :: bool
  PEIE :: bool
  EIE :: bool
  DR :: u8
  RXNE :: bool
  ORE :: bool
  FE :: bool
  NE :: bool
  rx_mem :: "u8 list"

abbreviation (input) HAL_UART_ERROR_NONE :: u32 where "HAL_UART_ERROR_NONE \<equiv> 0"
abbreviation (input) HAL_UART_ERROR_NE :: u32 where "HAL_UART_ERROR_NE \<equiv> 2"
abbreviation (input) HAL_UART_ERROR_FE :: u32 where "HAL_UART_ERROR_FE \<equiv> 4"
abbreviation (input) HAL_UART_ERROR_ORE :: u32 where "HAL_UART_ERROR_ORE \<equiv> 8"

section \<open>The peripheral\<close>

text \<open>
  A byte comes over the line, perhaps with a framing error or noise. While the last one has not been read it is
  lost and the overrun flag set. Reading \<open>SR\<close> and then \<open>DR\<close> clears the flags.
\<close>

definition byte_arrives :: "u8 \<Rightarrow> bool \<Rightarrow> bool \<Rightarrow> huart \<Rightarrow> huart" where
  "byte_arrives b fe ne h = (if RXNE h then h\<lparr>ORE := True\<rparr> else h\<lparr>DR := b, RXNE := True, FE := fe, NE := ne\<rparr>)"

definition read_DR :: "huart \<Rightarrow> u8 \<times> huart" where
  "read_DR h = (DR h, h\<lparr>RXNE := False, ORE := False, FE := False, NE := False\<rparr>)"

section \<open>Reception\<close>

definition HAL_UART_Receive_IT :: "u16 \<Rightarrow> huart \<Rightarrow> hal_status \<times> huart" where
  "HAL_UART_Receive_IT n h = (if RxState h = STATE_READY then
       if n = 0 then (HAL_ERROR, h)
       else if Lock h then (HAL_BUSY, h)
       else (HAL_OK, h\<lparr>pRxBuffPtr := 0, RxXferSize := n, RxXferCount := n, ErrorCode := HAL_UART_ERROR_NONE,
              RxState := STATE_BUSY_RX, Lock := False, PEIE := True, EIE := True, RXNEIE := True\<rparr>)
     else (HAL_BUSY, h))"

definition UART_EndRxTransfer :: "huart \<Rightarrow> huart" where
  "UART_EndRxTransfer h = h\<lparr>RXNEIE := False, PEIE := False, EIE := False, RxState := STATE_READY\<rparr>"

text \<open>\<open>None\<close>: a write outside the buffer.\<close>

definition UART_Receive_IT :: "huart \<Rightarrow> (hal_status \<times> huart) option" where
  "UART_Receive_IT h = (if RxState h = STATE_BUSY_RX then do {
       let (b, h) = read_DR h;
       m \<leftarrow> aset (rx_mem h) (int (pRxBuffPtr h)) (b AND 0xFF);
       let h = h\<lparr>rx_mem := m, pRxBuffPtr := pRxBuffPtr h + 1\<rparr>;
       let h = h\<lparr>RxXferCount := RxXferCount h - 1\<rparr>;
       Some (HAL_OK, if RxXferCount h = 0
         then h\<lparr>RXNEIE := False, PEIE := False, EIE := False, RxState := STATE_READY\<rparr> else h)
     } else Some (HAL_BUSY, h))"

definition HAL_UART_IRQHandler :: "huart \<Rightarrow> huart option" where
  "HAL_UART_IRQHandler h = (let ore = ORE h; fe = FE h; ne = NE h; rxne = RXNE h;
       errorflags = (ore \<or> fe \<or> ne); eie = EIE h; rxneie = RXNEIE h; peie = PEIE h in
     if \<not> errorflags \<and> rxne \<and> rxneie then map_option snd (UART_Receive_IT h)
     else if errorflags \<and> (eie \<or> rxneie \<or> peie) then do {
       let h = (if ne \<and> eie then h\<lparr>ErrorCode := ErrorCode h OR HAL_UART_ERROR_NE\<rparr> else h);
       let h = (if fe \<and> eie then h\<lparr>ErrorCode := ErrorCode h OR HAL_UART_ERROR_FE\<rparr> else h);
       let h = (if ore \<and> eie then h\<lparr>ErrorCode := ErrorCode h OR HAL_UART_ERROR_ORE\<rparr> else h);
       if ErrorCode h \<noteq> HAL_UART_ERROR_NONE then do {
         h \<leftarrow> (if rxne \<and> rxneie then map_option snd (UART_Receive_IT h) else Some h);
         Some (if ErrorCode h AND HAL_UART_ERROR_ORE \<noteq> 0 then UART_EndRxTransfer h
           else h\<lparr>ErrorCode := HAL_UART_ERROR_NONE\<rparr>)
       } else Some h
     } else Some h)"

definition serve_interrupt :: "huart \<Rightarrow> huart option" where
  "serve_interrupt h = (if RXNEIE h \<and> (RXNE h \<or> ORE h) then HAL_UART_IRQHandler h else Some h)"

section \<open>Transmission\<close>

text \<open>\<open>HAL_UART_Transmit\<close> up to its loop, its end, and what a wait that is not over in time does.\<close>

definition tx_begin :: "u16 \<Rightarrow> huart \<Rightarrow> hal_status \<times> huart" where
  "tx_begin n h = (if gState h = STATE_READY then
       if n = 0 then (HAL_ERROR, h)
       else if Lock h then (HAL_BUSY, h)
       else (HAL_OK, h\<lparr>Lock := True, ErrorCode := HAL_UART_ERROR_NONE, gState := STATE_BUSY_TX,
              TxXferSize := n, TxXferCount := n\<rparr>)
     else (HAL_BUSY, h))"

definition tx_timeout :: "huart \<Rightarrow> huart" where
  "tx_timeout h = h\<lparr>RXNEIE := False, PEIE := False, EIE := False, gState := STATE_READY, RxState := STATE_READY,
     Lock := False\<rparr>"

definition tx_end :: "huart \<Rightarrow> huart" where
  "tx_end h = h\<lparr>gState := STATE_READY, Lock := False\<rparr>"

text \<open>
  The whole call, not interrupted: \<open>ws\<close> says of every wait for the transmitter whether it was over in time. The
  result has the bytes that went out.
\<close>

fun tx_loop :: "u8 list \<Rightarrow> bool list \<Rightarrow> huart \<Rightarrow> hal_status \<times> u8 list \<times> huart" where
  "tx_loop bs [] h = (HAL_TIMEOUT, [], tx_timeout h)"
| "tx_loop [] (w # ws) h = (if w then (HAL_OK, [], tx_end h) else (HAL_TIMEOUT, [], tx_timeout h))"
| "tx_loop (b # bs) (w # ws) h = (let h = h\<lparr>TxXferCount := TxXferCount h - 1\<rparr> in
     if w then (let (r, out, h) = tx_loop bs ws h in (r, b # out, h)) else (HAL_TIMEOUT, [], tx_timeout h))"

definition HAL_UART_Transmit :: "u8 list \<Rightarrow> bool list \<Rightarrow> huart \<Rightarrow> hal_status \<times> u8 list \<times> huart" where
  "HAL_UART_Transmit bs ws h = (case tx_begin (word_of_nat (length bs)) h of
     (HAL_OK, h) \<Rightarrow> tx_loop bs ws h | (r, h) \<Rightarrow> (r, [], h))"

section \<open>What happens on the line\<close>

text \<open>
  The receiving task calls \<open>HAL_UART_Receive_IT(&huart1, &buff[0], 51)\<close>, a byte arrives, the sending task is at
  the beginning of a transmission, gives up, or has finished.
\<close>

datatype line_event = StartRx | Arrive u8 bool bool | TxBegin u16 | TxTimeout | TxEnd

fun uart_event :: "line_event \<Rightarrow> huart \<Rightarrow> huart option" where
  "uart_event StartRx h = serve_interrupt (snd (HAL_UART_Receive_IT 51 h))"
| "uart_event (Arrive b fe ne) h = serve_interrupt (byte_arrives b fe ne h)"
| "uart_event (TxBegin n) h = Some (snd (tx_begin n h))"
| "uart_event TxTimeout h = Some (if gState h = STATE_BUSY_TX then tx_timeout h else h)"
| "uart_event TxEnd h = Some (if gState h = STATE_BUSY_TX then tx_end h else h)"

fun uart_events :: "line_event list \<Rightarrow> huart \<Rightarrow> huart option" where
  "uart_events [] h = Some h"
| "uart_events (e # es) h = do { h \<leftarrow> uart_event e h; uart_events es h }"

text \<open>After \<open>HAL_UART_Init\<close>.\<close>

definition HAL_UART_Init :: "huart \<Rightarrow> huart" where
  "HAL_UART_Init h = (let h = (if gState h = STATE_RESET then h\<lparr>Lock := False\<rparr> else h) in
     h\<lparr>ErrorCode := HAL_UART_ERROR_NONE, gState := STATE_READY, RxState := STATE_READY\<rparr>)"

section \<open>The handle stays usable\<close>

definition hal_ok :: "huart \<Rightarrow> bool" where
  "hal_ok h \<longleftrightarrow> length (rx_mem h) = 51 \<and> gState h \<in> {STATE_READY, STATE_BUSY_TX} \<and>
     (Lock h \<longleftrightarrow> gState h = STATE_BUSY_TX) \<and> RxState h \<in> {STATE_READY, STATE_BUSY_RX} \<and>
     (RXNEIE h \<longleftrightarrow> RxState h = STATE_BUSY_RX) \<and>
     (RxState h = STATE_BUSY_RX \<longrightarrow> EIE h \<and> ErrorCode h = 0 \<and> 0 < unat (RxXferCount h) \<and>
        pRxBuffPtr h + unat (RxXferCount h) = 51 \<and> \<not> RXNE h \<and> \<not> ORE h \<and> \<not> FE h \<and> \<not> NE h)"

text \<open>The same before the interrupt is served.\<close>

definition hal_pending :: "huart \<Rightarrow> bool" where
  "hal_pending h \<longleftrightarrow> hal_ok (h\<lparr>RXNE := False, ORE := False, FE := False, NE := False\<rparr>) \<and>
     (ORE h \<or> FE h \<or> NE h \<longrightarrow> RXNE h)"

text \<open>What \<open>UART_Receive_IT\<close> does with the byte in the data register.\<close>

definition stored :: "huart \<Rightarrow> huart" where
  "stored h = (let l = RxXferCount h - 1; h = h\<lparr>RXNE := False, ORE := False, FE := False, NE := False,
      rx_mem := (rx_mem h)[pRxBuffPtr h := DR h], pRxBuffPtr := pRxBuffPtr h + 1, RxXferCount := l\<rparr> in
      if l = 0 then h\<lparr>RXNEIE := False, PEIE := False, EIE := False, RxState := STATE_READY\<rparr> else h)"

lemma receive_one:
  assumes "pRxBuffPtr h < length (rx_mem h)" "RxState h = STATE_BUSY_RX"
  shows "UART_Receive_IT h = Some (HAL_OK, stored h)"
proof -
  have "(0xFF :: u8) = - 1" by simp
  then have "DR h AND 0xFF = DR h" by (simp only: and.right_neutral)
  then show ?thesis using assms by (simp add: UART_Receive_IT_def read_DR_def aset_def Let_def stored_def)
qed

lemma stored_ok:
  assumes "hal_pending h" "RxState h = STATE_BUSY_RX"
  shows "hal_ok (stored h)"
proof -
  have "0 < unat (RxXferCount h)" using assms by (simp add: hal_pending_def hal_ok_def)
  then have "RxXferCount h \<noteq> 0" by auto
  then have "unat (RxXferCount h - 1) = unat (RxXferCount h) - 1" by (rule unat_minus_one)
  moreover have "0 < unat (RxXferCount h - 1)" if "RxXferCount h - 1 \<noteq> 0" using that by (simp add: unat_gt_0)
  ultimately show ?thesis using assms by (auto simp: stored_def Let_def hal_ok_def hal_pending_def)
qed

lemma stored_error [simp]: "stored (h\<lparr>ErrorCode := e\<rparr>) = (stored h)\<lparr>ErrorCode := e\<rparr>"
  by (simp add: stored_def Let_def)

lemma stored_same: "ErrorCode (stored h) = ErrorCode h" "gState (stored h) = gState h" "Lock (stored h) = Lock h"
  by (simp_all add: stored_def Let_def)

text \<open>The interrupt: the byte is stored in any case; after an overrun the reception is over.\<close>

lemma irq:
  assumes "hal_pending h" "RxState h = STATE_BUSY_RX" "RXNE h"
  shows "\<exists>e. HAL_UART_IRQHandler h = Some (if ORE h then UART_EndRxTransfer ((stored h)\<lparr>ErrorCode := e\<rparr>) else stored h)"
proof -
  from assms have m: "pRxBuffPtr h < length (rx_mem h)" "EIE h" "RXNEIE h" "ErrorCode h = 0"
    by (simp_all add: hal_pending_def hal_ok_def)
  have r: "UART_Receive_IT (h\<lparr>ErrorCode := e\<rparr>) = Some (HAL_OK, (stored h)\<lparr>ErrorCode := e\<rparr>)" for e
    using receive_one [of "h\<lparr>ErrorCode := e\<rparr>"] m(1) assms(2) by simp
  have z: "(stored h)\<lparr>ErrorCode := 0\<rparr> = stored h" using stored_same(1) [of h] m(4) by simp
  show ?thesis
    by (cases "ORE h"; cases "FE h"; cases "NE h")
      (auto simp: HAL_UART_IRQHandler_def Let_def r receive_one [OF m(1) assms(2)] m assms(3) z stored_same)
qed

lemma hal_ok_error [simp]: "RxState h \<noteq> STATE_BUSY_RX \<Longrightarrow> hal_ok (h\<lparr>ErrorCode := e\<rparr>) = hal_ok h"
  by (simp add: hal_ok_def)

lemma end_rx_ok: "hal_ok h \<Longrightarrow> hal_ok (UART_EndRxTransfer (h\<lparr>ErrorCode := e\<rparr>))"
  by (simp add: hal_ok_def UART_EndRxTransfer_def)

text \<open>Flags of the line stand only beside a byte that has not been read.\<close>

definition uart_ok :: "huart \<Rightarrow> bool" where
  "uart_ok h \<longleftrightarrow> hal_ok h \<and> (ORE h \<or> FE h \<or> NE h \<longrightarrow> RXNE h)"

lemma stored_flags: "\<not> RXNE (stored h) \<and> \<not> ORE (stored h) \<and> \<not> FE (stored h) \<and> \<not> NE (stored h)"
  by (simp add: stored_def Let_def)

lemma served:
  assumes "hal_pending h"
  shows "\<exists>h'. serve_interrupt h = Some h' \<and> uart_ok h'"
proof (cases "RXNEIE h \<and> (RXNE h \<or> ORE h)")
  case True
  with assms have b: "RxState h = STATE_BUSY_RX" "RXNE h" by (auto simp: hal_pending_def hal_ok_def)
  have "UART_EndRxTransfer x = y \<Longrightarrow> ORE y = ORE x \<and> FE y = FE x \<and> NE y = NE x \<and> RXNE y = RXNE x" for x y
    by (auto simp: UART_EndRxTransfer_def)
  with irq [OF assms b] stored_ok [OF assms b(1)] stored_flags [of h] True show ?thesis
    by (auto simp: serve_interrupt_def uart_ok_def intro: end_rx_ok)
next
  case False
  with assms show ?thesis by (auto simp: serve_interrupt_def uart_ok_def hal_pending_def hal_ok_def)
qed

lemma arrive_pending: "uart_ok h \<Longrightarrow> hal_pending (byte_arrives b fe ne h)"
  by (auto simp: uart_ok_def hal_pending_def hal_ok_def byte_arrives_def)

lemma start_pending: "uart_ok h \<Longrightarrow> hal_pending (snd (HAL_UART_Receive_IT 51 h))"
  by (auto simp: uart_ok_def hal_pending_def hal_ok_def HAL_UART_Receive_IT_def)

lemma event_ok: "uart_ok h \<Longrightarrow> \<exists>h'. uart_event e h = Some h' \<and> uart_ok h'"
  using served [OF arrive_pending] served [OF start_pending]
  by (cases e) (auto simp: uart_ok_def hal_ok_def tx_begin_def tx_timeout_def tx_end_def)

lemma events_ok: "uart_ok h \<Longrightarrow> \<exists>h'. uart_events es h = Some h' \<and> uart_ok h'"
proof (induction es arbitrary: h)
  case (Cons e es)
  from event_ok [OF Cons.prems, of e] Cons.IH show ?case by fastforce
qed simp

text \<open>The handle before \<open>HAL_UART_Init\<close>, the registers as after a reset.\<close>

definition uart_reset :: "u8 list \<Rightarrow> huart" where
  "uart_reset m = \<lparr>Lock = False, gState = STATE_RESET, RxState = STATE_RESET, pRxBuffPtr = 0, RxXferSize = 0,
     RxXferCount = 0, TxXferSize = 0, TxXferCount = 0, ErrorCode = 0, RXNEIE = False, PEIE = False, EIE = False,
     DR = 0, RXNE = False, ORE = False, FE = False, NE = False, rx_mem = m\<rparr>"

lemma init_ok: "length m = 51 \<Longrightarrow> uart_ok (HAL_UART_Init (uart_reset m))"
  by (simp add: uart_ok_def hal_ok_def HAL_UART_Init_def uart_reset_def)

text \<open>
  C22: Nothing that happens on the line makes the UART useless. Whatever bytes come when, with or without errors,
  whenever the other task transmits and whenever its transmission times out: no byte is stored outside the
  receiving task's buffer of 51, and the handle is locked just while a transmission is in progress; as soon as
  there is none, the call of \<open>HAL_UART_Receive_IT\<close> finds a reception running or starts one, with the receive
  interrupt enabled.
\<close>

theorem uart_stays_usable:
  assumes "length m = 51"
  shows "\<exists>h. uart_events es (HAL_UART_Init (uart_reset m)) = Some h \<and> length (rx_mem h) = 51 \<and>
    (if gState h = STATE_BUSY_TX then Lock h \<and> \<not> Lock (tx_end h) \<and> \<not> Lock (tx_timeout h)
     else fst (HAL_UART_Receive_IT 51 h) \<in> {HAL_OK, HAL_BUSY} \<and>
       RxState (snd (HAL_UART_Receive_IT 51 h)) = STATE_BUSY_RX \<and> RXNEIE (snd (HAL_UART_Receive_IT 51 h)))"
proof -
  from events_ok [OF init_ok [OF assms], of es] obtain h where
    h: "uart_events es (HAL_UART_Init (uart_reset m)) = Some h" "uart_ok h" by blast
  then show ?thesis
    by (intro exI [of _ h]) (auto simp: uart_ok_def hal_ok_def HAL_UART_Receive_IT_def tx_end_def tx_timeout_def)
qed

theorem uart_stays_usable_witness:
  "\<exists>h. uart_events [StartRx, Arrive 7 False False, TxBegin 1, Arrive 8 True False, TxTimeout, Arrive 9 False False,
      Arrive 10 False False, StartRx, Arrive 11 False False, StartRx] (HAL_UART_Init (uart_reset (replicate 51 0))) = Some h \<and>
    length (rx_mem h) = 51 \<and>
    (if gState h = STATE_BUSY_TX then Lock h \<and> \<not> Lock (tx_end h) \<and> \<not> Lock (tx_timeout h)
     else fst (HAL_UART_Receive_IT 51 h) \<in> {HAL_OK, HAL_BUSY} \<and>
       RxState (snd (HAL_UART_Receive_IT 51 h)) = STATE_BUSY_RX \<and> RXNEIE (snd (HAL_UART_Receive_IT 51 h)))"
  by (rule uart_stays_usable) simp

section \<open>Reception as \<open>StmRecv\<close> has it\<close>

definition uart_of :: "huart \<Rightarrow> uart" where
  "uart_of h = \<lparr>rx_buff = rx_mem h, rx_pos = pRxBuffPtr h,
     rx_left = (if RxState h = STATE_BUSY_RX then unat (RxXferCount h) else 0)\<rparr>"

text \<open>
  No byte comes while no reception is in progress, none is started while the other task transmits, and no
  transmission times out; \<open>n\<close> bytes are still to come and \<open>tx\<close> says that a transmission is in progress.
\<close>

fun calm :: "line_event list \<Rightarrow> bool \<Rightarrow> nat \<Rightarrow> bool" where
  "calm [] tx n \<longleftrightarrow> True"
| "calm (StartRx # es) tx n \<longleftrightarrow> \<not> tx \<and> calm es tx (if n = 0 then 51 else n)"
| "calm (Arrive b fe ne # es) tx n \<longleftrightarrow> 0 < n \<and> calm es tx (n - 1)"
| "calm (TxBegin k # es) tx n \<longleftrightarrow> calm es (tx \<or> k \<noteq> 0) n"
| "calm (TxTimeout # es) tx n \<longleftrightarrow> False"
| "calm (TxEnd # es) tx n \<longleftrightarrow> calm es False n"

fun uart_model :: "line_event \<Rightarrow> uart \<Rightarrow> uart" where
  "uart_model StartRx u = receive_it 51 u"
| "uart_model (Arrive b fe ne) u = rx_byte b u"
| "uart_model _ u = u"

definition quiet :: "huart \<Rightarrow> bool" where
  "quiet h \<longleftrightarrow> uart_ok h \<and> \<not> RXNE h"

lemma quiet_arrive:
  assumes "quiet h" "RxState h = STATE_BUSY_RX"
  shows "\<exists>h'. uart_event (Arrive b fe ne) h = Some h' \<and> quiet h' \<and> gState h' = gState h \<and> uart_of h' = rx_byte b (uart_of h)"
proof -
  let ?h = "byte_arrives b fe ne h"
  from assms have ok: "hal_pending ?h" and r: "\<not> RXNE h" "\<not> ORE h" by (auto simp: quiet_def uart_ok_def intro: arrive_pending)
  then have a: "?h = h\<lparr>DR := b, RXNE := True, FE := fe, NE := ne\<rparr>" by (simp add: byte_arrives_def)
  have st: "RxState ?h = STATE_BUSY_RX" "RXNE ?h" "\<not> ORE ?h" "RXNEIE ?h"
    using assms r by (simp_all add: a quiet_def uart_ok_def hal_ok_def)
  have "uart_event (Arrive b fe ne) h = Some (stored ?h)"
    using irq [OF ok st(1,2)] st by (simp add: serve_interrupt_def)
  moreover have "quiet (stored ?h)"
    using stored_ok [OF ok st(1)] stored_flags [of ?h] by (simp add: quiet_def uart_ok_def)
  moreover have "uart_of (stored ?h) = rx_byte b (uart_of h)"
  proof -
    have c: "0 < unat (RxXferCount h)" using assms by (simp add: quiet_def uart_ok_def hal_ok_def)
    then have "unat (RxXferCount h - 1) = unat (RxXferCount h) - 1" by (intro unat_minus_one) auto
    moreover have "RxXferCount h - 1 = 0 \<Longrightarrow> unat (RxXferCount h) - 1 = 0" using calculation by simp
    ultimately show ?thesis using c assms(2)
      by (auto simp: uart_of_def stored_def a rx_byte_def Let_def)
  qed
  ultimately show ?thesis by (simp add: stored_same a)
qed

lemma calm_refines:
  assumes "quiet h" "calm es (gState h = STATE_BUSY_TX) (rx_left (uart_of h))"
  shows "\<exists>h'. uart_events es h = Some h' \<and> quiet h' \<and> uart_of h' = fold uart_model es (uart_of h)"
  using assms
proof (induction es arbitrary: h)
  case (Cons e es)
  have ok: "hal_ok h" "\<not> RXNE h" "\<not> ORE h" "\<not> FE h" "\<not> NE h" using Cons.prems(1) by (auto simp: quiet_def uart_ok_def)
  show ?case
  proof (cases e)
    case StartRx
    let ?h = "snd (HAL_UART_Receive_IT 51 h)"
    have nt: "gState h \<noteq> STATE_BUSY_TX" using Cons.prems(2) StartRx by simp
    with ok have "quiet ?h" "gState ?h = gState h" "uart_of ?h = receive_it 51 (uart_of h)"
      by (auto simp: quiet_def uart_ok_def hal_ok_def HAL_UART_Receive_IT_def uart_of_def receive_it_def)
    moreover from this have "uart_event e h = Some ?h" by (auto simp: StartRx serve_interrupt_def quiet_def uart_ok_def)
    moreover have "rx_left (uart_of ?h) = (if rx_left (uart_of h) = 0 then 51 else rx_left (uart_of h))"
      using calculation(3) by (simp add: receive_it_def)
    ultimately show ?thesis using Cons.IH [of ?h] Cons.prems(2) StartRx nt by simp
  next
    case (Arrive b fe ne)
    then have "RxState h = STATE_BUSY_RX" using Cons.prems(2) by (simp add: uart_of_def split: if_splits)
    from quiet_arrive [OF Cons.prems(1) this, of b fe ne] obtain h' where
      h': "uart_event e h = Some h'" "quiet h'" "gState h' = gState h" "uart_of h' = rx_byte b (uart_of h)"
      unfolding Arrive by blast
    have "rx_left (uart_of h') = rx_left (uart_of h) - 1" using h'(4) by (simp add: rx_byte_def)
    with Cons.IH [OF h'(2)] Cons.prems(2) h' Arrive show ?thesis by simp
  next
    case (TxBegin k)
    let ?h = "snd (tx_begin k h)"
    have "quiet ?h" "uart_of ?h = uart_of h" "gState ?h = STATE_BUSY_TX \<longleftrightarrow> gState h = STATE_BUSY_TX \<or> k \<noteq> 0"
      using ok by (auto simp: quiet_def uart_ok_def hal_ok_def tx_begin_def uart_of_def)
    with Cons.IH [of ?h] Cons.prems(2) TxBegin show ?thesis by simp
  next
    case TxTimeout
    with Cons.prems(2) show ?thesis by simp
  next
    case TxEnd
    let ?h = "if gState h = STATE_BUSY_TX then tx_end h else h"
    have "quiet ?h" "uart_of ?h = uart_of h" "gState ?h \<noteq> STATE_BUSY_TX"
      using ok by (auto simp: quiet_def uart_ok_def hal_ok_def tx_end_def uart_of_def)
    with Cons.IH [of ?h] Cons.prems(2) TxEnd show ?thesis by simp
  qed
qed (simp add: quiet_def)



section \<open>A message too soon\<close>

text \<open>A round of \<open>StartRecv7200\<close> on the handle: what it does with the buffer after the call.\<close>

definition recv_look :: "u8 list \<Rightarrow> u8 list \<Rightarrow> 'a stm_scheme \<Rightarrow> (u8 list \<times> u8 list \<times> 'a stm_scheme) option" where
  "recv_look buff ucbuff s = do {
     cmd \<leftarrow> aget buff 0;
     if accepted cmd then do {
       (ucbuff, s) \<leftarrow> recv_cmd cmd buff ucbuff s;
       ucbuff \<leftarrow> aset ucbuff 0 cmd;
       s \<leftarrow> to_Monitor ucbuff s;
       Some (replicate 50 0 @ drop 50 buff, ucbuff, s)
     } else Some (buff, ucbuff, s)
   }"

definition recv7200_hal :: "huart \<Rightarrow> u8 list \<Rightarrow> 'a stm_scheme \<Rightarrow> (huart \<times> u8 list \<times> 'a stm_scheme) option" where
  "recv7200_hal h ucbuff s = do {
     h \<leftarrow> uart_event StartRx h;
     (buff, ucbuff, s) \<leftarrow> recv_look (rx_mem h) ucbuff s;
     Some (h\<lparr>rx_mem := buff\<rparr>, ucbuff, s)
   }"

lemma recv7200_look: "recv7200 u ucbuff s = do {
    (buff, ucbuff, s) \<leftarrow> recv_look (rx_buff u) ucbuff s;
    Some ((receive_it 51 u)\<lparr>rx_buff := buff\<rparr>, ucbuff, s) }"
proof -
  have r: "rx_buff (receive_it 51 u) = rx_buff u" by (simp add: receive_it_def)
  have same: "receive_it 51 u = (receive_it 51 u)\<lparr>rx_buff := rx_buff u\<rparr>" by (simp add: receive_it_def)
  show ?thesis
    by (cases "aget (rx_buff u) 0") (use same in \<open>auto simp: recv7200_def recv_look_def r Let_def split: bind_splits\<close>)
qed

text \<open>Bytes that come while no reception is in progress: the first stays in the data register, the rest is lost.\<close>

lemma idle_arrivals:
  assumes "\<not> RXNEIE h" "RXNE h" "ORE h"
  shows "uart_events (map (\<lambda>b. Arrive b False False) bs) h = Some h"
proof (induction bs)
  case (Cons b bs)
  have "byte_arrives b False False h = h" using assms by (simp add: byte_arrives_def)
  with Cons assms(1) show ?case by (simp add: serve_interrupt_def)
qed simp

lemma idle_message:
  assumes "\<not> RXNEIE h" "\<not> RXNE h"
  shows "uart_events (map (\<lambda>b. Arrive b False False) (b # c # bs)) h =
    Some (h\<lparr>DR := b, RXNE := True, FE := False, NE := False, ORE := True\<rparr>)"
  using assms idle_arrivals [of "h\<lparr>DR := b, RXNE := True, FE := False, NE := False, ORE := True\<rparr>" bs]
  by (simp add: byte_arrives_def serve_interrupt_def)

text \<open>The next reception then takes the one byte, finds the overrun and is over.\<close>

lemma overrun_ends:
  assumes "uart_ok h" "RxState h = STATE_READY" "gState h = STATE_READY" "RXNE h" "ORE h"
  shows "\<exists>h'. uart_event StartRx h = Some h' \<and> quiet h' \<and> RxState h' = STATE_READY \<and> gState h' = STATE_READY \<and>
    rx_mem h' = (rx_mem h)[0 := DR h]"
proof -
  let ?h = "snd (HAL_UART_Receive_IT 51 h)"
  have h: "RxState ?h = STATE_BUSY_RX" "RXNE ?h" "ORE ?h" "RXNEIE ?h" "pRxBuffPtr ?h = 0" "DR ?h = DR h"
    "rx_mem ?h = rx_mem h" "gState ?h = STATE_READY"
    using assms by (auto simp: HAL_UART_Receive_IT_def uart_ok_def hal_ok_def)
  note p = start_pending [OF assms(1)]
  from irq [OF p h(1,2)] h obtain e where
    e: "uart_event StartRx h = Some (UART_EndRxTransfer ((stored ?h)\<lparr>ErrorCode := e\<rparr>))"
    by (auto simp: serve_interrupt_def)
  have "hal_ok (UART_EndRxTransfer ((stored ?h)\<lparr>ErrorCode := e\<rparr>))" by (rule end_rx_ok [OF stored_ok [OF p h(1)]])
  moreover have "rx_mem (stored ?h) = (rx_mem h)[0 := DR h]" using h(5-7) by (simp add: stored_def Let_def)
  ultimately show ?thesis using e stored_flags [of ?h] h(8)
    by (auto simp: quiet_def uart_ok_def UART_EndRxTransfer_def stored_same)
qed



section \<open>Transmission\<close>

lemma tx_loop_out:
  "length ws = length bs + 1 \<Longrightarrow> tx_loop bs ws h = (r, out, h') \<Longrightarrow>
   out = take (length (takeWhile id ws)) bs \<and> r = (if list_all id ws then HAL_OK else HAL_TIMEOUT) \<and>
   gState h' = STATE_READY \<and> \<not> Lock h' \<and> rx_mem h' = rx_mem h \<and>
   RxState h' = (if list_all id ws then RxState h else STATE_READY)"
proof (induction bs ws h arbitrary: r out h' rule: tx_loop.induct)
  case (3 b bs w ws h)
  obtain r1 out1 h1 where l: "tx_loop bs ws (h\<lparr>TxXferCount := TxXferCount h - 1\<rparr>) = (r1, out1, h1)" by (metis prod_cases3)
  with 3 show ?case by (auto simp: tx_timeout_def Let_def split: if_splits)
qed (auto simp: tx_timeout_def tx_end_def split: if_splits)

text \<open>
  \<open>HAL_UART_Transmit\<close> sends the bytes in their order up to the first wait that takes too long, says so, and
  leaves the handle unlocked and ready for the next; but a wait that takes too long also ends the reception that
  the other task has running.
\<close>

theorem transmit_sends:
  assumes "gState h = STATE_READY" "\<not> Lock h" "0 < length bs" "length bs < 65536" "length ws = length bs + 1"
  shows "\<exists>h'. HAL_UART_Transmit bs ws h =
      (if list_all id ws then HAL_OK else HAL_TIMEOUT, take (length (takeWhile id ws)) bs, h') \<and>
    gState h' = STATE_READY \<and> \<not> Lock h' \<and> rx_mem h' = rx_mem h \<and>
    RxState h' = (if list_all id ws then RxState h else STATE_READY)"
proof -
  have n: "(word_of_nat (length bs) :: u16) \<noteq> 0" using assms(3,4) by (simp add: unat_of_nat flip: unat_eq_0)
  let ?n = "word_of_nat (length bs) :: u16"
  let ?h = "h\<lparr>Lock := True, ErrorCode := 0, gState := STATE_BUSY_TX, TxXferSize := ?n, TxXferCount := ?n\<rparr>"
  have t: "HAL_UART_Transmit bs ws h = tx_loop bs ws ?h" using assms(1,2) n by (simp add: HAL_UART_Transmit_def tx_begin_def)
  obtain r out h' where l: "tx_loop bs ws ?h = (r, out, h')" by (metis prod_cases3)
  from tx_loop_out [OF assms(5) l] t l show ?thesis by simp
qed

theorem transmit_sends_witness:
  "\<exists>h'. HAL_UART_Transmit [1, 2, 3] [True, True, False, True] (HAL_UART_Init (uart_reset [])) =
      (if list_all id [True, True, False, True] then HAL_OK else HAL_TIMEOUT,
       take (length (takeWhile id [True, True, False, True])) [1, 2, 3], h') \<and>
    gState h' = STATE_READY \<and> \<not> Lock h' \<and> rx_mem h' = rx_mem (HAL_UART_Init (uart_reset [])) \<and>
    RxState h' = (if list_all id [True, True, False, True] then RxState (HAL_UART_Init (uart_reset [])) else STATE_READY)"
  by (rule transmit_sends) (simp_all add: HAL_UART_Init_def uart_reset_def)

end
