(* ===== verification/Minmea.thy ===== *)
theory Minmea
  imports HostCmd
begin

text \<open>
  The parser of the GPS receiver's sentences (\<open>thread_io/minmea.c\<close>, linked into \<open>sched\<close>; the loop that would
  call it is compiled out of \<open>LCD_serial_queue\<close>). A C string is a \<open>string\<close> without its terminator; reading at its
  end gives the terminator. A parse either gives values, fails (\<open>return false\<close>; what the frame then holds is
  not followed), or meets undefined behaviour, which here is the overflow of an \<open>int_least32_t\<close>.
\<close>

section \<open>Characters\<close>

definition NUL :: char where
  "NUL = CHR 0x00"

definition isprint :: "char \<Rightarrow> bool" where
  "isprint c \<longleftrightarrow> 32 \<le> (of_char c :: nat) \<and> (of_char c :: nat) \<le> 126"

definition isdigit :: "char \<Rightarrow> bool" where
  "isdigit c \<longleftrightarrow> 48 \<le> (of_char c :: nat) \<and> (of_char c :: nat) \<le> 57"

definition isspace :: "char \<Rightarrow> bool" where
  "isspace c \<longleftrightarrow> (of_char c :: nat) \<in> {9, 10, 11, 12, 13, 32}"

definition digit :: "char \<Rightarrow> int" where
  "digit c = int (of_char c) - 48"

text \<open>\<open>s[i]\<close>\<close>

definition at :: "string \<Rightarrow> nat \<Rightarrow> char" where
  "at s i = (if i < length s then s ! i else NUL)"

lemma at_first [simp]: "at (c # s) 0 = c" "at [] i = NUL"
  by (simp_all add: at_def)

definition hex2int :: "char \<Rightarrow> int" where
  "hex2int c = (let n = int (of_char c) in
     if 48 \<le> n \<and> n \<le> 57 then n - 48
     else if 65 \<le> n \<and> n \<le> 70 then n - 65 + 10
     else if 97 \<le> n \<and> n \<le> 102 then n - 97 + 10
     else - 1)"

definition minmea_isfield :: "char \<Rightarrow> bool" where
  "minmea_isfield c \<longleftrightarrow> isprint c \<and> c \<noteq> CHR '','' \<and> c \<noteq> CHR ''*''"

section \<open>Checksum\<close>

definition xor_bytes :: "string \<Rightarrow> u8" where
  "xor_bytes s = foldl (XOR) 0 (bytes_of s)"

definition minmea_checksum :: "string \<Rightarrow> u8" where
  "minmea_checksum s = (let s = (if at s 0 = CHR ''$'' then tl s else s) in
     xor_bytes (takeWhile (\<lambda>c. c \<noteq> CHR ''*'') s))"

abbreviation (input) MINMEA_MAX_LENGTH :: nat where "MINMEA_MAX_LENGTH \<equiv> 80"

definition minmea_check :: "string \<Rightarrow> bool \<Rightarrow> bool" where
  "minmea_check s strict = (
     if length s > MINMEA_MAX_LENGTH + 3 then False
     else if at s 0 \<noteq> CHR ''$'' then False
     else let body = takeWhile (\<lambda>c. c \<noteq> CHR ''*'' \<and> isprint c) (tl s);
              rest = dropWhile (\<lambda>c. c \<noteq> CHR ''*'' \<and> isprint c) (tl s);
              checksum = xor_bytes body in
       if at rest 0 = CHR ''*'' then
         let upper = hex2int (at rest 1) in
         if upper = - 1 then False
         else let lower = hex2int (at rest 2) in
           if lower = - 1 then False
           else uint checksum = upper * 16 + lower
       else \<not> strict)"

section \<open>Fields\<close>

datatype 'a parse = Value 'a | Failed | Undefined

text \<open>What a field of each format character is; \<open>MFloat\<close> has \<open>value\<close> and \<open>scale\<close>.\<close>

datatype mvalue = MChar char | MDir int | MFloat int int | MInt int | MStr string | MType string
  | MDate int int int | MTime int int int int

abbreviation (input) INT_LEAST32_MAX :: int where "INT_LEAST32_MAX \<equiv> 2147483647"

text \<open>
  \<open>f\<close>: the loop over the characters with \<open>sign\<close>, \<open>value\<close> and \<open>scale\<close>. Digits behind the point that no longer
  fit are dropped.
\<close>

fun scan_f :: "int \<Rightarrow> int \<Rightarrow> int \<Rightarrow> string \<Rightarrow> (int \<times> int \<times> int) parse" where
  "scan_f sign v scale [] = Value (sign, v, scale)"
| "scan_f sign v scale (c # cs) =
     (if \<not> minmea_isfield c then Value (sign, v, scale)
      else if c = CHR ''+'' \<and> sign = 0 \<and> v = - 1 then scan_f 1 v scale cs
      else if c = CHR ''-'' \<and> sign = 0 \<and> v = - 1 then scan_f (- 1) v scale cs
      else if isdigit c then
        (let v = (if v = - 1 then 0 else v) in
         if v > (INT_LEAST32_MAX - digit c) div 10 then
           (if scale \<noteq> 0 then Value (sign, v, scale) else Failed)
         else let v = 10 * v + digit c; scale = (if scale \<noteq> 0 then scale * 10 else scale) in
           if scale > INT_LEAST32_MAX then Undefined else scan_f sign v scale cs)
      else if c = CHR ''.'' \<and> scale = 0 then scan_f sign v 1 cs
      else if c = CHR '' '' then
        (if sign \<noteq> 0 \<or> v \<noteq> - 1 \<or> scale \<noteq> 0 then Failed else scan_f sign v scale cs)
      else Failed)"

definition field_f :: "string option \<Rightarrow> mvalue parse" where
  "field_f field = (case (case field of None \<Rightarrow> Value (0, - 1, 0) | Some s \<Rightarrow> scan_f 0 (- 1) 0 s) of
       Failed \<Rightarrow> Failed
     | Undefined \<Rightarrow> Undefined
     | Value (sign, v, scale) \<Rightarrow>
         if (sign \<noteq> 0 \<or> scale \<noteq> 0) \<and> v = - 1 then Failed
         else let (v, scale) = (if v = - 1 then (0, 0) else if scale = 0 then (v, 1) else (v, scale)) in
           Value (MFloat (if sign \<noteq> 0 then v * sign else v) scale))"

text \<open>\<open>strtol(s, &end, 10)\<close> for a \<open>long\<close> of 32 bits: the number and what is left.\<close>

fun digits_val :: "int \<Rightarrow> string \<Rightarrow> int" where
  "digits_val v [] = v"
| "digits_val v (c # cs) = digits_val (10 * v + digit c) cs"

definition strtol :: "string \<Rightarrow> int \<times> string" where
  "strtol s = (let t = dropWhile isspace s;
     neg = (at t 0 = CHR ''-'');
     t = (if at t 0 = CHR ''-'' \<or> at t 0 = CHR ''+'' then tl t else t);
     ds = takeWhile isdigit t;
     n = (if neg then - digits_val 0 ds else digits_val 0 ds) in
     if ds = [] then (0, s)
     else (max (- 2147483648) (min 2147483647 n), dropWhile isdigit t))"

definition field_i :: "string option \<Rightarrow> mvalue parse" where
  "field_i field = (case field of None \<Rightarrow> Value (MInt 0)
     | Some s \<Rightarrow> let (v, e) = strtol s in if minmea_isfield (at e 0) then Failed else Value (MInt v))"

definition present :: "string option \<Rightarrow> bool" where
  "present field = (case field of None \<Rightarrow> False | Some s \<Rightarrow> minmea_isfield (at s 0))"

definition field_c :: "string option \<Rightarrow> mvalue parse" where
  "field_c field = Value (MChar (if present field then at (the field) 0 else NUL))"

definition field_d :: "string option \<Rightarrow> mvalue parse" where
  "field_d field = (if present field then
       let c = at (the field) 0 in
       if c = CHR ''N'' \<or> c = CHR ''E'' then Value (MDir 1)
       else if c = CHR ''S'' \<or> c = CHR ''W'' then Value (MDir (- 1))
       else Failed
     else Value (MDir 0))"

definition field_s :: "string option \<Rightarrow> mvalue parse" where
  "field_s field = Value (MStr (case field of None \<Rightarrow> [] | Some s \<Rightarrow> takeWhile minmea_isfield s))"

definition field_t :: "string option \<Rightarrow> mvalue parse" where
  "field_t field = (case field of None \<Rightarrow> Failed
     | Some s \<Rightarrow> if at s 0 \<noteq> CHR ''$'' then Failed
         else if list_all (\<lambda>f. minmea_isfield (at s (1 + f))) [0..<5] then Value (MType (take 5 (drop 1 s)))
         else Failed)"

text \<open>\<open>strtol\<close> of the two digits \<open>s[i]\<close> and \<open>s[i+1]\<close>.\<close>

definition two_digits :: "string \<Rightarrow> nat \<Rightarrow> int" where
  "two_digits s i = 10 * digit (at s i) + digit (at s (i + 1))"

definition six_digits :: "string \<Rightarrow> bool" where
  "six_digits s \<longleftrightarrow> list_all (\<lambda>f. isdigit (at s f)) [0..<6]"

definition field_D :: "string option \<Rightarrow> mvalue parse" where
  "field_D field = (if present field then
       let s = the field in
       if six_digits s then Value (MDate (two_digits s 0) (two_digits s 2) (two_digits s 4)) else Failed
     else Value (MDate (- 1) (- 1) (- 1)))"

text \<open>The microseconds of a fractional second: at most six digits count.\<close>

fun fraction :: "int \<Rightarrow> int \<Rightarrow> string \<Rightarrow> int" where
  "fraction v scale [] = v * scale"
| "fraction v scale (c # cs) = (if isdigit c \<and> scale > 1 then fraction (v * 10 + digit c) (scale div 10) cs else v * scale)"

definition field_T :: "string option \<Rightarrow> mvalue parse" where
  "field_T field = (if present field then
       let s = the field in
       if six_digits s then Value (MTime (two_digits s 0) (two_digits s 2) (two_digits s 4)
           (if at s 6 = CHR ''.'' then fraction 0 1000000 (drop 7 s) else 0))
       else Failed
     else Value (MTime (- 1) (- 1) (- 1) (- 1)))"

text \<open>The \<open>switch(type)\<close>; an ignored field has no value.\<close>

definition scan_field :: "char \<Rightarrow> string option \<Rightarrow> mvalue list parse" where
  "scan_field ty field = (
     if ty = CHR ''_'' then Value []
     else case (if ty = CHR ''c'' then field_c field
       else if ty = CHR ''d'' then field_d field
       else if ty = CHR ''f'' then field_f field
       else if ty = CHR ''i'' then field_i field
       else if ty = CHR ''s'' then field_s field
       else if ty = CHR ''t'' then field_t field
       else if ty = CHR ''D'' then field_D field
       else if ty = CHR ''T'' then field_T field
       else Failed) of
         Value v \<Rightarrow> Value [v] | Failed \<Rightarrow> Failed | Undefined \<Rightarrow> Undefined)"

section \<open>Scanning\<close>

text \<open>\<open>next_field()\<close>: where the scan is, and the next field if there is one.\<close>

definition next_field :: "string \<Rightarrow> string \<times> string option" where
  "next_field s = (let s = dropWhile minmea_isfield s in
     if at s 0 = CHR '','' then (tl s, Some (tl s)) else (s, None))"

fun scan_loop :: "string \<Rightarrow> string \<Rightarrow> string option \<Rightarrow> bool \<Rightarrow> mvalue list parse" where
  "scan_loop [] s field optional = Value []"
| "scan_loop (ty # format) s field optional =
     (if ty = CHR '';'' then scan_loop format s field True
      else if field = None \<and> \<not> optional then Failed
      else case scan_field ty field of
          Failed \<Rightarrow> Failed
        | Undefined \<Rightarrow> Undefined
        | Value vs \<Rightarrow> (let (s, field) = next_field s in
            case scan_loop format s field optional of
              Value ws \<Rightarrow> Value (vs @ ws) | Failed \<Rightarrow> Failed | Undefined \<Rightarrow> Undefined))"

definition minmea_scan :: "string \<Rightarrow> string \<Rightarrow> mvalue list parse" where
  "minmea_scan sentence format = scan_loop format sentence (Some sentence) False"

section \<open>Sentences\<close>

datatype sentence_id = MINMEA_INVALID | MINMEA_UNKNOWN | SENTENCE_RMC | SENTENCE_GGA | SENTENCE_GSA | SENTENCE_GLL
  | SENTENCE_GST | SENTENCE_GSV | SENTENCE_VTG | SENTENCE_ZDA

text \<open>Value and scale; hours, minutes, seconds, microseconds; day, month, year.\<close>

type_synonym mfloat = "int \<times> int"
type_synonym mtime = "int \<times> int \<times> int \<times> int"
type_synonym mdate = "int \<times> int \<times> int"

text \<open>What was stored through the \<open>i\<close>-th pointer.\<close>

definition float_at :: "mvalue list \<Rightarrow> nat \<Rightarrow> mfloat" where
  "float_at vs i = (case vs ! i of MFloat v c \<Rightarrow> (v, c) | _ \<Rightarrow> (0, 0))"

definition int_at :: "mvalue list \<Rightarrow> nat \<Rightarrow> int" where
  "int_at vs i = (case vs ! i of MInt v \<Rightarrow> v | MDir v \<Rightarrow> v | _ \<Rightarrow> 0)"

definition char_at :: "mvalue list \<Rightarrow> nat \<Rightarrow> char" where
  "char_at vs i = (case vs ! i of MChar c \<Rightarrow> c | _ \<Rightarrow> NUL)"

definition type_at :: "mvalue list \<Rightarrow> nat \<Rightarrow> string" where
  "type_at vs i = (case vs ! i of MType t \<Rightarrow> t | _ \<Rightarrow> [])"

definition time_at :: "mvalue list \<Rightarrow> nat \<Rightarrow> mtime" where
  "time_at vs i = (case vs ! i of MTime h m s u \<Rightarrow> (h, m, s, u) | _ \<Rightarrow> (0, 0, 0, 0))"

definition date_at :: "mvalue list \<Rightarrow> nat \<Rightarrow> mdate" where
  "date_at vs i = (case vs ! i of MDate d m y \<Rightarrow> (d, m, y) | _ \<Rightarrow> (0, 0, 0))"

text \<open>\<open>frame->latitude.value *= latitude_direction\<close>\<close>

definition directed :: "mfloat \<Rightarrow> int \<Rightarrow> mfloat" where
  "directed f d = (fst f * d, snd f)"

text \<open>\<open>minmea_scan\<close> and the comparison of the type; then the frame from the values.\<close>

definition parse_as :: "string \<Rightarrow> string \<Rightarrow> (mvalue list \<Rightarrow> 'a parse) \<Rightarrow> string \<Rightarrow> 'a parse" where
  "parse_as ty format build sentence = (case minmea_scan sentence format of
       Failed \<Rightarrow> Failed
     | Undefined \<Rightarrow> Undefined
     | Value vs \<Rightarrow> if drop 2 (type_at vs 0) \<noteq> ty then Failed else build vs)"

definition minmea_talker_id :: "string \<Rightarrow> string parse" where
  "minmea_talker_id sentence = (case minmea_scan sentence ''t'' of
     Value vs \<Rightarrow> Value (take 2 (type_at vs 0)) | Failed \<Rightarrow> Failed | Undefined \<Rightarrow> Undefined)"

definition minmea_sentence_id :: "string \<Rightarrow> bool \<Rightarrow> sentence_id" where
  "minmea_sentence_id sentence strict = (
     if \<not> minmea_check sentence strict then MINMEA_INVALID
     else case minmea_scan sentence ''t'' of
       Value vs \<Rightarrow> (let t = drop 2 (type_at vs 0) in
         if t = ''RMC'' then SENTENCE_RMC
         else if t = ''GGA'' then SENTENCE_GGA
         else if t = ''GSA'' then SENTENCE_GSA
         else if t = ''GLL'' then SENTENCE_GLL
         else if t = ''GST'' then SENTENCE_GST
         else if t = ''GSV'' then SENTENCE_GSV
         else if t = ''VTG'' then SENTENCE_VTG
         else if t = ''ZDA'' then SENTENCE_ZDA
         else MINMEA_UNKNOWN)
     | _ \<Rightarrow> MINMEA_INVALID)"

record sentence_rmc =
  rmc_time :: mtime
  rmc_valid :: bool
  rmc_latitude :: mfloat
  rmc_longitude :: mfloat
  rmc_speed :: mfloat
  rmc_course :: mfloat
  rmc_date :: mdate
  rmc_variation :: mfloat

definition minmea_parse_rmc :: "string \<Rightarrow> sentence_rmc parse" where
  "minmea_parse_rmc = parse_as ''RMC'' ''tTcfdfdffDfd'' (\<lambda>vs. Value \<lparr>
     rmc_time = time_at vs 1,
     rmc_valid = (char_at vs 2 = CHR ''A''),
     rmc_latitude = directed (float_at vs 3) (int_at vs 4),
     rmc_longitude = directed (float_at vs 5) (int_at vs 6),
     rmc_speed = float_at vs 7,
     rmc_course = float_at vs 8,
     rmc_date = date_at vs 9,
     rmc_variation = directed (float_at vs 10) (int_at vs 11)\<rparr>)"

record sentence_gga =
  gga_time :: mtime
  gga_latitude :: mfloat
  gga_longitude :: mfloat
  gga_fix_quality :: int
  gga_satellites_tracked :: int
  gga_hdop :: mfloat
  gga_altitude :: mfloat
  gga_altitude_units :: char
  gga_height :: mfloat
  gga_height_units :: char

text \<open>The last pointer given, \<open>dgps_age\<close>, belongs to the ignored field: nothing is stored through it.\<close>

definition minmea_parse_gga :: "string \<Rightarrow> sentence_gga parse" where
  "minmea_parse_gga = parse_as ''GGA'' ''tTfdfdiiffcfcf_'' (\<lambda>vs. Value \<lparr>
     gga_time = time_at vs 1,
     gga_latitude = directed (float_at vs 2) (int_at vs 3),
     gga_longitude = directed (float_at vs 4) (int_at vs 5),
     gga_fix_quality = int_at vs 6,
     gga_satellites_tracked = int_at vs 7,
     gga_hdop = float_at vs 8,
     gga_altitude = float_at vs 9,
     gga_altitude_units = char_at vs 10,
     gga_height = float_at vs 11,
     gga_height_units = char_at vs 12\<rparr>)"

record sentence_gsa =
  gsa_mode :: char
  gsa_fix_type :: int
  gsa_sats :: "int list"
  gsa_pdop :: mfloat
  gsa_hdop :: mfloat
  gsa_vdop :: mfloat

definition minmea_parse_gsa :: "string \<Rightarrow> sentence_gsa parse" where
  "minmea_parse_gsa = parse_as ''GSA'' ''tciiiiiiiiiiiiifff'' (\<lambda>vs. Value \<lparr>
     gsa_mode = char_at vs 1,
     gsa_fix_type = int_at vs 2,
     gsa_sats = map (int_at vs) [3..<15],
     gsa_pdop = float_at vs 15,
     gsa_hdop = float_at vs 16,
     gsa_vdop = float_at vs 17\<rparr>)"

record sentence_gll =
  gll_latitude :: mfloat
  gll_longitude :: mfloat
  gll_time :: mtime
  gll_status :: char
  gll_mode :: char

definition minmea_parse_gll :: "string \<Rightarrow> sentence_gll parse" where
  "minmea_parse_gll = parse_as ''GLL'' ''tfdfdTc;c'' (\<lambda>vs. Value \<lparr>
     gll_latitude = directed (float_at vs 1) (int_at vs 2),
     gll_longitude = directed (float_at vs 3) (int_at vs 4),
     gll_time = time_at vs 5,
     gll_status = char_at vs 6,
     gll_mode = char_at vs 7\<rparr>)"

record sentence_gst =
  gst_time :: mtime
  gst_deviations :: "mfloat list"

text \<open>The seven deviations in the order of the structure.\<close>

definition minmea_parse_gst :: "string \<Rightarrow> sentence_gst parse" where
  "minmea_parse_gst = parse_as ''GST'' ''tTfffffff'' (\<lambda>vs. Value \<lparr>
     gst_time = time_at vs 1,
     gst_deviations = map (float_at vs) [2..<9]\<rparr>)"

record sentence_gsv =
  gsv_total_msgs :: int
  gsv_msg_nr :: int
  gsv_total_sats :: int
  gsv_sats :: "(int \<times> int \<times> int \<times> int) list"

definition minmea_parse_gsv :: "string \<Rightarrow> sentence_gsv parse" where
  "minmea_parse_gsv = parse_as ''GSV'' ''tiii;iiiiiiiiiiiiiiii'' (\<lambda>vs. Value \<lparr>
     gsv_total_msgs = int_at vs 1,
     gsv_msg_nr = int_at vs 2,
     gsv_total_sats = int_at vs 3,
     gsv_sats = map (\<lambda>k. (int_at vs (4 * k), int_at vs (4 * k + 1), int_at vs (4 * k + 2), int_at vs (4 * k + 3))) [1..<5]\<rparr>)"

record sentence_vtg =
  vtg_true_track_degrees :: mfloat
  vtg_magnetic_track_degrees :: mfloat
  vtg_speed_knots :: mfloat
  vtg_speed_kph :: mfloat
  vtg_faa_mode :: char

definition minmea_parse_vtg :: "string \<Rightarrow> sentence_vtg parse" where
  "minmea_parse_vtg = parse_as ''VTG'' ''tfcfcfcfc;c'' (\<lambda>vs.
     if char_at vs 2 \<noteq> CHR ''T'' \<or> char_at vs 4 \<noteq> CHR ''M'' \<or> char_at vs 6 \<noteq> CHR ''N'' \<or> char_at vs 8 \<noteq> CHR ''K''
     then Failed
     else Value \<lparr>
       vtg_true_track_degrees = float_at vs 1,
       vtg_magnetic_track_degrees = float_at vs 3,
       vtg_speed_knots = float_at vs 5,
       vtg_speed_kph = float_at vs 7,
       vtg_faa_mode = char_at vs 9\<rparr>)"

record sentence_zda =
  zda_time :: mtime
  zda_date :: mdate
  zda_hour_offset :: int
  zda_minute_offset :: int

text \<open>\<open>abs\<close> of the least \<open>int\<close> is undefined.\<close>

definition minmea_parse_zda :: "string \<Rightarrow> sentence_zda parse" where
  "minmea_parse_zda = parse_as ''ZDA'' ''tTiiiii'' (\<lambda>vs.
     if int_at vs 5 = - 2147483648 then Undefined
     else if \<bar>int_at vs 5\<bar> > 13 \<or> int_at vs 6 > 59 \<or> int_at vs 6 < 0 then Failed
     else Value \<lparr>
       zda_time = time_at vs 1,
       zda_date = (int_at vs 2, int_at vs 3, int_at vs 4),
       zda_hour_offset = int_at vs 5,
       zda_minute_offset = int_at vs 6\<rparr>)"

text \<open>
  \<open>minmea_gettime\<close>: year since 1900, month from 0, day, hour, minute, second; a year of two digits is in
  1980 to 2079. \<open>month - 1\<close> may overflow, as \<open>ZDA\<close> takes any \<open>int\<close> for a month.
\<close>

definition minmea_gettime :: "mdate \<Rightarrow> mtime \<Rightarrow> (int \<times> int \<times> int \<times> int \<times> int \<times> int) parse" where
  "minmea_gettime d t = (case d of (day, month, year) \<Rightarrow> case t of (hours, minutes, seconds, micro) \<Rightarrow>
     if year = - 1 \<or> hours = - 1 then Failed
     else if month = - 2147483648 then Undefined
     else Value (if year < 80 then 2000 + year - 1900 else if year \<ge> 1900 then year - 1900 else year,
       month - 1, day, hours, minutes, seconds))"

section \<open>The checksum\<close>

lemma xor_bytes_from: "foldl (XOR) a (bytes_of s) = a XOR xor_bytes s"
proof (induction s arbitrary: a)
  case (Cons c s)
  from Cons [of "a XOR word_of_nat (of_char c)"] Cons [of "word_of_nat (of_char c)"] show ?case
    by (simp add: bytes_of_def xor_bytes_def ac_simps)
qed (simp add: bytes_of_def xor_bytes_def)

lemma xor_bytes_Cons: "xor_bytes (c # s) = word_of_nat (of_char c) XOR xor_bytes s"
  using xor_bytes_from [of "word_of_nat (of_char c)" s] by (simp add: xor_bytes_def bytes_of_def)

lemma xor_bytes_append: "xor_bytes (s @ t) = xor_bytes s XOR xor_bytes t"
  by (induction s) (simp_all add: xor_bytes_Cons xor.assoc, simp add: xor_bytes_def bytes_of_def)

lemma hex_of_digit:
  assumes "n < 16"
  shows "hex2int (hex_digit n) = int n"
proof -
  have "of_char (char_of k :: char) = k" if "k < 256" for k :: nat using that by (simp add: of_char_of)
  with assms show ?thesis by (auto simp: hex2int_def hex_digit_def Let_def)
qed

text \<open>What comes behind a star is compared with the bytes between the dollar and the star.\<close>

lemma check_star:
  assumes "list_all (\<lambda>c. isprint c \<and> c \<noteq> CHR ''*'') body" "length body + 4 + length rest \<le> 83"
  shows "minmea_check (CHR ''$'' # body @ CHR ''*'' # hex2 k @ rest) strict \<longleftrightarrow> xor_bytes body = k"
proof -
  have t: "takeWhile (\<lambda>c. c \<noteq> CHR ''*'' \<and> isprint c) (body @ CHR ''*'' # hex2 k @ rest) = body"
    "dropWhile (\<lambda>c. c \<noteq> CHR ''*'' \<and> isprint c) (body @ CHR ''*'' # hex2 k @ rest) = CHR ''*'' # hex2 k @ rest"
    using assms(1) by (induction body) auto
  have k: "unat k < 256" using unsigned_less [of k] by simp
  have "hex2int (hex_digit (unat k div 16)) = int (unat k div 16)" "hex2int (hex_digit (unat k mod 16)) = int (unat k mod 16)"
    using k by (auto intro!: hex_of_digit)
  moreover have "int (unat k div 16) * 16 + int (unat k mod 16) = uint k"
    by (simp add: zdiv_int zmod_int)
  ultimately have "minmea_check (CHR ''$'' # body @ CHR ''*'' # hex2 k @ rest) strict \<longleftrightarrow> uint (xor_bytes body) = uint k"
    using assms(2) t by (simp add: minmea_check_def Let_def at_def hex2_def)
  then show ?thesis by (simp add: word_uint_eq_iff)
qed



section \<open>Fields between commas\<close>

text \<open>The words of a sentence, and its fields read from them one by one.\<close>

fun commas :: "string list \<Rightarrow> string" where
  "commas [] = []"
| "commas [w] = w"
| "commas (w # ws) = w @ CHR '','' # commas ws"

fun scan_words :: "string \<Rightarrow> string list \<Rightarrow> bool \<Rightarrow> mvalue list parse" where
  "scan_words [] ws optional = Value []"
| "scan_words (ty # format) ws optional =
     (if ty = CHR '';'' then scan_words format ws True
      else if ws = [] \<and> \<not> optional then Failed
      else case scan_field ty (case ws of [] \<Rightarrow> None | w # _ \<Rightarrow> Some w) of
          Failed \<Rightarrow> Failed
        | Undefined \<Rightarrow> Undefined
        | Value vs \<Rightarrow> (case scan_words format (tl ws) optional of
              Value us \<Rightarrow> Value (vs @ us) | Failed \<Rightarrow> Failed | Undefined \<Rightarrow> Undefined))"

text \<open>What may follow a field.\<close>

definition ends_field :: "string \<Rightarrow> bool" where
  "ends_field e \<longleftrightarrow> e = [] \<or> hd e = CHR '','' \<or> hd e = CHR ''*''"

lemma end_char:
  assumes "ends_field e"
  shows "\<not> minmea_isfield (at e 0)" "\<not> isdigit (at e 0)" "\<not> isspace (at e 0)" "at e 0 \<noteq> CHR ''-''"
    "at e 0 \<noteq> CHR ''+''" "at e 0 \<noteq> CHR ''$''" "at e 0 \<noteq> CHR ''.''"
  using assms by (cases e; auto simp: ends_field_def at_def minmea_isfield_def isprint_def isdigit_def isspace_def NUL_def)+

lemma at_append: "at (w @ e) i = (if i < length w then at w i else at e (i - length w))"
  by (auto simp: at_def nth_append)

lemma at_beyond: "length w \<le> i \<Longrightarrow> at w i = NUL"
  by (simp add: at_def)

lemma NUL_chars: "\<not> minmea_isfield NUL" "\<not> isdigit NUL" "NUL \<noteq> CHR ''.''" "NUL \<noteq> CHR ''-''" "NUL \<noteq> CHR ''+''" "NUL \<noteq> CHR ''$''"
  by (simp_all add: minmea_isfield_def isprint_def isdigit_def NUL_def)

lemma first_append: "ends_field e \<Longrightarrow> minmea_isfield (at (w @ e) 0) \<longleftrightarrow> minmea_isfield (at w 0)"
  by (cases w) (auto simp: at_append at_beyond NUL_chars end_char)

lemma present_append: "ends_field e \<Longrightarrow> present (Some (w @ e)) \<longleftrightarrow> present (Some w)"
  by (simp add: present_def first_append)

lemma present_at: "present (Some w) \<Longrightarrow> at (w @ e) 0 = at w 0"
  by (cases w) (auto simp: present_def at_append at_beyond NUL_chars)

lemma scan_f_append: "ends_field e \<Longrightarrow> scan_f sign v scale (w @ e) = scan_f sign v scale w"
proof (induction w arbitrary: sign v scale)
  case Nil
  then show ?case using end_char(1) [of e] by (cases e) simp_all
next
  case (Cons c cs)
  then show ?case by (simp only: append_Cons scan_f.simps)
qed

lemma while_append:
  assumes "\<not> P (at e 0) \<or> e = []"
  shows "takeWhile P (w @ e) = takeWhile P w" "dropWhile P (w @ e) = dropWhile P w @ e"
  using assms by (induction w) (cases e; simp add: at_def)+

lemma strtol_append:
  assumes "ends_field e"
  shows "fst (strtol (w @ e)) = fst (strtol w) \<and> snd (strtol (w @ e)) = snd (strtol w) @ e"
proof -
  define t where "t = dropWhile isspace w"
  have t: "dropWhile isspace (w @ e) = t @ e" using while_append(2) end_char(3) [OF assms] by (simp add: t_def)
  have sg: "(at (t @ e) 0 = c) = (at t 0 = c)" if "c = CHR ''-'' \<or> c = CHR ''+''" for c
    using that end_char(4,5) [OF assms] by (cases t) (auto simp: at_append at_beyond NUL_def)
  have tl: "at t 0 = CHR ''-'' \<or> at t 0 = CHR ''+'' \<Longrightarrow> tl (t @ e) = tl t @ e" by (cases t) (auto simp: at_beyond NUL_def)
  have w: "takeWhile isdigit (u @ e) = takeWhile isdigit u" "dropWhile isdigit (u @ e) = dropWhile isdigit u @ e" for u
    using while_append end_char(2) [OF assms] by blast+
  show ?thesis
    unfolding strtol_def t t_def [symmetric] Let_def sg [of "CHR ''-''", simplified] sg [of "CHR ''+''", simplified]
    using tl by (cases "at t 0 = CHR ''-'' \<or> at t 0 = CHR ''+''") (auto simp: w)
qed

lemma fraction_append: "ends_field e \<Longrightarrow> fraction v scale (w @ e) = fraction v scale w"
proof (induction v scale w rule: fraction.induct)
  case (1 v scale)
  then show ?case using end_char(2) [of e] by (cases e) (simp_all add: at_def)
qed simp

lemma six_append: "ends_field e \<Longrightarrow> six_digits (w @ e) = six_digits w"
proof (cases "length w < 6")
  case True
  assume e: "ends_field e"
  have "\<not> isdigit (at (w @ e) (length w))" "\<not> isdigit (at w (length w))"
    using end_char(2) [OF e] by (simp_all add: at_append at_beyond NUL_chars)
  moreover have "length w \<in> set [0..<6]" using True by simp
  ultimately show ?thesis unfolding six_digits_def list_all_iff by blast
qed (simp add: six_digits_def list_all_iff at_append)

lemma six_length: "six_digits w \<Longrightarrow> 6 \<le> length w"
  by (rule ccontr) (auto simp: six_digits_def list_all_iff at_beyond NUL_chars dest!: bspec [of _ _ "length w"])

lemma two_append: "i + 1 < length w \<Longrightarrow> two_digits (w @ e) i = two_digits w i"
  by (simp add: two_digits_def at_append)

lemma field_t_append: "ends_field e \<Longrightarrow> field_t (Some (w @ e)) = field_t (Some w)"
proof -
  assume e: "ends_field e"
  let ?P = "\<lambda>s. list_all (\<lambda>f. minmea_isfield (at s (1 + f))) [0..<5]"
  consider "w = []" | "w \<noteq> []" "length w < 6" | "6 \<le> length w" by linarith
  then show ?thesis
  proof cases
    case 1
    then show ?thesis using end_char(6) [OF e] by (simp add: field_t_def at_beyond NUL_chars)
  next
    case 2
    have "\<not> minmea_isfield (at (w @ e) (length w))" "\<not> minmea_isfield (at w (length w))"
      using end_char(1) [OF e] by (simp_all add: at_append at_beyond NUL_chars)
    moreover have "length w - 1 \<in> set [0..<5]" "1 + (length w - 1) = length w" using 2 by auto
    ultimately have "\<not> ?P (w @ e)" "\<not> ?P w" unfolding list_all_iff by metis+
    moreover have "at (w @ e) 0 = at w 0" using 2 by (simp add: at_append)
    ultimately show ?thesis by (simp add: field_t_def)
  next
    case 3
    then have "?P (w @ e) = ?P w" by (simp add: list_all_iff at_append)
    moreover have "at (w @ e) 0 = at w 0" "take 5 (drop 1 (w @ e)) = take 5 (drop 1 w)" using 3 by (auto simp: at_append)
    ultimately show ?thesis by (simp add: field_t_def)
  qed
qed

text \<open>A field is read from its own characters only.\<close>

lemma field_local:
  assumes "ends_field e"
  shows "scan_field ty (Some (w @ e)) = scan_field ty (Some w)"
proof -
  note p = present_append [OF assms, of w] and pa = present_at [of w e]
  have c: "field_c (Some (w @ e)) = field_c (Some w)" using p pa by (auto simp: field_c_def)
  have d: "field_d (Some (w @ e)) = field_d (Some w)" using p pa by (auto simp: field_d_def)
  have f: "field_f (Some (w @ e)) = field_f (Some w)" using scan_f_append [OF assms] by (simp add: field_f_def)
  have i: "field_i (Some (w @ e)) = field_i (Some w)"
    using strtol_append [OF assms, of w] first_append [OF assms, of "snd (strtol w)"]
    by (auto simp: field_i_def split_beta Let_def)
  have s: "field_s (Some (w @ e)) = field_s (Some w)"
    using while_append(1) end_char(1) [OF assms] by (simp add: field_s_def)
  note six = six_append [OF assms, of w]
  have D: "field_D (Some (w @ e)) = field_D (Some w)"
    using p six six_length [of w] by (auto simp: field_D_def Let_def two_append)
  have "(if at (w @ e) 6 = CHR ''.'' then fraction 0 1000000 (drop 7 (w @ e)) else 0) =
      (if at w 6 = CHR ''.'' then fraction 0 1000000 (drop 7 w) else 0)" if "6 \<le> length w"
  proof (cases "length w = 6")
    case True
    then show ?thesis using end_char(7) [OF assms] by (simp add: at_append at_beyond NUL_chars)
  next
    case False
    with that show ?thesis using fraction_append [OF assms] by (simp add: at_append)
  qed
  then have T: "field_T (Some (w @ e)) = field_T (Some w)"
    using p six six_length [of w] unfolding field_T_def by (auto simp: Let_def two_append)
  show ?thesis unfolding scan_field_def c d f i s D T field_t_append [OF assms] ..
qed

lemma next_field_append:
  assumes "list_all minmea_isfield w" "ends_field e"
  shows "next_field (w @ e) = (if at e 0 = CHR '','' then (tl e, Some (tl e)) else (e, None))"
proof -
  have "dropWhile minmea_isfield (w @ e) = e"
    using assms(1) end_char(1) [OF assms(2)] by (induction w) (cases e; simp add: at_def)+
  then show ?thesis by (simp add: next_field_def Let_def)
qed

lemma scan_loop_words:
  assumes "list_all (list_all minmea_isfield) ws" "e = [] \<or> hd e = CHR ''*''"
  shows "scan_loop format (commas ws @ e) (if ws = [] then None else Some (commas ws @ e)) optional =
    scan_words format ws optional"
  using assms(1)
proof (induction format arbitrary: ws optional)
  case (Cons ty format)
  have e: "ends_field e" "at e 0 \<noteq> CHR '',''" using assms(2) by (cases e; auto simp: ends_field_def NUL_def)+
  show ?case
  proof (cases ws)
    case Nil
    then have "next_field (commas ws @ e) = (e, None)" using next_field_append [of "[]" e] e by simp
    with Nil Cons.IH [of "[]"] show ?thesis by (simp split: parse.split)
  next
    case w: (Cons w ws')
    show ?thesis
    proof (cases ws')
      case Nil
      have "next_field (commas ws @ e) = (e, None)" using next_field_append [of w e] e w Nil Cons.prems by simp
      with w Nil Cons.IH [of "[]"] Cons.IH [of ws True] Cons.prems field_local [OF e(1), of ty w] show ?thesis
        by (simp split: parse.split)
    next
      case v: (Cons v vs)
      let ?r = "CHR '','' # commas ws' @ e"
      have r: "ends_field ?r" by (simp add: ends_field_def)
      have s: "commas ws @ e = w @ ?r" using w v by simp
      have "next_field (w @ ?r) = (commas ws' @ e, Some (commas ws' @ e))"
        using next_field_append [OF _ r, of w] w Cons.prems by (simp add: at_def)
      with w v Cons.IH [of ws'] Cons.IH [of ws True] Cons.prems field_local [OF r, of ty w] show ?thesis
        unfolding s by (simp split: parse.split)
    qed
  qed
qed simp

lemma minmea_scan_words: "ws \<noteq> [] \<Longrightarrow> list_all (list_all minmea_isfield) ws \<Longrightarrow> e = [] \<or> hd e = CHR ''*'' \<Longrightarrow>
  minmea_scan (commas ws @ e) format = scan_words format ws False"
  using scan_loop_words [of ws e format False] by (simp add: minmea_scan_def)

text \<open>
  C37: The scanner, which walks one pointer from comma to comma and lets every field's reader run on from another,
  reads a sentence as if it had first been cut at its commas: for a sentence of any words of printable
  characters, ended by the star of the checksum or the end of the string, and any format, the result is that of
  reading each word by itself, fields that are missing included.
\<close>

theorem scan_is_by_words:
  assumes "ws \<noteq> []" "list_all (list_all minmea_isfield) ws" "e = [] \<or> hd e = CHR ''*''"
  shows "minmea_scan (commas ws @ e) format = scan_words format ws False"
  by (rule minmea_scan_words [OF assms])

theorem scan_is_by_words_witness:
  "minmea_scan (commas [''$GPGLL'', ''4916.45'', ''N'', ''12311.12'', ''W''] @ ''*31'') ''tfdfd;c'' =
    scan_words ''tfdfd;c'' [''$GPGLL'', ''4916.45'', ''N'', ''12311.12'', ''W''] False"
  by (rule scan_is_by_words) (simp_all add: minmea_isfield_def isprint_def)

section \<open>Numbers\<close>

lemma digit_char:
  assumes "isdigit c"
  shows "minmea_isfield c" "c \<noteq> CHR ''+''" "c \<noteq> CHR ''-''" "c \<noteq> CHR ''.''" "0 \<le> digit c" "digit c \<le> 9"
  using assms by (auto simp: isdigit_def minmea_isfield_def isprint_def digit_def)

lemma digits_val_mono: "list_all isdigit ds \<Longrightarrow> 0 \<le> v \<Longrightarrow> v \<le> digits_val v ds"
proof (induction ds arbitrary: v)
  case (Cons c ds)
  with digit_char(5) [of c] have "v \<le> 10 * v + digit c" "0 \<le> 10 * v + digit c" by auto
  with Cons.IH [of "10 * v + digit c"] Cons.prems show ?case by simp
qed simp

lemma digits_val_append: "digits_val v (as @ bs) = digits_val (digits_val v as) bs"
  by (induction as arbitrary: v) simp_all

lemma scan_digit:
  assumes "isdigit c" "- 1 \<le> v" "10 * max 0 v + digit c \<le> 2147483647"
  shows "scan_f sign v scale (c # cs) = (if scale * 10 > 2147483647 then Undefined
    else scan_f sign (10 * max 0 v + digit c) (scale * 10) cs)"
proof -
  have "(if v = - 1 then 0 else v) = max 0 v" using assms(2) by auto
  moreover have "\<not> max 0 v > (2147483647 - digit c) div 10" using assms(3) by linarith
  ultimately show ?thesis using assms(1) digit_char(1-4) [OF assms(1)] by (simp add: Let_def)
qed

lemma scan_digits:
  assumes "list_all isdigit ds" "- 1 \<le> v" "ds = [] \<or> digits_val (max 0 v) ds \<le> 2147483647" "0 \<le> scale" "scale * 10 ^ length ds \<le> 2147483647"
  shows "scan_f sign v scale (ds @ rest) =
    scan_f sign (if ds = [] then v else digits_val (max 0 v) ds) (scale * 10 ^ length ds) rest"
  using assms
proof (induction ds arbitrary: v scale)
  case (Cons c ds)
  let ?v = "10 * max 0 v + digit c"
  have c: "isdigit c" "list_all isdigit ds" using Cons.prems(1) by simp_all
  have v: "0 \<le> ?v" using digit_char(5) [OF c(1)] by simp
  have le: "?v \<le> 2147483647" using digits_val_mono [OF c(2) v] Cons.prems(3) by simp
  have "scale * 10 * 1 \<le> scale * 10 * 10 ^ length ds" using Cons.prems(4) by (intro mult_left_mono) simp_all
  with Cons.prems(5) have sc: "scale * 10 \<le> 2147483647" "scale * 10 * 10 ^ length ds \<le> 2147483647" by simp_all
  have "scan_f sign v scale ((c # ds) @ rest) = scan_f sign ?v (scale * 10) (ds @ rest)"
    using scan_digit [OF c(1) Cons.prems(2) le] sc(1) by simp
  also have "\<dots> = scan_f sign (digits_val (max 0 v) (c # ds)) (scale * 10 ^ length (c # ds)) rest"
    using Cons.IH [OF c(2), of ?v "scale * 10"] v Cons.prems(3,4) sc(2) by (simp add: max_def mult.assoc)
  finally show ?case by simp
qed simp

text \<open>A decimal number in a sentence, its digits as an integer and the power of ten it is to be divided by.\<close>

definition decimal :: "string \<Rightarrow> int \<Rightarrow> int \<Rightarrow> bool" where
  "decimal w v c \<longleftrightarrow> (\<exists>as bs. w = as @ CHR ''.'' # bs \<and> as @ bs \<noteq> [] \<and> list_all isdigit as \<and> list_all isdigit bs \<and>
     v = digits_val 0 (as @ bs) \<and> v \<le> 2147483647 \<and> c = 10 ^ length bs \<and> length bs \<le> 9)"

lemma scan_decimal:
  assumes "decimal w v c"
  shows "scan_f sign (- 1) 0 w = Value (sign, v, c)" "0 \<le> v" "0 < c"
proof -
  from assms obtain as bs where w: "w = as @ CHR ''.'' # bs" "as @ bs \<noteq> []" "list_all isdigit as" "list_all isdigit bs"
    "v = digits_val 0 (as @ bs)" "v \<le> 2147483647" "c = 10 ^ length bs" "length bs \<le> 9" by (auto simp: decimal_def)
  have "(10 :: int) ^ length bs \<le> 10 ^ 9" using w(8) by (intro power_increasing) simp_all
  then have p: "(10 :: int) ^ length bs \<le> 2147483647" by simp
  let ?u = "if as = [] then - 1 else digits_val 0 as"
  have u: "0 \<le> digits_val 0 as" using digits_val_mono [OF w(3), of 0] by simp
  then have m: "max 0 ?u = digits_val 0 as" by simp
  have le: "digits_val 0 as \<le> 2147483647"
    using digits_val_mono [OF w(4) u] w(5,6) by (simp add: digits_val_append)
  have "scan_f sign (- 1) 0 w = scan_f sign ?u 0 (CHR ''.'' # bs)"
    using scan_digits [where ds = as and v = "- 1" and scale = 0 and sign = sign and rest = "CHR ''.'' # bs"] w(1,3) le
    by simp
  also have "\<dots> = scan_f sign ?u 1 (bs @ [])" by (simp add: minmea_isfield_def isprint_def isdigit_def)
  also have "\<dots> = scan_f sign (if bs = [] then ?u else digits_val (max 0 ?u) bs) (1 * 10 ^ length bs) []"
    using w(4-6) u p m by (intro scan_digits) (auto simp: digits_val_append)
  also have "(if bs = [] then ?u else digits_val (max 0 ?u) bs) = v"
    using w(2,5) m by (auto simp: digits_val_append)
  finally show "scan_f sign (- 1) 0 w = Value (sign, v, c)" using w(7) by simp
  show "0 \<le> v" "0 < c" using digits_val_mono [of "as @ bs" 0] w by simp_all
qed

lemma field_f_decimal: "decimal w v c \<Longrightarrow> field_f (Some w) = Value (MFloat v c)"
  using scan_decimal(1) [of w v c 0] scan_decimal(2) [of w v c] scan_decimal(3) [of w v c] by (simp add: field_f_def)

text \<open>
  A number is read exactly: the digits before and behind the point, with or without a sign in front, give the
  integer they spell and the power of ten of the digits behind the point, as long as that integer fits
  \<open>int_least32_t\<close> and there are at most nine digits behind the point.
\<close>

theorem float_exact:
  assumes "decimal w v c"
  shows "scan_field CHR ''f'' (Some w) = Value [MFloat v c] \<and>
    scan_field CHR ''f'' (Some (CHR ''-'' # w)) = Value [MFloat (- v) c] \<and>
    scan_field CHR ''f'' (Some (CHR ''+'' # w)) = Value [MFloat v c]"
proof -
  have "scan_f 0 (- 1) 0 (CHR ''-'' # w) = scan_f (- 1) (- 1) 0 w" "scan_f 0 (- 1) 0 (CHR ''+'' # w) = scan_f 1 (- 1) 0 w"
    by (simp_all add: minmea_isfield_def isprint_def)
  then show ?thesis using scan_decimal [OF assms] by (simp add: scan_field_def field_f_def)
qed

theorem float_exact_witness:
  "scan_field CHR ''f'' (Some ''3751.65'') = Value [MFloat 375165 100] \<and>
    scan_field CHR ''f'' (Some (CHR ''-'' # ''3751.65'')) = Value [MFloat (- 375165) 100] \<and>
    scan_field CHR ''f'' (Some (CHR ''+'' # ''3751.65'')) = Value [MFloat 375165 100]"
proof (rule float_exact)
  show "decimal ''3751.65'' 375165 100"
    unfolding decimal_def by (intro exI [of _ "''3751''"] exI [of _ "''65''"]) (simp add: isdigit_def digit_def)
qed

text \<open>
  But the scale has no such guard as the value: a number that begins \<open>0.0000000000\<close>, which a sentence of 80
  characters has room for, makes \<open>scale *= 10\<close> overflow.
\<close>

theorem float_scale_overflows:
  "scan_field CHR ''f'' (Some (''0.'' @ replicate (10 + n) CHR ''0'' @ rest)) = Undefined"
proof -
  have z: "isdigit CHR ''0''" "digit CHR ''0'' = 0" by (simp_all add: isdigit_def digit_def)
  have dz: "digits_val 0 (replicate k CHR ''0'') = 0" for k by (induction k) (simp_all add: z(2))
  have "scan_f 0 (- 1) 0 (''0.'' @ r) = scan_f 0 0 1 r" for r
    using scan_digit [OF z(1), of "- 1" 0 0 "CHR ''.'' # r"] by (simp add: z(2) minmea_isfield_def isprint_def isdigit_def)
  moreover have "scan_f 0 0 1 (replicate 9 CHR ''0'' @ r) = scan_f 0 0 1000000000 r" for r
    using scan_digits [where ds = "replicate 9 CHR ''0''" and v = 0 and scale = 1 and sign = 0 and rest = r] z dz
    by (simp add: list_all_length)
  moreover have "scan_f 0 0 1000000000 (CHR ''0'' # r) = Undefined" for r
    using scan_digit [OF z(1), of 0 0 1000000000 r] by (simp add: z(2))
  moreover have "replicate (10 + n) CHR ''0'' @ rest = replicate 9 CHR ''0'' @ CHR ''0'' # replicate n CHR ''0'' @ rest"
    by (simp add: numeral_eq_Suc)
  ultimately show ?thesis by (simp only: scan_field_def field_f_def) simp
qed

section \<open>A position\<close>

lemma decimal_field: "decimal w v c \<Longrightarrow> list_all minmea_isfield w"
proof -
  assume "decimal w v c"
  moreover have "list_all isdigit s \<Longrightarrow> list_all minmea_isfield s" for s by (simp add: list_all_iff digit_char)
  ultimately show ?thesis by (auto simp: decimal_def) (simp_all add: minmea_isfield_def isprint_def)
qed

lemma six_field: "length w = 6 \<Longrightarrow> list_all isdigit w \<Longrightarrow>
  list_all minmea_isfield w \<and> six_digits w \<and> present (Some w) \<and> at w 6 = NUL"
  by (auto simp: list_all_length six_digits_def list_all_iff at_def present_def digit_char)

lemma field_printable: "list_all minmea_isfield w \<Longrightarrow> list_all (\<lambda>c. isprint c \<and> c \<noteq> CHR ''*'') w"
  by (auto simp: list_all_iff minmea_isfield_def)

lemma commas_printable:
  "list_all (list_all minmea_isfield) ws \<Longrightarrow> list_all (\<lambda>c. isprint c \<and> c \<noteq> CHR ''*'') (commas ws)"
  by (induction ws rule: commas.induct) (auto dest!: field_printable, simp_all add: isprint_def)

lemma gps_sentence_checks:
  assumes "list_all (\<lambda>c. isprint c \<and> c \<noteq> CHR ''*'') body" "length body \<le> 77"
  shows "minmea_check (gps_sentence (CHR ''$'' # body)) strict"
proof -
  have "gps_checksum (CHR ''$'' # body) = xor_bytes body" by (simp add: gps_checksum_def xor_bytes_def)
  then show ?thesis
    using check_star [OF assms(1), of crlf "xor_bytes body" strict] assms(2) by (simp add: gps_sentence_def crlf_def)
qed

text \<open>Each word by itself.\<close>

lemma field_words:
  "decimal w v c \<Longrightarrow> scan_field CHR ''f'' (Some w) = Value [MFloat v c]"
  "minmea_isfield a \<Longrightarrow> scan_field CHR ''c'' (Some [a]) = Value [MChar a]"
  "n \<in> {(CHR ''N'', 1), (CHR ''S'', - 1), (CHR ''E'', 1), (CHR ''W'', - 1)} \<Longrightarrow> scan_field CHR ''d'' (Some [fst n]) = Value [MDir (snd n)]"
  "length t = 6 \<Longrightarrow> list_all isdigit t \<Longrightarrow>
    scan_field CHR ''T'' (Some t) = Value [MTime (two_digits t 0) (two_digits t 2) (two_digits t 4) 0]"
  "length t = 6 \<Longrightarrow> list_all isdigit t \<Longrightarrow>
    scan_field CHR ''D'' (Some t) = Value [MDate (two_digits t 0) (two_digits t 2) (two_digits t 4)]"
  "scan_field CHR ''t'' (Some ''$GPRMC'') = Value [MType ''GPRMC'']"
proof -
  show "decimal w v c \<Longrightarrow> scan_field CHR ''f'' (Some w) = Value [MFloat v c]"
    by (simp add: scan_field_def field_f_decimal)
  show "minmea_isfield a \<Longrightarrow> scan_field CHR ''c'' (Some [a]) = Value [MChar a]"
    by (simp add: scan_field_def field_c_def present_def)
  show "n \<in> {(CHR ''N'', 1), (CHR ''S'', - 1), (CHR ''E'', 1), (CHR ''W'', - 1)} \<Longrightarrow> scan_field CHR ''d'' (Some [fst n]) = Value [MDir (snd n)]"
    by (auto simp: scan_field_def field_d_def present_def minmea_isfield_def isprint_def Let_def)
  show "length t = 6 \<Longrightarrow> list_all isdigit t \<Longrightarrow>
      scan_field CHR ''T'' (Some t) = Value [MTime (two_digits t 0) (two_digits t 2) (two_digits t 4) 0]"
    using six_field [of t] by (simp add: scan_field_def field_T_def Let_def NUL_chars)
  show "length t = 6 \<Longrightarrow> list_all isdigit t \<Longrightarrow>
      scan_field CHR ''D'' (Some t) = Value [MDate (two_digits t 0) (two_digits t 2) (two_digits t 4)]"
    using six_field [of t] by (simp add: scan_field_def field_D_def Let_def)
  show "scan_field CHR ''t'' (Some ''$GPRMC'') = Value [MType ''GPRMC'']"
    by (simp add: scan_field_def field_t_def at_def minmea_isfield_def isprint_def upt_rec)
qed

text \<open>
  C36: The position the GPS receiver sends arrives: a complete \<open>RMC\<close> sentence, with its checksum, of a time and a
  date of six digits, a status, and decimal numbers for latitude, longitude, speed, course and variation, passes
  the check, is known as \<open>RMC\<close>, and is parsed to just these values, south and west as negative numbers.
\<close>

theorem position_arrives:
  assumes "length t = 6" "list_all isdigit t" "length d = 6" "list_all isdigit d" "minmea_isfield a"
    and "decimal la lav lac" "decimal lo lov loc" "decimal sp spv spc" "decimal co cov coc" "decimal va vav vac"
    and "ns \<in> {(CHR ''N'', 1), (CHR ''S'', - 1)}" "ew \<in> {(CHR ''E'', 1), (CHR ''W'', - 1)}" "vd \<in> {(CHR ''E'', 1), (CHR ''W'', - 1)}"
    and "body = commas [''GPRMC'', t, [a], la, [fst ns], lo, [fst ew], sp, co, d, va, [fst vd]]" "length body \<le> 77"
  shows "minmea_sentence_id (gps_sentence (CHR ''$'' # body)) strict = SENTENCE_RMC \<and>
    minmea_parse_rmc (gps_sentence (CHR ''$'' # body)) = Value \<lparr>
      rmc_time = (two_digits t 0, two_digits t 2, two_digits t 4, 0), rmc_valid = (a = CHR ''A''),
      rmc_latitude = (lav * snd ns, lac), rmc_longitude = (lov * snd ew, loc), rmc_speed = (spv, spc),
      rmc_course = (cov, coc), rmc_date = (two_digits d 0, two_digits d 2, two_digits d 4),
      rmc_variation = (vav * snd vd, vac)\<rparr>"
proof -
  let ?tail = "[t, [a], la, [fst ns], lo, [fst ew], sp, co, d, va, [fst vd]]"
  let ?ws = "''$GPRMC'' # ?tail"
  let ?e = "CHR ''*'' # hex2 (gps_checksum (CHR ''$'' # body)) @ crlf"
  have dir: "list_all minmea_isfield [fst n]" if "n \<in> {(CHR ''N'', 1), (CHR ''S'', - 1), (CHR ''E'', 1), (CHR ''W'', - 1)}" for n :: "char \<times> int"
    using that by (auto simp: minmea_isfield_def isprint_def)
  have dirs: "ns \<in> {(CHR ''N'', 1), (CHR ''S'', - 1), (CHR ''E'', 1), (CHR ''W'', - 1)}"
    "ew \<in> {(CHR ''N'', 1), (CHR ''S'', - 1), (CHR ''E'', 1), (CHR ''W'', - 1)}"
    "vd \<in> {(CHR ''N'', 1), (CHR ''S'', - 1), (CHR ''E'', 1), (CHR ''W'', - 1)}" using assms(11-13) by auto
  have tail: "list_all (list_all minmea_isfield) ?tail"
    using six_field [OF assms(1,2)] six_field [OF assms(3,4)] assms(5) assms(6-10) [THEN decimal_field] dirs [THEN dir]
    by simp
  have ws: "list_all (list_all minmea_isfield) ?ws" "list_all (list_all minmea_isfield) (''GPRMC'' # ?tail)"
    using tail by (simp_all add: minmea_isfield_def isprint_def)
  have check: "minmea_check (gps_sentence (CHR ''$'' # body)) strict"
    by (rule gps_sentence_checks [OF _ assms(15)]) (use commas_printable [OF ws(2)] assms(14) in simp)
  have s: "gps_sentence (CHR ''$'' # body) = commas ?ws @ ?e" by (simp add: gps_sentence_def assms(14))
  have scan: "minmea_scan (gps_sentence (CHR ''$'' # body)) format = scan_words format ?ws False" for format
    unfolding s by (rule minmea_scan_words [OF _ ws(1)]) simp_all
  note f = field_words(1) [OF assms(6)] field_words(1) [OF assms(7)] field_words(1) [OF assms(8)] field_words(1) [OF assms(9)]
    field_words(1) [OF assms(10)] field_words(2) [OF assms(5)] field_words(3) [OF dirs(1)] field_words(3) [OF dirs(2)]
    field_words(3) [OF dirs(3)] field_words(4) [OF assms(1,2)] field_words(5) [OF assms(3,4)] field_words(6)
  have "minmea_scan (gps_sentence (CHR ''$'' # body)) ''t'' = Value [MType ''GPRMC'']"
    unfolding scan by (simp add: f)
  then have id: "minmea_sentence_id (gps_sentence (CHR ''$'' # body)) strict = SENTENCE_RMC"
    using check by (simp add: minmea_sentence_id_def type_at_def)
  have "minmea_scan (gps_sentence (CHR ''$'' # body)) ''tTcfdfdffDfd'' = Value [MType ''GPRMC'',
      MTime (two_digits t 0) (two_digits t 2) (two_digits t 4) 0, MChar a, MFloat lav lac, MDir (snd ns), MFloat lov loc,
      MDir (snd ew), MFloat spv spc, MFloat cov coc, MDate (two_digits d 0) (two_digits d 2) (two_digits d 4),
      MFloat vav vac, MDir (snd vd)]"
    unfolding scan by (simp add: f)
  with id show ?thesis
    by (simp add: minmea_parse_rmc_def parse_as_def type_at_def time_at_def char_at_def float_at_def int_at_def date_at_def
        directed_def)
qed

theorem position_arrives_witness:
  "minmea_sentence_id (gps_sentence (CHR ''$'' # ''GPRMC,081836,A,3751.65,S,14507.36,E,000.0,360.0,130998,011.3,E'')) True = SENTENCE_RMC \<and>
    minmea_parse_rmc (gps_sentence (CHR ''$'' # ''GPRMC,081836,A,3751.65,S,14507.36,E,000.0,360.0,130998,011.3,E'')) = Value \<lparr>
      rmc_time = (two_digits ''081836'' 0, two_digits ''081836'' 2, two_digits ''081836'' 4, 0), rmc_valid = (CHR ''A'' = CHR ''A''),
      rmc_latitude = (375165 * - 1, 100), rmc_longitude = (1450736 * 1, 100), rmc_speed = (0, 10),
      rmc_course = (3600, 10), rmc_date = (two_digits ''130998'' 0, two_digits ''130998'' 2, two_digits ''130998'' 4),
      rmc_variation = (113 * 1, 10)\<rparr>"
proof -
  have d: "decimal (as @ CHR ''.'' # bs) (digits_val 0 (as @ bs)) (10 ^ length bs)"
    if "as @ bs \<noteq> []" "list_all isdigit as" "list_all isdigit bs" "digits_val 0 (as @ bs) \<le> 2147483647" "length bs \<le> 9" for as bs
    using that unfolding decimal_def by blast
  show ?thesis
    using position_arrives [of "''081836''" "''130998''" "CHR ''A''" "''3751.65''" 375165 100 "''14507.36''" 1450736 100
        "''000.0''" 0 10 "''360.0''" 3600 10 "''011.3''" 113 10 "(CHR ''S'', - 1)" "(CHR ''E'', 1)" "(CHR ''E'', 1)"
        "''GPRMC,081836,A,3751.65,S,14507.36,E,000.0,360.0,130998,011.3,E''" True]
      d [of "''3751''" "''65''"] d [of "''14507''" "''36''"] d [of "''000''" "''0''"] d [of "''360''" "''0''"] d [of "''011''" "''3''"]
    by (simp add: isdigit_def digit_def minmea_isfield_def isprint_def)
qed

end
