(* ===== verification/Spec2Isabelle.thy ===== *)
theory Spec2Isabelle
  imports OListRef EndToEnd Xmega AvrShow Start Switches StmPass RtosList HalUart Minmea
begin

text \<open>
  A verification development for the truck controller: the programs of the four processors that run an old
  truck. Everything is translated from the C sources; the only things taken as given are what the
  operating system, the sockets, the pins and the display controller do, and each of these is an argument, a field of the state
  or a named assumption.

  \<^bold>\<open>The program.\<close> A TS-7200 board runs \<open>sched\<close> (\<open>src/thread_io/\<close>): nine POSIX threads that share a linked list of 40 output
  records, a table from inputs to outputs, a store of commands, a TCP connection to a client program and a serial line to the
  second board. Inputs and relays are the registers of two I/O cards. The second board, an STM32
  (\<open>src/STM32/Src/\<close>), runs FreeRTOS tasks: it scans the keypad, reads two thermometers, talks to an FPGA that measures
  the speeds, and exchanges frames with the TS-7200. An AVR (\<open>src/AVR_t6963/\<close>) draws text on a
  display, an XMEGA (\<open>src/XMEGA/\<close>) drives two LED displays with the engine and the road speed. \<open>init_db\<close> makes the database file
  from a table.

  \<^bold>\<open>How the parts interact.\<close> A switch changes a bit of an input register; \<open>monitor_input_task\<close> finds the change and calls \<open>set_output\<close>
  for every output that the table gives to the input; \<open>set_output\<close> changes the record, writes the relay and, for a
  stop switch, adds a command to the store. \<open>timer_task\<close> counts down the outputs that run for a
  time. A key travels from \<open>StartKeyStateTask\<close> over two queues, the serial line and \<open>serial_recv_task\<close> into the store, a command of the client
  over the socket and \<open>get_host_cmd_task\<close>; \<open>basic_controls_task\<close> takes commands from the store and switches. Temperatures and
  speeds go the other way, from the STM32 to the client.

  \<^bold>\<open>Conventions.\<close> An operation of the code is a function on a record of the state with the globals (and static locals) it uses; it returns
  an option whenever it can have undefined behaviour, and \<open>None\<close> is exactly that: an index outside an array, a dereference
  of \<open>NULL\<close> or of freed memory, a string that does not fit, an overflow of a signed number. So \<open>f s = Some s'\<close> in a theorem
  always includes that nothing of the kind happens. Integers have their width (\<open>UCHAR\<close> 8 bits, \<open>UINT\<close> 32 bits, 16 on the
  AVR and XMEGA) and wrap as in C; an \<open>int\<close> that only counts or indexes is an \<open>int\<close> whose bound is a branch. A buffer is
  a list of bytes with the length of the C array; what an uninitialised local holds is an argument. Output to the
  console, delays and sleeps are left out. Where threads or tasks interleave, there is an inductive step relation. A pointer
  into one buffer is an offset in it, a pointer of a linked structure an address in a store; how long a wait takes is an
  argument. A parser has three outcomes: a value, a refusal, or undefined behaviour.

  \<^bold>\<open>The theories, and what they model.\<close>
  \<^item> \<open>Prelude\<close>: bytes and words, checked arrays (\<open>aget\<close>, \<open>aset\<close>), C strings and numbers, the collections of rewrite rules
    (\<open>ub_defs\<close>, \<open>byte_simps\<close>, \<open>frame_simps\<close>), counting in lists.
  \<^item> \<open>Cmds\<close>: the commands of \<open>mytypes.h\<close> and the table \<open>cmd_array\<close>.
  \<^item> \<open>OList\<close>, \<open>OListRef\<close>: \<open>queue/ollist_threads_rw.c\<close> twice, as a heap of nodes and records and as a sorted association list; the
    second theory proves that the heap refines the list, and that the searches end. The tasks use the list.
  \<^item> \<open>RdWr\<close>: \<open>queue/rdwr.c\<close> as a step relation of threads: exclusion, and no lost wake-up.
  \<^item> \<open>IoPorts\<close>, \<open>Banks\<close>: \<open>ioports.c\<close>, the numbering of inputs and outputs, \<open>change_output\<close>, \<open>mask2int\<close>.
  \<^item> \<open>MsgQueue\<close>, \<open>HostLink\<close>: the command store, the framing on the socket, and the frames to the STM32.
  \<^item> \<open>Config\<close>, \<open>InitDb\<close>: \<open>cs_client/config_file.c\<close> and \<open>cs_client/init_db.c\<close>, the shipped table \<open>odata.csv\<close>, and the load of the file at the start of
    \<open>get_host_cmd_task\<close>.
  \<^item> \<open>Sched\<close>: the state the tasks share, and its invariant \<open>sched_ok\<close> (40 records, numbers as indices, shadow registers equal to the
    registers, lengths of the arrays, a table without doubles).
  \<^item> \<open>Outputs\<close>, \<open>Inputs\<close>, \<open>Timer\<close>, \<open>Controls\<close>, \<open>HostCmd\<close>, \<open>HostTime\<close>, \<open>SerialRecv\<close>, \<open>TcpMon\<close>: the tasks of \<open>tasks.c\<close> and \<open>cmd_tasks.c\<close>, one round of the
    loop of each as one function, every case of every \<open>switch\<close> included. \<open>Outputs\<close> gives \<open>set_output\<close> the specification \<open>output_spec\<close>.
  \<^item> \<open>System\<close>: all rounds of all tasks, and what the outside can do, as a step relation: the invariant and progress.
  \<^item> \<open>Start\<close>: \<open>main\<close> of \<open>sched.c\<close> and \<open>work_routine\<close>: creation of the threads, the barrier, the join, the exit code.
  \<^item> \<open>Stm\<close>, \<open>StmRecv\<close>, \<open>StmTemp\<close>: \<open>freertos.c\<close>, \<open>ds1620.c\<close> and \<open>ds1620_2.c\<close>: queues, keypad, senders, receivers, thermostat and thermometers.
  \<^item> \<open>RtosQueue\<close>, \<open>RtosWake\<close>, \<open>RtosList\<close>: what carries these tasks, from FreeRTOS: the ring buffers of \<open>queue.c\<close>, with the proof that the bounded
    lists of \<open>Stm\<close> are what they implement; receiving with waiting while tasks and interrupts send, as a step relation between the critical
    sections; and the lists of \<open>list.c\<close>, linked by pointers, that hold the waiting tasks.
  \<^item> \<open>HalUart\<close>: the serial line as \<open>stm32f1xx_hal_uart.c\<close> drives it: when reception is what \<open>StmRecv\<close> says, and what happens otherwise.
  \<^item> \<open>StmPass\<close>: \<open>check_password\<close> of \<open>freertos.c\<close>, which nothing calls in this version, against an automaton.
  \<^item> \<open>T6963\<close>, \<open>AvrLcd\<close>, \<open>AvrShow\<close>: the display: \<open>t6963.c\<close> down to the bus cycles, the labels of \<open>eeprom/main_burn.c\<close>, every command of the
    AVR's \<open>main.c\<close>, and what then stands on the screen. The controller itself is a specification (\<open>t6963_step\<close>) written from the
    comments of \<open>t6963.c\<close>.
  \<^item> \<open>Xmega\<close>: \<open>XMEGA/main.c\<close>: reception, decimal conversion, displays.
  \<^item> \<open>Minmea\<close>: \<open>minmea.c\<close>, the parser for the GPS receiver: checksum, scanner, all kinds of sentence.
  \<^item> \<open>EndToEnd\<close>, \<open>Switches\<close>: the parts put together: from a key to the relays, from the parameters of the server to the limits of the
    thermostat, from a thermometer or the FPGA to the client; and from the shipped table and a switch to the relays and the timer.

  \<^bold>\<open>The groups of lemmas.\<close> Every operation on the shared state keeps \<open>sched_ok\<close> (collections \<open>runs_rules\<close>, \<open>keeps_rules\<close>); the interfaces are locales,
    each interpreted on the model's own functions where they are defined: \<open>record_store\<close> (the database), \<open>bit_port\<close> (a port
    with a shadow; the cards and the numbers 0 to 39), \<open>cmd_store\<close> (the command store), \<open>message_queue\<close> (what the STM32's tasks rely on in a queue), \<open>stored_queue\<close> (a queue in memory, with its
    invariant; the ring buffers), \<open>bounded_steps\<close> (operations that keep an invariant and add at most so many commands). The properties, in the order C1 to C40, are about safety (the stop
    switch, the latch), the whole system (invariant, progress, start-up), function (each task, and end to end), refinement
    (list, \<open>set_output\<close>, display, ring buffer, event list, serial reception), waiting without a lost wake-up (threads and FreeRTOS tasks),
    round trips (files, parameters, sentences) and the places where the code fails (temperatures, torn messages). A property with assumptions has a witness: a concrete state in which they hold.

  \<^bold>\<open>Bounds.\<close> Loops with a count in the code recurse on the count. Loops that wait for something (the searches of the list, the receiver of
    \<open>serial_recv_task\<close>, the reading of the socket) take an amount of fuel or consume the list they read: the searches get a fuel
    that is proved to suffice on every well-formed list (and never to suffice on a list that runs into itself), the receivers stop when
    the bytes are used up. The command store has room for 49 commands; a theorem that adds commands says how many may already be there. The walk along a list of
    FreeRTOS, which may run round for ever, is a partial function, and is proved to end on every list the operations build. The lock
    count of a queue is an 8-bit number, so that queues are taken to have at most 127 items (this program's have 10 and 16).

  \<^bold>\<open>Not modelled.\<close> Mapping of registers, opening and configuring devices and sockets; \<open>lcd_func.c\<close> and what the TS-7200 would
    send to the display (\<open>send_lcd\<close> and \<open>myprintf\<close> return at once in this version), hence the GPS position and the
    distance (floating point), which \<open>LCD_serial_queue\<close> never reaches; of FreeRTOS the context switch, the delayed and ready lists beyond their list operations, the heap, and what this program does
    not use of \<open>queue.c\<close> (mutexes, semaphores, queue sets, tasks that wait to send); of the HAL all but the serial line (8 bits, no DMA);
    the Atmel drivers and generated start-up code; the programs that
    only print (\<open>list_db\<close>, \<open>print_cmds\<close>), the test programs, the VHDL of the FPGA and the client in C#. The calls between tasks take effect
    at once: a round is one step, except in \<open>RdWr\<close> and \<open>Start\<close>, where the steps are the regions between two waits.
\<close>

end
